(* ===== verification/Prelude.thy ===== *)
theory Prelude
  imports Main "HOL-Library.Word"
begin

text \<open>
  Shared vocabulary of the link development: machine integers at their Rust widths, byte
  strings, big-endian integer encodings (\<open>to_be_bytes\<close> and \<open>from_be_bytes\<close> of the Rust
  standard library), the panicking outcome type, Rust strings as lists of Unicode scalar
  values, and the lemma collections the component theories extend.

  Conventions.  A Rust \<open>Result<T, E>\<close> is \<open>E + T\<close> with \<open>Inl\<close> the error.  A method on
  \<open>&mut self\<close> returns the pair of its result and the new state, so what an error path leaves
  behind is visible.  \<open>usize\<close> lengths are \<open>nat\<close> (they are lengths of lists in memory); the
  integers that travel on the wire, state numbers, sequences and clocks are words.  \<open>+\<close> on
  words wraps, as a release build does.
\<close>

unbundle bit_operations_syntax

type_synonym u8 = "8 word"
type_synonym u16 = "16 word"
type_synonym u32 = "32 word"
type_synonym u64 = "64 word"
type_synonym i64 = "64 word"
type_synonym bytes = "8 word list"

section \<open>Lemma collections\<close>

named_theorems be_simps \<open>lengths and round trips of the big-endian encodings\<close>
named_theorems wire_simps \<open>slices of the fixed wire layouts\<close>
named_theorems frame_simps \<open>fields an operation leaves alone\<close>

section \<open>Big-endian integers\<close>

text \<open>\<open>nat_be n x\<close> is the \<open>n\<close>-byte big-endian form of \<open>x\<close>; \<open>be_nat\<close> reads one back.\<close>

fun nat_be :: "nat \<Rightarrow> nat \<Rightarrow> bytes" where
  "nat_be 0 x = []"
| "nat_be (Suc n) x = nat_be n (x div 256) @ [word_of_nat x]"

definition be_nat :: "bytes \<Rightarrow> nat" where
  "be_nat bs = foldl (\<lambda>acc b. acc * 256 + unat b) 0 bs"

definition u16_be :: "u16 \<Rightarrow> bytes" where "u16_be w = nat_be 2 (unat w)"
definition u32_be :: "u32 \<Rightarrow> bytes" where "u32_be w = nat_be 4 (unat w)"
definition u64_be :: "u64 \<Rightarrow> bytes" where "u64_be w = nat_be 8 (unat w)"

definition be_u16 :: "bytes \<Rightarrow> u16" where "be_u16 bs = word_of_nat (be_nat bs)"
definition be_u32 :: "bytes \<Rightarrow> u32" where "be_u32 bs = word_of_nat (be_nat bs)"
definition be_u64 :: "bytes \<Rightarrow> u64" where "be_u64 bs = word_of_nat (be_nat bs)"

lemma unat_bound8: "unat (w :: u8) < 256"
  using unsigned_less [where ?'a = nat, of w] by simp

lemma unat_bound16: "unat (w :: u16) < 65536"
  using unsigned_less [where ?'a = nat, of w] by simp

lemma unat_bound32: "unat (w :: u32) < 2 ^ 32"
  using unsigned_less [where ?'a = nat, of w] by simp

lemma unat_bound64: "unat (w :: u64) < 2 ^ 64"
  using unsigned_less [where ?'a = nat, of w] by simp

lemma length_nat_be [simp]: "length (nat_be n x) = n"
  by (induction n arbitrary: x) auto

lemma be_nat_Nil [simp]: "be_nat [] = 0"
  by (simp add: be_nat_def)

lemma be_nat_snoc [simp]: "be_nat (bs @ [b]) = be_nat bs * 256 + unat b"
  by (simp add: be_nat_def)

lemma unat_word8_of_nat [simp]: "unat (word_of_nat x :: u8) = x mod 256"
  by (simp add: unat_of_nat)

lemma be_nat_nat_be: "be_nat (nat_be n x) = x mod 256 ^ n"
proof (induction n arbitrary: x)
  case 0
  then show ?case by simp
next
  case (Suc n)
  have "x mod (256 * 256 ^ n) = 256 * (x div 256 mod 256 ^ n) + x mod 256"
    by (rule mod_mult2_eq)
  with Suc show ?case by (simp add: algebra_simps)
qed

lemma nat_be_be_nat: "nat_be (length bs) (be_nat bs) = bs"
proof (induction bs rule: rev_induct)
  case Nil
  then show ?case by simp
next
  case (snoc b bs)
  have "unat b < 256" by (rule unat_bound8)
  then have "(be_nat bs * 256 + unat b) div 256 = be_nat bs" by simp
  moreover have "(word_of_nat (be_nat bs * 256 + unat b) :: u8) = b"
  proof -
    have "unat (word_of_nat (be_nat bs * 256 + unat b) :: u8) = unat b"
      using \<open>unat b < 256\<close> by (simp del: unat_of_nat of_nat_add of_nat_mult)
    then show ?thesis by (simp add: word_unat_eq_iff)
  qed
  ultimately show ?case using snoc by simp
qed

lemma be_nat_bound: "be_nat bs < 256 ^ length bs"
proof -
  have "be_nat bs = be_nat (nat_be (length bs) (be_nat bs))"
    by (simp add: nat_be_be_nat)
  also have "\<dots> = be_nat bs mod 256 ^ length bs" by (rule be_nat_nat_be)
  finally show ?thesis by (metis mod_less_divisor zero_less_numeral zero_less_power)
qed

lemma length_be [simp, be_simps]:
  "length (u16_be a) = 2" "length (u32_be b) = 4" "length (u64_be c) = 8"
  by (simp_all add: u16_be_def u32_be_def u64_be_def)

lemma be_u16_u16_be [simp, be_simps]: "be_u16 (u16_be w) = w"
  using unat_bound16 [of w] by (simp add: be_u16_def u16_be_def be_nat_nat_be)

lemma be_u32_u32_be [simp, be_simps]: "be_u32 (u32_be w) = w"
  using unat_bound32 [of w] by (simp add: be_u32_def u32_be_def be_nat_nat_be)

lemma be_u64_u64_be [simp, be_simps]: "be_u64 (u64_be w) = w"
  using unat_bound64 [of w] by (simp add: be_u64_def u64_be_def be_nat_nat_be)

lemma unat_word_of_nat_less:
  "x < 2 ^ LENGTH('a) \<Longrightarrow> unat (word_of_nat x :: 'a::len word) = x"
  by (simp add: unat_of_nat take_bit_nat_eq_self)

lemma u16_be_be_u16: "length bs = 2 \<Longrightarrow> u16_be (be_u16 bs) = bs"
  using be_nat_bound [of bs] nat_be_be_nat [of bs]
  by (simp add: be_u16_def u16_be_def unat_word_of_nat_less)

lemma u32_be_be_u32: "length bs = 4 \<Longrightarrow> u32_be (be_u32 bs) = bs"
  using be_nat_bound [of bs] nat_be_be_nat [of bs]
  by (simp add: be_u32_def u32_be_def unat_word_of_nat_less)

lemma u64_be_be_u64: "length bs = 8 \<Longrightarrow> u64_be (be_u64 bs) = bs"
  using be_nat_bound [of bs] nat_be_be_nat [of bs]
  by (simp add: be_u64_def u64_be_def unat_word_of_nat_less)

lemma u16_be_inject [simp]: "u16_be a = u16_be b \<longleftrightarrow> a = b"
  by (metis be_u16_u16_be)

lemma u32_be_inject [simp]: "u32_be a = u32_be b \<longleftrightarrow> a = b"
  by (metis be_u32_u32_be)

lemma u64_be_inject [simp]: "u64_be a = u64_be b \<longleftrightarrow> a = b"
  by (metis be_u64_u64_be)

section \<open>Slices\<close>

text \<open>\<open>slice a b xs\<close> is Rust's \<open>&xs[a..b]\<close>; Rust panics unless \<open>a \<le> b \<le> len\<close>, which every
  use below has checked first.\<close>

definition slice :: "nat \<Rightarrow> nat \<Rightarrow> 'a list \<Rightarrow> 'a list" where
  "slice a b xs = take (b - a) (drop a xs)"

lemma length_slice [simp]: "b \<le> length xs \<Longrightarrow> length (slice a b xs) = b - a"
  by (simp add: slice_def)

lemma slice_append_left [wire_simps]: "b \<le> length xs \<Longrightarrow> slice a b (xs @ ys) = slice a b xs"
  by (simp add: slice_def)

lemma slice_append_right [wire_simps]:
  "length xs \<le> a \<Longrightarrow> slice a b (xs @ ys) = slice (a - length xs) (b - length xs) ys"
  by (simp add: slice_def)

lemma slice_all [simp]: "length xs \<le> b \<Longrightarrow> slice 0 b xs = xs"
  by (simp add: slice_def)

lemma slice_append_drop: "slice 0 n xs @ drop n xs = xs"
  by (simp add: slice_def)

lemma slice_split:
  assumes "a \<le> b" "b \<le> c"
  shows "slice a c xs = slice a b xs @ slice b c xs"
proof -
  have "c - a = (b - a) + (c - b)" using assms by simp
  then have "slice a c xs = take (b - a) (drop a xs) @ take (c - b) (drop (b - a) (drop a xs))"
    by (simp add: slice_def take_add)
  with assms show ?thesis by (simp add: slice_def)
qed

section \<open>Panics\<close>

text \<open>A computation that may panic: \<open>Ret\<close> of its value, or \<open>Panic\<close>.\<close>

datatype 'a outcome = Panic | Ret (ret_value: 'a)

fun bind_outcome :: "'a outcome \<Rightarrow> ('a \<Rightarrow> 'b outcome) \<Rightarrow> 'b outcome" where
  "bind_outcome Panic f = Panic"
| "bind_outcome (Ret x) f = f x"

lemma bind_outcome_Ret_iff [simp]:
  "bind_outcome m f = Ret y \<longleftrightarrow> (\<exists>x. m = Ret x \<and> f x = Ret y)"
  by (cases m) auto

section \<open>The \<open>?\<close> operator\<close>

text \<open>\<open>and_then r f\<close> is \<open>f(r?)\<close>: the error of \<open>r\<close>, or \<open>f\<close> of its value.\<close>

fun and_then :: "'e + 'a \<Rightarrow> ('a \<Rightarrow> 'e + 'b) \<Rightarrow> 'e + 'b" where
  "and_then (Inl e) f = Inl e"
| "and_then (Inr x) f = f x"

lemma and_then_Inr_iff [simp]:
  "and_then m f = Inr y \<longleftrightarrow> (\<exists>x. m = Inr x \<and> f x = Inr y)"
  by (cases m) auto

lemma and_then_cong [fundef_cong]:
  "m = m' \<Longrightarrow> (\<And>x. m' = Inr x \<Longrightarrow> f x = g x) \<Longrightarrow> and_then m f = and_then m' g"
  by (cases m') auto

section \<open>Integer helpers of the Rust standard library\<close>

text \<open>\<open>u64::saturating_sub\<close> and \<open>u64::saturating_add\<close>.\<close>

definition sat_sub :: "u64 \<Rightarrow> u64 \<Rightarrow> u64" where
  "sat_sub a b = (if b \<le> a then a - b else 0)"

definition sat_add :: "u64 \<Rightarrow> u64 \<Rightarrow> u64" where
  "sat_add a b = (if unat a + unat b < 2 ^ 64 then a + b else - 1)"

lemma unat_sat_sub: "unat (sat_sub a b) = unat a - unat b"
  by (auto simp: sat_sub_def unat_sub word_le_nat_alt)

lemma unat_u64_add: "unat a + unat b < 2 ^ 64 \<Longrightarrow> unat (a + b :: u64) = unat a + unat b"
  by (simp add: unat_word_ariths)

lemma unat_u64_max: "unat (- 1 :: u64) = 2 ^ 64 - 1"
  by (simp add: unsigned_minus_1_eq_mask mask_eq_exp_minus_1)

lemma unat_sat_add: "unat (sat_add a b) = min (unat a + unat b) (2 ^ 64 - 1)"
  by (auto simp: sat_add_def unat_u64_add unat_u64_max)

lemma word_Suc_less: "n < - 1 \<Longrightarrow> n < n + (1 :: u64)"
proof -
  assume "n < - 1"
  then have "unat n < 2 ^ 64 - 1" by (simp add: word_less_nat_alt unat_u64_max)
  then have "unat (n + 1) = unat n + 1" by (subst unat_u64_add) auto
  then show ?thesis by (simp add: word_less_nat_alt)
qed

lemma unat_Suc: "n < - 1 \<Longrightarrow> unat (n + 1 :: u64) = Suc (unat n)"
proof -
  assume "n < - 1"
  then have "unat n < 2 ^ 64 - 1" by (simp add: word_less_nat_alt unat_u64_max)
  then show ?thesis by (subst unat_u64_add) auto
qed

section \<open>Rust strings\<close>

text \<open>
  A Rust \<open>char\<close> is a Unicode scalar value, a \<open>String\<close> a sequence of them stored as UTF-8.
  \<open>lit\<close> turns an Isabelle ASCII literal into one.
\<close>

type_synonym rchar = nat
type_synonym rstr = "nat list"

definition lit :: "string \<Rightarrow> rstr" where
  "lit s = map of_char s"

text \<open>Bytes of a character's UTF-8 form: what \<open>str::len\<close> counts.\<close>

definition utf8_width :: "rchar \<Rightarrow> nat" where
  "utf8_width c = (if c < 128 then 1 else if c < 2048 then 2 else if c < 65536 then 3 else 4)"

definition str_len :: "rstr \<Rightarrow> nat" where
  "str_len s = sum_list (map utf8_width s)"

text \<open>\<open>char::is_whitespace\<close>: the \<open>White_Space\<close> property of Unicode.\<close>

definition is_whitespace :: "rchar \<Rightarrow> bool" where
  "is_whitespace c \<longleftrightarrow>
     (9 \<le> c \<and> c \<le> 13) \<or> c = 32 \<or> c = 133 \<or> c = 160 \<or> c = 5760 \<or>
     (8192 \<le> c \<and> c \<le> 8202) \<or> c = 8232 \<or> c = 8233 \<or> c = 8239 \<or> c = 8287 \<or> c = 12288"

text \<open>\<open>str::trim\<close>.\<close>

definition trim :: "rstr \<Rightarrow> rstr" where
  "trim s = rev (dropWhile is_whitespace (rev (dropWhile is_whitespace s)))"

text \<open>\<open>char::to_ascii_uppercase\<close>.\<close>

definition to_ascii_uppercase :: "rchar \<Rightarrow> rchar" where
  "to_ascii_uppercase c = (if 97 \<le> c \<and> c \<le> 122 then c - 32 else c)"

lemma trim_id: "s = [] \<or> (\<not> is_whitespace (hd s) \<and> \<not> is_whitespace (last s)) \<Longrightarrow> trim s = s"
proof -
  assume a: "s = [] \<or> (\<not> is_whitespace (hd s) \<and> \<not> is_whitespace (last s))"
  then have d: "dropWhile is_whitespace s = s"
    by (cases s) auto
  from a have "dropWhile is_whitespace (rev s) = rev s"
    by (cases s rule: rev_cases) auto
  with d show ?thesis by (simp add: trim_def)
qed

end
