(* ===== verification/LinkTypes.thy ===== *)
theory LinkTypes
  imports Prelude
begin

text \<open>
  The vocabulary of \<open>src/link/src/keys/types.rs\<close> the wire layers need: roles, node ids and
  key bytes.  A Rust byte array \<open>[u8; N]\<close> is a byte list; \<open>wf_id\<close> and \<open>wf_key\<close> state the
  length the array type fixes.  The cryptographic primitives come from other crates
  (\<open>chacha20poly1305\<close>, \<open>hmac\<close>, \<open>sha2\<close>) and are the record \<open>crypto\<close> of functions, an
  argument of every definition that calls one; what the code relies on is
  \<open>aead_laws\<close> and \<open>digest_laws\<close>.
\<close>

section \<open>Identities\<close>

datatype node_id = NodeId (id_bytes: bytes)

definition wf_id :: "node_id \<Rightarrow> bool" where
  "wf_id n \<longleftrightarrow> length (id_bytes n) = 16"

datatype pair_key = PairKey (key_bytes: bytes)

definition wf_key :: "pair_key \<Rightarrow> bool" where
  "wf_key k \<longleftrightarrow> length (key_bytes k) = 16"

datatype forwarder_key = ForwarderKey (fkey_bytes: bytes)

section \<open>Roles\<close>

datatype role = Owner | Host

text \<open>Bit 63 of a sequence: set from owner to host, clear from host to owner.\<close>

definition DIRECTION_MASK :: u64 where
  "DIRECTION_MASK = push_bit 63 1"

fun direction_bit :: "role \<Rightarrow> u64" where
  "direction_bit Owner = DIRECTION_MASK"
| "direction_bit Host = 0"

fun role_peer :: "role \<Rightarrow> role" where
  "role_peer Owner = Host"
| "role_peer Host = Owner"

lemma role_peer_involution [simp]: "role_peer (role_peer r) = r"
  by (cases r) auto

lemma role_peer_neq [simp]: "role_peer r \<noteq> r"
  by (cases r) auto

section \<open>Key errors\<close>

text \<open>
  \<open>KeyError\<close>, with a path as a string.  An \<open>io::Error\<close> is known by what the code can tell
  apart: "not found", the exhausted sequence space it raises itself, or any other error.
\<close>

type_synonym path = rstr

datatype io_error = Io_not_found | Io_exhausted | Io_other nat

datatype key_error = Key_io io_error | Key_malformed path | Not_enrolled path | Busy path

section \<open>Primitives of other crates\<close>

record crypto =
  sha256 :: "bytes \<Rightarrow> bytes"
  hmac_sha256 :: "bytes \<Rightarrow> bytes \<Rightarrow> bytes"
  chacha_encrypt :: "bytes \<Rightarrow> bytes \<Rightarrow> bytes \<Rightarrow> bytes \<Rightarrow> bytes"
  chacha_decrypt :: "bytes \<Rightarrow> bytes \<Rightarrow> bytes \<Rightarrow> bytes \<Rightarrow> bytes option"

text \<open>
  Documented behaviour of ChaCha20-Poly1305 under (key, nonce, associated data): opening
  inverts sealing, sealing adds a 16-byte tag, and whatever opens is the sealing of what it
  opens to (the cipher is deterministic and the tag is recomputed and compared).
\<close>

definition aead_laws :: "crypto \<Rightarrow> bool" where
  "aead_laws c \<longleftrightarrow>
     (\<forall>k n a m. chacha_decrypt c k n a (chacha_encrypt c k n a m) = Some m \<and>
                length (chacha_encrypt c k n a m) = length m + 16) \<and>
     (\<forall>k n a ct m. chacha_decrypt c k n a ct = Some m \<longrightarrow> ct = chacha_encrypt c k n a m)"

definition digest_laws :: "crypto \<Rightarrow> bool" where
  "digest_laws c \<longleftrightarrow> (\<forall>m. length (sha256 c m) = 32) \<and> (\<forall>k m. length (hmac_sha256 c k m) = 32)"

lemma aead_decrypt_encrypt:
  "aead_laws c \<Longrightarrow> chacha_decrypt c k n a (chacha_encrypt c k n a m) = Some m"
  by (simp add: aead_laws_def)

lemma aead_length: "aead_laws c \<Longrightarrow> length (chacha_encrypt c k n a m) = length m + 16"
  by (simp add: aead_laws_def)

lemma aead_only_sealed:
  "aead_laws c \<Longrightarrow> chacha_decrypt c k n a ct = Some m \<Longrightarrow> ct = chacha_encrypt c k n a m"
  by (simp add: aead_laws_def)

text \<open>ASCII bytes of a label.\<close>

definition ascii :: "string \<Rightarrow> bytes" where
  "ascii s = map of_char s"

subsection \<open>A concrete instance, for closed examples\<close>

text \<open>
  A toy stand-in that satisfies the laws: the tag is a fixed-length digest of key, nonce and
  associated data.  It is used only to show that the hypotheses can hold together.
\<close>

definition toy_digest :: "nat \<Rightarrow> bytes \<Rightarrow> bytes" where
  "toy_digest n m = take n (u64_be (word_of_nat (sum_list (map unat m))) @ replicate n 0)"

definition toy_tag :: "bytes \<Rightarrow> bytes \<Rightarrow> bytes \<Rightarrow> bytes \<Rightarrow> bytes" where
  "toy_tag k n a m = toy_digest 16 (k @ n @ a @ m)"

definition toy_crypto :: crypto where
  "toy_crypto =
     \<lparr>sha256 = toy_digest 32,
      hmac_sha256 = (\<lambda>k m. toy_digest 32 (k @ m)),
      chacha_encrypt = (\<lambda>k n a m. m @ toy_tag k n a m),
      chacha_decrypt = (\<lambda>k n a ct.
        if length ct < 16 then None
        else let m = take (length ct - 16) ct
             in if drop (length ct - 16) ct = toy_tag k n a m then Some m else None)\<rparr>"

lemma length_toy_digest [simp]: "length (toy_digest n m) = n"
  by (simp add: toy_digest_def)

lemma length_toy_tag [simp]: "length (toy_tag k n a m) = 16"
  by (simp add: toy_tag_def)

lemma toy_aead_laws: "aead_laws toy_crypto"
  by (auto simp: aead_laws_def toy_crypto_def Let_def split: if_splits)
    (metis append_take_drop_id)

lemma toy_digest_laws: "digest_laws toy_crypto"
  by (simp add: digest_laws_def toy_crypto_def)

end
