(* ===== verification/LinkHeader.thy ===== *)
theory LinkHeader
  imports LinkTypes
begin

text \<open>
  \<open>src/link/src/header.rs\<close>: the 66-byte cleartext outer header, its decoder with the three
  refusals, and the truncated HMAC tag.
\<close>

section \<open>Layout\<close>

definition VERSION :: u8 where "VERSION = 2"
definition HEADER_LEN :: nat where "HEADER_LEN = 66"
definition TAG_OFFSET :: nat where "TAG_OFFSET = 50"
definition TAG_LEN :: nat where "TAG_LEN = 16"
definition FLAG_HEARTBEAT :: u8 where "FLAG_HEARTBEAT = 1"
definition MAX_DATAGRAM :: nat where "MAX_DATAGRAM = 1400"

lemmas header_layout [simp] = HEADER_LEN_def TAG_OFFSET_def TAG_LEN_def

datatype header_error = TooShort nat | Version u8 | ReservedFlags u8

record outer_header =
  oh_flags :: u8
  oh_src :: node_id
  oh_dst :: node_id
  oh_seq :: u64
  oh_epoch :: u64

section \<open>Construction\<close>

definition oh_new :: "node_id \<Rightarrow> node_id \<Rightarrow> u64 \<Rightarrow> outer_header" where
  "oh_new src dst s = \<lparr>oh_flags = 0, oh_src = src, oh_dst = dst, oh_seq = s, oh_epoch = 0\<rparr>"

definition oh_with_epoch :: "u64 \<Rightarrow> outer_header \<Rightarrow> outer_header" where
  "oh_with_epoch e h = h\<lparr>oh_epoch := e\<rparr>"

definition oh_heartbeat :: "outer_header \<Rightarrow> outer_header" where
  "oh_heartbeat h = h\<lparr>oh_flags := oh_flags h OR FLAG_HEARTBEAT\<rparr>"

definition oh_is_heartbeat :: "outer_header \<Rightarrow> bool" where
  "oh_is_heartbeat h \<longleftrightarrow> oh_flags h AND FLAG_HEARTBEAT \<noteq> 0"

section \<open>Encoding\<close>

definition signed_bytes :: "outer_header \<Rightarrow> bytes" where
  "signed_bytes h =
     [VERSION, oh_flags h] @ id_bytes (oh_src h) @ id_bytes (oh_dst h)
       @ u64_be (oh_seq h) @ u64_be (oh_epoch h)"

definition tag_for :: "crypto \<Rightarrow> forwarder_key \<Rightarrow> bytes \<Rightarrow> bytes" where
  "tag_for c key signed_part = take TAG_LEN (hmac_sha256 c (fkey_bytes key) signed_part)"

definition oh_encode :: "crypto \<Rightarrow> forwarder_key \<Rightarrow> outer_header \<Rightarrow> bytes" where
  "oh_encode c key h = signed_bytes h @ tag_for c key (signed_bytes h)"

section \<open>Decoding\<close>

definition oh_decode :: "bytes \<Rightarrow> header_error + outer_header" where
  "oh_decode datagram =
     (if length datagram < HEADER_LEN then Inl (TooShort (length datagram))
      else if datagram ! 0 \<noteq> VERSION then Inl (Version (datagram ! 0))
      else
        let flags = datagram ! 1
        in if flags AND NOT FLAG_HEARTBEAT \<noteq> 0 then Inl (ReservedFlags flags)
           else Inr \<lparr>oh_flags = flags,
                     oh_src = NodeId (slice 2 18 datagram),
                     oh_dst = NodeId (slice 18 34 datagram),
                     oh_seq = be_u64 (slice 34 42 datagram),
                     oh_epoch = be_u64 (slice 42 50 datagram)\<rparr>)"

definition verify_tag :: "crypto \<Rightarrow> bytes \<Rightarrow> forwarder_key \<Rightarrow> bool" where
  "verify_tag c datagram key \<longleftrightarrow>
     \<not> length datagram < HEADER_LEN \<and>
     tag_for c key (take TAG_OFFSET datagram) = slice TAG_OFFSET HEADER_LEN datagram"

section \<open>Facts\<close>

definition wf_header :: "outer_header \<Rightarrow> bool" where
  "wf_header h \<longleftrightarrow>
     wf_id (oh_src h) \<and> wf_id (oh_dst h) \<and> (oh_flags h = 0 \<or> oh_flags h = FLAG_HEARTBEAT)"

lemma length_signed_bytes: "wf_header h \<Longrightarrow> length (signed_bytes h) = TAG_OFFSET"
  by (simp add: wf_header_def wf_id_def signed_bytes_def)

lemma length_tag_for: "digest_laws c \<Longrightarrow> length (tag_for c key bs) = TAG_LEN"
  by (simp add: digest_laws_def tag_for_def)

lemma length_oh_encode: "wf_header h \<Longrightarrow> digest_laws c \<Longrightarrow> length (oh_encode c key h) = HEADER_LEN"
  by (simp add: oh_encode_def length_signed_bytes length_tag_for)

lemma flags_ok: "flags AND NOT FLAG_HEARTBEAT = (0 :: u8) \<longleftrightarrow> flags = 0 \<or> flags = FLAG_HEARTBEAT"
proof -
  have "flags AND NOT 1 = 0 \<longleftrightarrow> (\<forall>n. 0 < n \<longrightarrow> \<not> bit flags n)" for flags :: u8
    using bit_imp_le_length [of flags]
    by (auto simp: bit_eq_iff [where ?'a = "8 word"] bit_simps bit_1_iff)
  moreover have "(\<forall>n. 0 < n \<longrightarrow> \<not> bit flags n) \<longleftrightarrow> flags = 0 \<or> flags = 1" for flags :: u8
    using bit_imp_le_length [of flags]
    by (auto simp: bit_eq_iff [where ?'a = "8 word"] bit_1_iff) (metis gr0I len_num1 bit_imp_le_length)+
  ultimately show ?thesis by (simp add: FLAG_HEARTBEAT_def)
qed

text \<open>Decoding reads only the first \<^const>\<open>HEADER_LEN\<close> bytes.\<close>

lemma oh_decode_signed:
  assumes "wf_header h" "16 \<le> length rest"
  shows "oh_decode (signed_bytes h @ rest) = Inr h"
proof -
  have l: "length (id_bytes (oh_src h)) = 16" "length (id_bytes (oh_dst h)) = 16"
    using assms(1) by (auto simp: wf_header_def wf_id_def)
  have fl: "oh_flags h AND NOT FLAG_HEARTBEAT = 0"
    using assms(1) flags_ok by (auto simp: wf_header_def)
  show ?thesis using l fl assms(2)
    by (simp add: oh_decode_def signed_bytes_def slice_def)
qed

lemma oh_decode_wf: "oh_decode d = Inr h \<Longrightarrow> wf_header h"
  by (auto simp: oh_decode_def wf_header_def wf_id_def Let_def flags_ok split: if_splits)

lemma oh_decode_canonical:
  assumes "oh_decode d = Inr h"
  shows "take TAG_OFFSET d = signed_bytes h"
proof -
  from assms have l: "HEADER_LEN \<le> length d" and v: "d ! 0 = VERSION"
    and h: "h = \<lparr>oh_flags = d ! 1, oh_src = NodeId (slice 2 18 d), oh_dst = NodeId (slice 18 34 d),
      oh_seq = be_u64 (slice 34 42 d), oh_epoch = be_u64 (slice 42 50 d)\<rparr>"
    by (auto simp: oh_decode_def Let_def split: if_splits)
  have "take 50 d = slice 0 50 d" by (simp add: slice_def)
  also have "\<dots> = slice 0 2 d @ slice 2 18 d @ slice 18 34 d @ slice 34 42 d @ slice 42 50 d"
    by (simp add: slice_split [of 0 2 50] slice_split [of 2 18 50] slice_split [of 18 34 50]
        slice_split [of 34 42 50])
  also have "slice 0 2 d = [d ! 0, d ! 1]"
    using l by (cases d; cases "tl d") (auto simp: slice_def)
  finally show ?thesis
    using l v h by (simp add: signed_bytes_def u64_be_be_u64)
qed

lemma verify_tag_encode:
  assumes "wf_header h" "digest_laws c"
  shows "verify_tag c (oh_encode c key h @ rest) key"
  using assms length_signed_bytes [OF assms(1)] length_tag_for [OF assms(2)]
  by (simp add: verify_tag_def oh_encode_def slice_def)

end
