(* ===== verification/LinkCrypto.thy ===== *)
theory LinkCrypto
  imports LinkTypes
begin

text \<open>
  \<open>src/link/src/crypto.rs\<close>: sealing and opening a payload under the pair key, with the nonce
  of a sequence and the outer header as associated data.
\<close>

definition AEAD_OVERHEAD :: nat where
  "AEAD_OVERHEAD = 16"

datatype crypto_error = Authentication

definition nonce_for :: "u64 \<Rightarrow> bytes" where
  "nonce_for s = replicate 4 0 @ u64_be s"

definition expand_key :: "crypto \<Rightarrow> pair_key \<Rightarrow> bytes" where
  "expand_key c key = sha256 c (ascii ''medulla-link/1 pair-key'' @ key_bytes key)"

definition seal :: "crypto \<Rightarrow> pair_key \<Rightarrow> u64 \<Rightarrow> bytes \<Rightarrow> bytes \<Rightarrow> bytes" where
  "seal c key s aad plaintext = chacha_encrypt c (expand_key c key) (nonce_for s) aad plaintext"

definition open_payload ::
  "crypto \<Rightarrow> pair_key \<Rightarrow> u64 \<Rightarrow> bytes \<Rightarrow> bytes \<Rightarrow> crypto_error + bytes" where
  "open_payload c key s aad ciphertext =
     (case chacha_decrypt c (expand_key c key) (nonce_for s) aad ciphertext of
        None \<Rightarrow> Inl Authentication
      | Some plaintext \<Rightarrow> Inr plaintext)"

lemma open_seal [simp]:
  "aead_laws c \<Longrightarrow> open_payload c key s aad (seal c key s aad pt) = Inr pt"
  by (simp add: open_payload_def seal_def aead_decrypt_encrypt)

lemma open_only_sealed:
  "aead_laws c \<Longrightarrow> open_payload c key s aad ct = Inr pt \<Longrightarrow> ct = seal c key s aad pt"
  by (auto simp: open_payload_def seal_def aead_only_sealed split: option.splits)

lemma length_seal: "aead_laws c \<Longrightarrow> length (seal c key s aad pt) = length pt + AEAD_OVERHEAD"
  by (simp add: seal_def aead_length AEAD_OVERHEAD_def)

lemma length_nonce_for [simp]: "length (nonce_for s) = 12"
  by (simp add: nonce_for_def)

lemma nonce_for_inject [simp]: "nonce_for a = nonce_for b \<longleftrightarrow> a = b"
  by (simp add: nonce_for_def)

end
