(* ===== verification/LinkPacket.thy ===== *)
theory LinkPacket
  imports LinkHeader LinkCrypto
begin

text \<open>
  \<open>src/link/src/packet.rs\<close>: the plaintext framing of a datagram, the \<open>Instruction\<close> and the
  16-bit timestamps, with the codec's round trips and the datagram budget.
\<close>

section \<open>Budget\<close>

definition TIMESTAMP_LEN :: nat where "TIMESTAMP_LEN = 4"
definition INSTRUCTION_HEADER_LEN :: nat where "INSTRUCTION_HEADER_LEN = 1 + 8 + 8 + 8 + 8 + 4"
definition MAX_PLAINTEXT :: nat where
  "MAX_PLAINTEXT = MAX_DATAGRAM - HEADER_LEN - AEAD_OVERHEAD"
definition MAX_DIFF_LEN :: nat where
  "MAX_DIFF_LEN = MAX_PLAINTEXT - TIMESTAMP_LEN - INSTRUCTION_HEADER_LEN"

lemma MAX_DIFF_LEN_eq: "MAX_DIFF_LEN = 1277"
  by (simp add: MAX_DIFF_LEN_def MAX_PLAINTEXT_def TIMESTAMP_LEN_def INSTRUCTION_HEADER_LEN_def
      MAX_DATAGRAM_def AEAD_OVERHEAD_def)

datatype packet_error =
    PacketTruncated nat nat
  | DiffLength nat nat
  | PacketDiffTooLarge nat

section \<open>Instruction\<close>

record instruction =
  in_channel :: u8
  in_old :: u64
  in_new :: u64
  in_ack :: u64
  in_throwaway :: u64
  in_diff :: bytes

definition instruction_encode_into :: "instruction \<Rightarrow> bytes \<Rightarrow> (packet_error + unit) \<times> bytes" where
  "instruction_encode_into i out =
     (if length (in_diff i) > MAX_DIFF_LEN then (Inl (PacketDiffTooLarge (length (in_diff i))), out)
      else (Inr (),
            out @ [in_channel i] @ u64_be (in_old i) @ u64_be (in_new i) @ u64_be (in_ack i)
              @ u64_be (in_throwaway i) @ u32_be (word_of_nat (length (in_diff i))) @ in_diff i))"

definition instruction_decode :: "bytes \<Rightarrow> packet_error + instruction" where
  "instruction_decode bs =
     (if length bs < INSTRUCTION_HEADER_LEN
      then Inl (PacketTruncated INSTRUCTION_HEADER_LEN (length bs))
      else
        let declared = unat (be_u32 (slice 33 37 bs));
            available = length bs - INSTRUCTION_HEADER_LEN
        in if declared \<noteq> available then Inl (DiffLength declared available)
           else Inr \<lparr>in_channel = bs ! 0,
                     in_old = be_u64 (slice 1 9 bs),
                     in_new = be_u64 (slice 9 17 bs),
                     in_ack = be_u64 (slice 17 25 bs),
                     in_throwaway = be_u64 (slice 25 33 bs),
                     in_diff = drop INSTRUCTION_HEADER_LEN bs\<rparr>)"

section \<open>Packet\<close>

record packet =
  pk_send_ts :: u16
  pk_reply_ts :: u16
  pk_instruction :: instruction

definition packet_encode :: "packet \<Rightarrow> packet_error + bytes" where
  "packet_encode p =
     (case instruction_encode_into (pk_instruction p)
             (u16_be (pk_send_ts p) @ u16_be (pk_reply_ts p)) of
        (Inl e, _) \<Rightarrow> Inl e
      | (Inr _, out) \<Rightarrow> Inr out)"

definition packet_decode :: "bytes \<Rightarrow> packet_error + packet" where
  "packet_decode bs =
     (if length bs < TIMESTAMP_LEN then Inl (PacketTruncated TIMESTAMP_LEN (length bs))
      else
        and_then (instruction_decode (drop TIMESTAMP_LEN bs)) (\<lambda>i.
          Inr \<lparr>pk_send_ts = be_u16 [bs ! 0, bs ! 1], pk_reply_ts = be_u16 [bs ! 2, bs ! 3],
               pk_instruction = i\<rparr>))"

section \<open>Timestamps\<close>

definition timestamp16 :: "u64 \<Rightarrow> u16" where
  "timestamp16 now_ms = ucast (now_ms mod 65536)"

definition elapsed16 :: "u64 \<Rightarrow> u16 \<Rightarrow> u16" where
  "elapsed16 now_ms echoed = timestamp16 now_ms - echoed"

section \<open>Facts\<close>

definition instruction_body :: "instruction \<Rightarrow> bytes" where
  "instruction_body i =
     [in_channel i] @ u64_be (in_old i) @ u64_be (in_new i) @ u64_be (in_ack i)
       @ u64_be (in_throwaway i) @ u32_be (word_of_nat (length (in_diff i))) @ in_diff i"

lemma instruction_decode_body:
  assumes "length (in_diff i) < 2 ^ 32"
  shows "instruction_decode (instruction_body i) = Inr i"
proof -
  have "unat (word_of_nat (length (in_diff i)) :: u32) = length (in_diff i)"
    using assms by (simp add: unat_word_of_nat_less)
  then show ?thesis
    by (simp add: instruction_decode_def instruction_body_def INSTRUCTION_HEADER_LEN_def slice_def Let_def)
qed

lemma instruction_decode_canonical:
  assumes "instruction_decode bs = Inr i"
  shows "bs = instruction_body i"
proof -
  from assms have l: "37 \<le> length bs" and d: "unat (be_u32 (slice 33 37 bs)) = length bs - 37"
    and i: "i = \<lparr>in_channel = bs ! 0, in_old = be_u64 (slice 1 9 bs), in_new = be_u64 (slice 9 17 bs),
      in_ack = be_u64 (slice 17 25 bs), in_throwaway = be_u64 (slice 25 33 bs), in_diff = drop 37 bs\<rparr>"
    by (auto simp: instruction_decode_def INSTRUCTION_HEADER_LEN_def Let_def split: if_splits)
  have "take 37 bs = slice 0 37 bs" by (simp add: slice_def)
  also have "\<dots> = slice 0 1 bs @ slice 1 9 bs @ slice 9 17 bs @ slice 17 25 bs @ slice 25 33 bs
      @ slice 33 37 bs"
    by (simp add: slice_split [of 0 1 37] slice_split [of "Suc 0" 9 37] slice_split [of 9 17 37]
        slice_split [of 17 25 37] slice_split [of 25 33 37])
  also have "slice 0 1 bs = [bs ! 0]"
    using l by (cases bs) (auto simp: slice_def)
  also have "slice 33 37 bs = u32_be (word_of_nat (length bs - 37))"
    using l d by (simp add: u32_be_be_u32 flip: d)
  finally have "take 37 bs @ drop 37 bs = instruction_body i"
    using l i by (simp add: instruction_body_def u64_be_be_u64)
  then show ?thesis by simp
qed

lemma packet_encode_Inr:
  "packet_encode p = Inr bs \<longleftrightarrow>
     length (in_diff (pk_instruction p)) \<le> MAX_DIFF_LEN \<and>
     bs = u16_be (pk_send_ts p) @ u16_be (pk_reply_ts p) @ instruction_body (pk_instruction p)"
  by (auto simp: packet_encode_def instruction_encode_into_def instruction_body_def)

lemma packet_encode_ok:
  "length (in_diff (pk_instruction p)) \<le> MAX_DIFF_LEN \<Longrightarrow> \<exists>bs. packet_encode p = Inr bs"
  by (simp add: packet_encode_Inr)

lemma u16_be_two: "u16_be w = [u16_be w ! 0, u16_be w ! 1]"
  by (rule nth_equalityI) (auto simp: less_2_cases_iff)

lemma packet_decode_encode:
  assumes "packet_encode p = Inr bs"
  shows "packet_decode bs = Inr p"
proof -
  from assms have bs: "bs = u16_be (pk_send_ts p) @ u16_be (pk_reply_ts p)
      @ instruction_body (pk_instruction p)"
    and l: "length (in_diff (pk_instruction p)) < 2 ^ 32"
    by (auto simp: packet_encode_Inr MAX_DIFF_LEN_eq)
  have b: "[bs ! 0, bs ! 1] = u16_be (pk_send_ts p)" "[bs ! 2, bs ! 3] = u16_be (pk_reply_ts p)"
    using u16_be_two [of "pk_send_ts p"] u16_be_two [of "pk_reply_ts p"] bs
    by (simp_all add: nth_append)
  have "drop TIMESTAMP_LEN bs = instruction_body (pk_instruction p)"
    by (simp add: bs TIMESTAMP_LEN_def)
  moreover have "\<not> length bs < TIMESTAMP_LEN" by (simp add: bs TIMESTAMP_LEN_def)
  ultimately show ?thesis
    by (simp add: packet_decode_def b b [unfolded One_nat_def] instruction_decode_body [OF l])
qed

lemma packet_decode_canonical:
  assumes "packet_decode bs = Inr p"
  shows "bs = u16_be (pk_send_ts p) @ u16_be (pk_reply_ts p) @ instruction_body (pk_instruction p)"
proof -
  from assms obtain i where l: "4 \<le> length bs" and i: "instruction_decode (drop 4 bs) = Inr i"
    and p: "p = \<lparr>pk_send_ts = be_u16 [bs ! 0, bs ! 1], pk_reply_ts = be_u16 [bs ! 2, bs ! 3],
      pk_instruction = i\<rparr>"
    by (auto simp: packet_decode_def TIMESTAMP_LEN_def split: if_splits)
  obtain a b c d rest where "bs = [a, b, c, d] @ rest"
  proof -
    from l obtain a b c d rest where "bs = a # b # c # d # rest"
      by (auto simp: numeral_eq_Suc Suc_le_length_iff)
    then show ?thesis using that by simp
  qed
  then show ?thesis
    using p instruction_decode_canonical [OF i] by (simp add: u16_be_be_u16)
qed

lemma packet_encode_decode:
  assumes "packet_decode bs = Inr p" "length (in_diff (pk_instruction p)) \<le> MAX_DIFF_LEN"
  shows "packet_encode p = Inr bs"
  unfolding packet_encode_Inr using packet_decode_canonical [OF assms(1)] assms(2) by blast

lemma packet_encode_length:
  assumes "packet_encode p = Inr bs"
  shows "length bs = TIMESTAMP_LEN + INSTRUCTION_HEADER_LEN + length (in_diff (pk_instruction p))"
    "length bs \<le> MAX_PLAINTEXT"
proof -
  show "length bs = TIMESTAMP_LEN + INSTRUCTION_HEADER_LEN + length (in_diff (pk_instruction p))"
    using assms by (auto simp: packet_encode_Inr instruction_body_def TIMESTAMP_LEN_def
        INSTRUCTION_HEADER_LEN_def)
  then show "length bs \<le> MAX_PLAINTEXT"
    using assms by (simp add: packet_encode_Inr MAX_DIFF_LEN_eq MAX_PLAINTEXT_def
        TIMESTAMP_LEN_def INSTRUCTION_HEADER_LEN_def MAX_DATAGRAM_def AEAD_OVERHEAD_def)
qed

lemma unat_timestamp16: "unat (timestamp16 now) = unat now mod 65536"
proof -
  have "unat (now mod 65536) = unat now mod 65536"
    by (simp add: unat_mod)
  then show ?thesis
    by (simp add: timestamp16_def unsigned_ucast_eq take_bit_eq_mod)
qed

text \<open>A timestamp echoed within 65.5 seconds measures the elapsed time exactly.\<close>

lemma elapsed16_exact:
  assumes "t0 \<le> t" "unat (t - t0) < 65536"
  shows "unat (elapsed16 t (timestamp16 t0)) = unat (t - t0)"
proof -
  have e: "unat t = unat t0 + unat (t - t0)"
    using assms(1) by (simp add: unat_sub word_le_nat_alt)
  have ts: "timestamp16 x = word_of_nat (unat x)" for x
    by (rule word_unat_eq_iff [THEN iffD2]) (simp add: unat_timestamp16 unsigned_ucast_eq take_bit_eq_mod)
  have "elapsed16 t (timestamp16 t0) = word_of_nat (unat (t - t0))"
    by (simp add: elapsed16_def ts e)
  then show ?thesis using assms(2) by (simp add: unsigned_ucast_eq take_bit_eq_mod)
qed

end
