(* ===== verification/StateTypes.thy ===== *)
theory StateTypes
  imports Prelude
begin

text \<open>
  \<open>src/link/src/state/types.rs\<close>: the errors of a synchronised state and the \<open>SspState\<close>
  trait.  A trait implementation is a record of its methods, which the channel takes as an
  argument; the locale \<open>ssp_state\<close> states the law an implementation promises, over an
  abstract content: \<open>rep s n a\<close> reads "\<open>s\<close> is a representation of the content \<open>a\<close>, which is
  state number \<open>n\<close>".
\<close>

section \<open>Errors\<close>

text \<open>The reasons the code formats into the message of an error are kept as values.\<close>

datatype malformed =
    Truncated_at nat
  | Over_declared nat nat
  | Trailing nat
  | Too_many_rows nat
  | Row_out_of_range nat nat

datatype overflow =
    Queue_messages nat nat
  | Queue_bytes nat nat

datatype state_error = Malformed malformed | Overflow overflow

section \<open>The trait\<close>

record 's ssp =
  rebase_steps :: "'s \<Rightarrow> 's list"
  reset_origin :: "'s \<Rightarrow> u64 option \<times> 's"
  diff_from :: "'s \<Rightarrow> 's \<Rightarrow> bytes"
  apply_diff :: "'s \<Rightarrow> bytes \<Rightarrow> (state_error + unit) \<times> 's"
  release_through :: "'s \<Rightarrow> u64 \<Rightarrow> 's"

text \<open>The trait's default method bodies.\<close>

definition default_rebase_steps :: "'s \<Rightarrow> 's list" where
  "default_rebase_steps s = [s]"

definition default_reset_origin :: "'s \<Rightarrow> u64 option \<times> 's" where
  "default_reset_origin s = (None, s)"

definition default_release_through :: "'s \<Rightarrow> u64 \<Rightarrow> 's" where
  "default_release_through s num = s"

section \<open>The law of an implementation\<close>

text \<open>
  \<open>rep s n a\<close>: \<open>s\<close> represents content \<open>a\<close> at state number \<open>n\<close>.  \<open>anc a b\<close>: \<open>a\<close> is an
  ancestor of \<open>b\<close> (the trait's "\<open>prev\<close> is always a state this endpoint previously held").
  \<open>low s\<close>: the number up to which \<open>s\<close> has released what it held, so that only diffs from a
  state at or above \<open>low s\<close> are meaningful.
\<close>

locale ssp_state =
  fixes ops :: "'s ssp"
    and rep :: "'s \<Rightarrow> u64 \<Rightarrow> 'a \<Rightarrow> bool"
    and anc :: "'a \<Rightarrow> 'a \<Rightarrow> bool"
    and low :: "'s \<Rightarrow> u64"
  assumes anc_refl: "anc a a"
    and anc_trans: "anc a b \<Longrightarrow> anc b c \<Longrightarrow> anc a c"
    and apply_diff_correct:
      "rep s n a \<Longrightarrow> rep p m b \<Longrightarrow> anc b a \<Longrightarrow> m \<le> n \<Longrightarrow> low s \<le> m \<Longrightarrow> rep r m b \<Longrightarrow>
       length (diff_from ops s p) < 2 ^ 32 \<Longrightarrow>
       apply_diff ops r (diff_from ops s p) = (Inr (), r') \<Longrightarrow> rep r' n a"
    and apply_diff_error: "apply_diff ops r d = (Inl e, r') \<Longrightarrow> r' = r"
    and release_rep: "rep s n a \<Longrightarrow> rep (release_through ops s k) n a"
    and release_low: "rep s n a \<Longrightarrow> low (release_through ops s k) \<le> max (low s) k"
begin

lemma release_low_le:
  assumes "rep s n a" "low s \<le> m" "k \<le> m"
  shows "low (release_through ops s k) \<le> m"
  using release_low [OF assms(1), of k] assms(2,3) by (meson le_max_iff_disj max.bounded_iff order_trans)

lemma apply_diff_cases:
  obtains (applied) r' where "apply_diff ops r d = (Inr (), r')"
  | (refused) e where "apply_diff ops r d = (Inl e, r)"
proof (cases "apply_diff ops r d")
  case (Pair x r')
  then show ?thesis
    using that apply_diff_error by (cases x) auto
qed

end

section \<open>Reading a \<open>u32\<close> out of a diff\<close>

text \<open>The \<open>read_u32\<close> closure of \<open>decode_messages\<close> and \<open>decode_rows\<close>.\<close>

definition read_u32 :: "bytes \<Rightarrow> nat \<Rightarrow> state_error + nat" where
  "read_u32 bs at =
     (if length bs < at + 4 then Inl (Malformed (Truncated_at at))
      else Inr (unat (be_u32 (slice at (at + 4) bs))))"

lemma read_u32_append:
  "x < 2 ^ 32 \<Longrightarrow> read_u32 (pre @ u32_be (word_of_nat x) @ post) (length pre) = Inr x"
  by (simp add: read_u32_def slice_def unat_word_of_nat_less)

lemma read_u32_append':
  "x < 2 ^ 32 \<Longrightarrow> at = length pre \<Longrightarrow>
   read_u32 (pre @ u32_be (word_of_nat x) @ post) at = Inr x"
  by (simp add: read_u32_append)

lemma read_u32_Inr:
  assumes "read_u32 bs at = Inr x"
  shows "at + 4 \<le> length bs" "slice at (at + 4) bs = u32_be (word_of_nat x)" "x < 2 ^ 32"
proof -
  from assms show l: "at + 4 \<le> length bs"
    by (auto simp: read_u32_def split: if_splits)
  from assms l have x: "x = unat (be_u32 (slice at (at + 4) bs))"
    by (auto simp: read_u32_def split: if_splits)
  from l show "slice at (at + 4) bs = u32_be (word_of_nat x)"
    by (simp add: x u32_be_be_u32)
  show "x < 2 ^ 32" using unat_bound32 by (simp add: x)
qed

end
