(* ===== verification/StateQueue.thy ===== *)
theory StateQueue
  imports StateTypes "HOL-Library.Sublist"
begin

text \<open>
  \<open>src/link/src/state/queue.rs\<close>: the append-only \<open>MessageQueue\<close> of channel 0, its bounds,
  its diff codec and its \<open>SspState\<close> implementation, which interprets the locale
  \<open>ssp_state\<close> with the sequence of all messages ever appended as the abstract content.
\<close>

section \<open>State\<close>

record queue_limits =
  max_messages :: nat
  max_bytes :: nat

definition default_queue_limits :: queue_limits where
  "default_queue_limits = \<lparr>max_messages = 1024, max_bytes = 8 * 1024 * 1024\<rparr>"

record message_queue =
  mq_messages :: "bytes list"
  mq_base :: u64
  mq_bytes :: nat
  mq_limits :: queue_limits

definition mq_new :: "queue_limits \<Rightarrow> message_queue" where
  "mq_new limits = \<lparr>mq_messages = [], mq_base = 0, mq_bytes = 0, mq_limits = limits\<rparr>"

definition mq_num :: "message_queue \<Rightarrow> u64" where
  "mq_num q = mq_base q + word_of_nat (length (mq_messages q))"

definition mq_pending :: "message_queue \<Rightarrow> bytes list" where
  "mq_pending q = mq_messages q"

section \<open>Operations\<close>

definition mq_check_capacity :: "message_queue \<Rightarrow> nat \<Rightarrow> nat \<Rightarrow> state_error + unit" where
  "mq_check_capacity q count bs =
     (if length (mq_messages q) + count > max_messages (mq_limits q)
      then Inl (Overflow (Queue_messages (length (mq_messages q)) (max_messages (mq_limits q))))
      else if mq_bytes q + bs > max_bytes (mq_limits q)
      then Inl (Overflow (Queue_bytes (mq_bytes q) (max_bytes (mq_limits q))))
      else Inr ())"

definition mq_push :: "bytes \<Rightarrow> message_queue \<Rightarrow> (state_error + unit) \<times> message_queue" where
  "mq_push message q =
     (case mq_check_capacity q 1 (length message) of
        Inl e \<Rightarrow> (Inl e, q)
      | Inr _ \<Rightarrow>
          (Inr (), q\<lparr>mq_bytes := mq_bytes q + length message,
                     mq_messages := mq_messages q @ [message]\<rparr>))"

definition mq_prune_through :: "u64 \<Rightarrow> message_queue \<Rightarrow> message_queue" where
  "mq_prune_through num q =
     (if num \<le> mq_base q then q
      else
        let dropped = min (unat (num - mq_base q)) (length (mq_messages q))
        in q\<lparr>mq_bytes := mq_bytes q - sum_list (map length (take dropped (mq_messages q))),
             mq_messages := drop dropped (mq_messages q),
             mq_base := mq_base q + word_of_nat dropped\<rparr>)"

definition mq_drain :: "message_queue \<Rightarrow> bytes list \<times> message_queue" where
  "mq_drain q =
     (mq_messages q,
      q\<lparr>mq_base := mq_base q + word_of_nat (length (mq_messages q)),
        mq_bytes := 0, mq_messages := []\<rparr>)"

section \<open>The diff codec\<close>

definition encode_message :: "bytes \<Rightarrow> bytes" where
  "encode_message m = u32_be (word_of_nat (length m)) @ m"

definition encode_messages :: "bytes list \<Rightarrow> bytes" where
  "encode_messages ms = u32_be (word_of_nat (length ms)) @ concat (map encode_message ms)"

fun decode_messages_loop ::
  "bytes \<Rightarrow> nat \<Rightarrow> nat \<Rightarrow> bytes list \<Rightarrow> state_error + (bytes list \<times> nat)" where
  "decode_messages_loop diff 0 offset out = Inr (out, offset)"
| "decode_messages_loop diff (Suc n) offset out =
     and_then (read_u32 diff offset) (\<lambda>len.
       if length diff < offset + 4 + len
       then Inl (Malformed (Over_declared len (length diff - (offset + 4))))
       else decode_messages_loop diff n (offset + 4 + len)
              (out @ [slice (offset + 4) (offset + 4 + len) diff]))"

definition decode_messages :: "bytes \<Rightarrow> state_error + bytes list" where
  "decode_messages diff =
     and_then (read_u32 diff 0) (\<lambda>count.
     and_then (decode_messages_loop diff count 4 []) (\<lambda>(out, offset).
       if offset \<noteq> length diff then Inl (Malformed (Trailing (length diff - offset)))
       else Inr out))"

section \<open>The \<open>SspState\<close> implementation\<close>

definition mq_reset_origin :: "message_queue \<Rightarrow> u64 option \<times> message_queue" where
  "mq_reset_origin q = (let q' = q\<lparr>mq_base := 0\<rparr> in (Some (mq_num q'), q'))"

definition mq_diff_from :: "message_queue \<Rightarrow> message_queue \<Rightarrow> bytes" where
  "mq_diff_from q prev =
     (let start = max (mq_num prev) (mq_base q);
          skip = unat (start - mq_base q);
          sending = (if skip \<le> length (mq_messages q) then drop skip (mq_messages q) else [])
      in encode_messages sending)"

definition mq_apply_diff ::
  "message_queue \<Rightarrow> bytes \<Rightarrow> (state_error + unit) \<times> message_queue" where
  "mq_apply_diff q diff =
     (case decode_messages diff of
        Inl e \<Rightarrow> (Inl e, q)
      | Inr decoded \<Rightarrow>
          (let bs = sum_list (map length decoded)
           in case mq_check_capacity q (length decoded) bs of
                Inl e \<Rightarrow> (Inl e, q)
              | Inr _ \<Rightarrow>
                  (Inr (), q\<lparr>mq_bytes := mq_bytes q + bs,
                             mq_messages := mq_messages q @ decoded\<rparr>)))"

definition message_queue_ssp :: "message_queue ssp" where
  "message_queue_ssp =
     \<lparr>rebase_steps = default_rebase_steps,
      reset_origin = mq_reset_origin,
      diff_from = mq_diff_from,
      apply_diff = mq_apply_diff,
      release_through = (\<lambda>q num. mq_prune_through num q)\<rparr>"

lemma message_queue_ssp_simps [simp]:
  "rebase_steps message_queue_ssp = default_rebase_steps"
  "reset_origin message_queue_ssp = mq_reset_origin"
  "diff_from message_queue_ssp = mq_diff_from"
  "apply_diff message_queue_ssp = mq_apply_diff"
  "release_through message_queue_ssp = (\<lambda>q num. mq_prune_through num q)"
  by (simp_all add: message_queue_ssp_def)

section \<open>The codec is a bijection onto the well-formed diffs\<close>

lemma length_encode_message [simp]: "length (encode_message m) = 4 + length m"
  by (simp add: encode_message_def)

lemma length_encode_messages:
  "length (encode_messages ms) = 4 + 4 * length ms + sum_list (map length ms)"
  by (induction ms) (auto simp: encode_messages_def)

lemma decode_messages_loop_encode:
  "\<forall>m \<in> set ms. length m < 2 ^ 32 \<Longrightarrow>
   decode_messages_loop (pre @ concat (map encode_message ms) @ post) (length ms) (length pre) out
     = Inr (out @ ms, length pre + length (concat (map encode_message ms)))"
proof (induction ms arbitrary: pre out)
  case Nil
  then show ?case by simp
next
  case (Cons m ms)
  let ?hd = "u32_be (word_of_nat (length m))"
  let ?rest = "concat (map encode_message ms)"
  have read: "read_u32 (pre @ ?hd @ m @ ?rest @ post) (length pre) = Inr (length m)"
    using Cons.prems by (intro read_u32_append) simp
  have body: "slice (length pre + 4) (length pre + 4 + length m) (pre @ ?hd @ m @ ?rest @ post) = m"
    by (simp add: slice_def)
  have "decode_messages_loop ((pre @ ?hd @ m) @ ?rest @ post) (length ms)
          (length (pre @ ?hd @ m)) (out @ [m])
        = Inr ((out @ [m]) @ ms, length (pre @ ?hd @ m) + length ?rest)"
    by (rule Cons.IH) (use Cons.prems in simp)
  then show ?case using read body
    by (simp add: encode_message_def [of m] ac_simps)
qed

theorem decode_encode_messages:
  assumes "length ms < 2 ^ 32" "\<forall>m \<in> set ms. length m < 2 ^ 32"
  shows "decode_messages (encode_messages ms) = Inr ms"
proof -
  let ?hd = "u32_be (word_of_nat (length ms))"
  have "read_u32 ([] @ ?hd @ concat (map encode_message ms)) 0 = Inr (length ms)"
    using assms(1) by (intro read_u32_append') auto
  moreover have "decode_messages_loop (?hd @ concat (map encode_message ms) @ []) (length ms)
      (length ?hd) [] = Inr ([] @ ms, length ?hd + length (concat (map encode_message ms)))"
    by (rule decode_messages_loop_encode) (rule assms(2))
  ultimately show ?thesis
    by (simp add: decode_messages_def encode_messages_def)
qed

lemma decode_messages_loop_Inr:
  "decode_messages_loop diff n offset out = Inr (out', offset') \<Longrightarrow> offset \<le> length diff \<Longrightarrow>
   \<exists>ms. out' = out @ ms \<and> length ms = n \<and> offset \<le> offset' \<and> offset' \<le> length diff \<and>
        slice offset offset' diff = concat (map encode_message ms)"
proof (induction n arbitrary: offset out)
  case 0
  then show ?case by (auto simp: slice_def)
next
  case (Suc n)
  then obtain len where len: "read_u32 diff offset = Inr len"
    and fits: "offset + 4 + len \<le> length diff"
    and rec: "decode_messages_loop diff n (offset + 4 + len)
       (out @ [slice (offset + 4) (offset + 4 + len) diff]) = Inr (out', offset')"
    by (auto split: if_splits)
  let ?m = "slice (offset + 4) (offset + 4 + len) diff"
  from Suc.IH [OF rec fits] obtain ms where ms: "out' = (out @ [?m]) @ ms" "length ms = n"
    "offset + 4 + len \<le> offset'" "offset' \<le> length diff"
    "slice (offset + 4 + len) offset' diff = concat (map encode_message ms)" by blast
  have "slice offset offset' diff
      = slice offset (offset + 4) diff @ ?m @ slice (offset + 4 + len) offset' diff"
    using ms(3) by (simp add: slice_split [of offset "offset + 4" offset']
        slice_split [of "offset + 4" "offset + 4 + len" offset'])
  moreover have "length ?m = len" using fits by simp
  ultimately have "slice offset offset' diff = concat (map encode_message (?m # ms))"
    using read_u32_Inr(2) [OF len] ms(5) by (simp add: encode_message_def)
  with ms show ?case by (intro exI [of _ "?m # ms"]) simp
qed

theorem decode_messages_canonical:
  assumes "decode_messages diff = Inr ms"
  shows "diff = encode_messages ms"
proof -
  from assms obtain count where c: "read_u32 diff 0 = Inr count"
    and l: "decode_messages_loop diff count 4 [] = Inr (ms, length diff)"
    by (auto simp: decode_messages_def split: if_splits prod.splits)
  from read_u32_Inr(1) [OF c] have "4 \<le> length diff" by simp
  from decode_messages_loop_Inr [OF l this] have ms: "length ms = count"
    "slice 4 (length diff) diff = concat (map encode_message ms)" by auto
  have "diff = slice 0 4 diff @ slice 4 (length diff) diff"
    using \<open>4 \<le> length diff\<close> by (simp flip: slice_split)
  also have "slice 0 4 diff = u32_be (word_of_nat (length ms))"
    using read_u32_Inr(2) [OF c] ms(1) by simp
  finally show ?thesis using ms(2) by (simp add: encode_messages_def)
qed

lemma encode_messages_small:
  assumes "length (encode_messages ms) < 2 ^ 32"
  shows "length ms < 2 ^ 32" "\<forall>m \<in> set ms. length m < 2 ^ 32"
proof -
  from assms have l: "4 + 4 * length ms + sum_list (map length ms) < 2 ^ 32"
    by (simp add: length_encode_messages)
  then show "length ms < 2 ^ 32" by linarith
  show "\<forall>m \<in> set ms. length m < 2 ^ 32"
  proof
    fix m assume "m \<in> set ms"
    then have "length m \<le> sum_list (map length ms)" by (simp add: member_le_sum_list)
    with l show "length m < 2 ^ 32" by linarith
  qed
qed

section \<open>Invariant and abstract content\<close>

text \<open>The byte counter is the total length of the held bodies.\<close>

definition mq_wf :: "message_queue \<Rightarrow> bool" where
  "mq_wf q \<longleftrightarrow> mq_bytes q = sum_list (map length (mq_messages q))"

text \<open>\<open>mq_rep q n M\<close>: of the messages \<open>M\<close> ever appended, \<open>n\<close> in number, \<open>q\<close> holds those
  above its base.\<close>

definition mq_rep :: "message_queue \<Rightarrow> u64 \<Rightarrow> bytes list \<Rightarrow> bool" where
  "mq_rep q n M \<longleftrightarrow>
     unat n = length M \<and> unat (mq_base q) \<le> length M \<and>
     mq_messages q = drop (unat (mq_base q)) M \<and> mq_wf q"

lemma word_of_nat_unat_diff:
  "unat b \<le> unat n \<Longrightarrow> b + word_of_nat (unat n - unat b) = (n :: u64)"
  by (simp add: of_nat_diff)

lemma word_of_nat_length: "unat n = k \<Longrightarrow> word_of_nat k = (n :: u64)"
  by auto

lemma mq_rep_num: "mq_rep q n M \<Longrightarrow> mq_num q = n"
  by (auto simp: mq_rep_def mq_num_def of_nat_diff dest: word_of_nat_length)

lemma mq_rep_new: "mq_rep (mq_new limits) 0 []"
  by (simp add: mq_rep_def mq_new_def mq_wf_def)

lemma mq_push_cases:
  "mq_push m q = (r, q') \<Longrightarrow>
     (r = Inr () \<and> q' = q\<lparr>mq_bytes := mq_bytes q + length m, mq_messages := mq_messages q @ [m]\<rparr>)
   \<or> (\<exists>e. r = Inl (Overflow e) \<and> q' = q)"
  by (auto simp: mq_push_def mq_check_capacity_def split: if_splits)

lemma mq_push_wf: "mq_wf q \<Longrightarrow> mq_wf (snd (mq_push m q))"
  using mq_push_cases [of m q] by (cases "mq_push m q") (auto simp: mq_wf_def)

lemma mq_drain_wf: "mq_wf (snd (mq_drain q))"
  by (simp add: mq_drain_def mq_wf_def)

lemma mq_prune_wf: "mq_wf q \<Longrightarrow> mq_wf (mq_prune_through num q)"
proof -
  assume w: "mq_wf q"
  have "sum_list (map length xs) - sum_list (map length (take k xs))
      = sum_list (map length (drop k xs))" for xs :: "bytes list" and k
    by (metis add_diff_cancel_left' append_take_drop_id map_append sum_list.append)
  with w show ?thesis by (simp add: mq_prune_through_def mq_wf_def Let_def)
qed

lemma mq_push_rep:
  assumes "mq_rep q n M" "mq_push m q = (Inr (), q')" "n < - 1"
  shows "mq_rep q' (n + 1) (M @ [m])"
  using assms mq_push_cases [OF assms(2)] unat_Suc [OF assms(3)]
  by (auto simp: mq_rep_def mq_wf_def)

lemma mq_drain_rep:
  assumes "mq_rep q n M"
  shows "mq_rep (snd (mq_drain q)) n M" "fst (mq_drain q) = drop (unat (mq_base q)) M"
    "mq_base (snd (mq_drain q)) = n"
proof -
  from assms have b: "mq_base q + word_of_nat (length M - unat (mq_base q)) = n"
    by (auto simp: mq_rep_def of_nat_diff dest: word_of_nat_length)
  from assms b show "mq_rep (snd (mq_drain q)) n M" "fst (mq_drain q) = drop (unat (mq_base q)) M"
    "mq_base (snd (mq_drain q)) = n"
    by (auto simp: mq_rep_def mq_drain_def mq_wf_def)
qed

lemma mq_prune_base:
  assumes "mq_rep q n M"
  shows "mq_base (mq_prune_through k q) = max (mq_base q) (min k n)"
proof (cases "k \<le> mq_base q")
  case True
  have "mq_base q \<le> n" using assms by (simp add: mq_rep_def word_le_nat_alt)
  with True order_trans [OF True this] show ?thesis
    by (auto simp: mq_prune_through_def max_def min_def)
next
  case False
  then have k: "unat (k - mq_base q) = unat k - unat (mq_base q)" "unat (mq_base q) < unat k"
    by (simp_all add: unat_sub word_le_nat_alt)
  have l: "length (mq_messages q) = unat n - unat (mq_base q)" "unat (mq_base q) \<le> unat n"
    using assms by (auto simp: mq_rep_def)
  have "min (unat (k - mq_base q)) (length (mq_messages q)) = unat (min k n) - unat (mq_base q)"
    unfolding k(1) l(1) using k(2) l(2) by (simp add: min_def word_le_nat_alt)
  then have "mq_base q + word_of_nat (min (unat (k - mq_base q)) (length (mq_messages q))) = min k n"
    using k(2) l(2) by (simp add: word_of_nat_unat_diff min_def)
  moreover have "mq_base q \<le> min k n"
    using k l by (simp add: word_le_nat_alt)
  ultimately show ?thesis using False
    by (simp add: mq_prune_through_def Let_def max_def)
qed

lemma mq_prune_messages:
  "\<exists>d. mq_messages (mq_prune_through k q) = drop d (mq_messages q) \<and>
       mq_base (mq_prune_through k q) = mq_base q + word_of_nat d \<and> d \<le> length (mq_messages q)"
  by (auto simp: mq_prune_through_def Let_def intro: exI [of _ 0])

lemma mq_prune_rep:
  assumes r: "mq_rep q n M"
  shows "mq_rep (mq_prune_through k q) n M"
proof -
  obtain d where d: "mq_messages (mq_prune_through k q) = drop d (mq_messages q)"
    "mq_base (mq_prune_through k q) = mq_base q + word_of_nat d" "d \<le> length (mq_messages q)"
    using mq_prune_messages by blast
  from r have n: "unat n = length M" "unat (mq_base q) \<le> length M"
    "mq_messages q = drop (unat (mq_base q)) M" by (auto simp: mq_rep_def)
  have "unat (mq_base q) + d \<le> unat n" using d(3) n by simp
  then have u: "unat (mq_base q + word_of_nat d) = unat (mq_base q) + d"
    using unat_bound64 [of n] by (subst unat_u64_add) (auto simp: unat_word_of_nat_less)
  show ?thesis
    using d n u mq_prune_wf r by (auto simp: mq_rep_def add.commute)
qed

section \<open>The bounds\<close>

definition mq_bounded :: "message_queue \<Rightarrow> bool" where
  "mq_bounded q \<longleftrightarrow>
     length (mq_messages q) \<le> max_messages (mq_limits q) \<and> mq_bytes q \<le> max_bytes (mq_limits q)"

lemma mq_check_capacity_Inr:
  "mq_check_capacity q count bs = Inr u \<Longrightarrow>
   length (mq_messages q) + count \<le> max_messages (mq_limits q) \<and> mq_bytes q + bs \<le> max_bytes (mq_limits q)"
  by (auto simp: mq_check_capacity_def split: if_splits)

lemma mq_push_bounded: "mq_bounded q \<Longrightarrow> mq_bounded (snd (mq_push m q))"
  by (auto simp: mq_push_def mq_bounded_def split: sum.splits dest: mq_check_capacity_Inr)

lemma mq_apply_diff_bounded: "mq_bounded q \<Longrightarrow> mq_bounded (snd (mq_apply_diff q d))"
  by (auto simp: mq_apply_diff_def mq_bounded_def Let_def split: sum.splits dest: mq_check_capacity_Inr)

lemma mq_prune_bounded: "mq_bounded q \<Longrightarrow> mq_bounded (mq_prune_through k q)"
  by (auto simp: mq_prune_through_def mq_bounded_def Let_def)

lemma mq_drain_bounded: "mq_bounded (snd (mq_drain q))"
  by (simp add: mq_drain_def mq_bounded_def)

lemma mq_apply_diff_wf: "mq_wf q \<Longrightarrow> mq_wf (snd (mq_apply_diff q d))"
  by (auto simp: mq_apply_diff_def mq_wf_def Let_def split: sum.splits)

section \<open>Interpretation\<close>

lemma mq_diff_from_rep:
  assumes s: "mq_rep s n a" and p: "mq_rep p m b" and "m \<le> n" "mq_base s \<le> m"
  shows "mq_diff_from s p = encode_messages (drop (unat m) a)"
proof -
  have "unat (m - mq_base s) = unat m - unat (mq_base s)"
    using assms(4) by (simp add: unat_sub)
  moreover have "unat (mq_base s) \<le> unat m" "unat m \<le> unat n"
    using assms(3,4) by (auto simp: word_le_nat_alt)
  ultimately show ?thesis
    using s mq_rep_num [OF p] assms(4) by (simp add: mq_diff_from_def mq_rep_def Let_def max_def)
qed

lemma mq_apply_diff_Inr:
  assumes "mq_apply_diff q d = (Inr (), q')"
  obtains ms where "decode_messages d = Inr ms"
    "q' = q\<lparr>mq_bytes := mq_bytes q + sum_list (map length ms), mq_messages := mq_messages q @ ms\<rparr>"
  using assms by (auto simp: mq_apply_diff_def Let_def split: sum.splits)

lemma mq_apply_diff_Inl: "mq_apply_diff q d = (Inl e, q') \<Longrightarrow> q' = q"
  by (auto simp: mq_apply_diff_def Let_def split: sum.splits)

lemma mq_apply_diff_rep:
  assumes s: "mq_rep s n a" and p: "mq_rep p m b" and pre: "prefix b a" and le: "m \<le> n" "mq_base s \<le> m"
    and r: "mq_rep r m b" and sz: "length (mq_diff_from s p) < 2 ^ 32"
    and ap: "mq_apply_diff r (mq_diff_from s p) = (Inr (), r')"
  shows "mq_rep r' n a"
proof -
  have d: "mq_diff_from s p = encode_messages (drop (unat m) a)"
    using s p le by (rule mq_diff_from_rep)
  from sz have "decode_messages (mq_diff_from s p) = Inr (drop (unat m) a)"
    unfolding d by (intro decode_encode_messages encode_messages_small) auto
  with ap obtain ms where ms: "ms = drop (unat m) a"
    "r' = r\<lparr>mq_bytes := mq_bytes r + sum_list (map length ms), mq_messages := mq_messages r @ ms\<rparr>"
    by (elim mq_apply_diff_Inr) auto
  from pre r have ab: "a = b @ drop (unat m) a"
    by (auto simp: prefix_def mq_rep_def)
  have "unat (mq_base r) \<le> length b" "mq_messages r = drop (unat (mq_base r)) b" "mq_wf r"
    using r by (auto simp: mq_rep_def)
  then have "mq_messages r @ ms = drop (unat (mq_base r)) a"
    using ab ms(1) by (metis drop_append diff_is_0_eq' drop0)
  moreover have "unat (mq_base r) \<le> length a"
    using \<open>unat (mq_base r) \<le> length b\<close> pre by (auto dest: prefix_length_le)
  moreover have "mq_wf r'"
    using ms(2) \<open>mq_wf r\<close> by (simp add: mq_wf_def)
  ultimately show ?thesis
    using ms(2) s by (auto simp: mq_rep_def)
qed

interpretation queue_ssp: ssp_state message_queue_ssp mq_rep prefix mq_base
proof (unfold_locales, goal_cases)
  case 1
  show ?case by simp
next
  case (2 a b c)
  then show ?case by (rule prefix_order.trans)
next
  case (3 s n a p m b r r')
  then show ?case unfolding message_queue_ssp_simps by (rule mq_apply_diff_rep)
next
  case (4 r d e r')
  then show ?case by (simp add: mq_apply_diff_Inl)
next
  case (5 s n a k)
  then show ?case by (simp add: mq_prune_rep)
next
  case (6 s n a k)
  then show ?case using linear [of k "mq_base s"]
    by (auto simp: mq_prune_base min_le_iff_disj le_max_iff_disj)
qed

end
