(* ===== verification/StateGrid.thy ===== *)
theory StateGrid
  imports StateTypes
begin

text \<open>
  \<open>src/link/src/state/grid.rs\<close>: the latest-wins \<open>RowGrid\<close> of channel 1, its diff codec with
  the bound on a declared row count, and its \<open>SspState\<close> implementation, which interprets
  \<open>ssp_state\<close> with the rows themselves as the content: every grid is an ancestor of every
  other, and nothing is ever released.
\<close>

section \<open>State and operations\<close>

definition MAX_GRID_ROWS :: nat where
  "MAX_GRID_ROWS = 65535"

record row_grid =
  rg_rows :: "bytes list"

definition rg_new :: row_grid where
  "rg_new = \<lparr>rg_rows = []\<rparr>"

definition rg_set_rows :: "bytes list \<Rightarrow> row_grid \<Rightarrow> row_grid" where
  "rg_set_rows rows g = g\<lparr>rg_rows := rows\<rparr>"

text \<open>\<open>Vec::resize\<close> with the empty row.\<close>

definition resize :: "nat \<Rightarrow> bytes list \<Rightarrow> bytes list" where
  "resize n rows = take n rows @ replicate (n - length rows) []"

definition rg_set_row :: "nat \<Rightarrow> bytes \<Rightarrow> row_grid \<Rightarrow> row_grid" where
  "rg_set_row index row g =
     (let rows = (if length (rg_rows g) \<le> index then resize (index + 1) (rg_rows g) else rg_rows g)
      in g\<lparr>rg_rows := rows[index := row]\<rparr>)"

definition rg_rebase_steps :: "row_grid \<Rightarrow> row_grid list" where
  "rg_rebase_steps g =
     map (\<lambda>k. \<lparr>rg_rows = take (Suc k) (rg_rows g)\<rparr>) [0..<length (rg_rows g)]"

section \<open>The diff codec\<close>

definition rg_changed :: "bytes list \<Rightarrow> bytes list \<Rightarrow> (nat \<times> bytes) list" where
  "rg_changed rows prev =
     filter (\<lambda>(i, row). \<not> (i < length prev \<and> prev ! i = row)) (enumerate 0 rows)"

definition encode_row :: "nat \<times> bytes \<Rightarrow> bytes" where
  "encode_row = (\<lambda>(i, row). u32_be (word_of_nat i) @ u32_be (word_of_nat (length row)) @ row)"

definition encode_rows :: "nat \<Rightarrow> (nat \<times> bytes) list \<Rightarrow> bytes" where
  "encode_rows rows updates =
     u32_be (word_of_nat rows) @ u32_be (word_of_nat (length updates))
       @ concat (map encode_row updates)"

definition rg_diff_from :: "row_grid \<Rightarrow> row_grid \<Rightarrow> bytes" where
  "rg_diff_from g prev =
     encode_rows (length (rg_rows g)) (rg_changed (rg_rows g) (rg_rows prev))"

fun decode_rows_loop ::
  "bytes \<Rightarrow> nat \<Rightarrow> nat \<Rightarrow> (nat \<times> bytes) list \<Rightarrow> state_error + ((nat \<times> bytes) list \<times> nat)" where
  "decode_rows_loop diff 0 offset updates = Inr (updates, offset)"
| "decode_rows_loop diff (Suc n) offset updates =
     and_then (read_u32 diff offset) (\<lambda>index.
     and_then (read_u32 diff (offset + 4)) (\<lambda>len.
       if length diff < offset + 8 + len
       then Inl (Malformed (Over_declared len (length diff - (offset + 8))))
       else decode_rows_loop diff n (offset + 8 + len)
              (updates @ [(index, slice (offset + 8) (offset + 8 + len) diff)])))"

definition decode_rows :: "bytes \<Rightarrow> state_error + (nat \<times> (nat \<times> bytes) list)" where
  "decode_rows diff =
     and_then (read_u32 diff 0) (\<lambda>rows.
       if rows > MAX_GRID_ROWS then Inl (Malformed (Too_many_rows rows))
       else
         and_then (read_u32 diff 4) (\<lambda>changed.
         and_then (decode_rows_loop diff changed 8 []) (\<lambda>(updates, offset).
           if offset \<noteq> length diff then Inl (Malformed (Trailing (length diff - offset)))
           else Inr (rows, updates))))"

definition apply_updates :: "(nat \<times> bytes) list \<Rightarrow> bytes list \<Rightarrow> bytes list" where
  "apply_updates updates rows = fold (\<lambda>(i, row) rs. rs[i := row]) updates rows"

definition rg_apply_diff :: "row_grid \<Rightarrow> bytes \<Rightarrow> (state_error + unit) \<times> row_grid" where
  "rg_apply_diff g diff =
     (case decode_rows diff of
        Inl e \<Rightarrow> (Inl e, g)
      | Inr (rows, updates) \<Rightarrow>
          (case find (\<lambda>(i, _). i \<ge> rows) updates of
             Some (i, _) \<Rightarrow> (Inl (Malformed (Row_out_of_range i rows)), g)
           | None \<Rightarrow> (Inr (), g\<lparr>rg_rows := apply_updates updates (resize rows (rg_rows g))\<rparr>)))"

definition row_grid_ssp :: "row_grid ssp" where
  "row_grid_ssp =
     \<lparr>rebase_steps = rg_rebase_steps,
      reset_origin = default_reset_origin,
      diff_from = rg_diff_from,
      apply_diff = rg_apply_diff,
      release_through = default_release_through\<rparr>"

lemma row_grid_ssp_simps [simp]:
  "rebase_steps row_grid_ssp = rg_rebase_steps"
  "reset_origin row_grid_ssp = default_reset_origin"
  "diff_from row_grid_ssp = rg_diff_from"
  "apply_diff row_grid_ssp = rg_apply_diff"
  "release_through row_grid_ssp = default_release_through"
  by (simp_all add: row_grid_ssp_def)

section \<open>Round trip of the codec\<close>

lemma length_encode_row [simp]: "length (encode_row (i, row)) = 8 + length row"
  by (simp add: encode_row_def)

lemma length_encode_rows:
  "length (encode_rows n ups) = 8 + sum_list (map (\<lambda>(i, row). 8 + length row) ups)"
  by (induction ups) (auto simp: encode_rows_def)

lemma length_resize [simp]: "length (resize n rows) = n"
  by (simp add: resize_def)

lemma decode_rows_loop_encode:
  "\<forall>(i, row) \<in> set ups. i < 2 ^ 32 \<and> length row < 2 ^ 32 \<Longrightarrow>
   decode_rows_loop (pre @ concat (map encode_row ups) @ post) (length ups) (length pre) out
     = Inr (out @ ups, length pre + length (concat (map encode_row ups)))"
proof (induction ups arbitrary: pre out)
  case Nil
  then show ?case by simp
next
  case (Cons u ups)
  obtain i row where u: "u = (i, row)" by (cases u)
  let ?ix = "u32_be (word_of_nat i)"
  let ?ln = "u32_be (word_of_nat (length row))"
  let ?tail = "row @ concat (map encode_row ups) @ post"
  have ix: "read_u32 (pre @ ?ix @ ?ln @ ?tail) (length pre) = Inr i"
    using Cons.prems u by (intro read_u32_append) simp
  have ln: "read_u32 (pre @ ?ix @ ?ln @ ?tail) (length pre + 4) = Inr (length row)"
    using Cons.prems u read_u32_append [of "length row" "pre @ ?ix" ?tail] by simp
  have body: "slice (length pre + 8) (length pre + 8 + length row) (pre @ ?ix @ ?ln @ ?tail) = row"
    by (simp add: slice_def)
  have "decode_rows_loop ((pre @ ?ix @ ?ln @ row) @ concat (map encode_row ups) @ post) (length ups)
          (length (pre @ ?ix @ ?ln @ row)) (out @ [(i, row)])
        = Inr ((out @ [(i, row)]) @ ups,
               length (pre @ ?ix @ ?ln @ row) + length (concat (map encode_row ups)))"
    by (rule Cons.IH) (use Cons.prems in simp)
  then show ?case using ix ln body u
    by (simp add: encode_row_def [THEN fun_cong, of "(i, row)"] ac_simps)
qed

theorem decode_encode_rows:
  assumes "n \<le> MAX_GRID_ROWS" "length ups < 2 ^ 32"
    and "\<forall>(i, row) \<in> set ups. i < 2 ^ 32 \<and> length row < 2 ^ 32"
  shows "decode_rows (encode_rows n ups) = Inr (n, ups)"
proof -
  let ?n = "u32_be (word_of_nat n)"
  let ?c = "u32_be (word_of_nat (length ups))"
  let ?body = "concat (map encode_row ups)"
  have "n < 2 ^ 32" using assms(1) by (simp add: MAX_GRID_ROWS_def)
  then have "read_u32 ([] @ ?n @ ?c @ ?body) 0 = Inr n"
    by (intro read_u32_append') auto
  moreover have "read_u32 (?n @ ?c @ ?body) 4 = Inr (length ups)"
    using assms(2) by (intro read_u32_append') auto
  moreover have "decode_rows_loop ((?n @ ?c) @ ?body @ []) (length ups) (length (?n @ ?c)) []
      = Inr ([] @ ups, length (?n @ ?c) + length ?body)"
    by (rule decode_rows_loop_encode) (rule assms(3))
  ultimately show ?thesis using assms(1)
    by (simp add: decode_rows_def encode_rows_def)
qed

section \<open>Applying a diff\<close>

lemma length_apply_updates [simp]: "length (apply_updates ups rows) = length rows"
  unfolding apply_updates_def by (induction ups arbitrary: rows) auto

lemma apply_updates_nth:
  "distinct (map fst ups) \<Longrightarrow> i < length rows \<Longrightarrow>
   apply_updates ups rows ! i = (case map_of ups i of Some row \<Rightarrow> row | None \<Rightarrow> rows ! i)"
  unfolding apply_updates_def
  by (induction ups arbitrary: rows)
    (auto split: option.splits dest: map_of_SomeD simp: image_iff)

lemma set_rg_changed:
  "(i, row) \<in> set (rg_changed rows prev) \<longleftrightarrow>
     i < length rows \<and> row = rows ! i \<and> \<not> (i < length prev \<and> prev ! i = row)"
  by (auto simp: rg_changed_def in_set_enumerate_eq)

lemma distinct_rg_changed: "distinct (map fst (rg_changed rows prev))"
  unfolding rg_changed_def by (rule distinct_map_filter) simp

lemma map_of_rg_changed:
  "i < length rows \<Longrightarrow>
   map_of (rg_changed rows prev) i =
     (if i < length prev \<and> prev ! i = rows ! i then None else Some (rows ! i))"
proof (cases "i < length prev \<and> prev ! i = rows ! i")
  case True
  then have "i \<notin> fst ` set (rg_changed rows prev)" by (auto simp: set_rg_changed)
  with True show ?thesis by (simp add: map_of_eq_None_iff)
next
  case False
  moreover assume "i < length rows"
  ultimately have "(i, rows ! i) \<in> set (rg_changed rows prev)" by (auto simp: set_rg_changed)
  then show ?thesis using False distinct_rg_changed by (auto intro: map_of_is_SomeI)
qed

lemma apply_updates_changed:
  "apply_updates (rg_changed rows prev) (resize (length rows) prev) = rows"
proof (rule nth_equalityI)
  fix i assume "i < length (apply_updates (rg_changed rows prev) (resize (length rows) prev))"
  then have i: "i < length rows" by simp
  then show "apply_updates (rg_changed rows prev) (resize (length rows) prev) ! i = rows ! i"
    by (auto simp: apply_updates_nth distinct_rg_changed map_of_rg_changed resize_def nth_append)
qed simp

lemma rg_changed_small:
  assumes "length (encode_rows n (rg_changed rows prev)) < 2 ^ 32" "length rows \<le> MAX_GRID_ROWS"
  shows "length (rg_changed rows prev) < 2 ^ 32"
    "\<forall>(i, row) \<in> set (rg_changed rows prev). i < 2 ^ 32 \<and> length row < 2 ^ 32"
proof -
  let ?ups = "rg_changed rows prev"
  from assms(1) have s: "8 + sum_list (map (\<lambda>(i, row). 8 + length row) ?ups) < 2 ^ 32"
    by (simp add: length_encode_rows)
  have "length ups \<le> sum_list (map (\<lambda>(i, row). 8 + length row) ups)" for ups :: "(nat \<times> bytes) list"
    by (induction ups) auto
  with s show "length ?ups < 2 ^ 32" by (meson le_add2 le_less_trans order_trans)
  show "\<forall>(i, row) \<in> set ?ups. i < 2 ^ 32 \<and> length row < 2 ^ 32"
  proof clarify
    fix i row assume u: "(i, row) \<in> set ?ups"
    then have "8 + length row \<le> sum_list (map (\<lambda>(i, row). 8 + length row) ?ups)"
      by (force intro: member_le_sum_list)
    moreover have "i < length rows" using u by (simp add: set_rg_changed)
    ultimately show "i < 2 ^ 32 \<and> length row < 2 ^ 32"
      using s assms(2) by (simp add: MAX_GRID_ROWS_def)
  qed
qed

lemma rg_apply_diff_correct:
  assumes "length (rg_rows s) \<le> MAX_GRID_ROWS" "length (rg_diff_from s p) < 2 ^ 32"
  shows "rg_apply_diff p (rg_diff_from s p) = (Inr (), s)"
proof -
  let ?ups = "rg_changed (rg_rows s) (rg_rows p)"
  have "decode_rows (rg_diff_from s p) = Inr (length (rg_rows s), ?ups)"
    using assms rg_changed_small [of "length (rg_rows s)"]
    unfolding rg_diff_from_def by (intro decode_encode_rows) auto
  moreover have "find (\<lambda>(i, _). i \<ge> length (rg_rows s)) ?ups = None"
    by (auto simp: find_None_iff set_rg_changed)
  ultimately show ?thesis
    by (simp add: rg_apply_diff_def apply_updates_changed)
qed

lemma rg_apply_diff_Inl: "rg_apply_diff g d = (Inl e, g') \<Longrightarrow> g' = g"
  by (auto simp: rg_apply_diff_def split: sum.splits prod.splits option.splits)

lemma rg_apply_diff_rows:
  "rg_apply_diff g d = (Inr (), g') \<Longrightarrow> length (rg_rows g') \<le> MAX_GRID_ROWS"
  by (auto simp: rg_apply_diff_def decode_rows_def split: sum.splits prod.splits option.splits if_splits)

lemma rg_changed_grown: "rg_changed (rows @ [row]) rows = [(length rows, row)]"
proof -
  have "filter (\<lambda>(i, row). \<not> (i < length rows \<and> rows ! i = row)) (enumerate 0 rows) = []"
    by (auto simp: filter_empty_conv in_set_enumerate_eq)
  then show ?thesis by (simp add: rg_changed_def enumerate_append_eq)
qed

section \<open>Interpretation\<close>

text \<open>
  A grid represents its rows at any state number.  The bound is part of the representation:
  a grid of more than \<^const>\<open>MAX_GRID_ROWS\<close> rows is one no peer accepts.
\<close>

definition rg_rep :: "row_grid \<Rightarrow> u64 \<Rightarrow> bytes list \<Rightarrow> bool" where
  "rg_rep g n rows \<longleftrightarrow> rg_rows g = rows \<and> length rows \<le> MAX_GRID_ROWS"

definition any_ancestor :: "bytes list \<Rightarrow> bytes list \<Rightarrow> bool" where
  "any_ancestor a b \<longleftrightarrow> True"

definition rg_low :: "row_grid \<Rightarrow> u64" where
  "rg_low g = 0"

lemma rg_rep_new: "rg_rep rg_new 0 []"
  by (simp add: rg_rep_def rg_new_def)

interpretation grid_ssp: ssp_state row_grid_ssp rg_rep any_ancestor rg_low
proof (unfold_locales, goal_cases)
  case (3 s n a p m b r r')
  then have "rg_rows r = rg_rows p" by (simp add: rg_rep_def)
  then have "r = p" by simp
  with 3 show ?case by (simp add: rg_apply_diff_correct rg_rep_def)
next
  case (4 r d e r')
  then show ?case by (simp add: rg_apply_diff_Inl)
qed (simp_all add: any_ancestor_def rg_rep_def rg_low_def default_release_through_def)

end
