(* ===== verification/TransportTypes.thy ===== *)
theory TransportTypes
  imports LinkPacket StateQueue StateGrid
begin

text \<open>
  \<open>src/link/src/transport/types.rs\<close>: the transport's errors, which of them the caller should
  retry, and the configuration of a session.
\<close>

datatype transport_error =
    QueueOverflow u8 nat
  | DiffTooLarge nat nat
  | Misaddressed node_id node_id
  | State state_error
  | Packet packet_error
  | Header header_error
  | Crypto crypto_error
  | Key key_error

fun is_retryable :: "transport_error \<Rightarrow> bool" where
  "is_retryable (QueueOverflow _ _) = True"
| "is_retryable (State (Overflow _)) = True"
| "is_retryable _ = False"

definition MAX_SENT_STATES :: nat where
  "MAX_SENT_STATES = 512"

text \<open>The largest message body channel 0 carries in one datagram.\<close>

definition MAX_MESSAGE_BYTES :: nat where
  "MAX_MESSAGE_BYTES = MAX_DIFF_LEN - 8"

definition CHANNEL_MESSAGES :: u8 where "CHANNEL_MESSAGES = 0"
definition CHANNEL_SCREEN :: u8 where "CHANNEL_SCREEN = 1"

record session_config =
  sc_node_id :: node_id
  sc_peer_node_id :: node_id
  sc_role :: role
  sc_pair_key :: pair_key
  sc_forwarder_key :: forwarder_key
  sc_queue_limits :: queue_limits
  sc_max_sent_states :: nat

definition session_config_new ::
  "node_id \<Rightarrow> node_id \<Rightarrow> role \<Rightarrow> pair_key \<Rightarrow> forwarder_key \<Rightarrow> session_config" where
  "session_config_new n p r pk fk =
     \<lparr>sc_node_id = n, sc_peer_node_id = p, sc_role = r, sc_pair_key = pk, sc_forwarder_key = fk,
      sc_queue_limits = default_queue_limits, sc_max_sent_states = MAX_SENT_STATES\<rparr>"

end
