(* ===== verification/Channel.thy ===== *)
theory Channel
  imports TransportTypes
begin

text \<open>
  \<open>src/link/src/transport/channel.rs\<close>: one channel's sent-state history, assumed receiver
  state and received state.  The operations take the \<open>SspState\<close> methods as their first
  argument; their laws are proved once, in the context of \<open>ssp_state\<close>.
\<close>

section \<open>State\<close>

record 's channel =
  ch_id :: u8
  ch_initial :: 's
  ch_current :: 's
  ch_current_num :: u64
  ch_sent_states :: "(u64 \<times> 's) list"
  ch_assumed :: u64
  ch_received :: 's
  ch_received_num :: u64
  ch_sent_num :: u64
  ch_last_sent_ms :: "u64 option"
  ch_max_sent :: nat

definition channel_new :: "u8 \<Rightarrow> 's \<Rightarrow> nat \<Rightarrow> 's channel" where
  "channel_new i initial max_sent =
     \<lparr>ch_id = i, ch_initial = initial, ch_current = initial, ch_current_num = 0,
      ch_sent_states = [(0, initial)], ch_assumed = 0, ch_received = initial,
      ch_received_num = 0, ch_sent_num = 0, ch_last_sent_ms = None, ch_max_sent = max_sent\<rparr>"

definition is_pending :: "'s channel \<Rightarrow> bool" where
  "is_pending ch \<longleftrightarrow> ch_current_num ch > ch_assumed ch"

definition has_unsent_change :: "'s channel \<Rightarrow> bool" where
  "has_unsent_change ch \<longleftrightarrow> ch_current_num ch > ch_sent_num ch"

definition history_len :: "'s channel \<Rightarrow> nat" where
  "history_len ch = length (ch_sent_states ch)"

section \<open>Rebasing after the peer restarts\<close>

fun rebase_sent :: "'s ssp \<Rightarrow> u64 \<Rightarrow> (u64 \<times> 's) list \<Rightarrow> (u64 \<times> 's) list \<Rightarrow> (u64 \<times> 's) list outcome" where
  "rebase_sent ops assumed [] acc = Ret acc"
| "rebase_sent ops assumed ((old_num, s) # rest) acc =
     (if old_num > assumed then
        (case reset_origin ops (release_through ops s assumed) of
           (None, _) \<Rightarrow> Panic
         | (Some num, s') \<Rightarrow>
             rebase_sent ops assumed rest
               (if num > 0 \<and> fst (last acc) \<noteq> num then acc @ [(num, s')] else acc))
      else rebase_sent ops assumed rest acc)"

definition reset_peer :: "'s ssp \<Rightarrow> 's channel \<Rightarrow> 's channel outcome" where
  "reset_peer ops ch =
     bind_outcome
       (if ch_id ch = 0 then
          bind_outcome
            (rebase_sent ops (ch_assumed ch) (ch_sent_states ch) [(0, ch_initial ch)])
            (\<lambda>acc.
              case reset_origin ops (ch_current ch) of
                (None, _) \<Rightarrow> Panic
              | (Some num, cur) \<Rightarrow>
                  Ret (cur, num,
                       if num > 0 \<and> fst (last acc) \<noteq> num then acc @ [(num, cur)] else acc))
        else
          (let steps = rebase_steps ops (ch_current ch);
               numbered = map (\<lambda>(k, s). (word_of_nat (Suc k), s)) (enumerate 0 steps)
           in if steps = [] then Ret (ch_current ch, 1, [(0, ch_initial ch), (1, ch_current ch)])
              else Ret (ch_current ch, word_of_nat (length steps), (0, ch_initial ch) # numbered)))
       (\<lambda>(cur, num, sent).
          Ret (ch\<lparr>ch_current := cur, ch_current_num := num, ch_sent_states := sent,
                  ch_assumed := 0, ch_received := ch_initial ch, ch_received_num := 0,
                  ch_sent_num := 0, ch_last_sent_ms := None\<rparr>))"

section \<open>Sending\<close>

definition advance ::
  "('s \<Rightarrow> (state_error + unit) \<times> 's) \<Rightarrow> 's channel \<Rightarrow> (transport_error + unit) \<times> 's channel" where
  "advance change ch =
     (if length (ch_sent_states ch) \<ge> ch_max_sent ch
      then (Inl (QueueOverflow (ch_id ch) (length (ch_sent_states ch))), ch)
      else
        (case change (ch_current ch) of
           (Inl e, _) \<Rightarrow> (Inl (State e), ch)
         | (Inr _, next_state) \<Rightarrow>
             (Inr (),
              ch\<lparr>ch_current := next_state,
                 ch_current_num := ch_current_num ch + 1,
                 ch_sent_states := ch_sent_states ch @ [(ch_current_num ch + 1, next_state)]\<rparr>)))"

definition instruction_with :: "'s channel \<Rightarrow> u64 \<Rightarrow> bytes \<Rightarrow> instruction" where
  "instruction_with ch new_num diff =
     \<lparr>in_channel = ch_id ch, in_old = ch_assumed ch, in_new = new_num,
      in_ack = ch_received_num ch, in_throwaway = ch_received_num ch, in_diff = diff\<rparr>"

text \<open>The walk through the history for the largest step that still fits.\<close>

fun choose_step ::
  "'s ssp \<Rightarrow> 's \<Rightarrow> (u64 \<times> 's) list \<Rightarrow> (u64 \<times> bytes) option \<Rightarrow> (u64 \<times> bytes) option" where
  "choose_step ops base [] chosen = chosen"
| "choose_step ops base ((num, s) # rest) chosen =
     (if length (diff_from ops s base) > MAX_DIFF_LEN then chosen
      else choose_step ops base rest (Some (num, diff_from ops s base)))"

definition channel_instruction :: "'s ssp \<Rightarrow> 's channel \<Rightarrow> (transport_error + instruction) outcome" where
  "channel_instruction ops ch =
     (case ch_sent_states ch of
        [] \<Rightarrow> Panic
      | (_, base) # rest \<Rightarrow>
          (let full = diff_from ops (ch_current ch) base
           in if length full \<le> MAX_DIFF_LEN
              then Ret (Inr (instruction_with ch (ch_current_num ch) full))
              else
                (case choose_step ops base rest None of
                   Some (num, diff) \<Rightarrow> Ret (Inr (instruction_with ch num diff))
                 | None \<Rightarrow> Ret (Inl (DiffTooLarge (length full) MAX_DIFF_LEN)))))"

definition note_sent :: "instruction \<Rightarrow> u64 \<Rightarrow> 's channel \<Rightarrow> 's channel" where
  "note_sent i now_ms ch =
     ch\<lparr>ch_sent_num := max (ch_sent_num ch) (in_new i), ch_last_sent_ms := Some now_ms\<rparr>"

section \<open>Receiving\<close>

definition acknowledge :: "u64 \<Rightarrow> 's channel \<Rightarrow> 's channel" where
  "acknowledge ack_num ch =
     (if ack_num \<le> ch_assumed ch then ch
      else if \<not> (\<exists>(num, _) \<in> set (ch_sent_states ch). num = ack_num) then ch
      else ch\<lparr>ch_assumed := ack_num,
              ch_sent_states := dropWhile (\<lambda>(num, _). num < ack_num) (ch_sent_states ch)\<rparr>)"

text \<open>The part of \<open>apply\<close> every Instruction reaches: the acknowledgement and the release.\<close>

definition apply_ack :: "'s ssp \<Rightarrow> instruction \<Rightarrow> 's channel \<Rightarrow> 's channel" where
  "apply_ack ops i ch =
     (let ch1 = acknowledge (in_ack i) ch
      in ch1\<lparr>ch_current :=
           release_through ops (ch_current ch1) (min (in_throwaway i) (ch_assumed ch1))\<rparr>)"

definition channel_apply ::
  "'s ssp \<Rightarrow> instruction \<Rightarrow> 's channel \<Rightarrow> (transport_error + bool) \<times> 's channel" where
  "channel_apply ops i ch =
     (let ch2 = apply_ack ops i ch
      in if in_old i \<noteq> ch_received_num ch2 then (Inr False, ch2)
         else
           (case apply_diff ops (ch_received ch2) (in_diff i) of
              (Inl e, r) \<Rightarrow> (Inl (State e), ch2\<lparr>ch_received := r\<rparr>)
            | (Inr _, r) \<Rightarrow>
                (Inr (in_new i > ch_received_num ch2),
                 ch2\<lparr>ch_received := r, ch_received_num := in_new i\<rparr>)))"

text \<open>\<open>received_mut\<close>: let the caller change the received state.\<close>

definition received_mut :: "('s \<Rightarrow> 'o \<times> 's) \<Rightarrow> 's channel \<Rightarrow> 'o \<times> 's channel" where
  "received_mut f ch =
     (case f (ch_received ch) of (out, r) \<Rightarrow> (out, ch\<lparr>ch_received := r\<rparr>))"

section \<open>Fields an operation leaves alone\<close>

lemma acknowledge_frame [frame_simps]:
  "ch_id (acknowledge a ch) = ch_id ch"
  "ch_initial (acknowledge a ch) = ch_initial ch"
  "ch_current (acknowledge a ch) = ch_current ch"
  "ch_current_num (acknowledge a ch) = ch_current_num ch"
  "ch_received (acknowledge a ch) = ch_received ch"
  "ch_received_num (acknowledge a ch) = ch_received_num ch"
  "ch_sent_num (acknowledge a ch) = ch_sent_num ch"
  "ch_last_sent_ms (acknowledge a ch) = ch_last_sent_ms ch"
  "ch_max_sent (acknowledge a ch) = ch_max_sent ch"
  by (simp_all add: acknowledge_def)

lemma note_sent_frame [frame_simps]:
  "ch_id (note_sent i t ch) = ch_id ch"
  "ch_initial (note_sent i t ch) = ch_initial ch"
  "ch_current (note_sent i t ch) = ch_current ch"
  "ch_current_num (note_sent i t ch) = ch_current_num ch"
  "ch_sent_states (note_sent i t ch) = ch_sent_states ch"
  "ch_assumed (note_sent i t ch) = ch_assumed ch"
  "ch_received (note_sent i t ch) = ch_received ch"
  "ch_received_num (note_sent i t ch) = ch_received_num ch"
  "ch_max_sent (note_sent i t ch) = ch_max_sent ch"
  by (simp_all add: note_sent_def)

lemma received_mut_frame [frame_simps]:
  "ch_current (snd (received_mut f ch)) = ch_current ch"
  "ch_current_num (snd (received_mut f ch)) = ch_current_num ch"
  "ch_sent_states (snd (received_mut f ch)) = ch_sent_states ch"
  "ch_assumed (snd (received_mut f ch)) = ch_assumed ch"
  "ch_received_num (snd (received_mut f ch)) = ch_received_num ch"
  "ch_received (snd (received_mut f ch)) = snd (f (ch_received ch))"
  "fst (received_mut f ch) = fst (f (ch_received ch))"
  by (simp_all add: received_mut_def split: prod.splits)

lemma apply_ack_frame [frame_simps]:
  "ch_id (apply_ack ops i ch) = ch_id ch"
  "ch_initial (apply_ack ops i ch) = ch_initial ch"
  "ch_current_num (apply_ack ops i ch) = ch_current_num ch"
  "ch_assumed (apply_ack ops i ch) = ch_assumed (acknowledge (in_ack i) ch)"
  "ch_sent_states (apply_ack ops i ch) = ch_sent_states (acknowledge (in_ack i) ch)"
  "ch_current (apply_ack ops i ch) = release_through ops (ch_current ch)
       (min (in_throwaway i) (ch_assumed (acknowledge (in_ack i) ch)))"
  "ch_received (apply_ack ops i ch) = ch_received ch"
  "ch_received_num (apply_ack ops i ch) = ch_received_num ch"
  "ch_sent_num (apply_ack ops i ch) = ch_sent_num ch"
  "ch_last_sent_ms (apply_ack ops i ch) = ch_last_sent_ms ch"
  "ch_max_sent (apply_ack ops i ch) = ch_max_sent ch"
  by (simp_all add: apply_ack_def Let_def frame_simps)

text \<open>How an Instruction moves a channel: refused, rejected by the state, or applied.\<close>

lemma channel_apply_cases:
  assumes "channel_apply ops i ch = (r, ch')"
  obtains (stale) "in_old i \<noteq> ch_received_num ch" "r = Inr False" "ch' = apply_ack ops i ch"
  | (rejected) e s where "in_old i = ch_received_num ch" "r = Inl (State e)"
      "apply_diff ops (ch_received ch) (in_diff i) = (Inl e, s)"
      "ch' = (apply_ack ops i ch)\<lparr>ch_received := s\<rparr>"
  | (applied) s where "in_old i = ch_received_num ch"
      "apply_diff ops (ch_received ch) (in_diff i) = (Inr (), s)"
      "r = Inr (in_new i > ch_received_num ch)"
      "ch' = (apply_ack ops i ch)\<lparr>ch_received := s, ch_received_num := in_new i\<rparr>"
proof (cases "in_old i = ch_received_num ch")
  case False
  then show ?thesis
    using assms that(1) by (simp add: channel_apply_def frame_simps)
next
  case True
  obtain x s where d: "apply_diff ops (ch_received ch) (in_diff i) = (x, s)"
    by (cases "apply_diff ops (ch_received ch) (in_diff i)")
  show ?thesis
  proof (cases x)
    case (Inl e)
    with assms d True that(2) show ?thesis by (auto simp add: channel_apply_def frame_simps)
  next
    case (Inr u)
    with assms d True that(3) show ?thesis by (auto simp add: channel_apply_def frame_simps)
  qed
qed

lemma channel_apply_frame:
  assumes "channel_apply ops i ch = (r, ch')"
  shows "ch_id ch' = ch_id ch" "ch_initial ch' = ch_initial ch"
    "ch_current_num ch' = ch_current_num ch"
    "ch_assumed ch' = ch_assumed (acknowledge (in_ack i) ch)"
    "ch_sent_states ch' = ch_sent_states (acknowledge (in_ack i) ch)"
    "ch_current ch' = release_through ops (ch_current ch)
       (min (in_throwaway i) (ch_assumed (acknowledge (in_ack i) ch)))"
    "ch_max_sent ch' = ch_max_sent ch"
  using assms by (cases rule: channel_apply_cases; simp add: frame_simps)+

lemma instruction_with_simps [simp]:
  "in_old (instruction_with ch n d) = ch_assumed ch"
  "in_new (instruction_with ch n d) = n"
  "in_ack (instruction_with ch n d) = ch_received_num ch"
  "in_throwaway (instruction_with ch n d) = ch_received_num ch"
  "in_diff (instruction_with ch n d) = d"
  "in_channel (instruction_with ch n d) = ch_id ch"
  by (simp_all add: instruction_with_def)

lemma choose_step_cases:
  "choose_step ops base xs chosen = Some (n, d) \<Longrightarrow>
     chosen = Some (n, d) \<or>
     (\<exists>s. (n, s) \<in> set xs \<and> d = diff_from ops s base \<and> length d \<le> MAX_DIFF_LEN)"
proof (induction xs arbitrary: chosen)
  case Nil
  then show ?case by simp
next
  case (Cons x xs)
  obtain k s where x: "x = (k, s)" by (cases x)
  show ?case
  proof (cases "length (diff_from ops s base) > MAX_DIFF_LEN")
    case True
    with Cons.prems x show ?thesis by simp
  next
    case False
    with Cons.prems x have "choose_step ops base xs (Some (k, diff_from ops s base)) = Some (n, d)"
      by simp
    from Cons.IH [OF this] False x show ?thesis by fastforce
  qed
qed

text \<open>What an emitted Instruction is: a diff from the front of the history to a state of it,
  or to the current state.\<close>

lemma channel_instruction_cases:
  assumes "channel_instruction ops ch = Ret (Inr i)"
  obtains m base rest n s where
    "ch_sent_states ch = (m, base) # rest"
    "i = instruction_with ch n (diff_from ops s base)"
    "length (diff_from ops s base) \<le> MAX_DIFF_LEN"
    "(n = ch_current_num ch \<and> s = ch_current ch) \<or> (n, s) \<in> set rest"
proof (cases "ch_sent_states ch")
  case Nil
  with assms show ?thesis by (simp add: channel_instruction_def)
next
  case (Cons x rest)
  obtain m base where x: "x = (m, base)" by (cases x)
  show ?thesis
  proof (cases "length (diff_from ops (ch_current ch) base) \<le> MAX_DIFF_LEN")
    case True
    then show ?thesis
      using assms Cons x that [of m base rest "ch_current_num ch" "ch_current ch"]
      by (simp add: channel_instruction_def Let_def)
  next
    case False
    then obtain n d where c: "choose_step ops base rest None = Some (n, d)"
      and i: "i = instruction_with ch n d"
      using assms Cons x by (auto simp: channel_instruction_def Let_def split: option.splits)
    from choose_step_cases [OF c] obtain s where "(n, s) \<in> set rest" "d = diff_from ops s base"
      "length d \<le> MAX_DIFF_LEN" by auto
    then show ?thesis using that Cons x i by blast
  qed
qed

lemma advance_cases:
  assumes "advance change ch = (r, ch')"
  obtains (refused) e where "r = Inl e" "ch' = ch"
  | (advanced) s where "r = Inr ()" "change (ch_current ch) = (Inr (), s)"
      "length (ch_sent_states ch) < ch_max_sent ch"
      "ch' = ch\<lparr>ch_current := s, ch_current_num := ch_current_num ch + 1,
         ch_sent_states := ch_sent_states ch @ [(ch_current_num ch + 1, s)]\<rparr>"
  using assms
  by (auto simp: advance_def split: if_splits prod.splits sum.splits)

end
