(* ===== verification/Timing.thy ===== *)
theory Timing
  imports Prelude Complex_Main "HOL-Library.Log_Nat"
begin

text \<open>
  \<open>src/link/src/transport/timing.rs\<close>: the send intervals, liveness from silence, and the
  round-trip estimator.  An \<open>f64\<close> is the rational it stands for, and every arithmetic
  operation rounds its exact result to the nearest double, ties to even.  Infinities and NaN
  do not arise here: samples are 16-bit and every update is an average.
\<close>

section \<open>Constants\<close>

definition SEND_INTERVAL_MIN :: u64 where "SEND_INTERVAL_MIN = 20"
definition SEND_INTERVAL_MAX :: u64 where "SEND_INTERVAL_MAX = 250"
definition MIN_RTO :: u64 where "MIN_RTO = 50"
definition MAX_RTO :: u64 where "MAX_RTO = 1000"
definition HEARTBEAT :: u64 where "HEARTBEAT = 3000"
definition LIVE_WINDOW :: u64 where "LIVE_WINDOW = 3 * HEARTBEAT"
definition DEGRADED_WINDOW :: u64 where "DEGRADED_WINDOW = 60000"

lemmas timing_constants =
  SEND_INTERVAL_MIN_def SEND_INTERVAL_MAX_def MIN_RTO_def MAX_RTO_def HEARTBEAT_def
  LIVE_WINDOW_def DEGRADED_WINDOW_def

section \<open>Liveness\<close>

datatype liveness = Live | Degraded | Offline

definition from_silence :: "u64 \<Rightarrow> liveness" where
  "from_silence silence_ms =
     (if silence_ms \<le> LIVE_WINDOW then Live
      else if silence_ms \<le> DEGRADED_WINDOW then Degraded else Offline)"

text \<open>The derived order of the enum.\<close>

instantiation liveness :: linorder
begin

definition less_eq_liveness :: "liveness \<Rightarrow> liveness \<Rightarrow> bool" where
  "less_eq_liveness a b \<longleftrightarrow> a = Live \<or> b = Offline \<or> a = b"

definition less_liveness :: "liveness \<Rightarrow> liveness \<Rightarrow> bool" where
  "less_liveness a b \<longleftrightarrow> a \<le> b \<and> a \<noteq> (b :: liveness)"

instance
proof
  fix x y z :: liveness
  show "(x < y) = (x \<le> y \<and> \<not> y \<le> x)" "x \<le> x" "x \<le> y \<or> y \<le> x"
    by (cases x; cases y; simp add: less_eq_liveness_def less_liveness_def)+
  show "x \<le> y \<Longrightarrow> y \<le> z \<Longrightarrow> x \<le> z"
    by (cases x; cases y; cases z; simp add: less_eq_liveness_def)
  show "x \<le> y \<Longrightarrow> y \<le> x \<Longrightarrow> x = y"
    by (cases x; cases y; simp add: less_eq_liveness_def)
qed

end

lemma from_silence_mono: "s \<le> t \<Longrightarrow> from_silence s \<le> from_silence t"
  by (auto simp: from_silence_def less_eq_liveness_def)

section \<open>Doubles\<close>

type_synonym f64 = rat

text \<open>The exponent of the leading binary digit of a positive rational.\<close>

definition binade :: "rat \<Rightarrow> int" where
  "binade x =
     (let (a, b) = quotient_of x; e = bitlen a - bitlen b
      in if 2 powi e \<le> x then e else e - 1)"

definition round_half_even :: "rat \<Rightarrow> int" where
  "round_half_even x =
     (let n = \<lfloor>x\<rfloor>; r = x - of_int n
      in if r < 1 / 2 then n else if 1 / 2 < r then n + 1 else if even n then n else n + 1)"

text \<open>53 significant bits, and no bit below 2 to the -1074.\<close>

definition round_f64 :: "rat \<Rightarrow> f64" where
  "round_f64 x =
     (if x = 0 then 0
      else let q = max (binade \<bar>x\<bar> - 52) (- 1074)
           in of_int (round_half_even (x / 2 powi q)) * 2 powi q)"

definition f64_add :: "f64 \<Rightarrow> f64 \<Rightarrow> f64" where "f64_add x y = round_f64 (x + y)"
definition f64_sub :: "f64 \<Rightarrow> f64 \<Rightarrow> f64" where "f64_sub x y = round_f64 (x - y)"
definition f64_mul :: "f64 \<Rightarrow> f64 \<Rightarrow> f64" where "f64_mul x y = round_f64 (x * y)"
definition f64_div :: "f64 \<Rightarrow> f64 \<Rightarrow> f64" where "f64_div x y = round_f64 (x / y)"

definition f64_of_u64 :: "u64 \<Rightarrow> f64" where
  "f64_of_u64 n = round_f64 (of_nat (unat n))"

text \<open>\<open>f64::round\<close>: halves away from zero; \<open>as u64\<close> saturates.\<close>

definition f64_round :: "f64 \<Rightarrow> f64" where
  "f64_round x = (if x < 0 then - of_int \<lfloor>- x + 1 / 2\<rfloor> else of_int \<lfloor>x + 1 / 2\<rfloor>)"

definition f64_as_u64 :: "f64 \<Rightarrow> u64" where
  "f64_as_u64 x = (if x \<le> 0 then 0 else if 2 ^ 64 \<le> x then - 1 else word_of_int \<lfloor>x\<rfloor>)"

section \<open>The estimator\<close>

record rtt_estimator =
  re_srtt :: "f64 option"
  re_rttvar :: f64

definition rtt_new :: rtt_estimator where
  "rtt_new = \<lparr>re_srtt = None, re_rttvar = 0\<rparr>"

definition rtt_sample :: "u64 \<Rightarrow> rtt_estimator \<Rightarrow> rtt_estimator" where
  "rtt_sample rtt_ms e =
     (let r = f64_of_u64 rtt_ms
      in case re_srtt e of
           None \<Rightarrow> e\<lparr>re_srtt := Some r, re_rttvar := f64_div r 2\<rparr>
         | Some srtt \<Rightarrow>
             e\<lparr>re_rttvar := f64_add (f64_mul (3 / 4) (re_rttvar e)) (f64_mul (1 / 4) \<bar>f64_sub srtt r\<bar>),
               re_srtt := Some (f64_add (f64_mul (7 / 8) srtt) (f64_mul (1 / 8) r))\<rparr>)"

definition u64_clamp :: "u64 \<Rightarrow> u64 \<Rightarrow> u64 \<Rightarrow> u64" where
  "u64_clamp lo hi x = (if x < lo then lo else if hi < x then hi else x)"

definition rto :: "rtt_estimator \<Rightarrow> u64" where
  "rto e =
     (case re_srtt e of
        None \<Rightarrow> MAX_RTO
      | Some srtt \<Rightarrow>
          (let raw = f64_add srtt (f64_mul 4 (re_rttvar e))
           in u64_clamp MIN_RTO MAX_RTO (f64_as_u64 (max (f64_round raw) 0))))"

lemma rto_bounds: "MIN_RTO \<le> rto e \<and> rto e \<le> MAX_RTO"
  by (auto simp: rto_def u64_clamp_def timing_constants Let_def not_less split: option.splits)

lemma rto_new [simp]: "rto rtt_new = MAX_RTO"
  by (simp add: rto_def rtt_new_def)

section \<open>Exact results\<close>

lemma bitlen_powr:
  "0 < (a :: int) \<Longrightarrow> 2 powi (bitlen a - 1) \<le> (of_int a :: rat) \<and> of_int a < (2 powi bitlen a :: rat)"
proof -
  assume a: "0 < a"
  then have b: "0 < bitlen a" using bitlen_eq_zero_iff [of a] bitlen_nonneg [of a] by linarith
  have "2 ^ nat (bitlen a - 1) \<le> a" "a < 2 ^ nat (bitlen a)"
    using bitlen_bounds [OF a] by auto
  then have "(2 :: rat) ^ nat (bitlen a - 1) \<le> of_int a" "of_int a < (2 :: rat) ^ nat (bitlen a)"
    by (metis of_int_le_iff of_int_numeral of_int_power, metis of_int_less_iff of_int_numeral of_int_power)
  then show ?thesis using b by (simp add: power_int_def)
qed

lemma binade_le:
  assumes "0 < x"
  shows "2 powi binade x \<le> x"
proof -
  obtain a b where ab: "quotient_of x = (a, b)" by (cases "quotient_of x")
  then have x: "x = of_int a / of_int b" and b: "0 < b"
    using quotient_of_div quotient_of_denom_pos by blast+
  then have a: "0 < a" using assms by (simp add: zero_less_divide_iff)
  let ?e = "bitlen a - bitlen b"
  have "(2 :: rat) powi (?e - 1) = 2 powi (bitlen a - 1) / 2 powi bitlen b"
    by (simp add: power_int_diff)
  also have "\<dots> \<le> of_int a / of_int b"
    using bitlen_powr [OF a] bitlen_powr [OF b] a b
    by (intro frac_le) (auto intro: less_imp_le)
  finally have "2 powi (?e - 1) \<le> x" by (simp add: x)
  then show ?thesis by (auto simp: binade_def ab Let_def)
qed

lemma round_half_even_int [simp]: "round_half_even (of_int n) = n"
  by (simp add: round_half_even_def)

text \<open>A dyadic number of at most 53 bits is a double.\<close>

lemma round_f64_exact:
  assumes x: "x = of_int m * 2 powi p" and m: "\<bar>m\<bar> < 2 ^ 53" and p: "- 1074 \<le> p"
  shows "round_f64 x = x"
proof (cases "m = 0")
  case False
  let ?q = "max (binade \<bar>x\<bar> - 52) (- 1074)"
  have nz: "0 < \<bar>x\<bar>" using False x by simp
  have "(of_int \<bar>m\<bar> :: rat) < 2 ^ 53" using m by (metis of_int_less_iff of_int_numeral of_int_power)
  then have "\<bar>x\<bar> < 2 ^ 53 * 2 powi p" by (simp add: x abs_mult)
  also have "\<dots> = 2 powi (53 + p)" by (simp add: power_int_add)
  finally have "(2 :: rat) powi binade \<bar>x\<bar> < 2 powi (53 + p)"
    using binade_le [OF nz] by (rule order.strict_trans1 [rotated])
  then have "binade \<bar>x\<bar> < 53 + p"
    by (meson linorder_not_less power_int_increasing rel_simps(51) one_le_numeral)
  then have q: "?q \<le> p" using p by simp
  have "x / 2 powi ?q = of_int m * (2 powi p / 2 powi ?q)" by (simp add: x)
  also have "2 powi p / 2 powi ?q = (2 :: rat) powi (p - ?q)" by (rule power_int_diff [symmetric]) simp
  also have "\<dots> = 2 ^ nat (p - ?q)" using q by (simp add: power_int_def)
  finally have e: "x / 2 powi ?q = of_int (m * 2 ^ nat (p - ?q))" by simp
  have "round_f64 x = of_int (round_half_even (x / 2 powi ?q)) * 2 powi ?q"
    using nz by (auto simp: round_f64_def Let_def)
  also have "\<dots> = (x / 2 powi ?q) * 2 powi ?q" by (simp only: e round_half_even_int)
  finally show ?thesis by simp
qed (simp add: x round_f64_def)

lemma round_f64_int: "\<bar>m\<bar> < 2 ^ 53 \<Longrightarrow> round_f64 (of_int m) = of_int m"
  using round_f64_exact [of "of_int m" m 0] by simp

lemma round_f64_eighth:
  assumes "\<bar>m\<bar> < 2 ^ 53"
  shows "round_f64 (of_int m / 8) = of_int m / 8" "round_f64 (of_int m / 2) = of_int m / 2"
proof -
  have "(2 :: rat) powi (- 3) = 1 / 8" "(2 :: rat) powi (- 1) = 1 / 2"
    by (simp_all add: power_int_minus_divide)
  then show "round_f64 (of_int m / 8) = of_int m / 8" "round_f64 (of_int m / 2) = of_int m / 2"
    using round_f64_exact [of "of_int m / 8" m "- 3"] round_f64_exact [of "of_int m / 2" m "- 1"] assms
    by simp_all
qed

lemma f64_of_u64_small: "unat r = n \<Longrightarrow> n < 2 ^ 48 \<Longrightarrow> f64_of_u64 r = of_nat n"
  using round_f64_int [of "int n"] by (simp add: f64_of_u64_def)

lemma rtt_first_sample:
  assumes "unat r = n" "n < 2 ^ 48"
  shows "rtt_sample r rtt_new = \<lparr>re_srtt = Some (of_nat n), re_rttvar = of_nat n / 2\<rparr>"
proof -
  have "f64_div (of_nat n) 2 = of_nat n / 2"
    using round_f64_eighth(2) [of "int n"] assms(2) by (simp add: f64_div_def)
  then show ?thesis
    unfolding rtt_sample_def rtt_new_def f64_of_u64_small [OF assms] by (simp only: Let_def) simp
qed

text \<open>A steady link: equal samples keep the smoothed time at exactly that value.\<close>

lemma rtt_steady_step:
  assumes r: "unat r = n" "n < 2 ^ 48" and s: "re_srtt e = Some (of_nat n)"
  shows "re_srtt (rtt_sample r e) = Some (of_nat n)"
proof -
  have m: "f64_mul (7 / 8) (of_nat n) = 7 * of_nat n / 8" "f64_mul (1 / 8) (of_nat n) = of_nat n / 8"
    using r(2) round_f64_eighth(1) [of "7 * int n"] round_f64_eighth(1) [of "int n"]
    by (simp_all add: f64_mul_def)
  have a: "f64_add (7 * of_nat n / 8) (of_nat n / 8) = of_nat n"
    using r(2) round_f64_int [of "int n"] by (simp add: f64_add_def flip: add_divide_distrib)
  show ?thesis
    unfolding rtt_sample_def f64_of_u64_small [OF r] s Let_def option.case m a by simp
qed

lemma rtt_steady:
  assumes "unat r = n" "n < 2 ^ 48"
  shows "re_srtt (((rtt_sample r) ^^ Suc k) rtt_new) = Some (of_nat n)"
  by (induction k) (simp_all add: rtt_first_sample [OF assms] rtt_steady_step [OF assms])

text \<open>After one sample of \<open>r\<close> milliseconds the timeout is three times that, clamped.\<close>

lemma f64_as_u64_nat: "n < 2 ^ 64 \<Longrightarrow> f64_as_u64 (of_nat n) = word_of_nat n"
proof -
  assume n: "n < 2 ^ 64"
  have "(of_nat n :: rat) < 2 ^ 64" using n by (metis of_nat_less_iff of_nat_numeral of_nat_power)
  then show ?thesis by (simp add: f64_as_u64_def)
qed

lemma rto_first_sample:
  assumes r: "unat r = n" "n < 2 ^ 16"
  shows "rto (rtt_sample r rtt_new) = u64_clamp MIN_RTO MAX_RTO (3 * r)"
proof -
  have n: "n < 2 ^ 48" using r(2) by simp
  have m: "f64_mul 4 (of_nat n / 2) = of_nat (2 * n)"
    using r(2) round_f64_int [of "2 * int n"] by (simp add: f64_mul_def)
  have a: "f64_add (of_nat n) (of_nat (2 * n)) = of_nat (3 * n)"
    using r(2) round_f64_int [of "3 * int n"] by (simp add: f64_add_def)
  have "\<lfloor>rat_of_nat (3 * n) + 1 / 2\<rfloor> = int (3 * n)" by linarith
  then have f: "f64_round (of_nat (3 * n)) = of_nat (3 * n)"
    by (simp add: f64_round_def del: of_nat_mult)
  have "word_of_nat (3 * n) = 3 * r" using r(1) by auto
  then have u: "f64_as_u64 (max (of_nat (3 * n)) 0) = 3 * r"
    using f64_as_u64_nat [of "3 * n"] r(2) by (simp del: of_nat_mult)
  show ?thesis
    by (simp only: rto_def rtt_first_sample [OF r(1) n] rtt_estimator.simps option.case Let_def m a f u)
qed

end
