(* ===== verification/Session.thy ===== *)
theory Session
  imports Channel Timing
begin

text \<open>
  \<open>src/link/src/transport/mod.rs\<close>: one endpoint's session with one peer.  Each operation takes
  the session and returns it updated; where the code returns early with an error, the session
  carries what was already changed.  The random epoch, the sequence source and the primitives
  are arguments; \<open>next\<close> is \<open>SeqSource::next_seq\<close> on the source's own state.
\<close>

section \<open>State\<close>

definition TIMESTAMP_MAX_AGE :: u64 where "TIMESTAMP_MAX_AGE = 1000"
definition CHANNEL_COUNT :: nat where "CHANNEL_COUNT = 2"

record session =
  se_config :: session_config
  se_messages :: "message_queue channel"
  se_screen :: "row_grid channel"
  se_rtt :: rtt_estimator
  se_last_send :: "u64 option"
  se_last_heard :: "u64 option"
  se_started :: u64
  se_peer_ts :: "(u16 \<times> u64) option"
  se_ack :: "bool list"
  se_rotate :: bool
  se_local_epoch :: u64
  se_peer_epoch :: "u64 option"
  se_retired :: "u64 list"
  se_highest :: "u64 option"
  se_advanced :: bool

definition session_new :: "session_config \<Rightarrow> u64 \<Rightarrow> u64 \<Rightarrow> session" where
  "session_new config now_ms epoch =
     \<lparr>se_config = config,
      se_messages = channel_new CHANNEL_MESSAGES (mq_new (sc_queue_limits config)) (sc_max_sent_states config),
      se_screen = channel_new CHANNEL_SCREEN rg_new (sc_max_sent_states config),
      se_rtt = rtt_new, se_last_send = None, se_last_heard = None, se_started = now_ms,
      se_peer_ts = None, se_ack = replicate CHANNEL_COUNT False, se_rotate = False,
      se_local_epoch = epoch, se_peer_epoch = None, se_retired = [], se_highest = None,
      se_advanced = False\<rparr>"

section \<open>Queries\<close>

definition session_rto :: "session \<Rightarrow> u64" where
  "session_rto s = rto (se_rtt s)"

definition session_liveness :: "session \<Rightarrow> u64 \<Rightarrow> liveness" where
  "session_liveness s now_ms =
     from_silence (sat_sub now_ms (case se_last_heard s of None \<Rightarrow> se_started s | Some t \<Rightarrow> t))"

definition has_pending_state :: "session \<Rightarrow> bool" where
  "has_pending_state s \<longleftrightarrow> is_pending (se_messages s) \<or> is_pending (se_screen s)"

definition pending_ack_channel :: "session \<Rightarrow> u8 option" where
  "pending_ack_channel s =
     (case find (\<lambda>i. se_ack s ! i) [0..<length (se_ack s)] of
        None \<Rightarrow> None | Some i \<Rightarrow> Some (word_of_nat i))"

definition floor_elapsed :: "session \<Rightarrow> u64 \<Rightarrow> bool" where
  "floor_elapsed s now_ms =
     (case se_last_send s of None \<Rightarrow> True | Some t \<Rightarrow> now_ms \<ge> t + SEND_INTERVAL_MIN)"

definition heartbeat_due :: "session \<Rightarrow> u64 \<Rightarrow> bool" where
  "heartbeat_due s now_ms =
     (case se_last_send s of None \<Rightarrow> True | Some t \<Rightarrow> now_ms \<ge> t + HEARTBEAT)"

definition channel_timing :: "session \<Rightarrow> u8 \<Rightarrow> bool \<times> bool \<times> u64 option" where
  "channel_timing s i =
     (if i = CHANNEL_SCREEN
      then (is_pending (se_screen s), has_unsent_change (se_screen s), ch_last_sent_ms (se_screen s))
      else (is_pending (se_messages s), has_unsent_change (se_messages s), ch_last_sent_ms (se_messages s)))"

definition channel_due_at :: "session \<Rightarrow> u8 \<Rightarrow> u64 option" where
  "channel_due_at s i =
     (case channel_timing s i of (pending, unsent, last_sent) \<Rightarrow>
        if \<not> pending then None
        else if unsent then
          Some (case se_last_send s of None \<Rightarrow> 0 | Some t \<Rightarrow> t + SEND_INTERVAL_MIN)
        else Some (case last_sent of None \<Rightarrow> 0 | Some t \<Rightarrow> t + session_rto s))"

definition channel_due :: "session \<Rightarrow> u8 \<Rightarrow> u64 \<Rightarrow> bool" where
  "channel_due s i now_ms = (case channel_due_at s i of None \<Rightarrow> False | Some t \<Rightarrow> now_ms \<ge> t)"

text \<open>The earlier of a deadline and an optional other one.\<close>

fun due_min :: "u64 option \<Rightarrow> u64 \<Rightarrow> u64" where
  "due_min None due = due"
| "due_min (Some t) due = min due t"

definition next_send_ms :: "session \<Rightarrow> u64 \<Rightarrow> u64" where
  "next_send_ms s now_ms =
     (let after = (\<lambda>d. case se_last_send s of None \<Rightarrow> now_ms | Some t \<Rightarrow> t + d);
          floor_at = after SEND_INTERVAL_MIN;
          due0 = after HEARTBEAT;
          due1 = (if pending_ack_channel s \<noteq> None then min due0 (after SEND_INTERVAL_MAX) else due0);
          due2 = due_min (channel_due_at s CHANNEL_MESSAGES) due1;
          due3 = due_min (channel_due_at s CHANNEL_SCREEN) due2
      in max due3 floor_at)"

section \<open>The application's side\<close>

definition queue_message :: "bytes \<Rightarrow> session \<Rightarrow> (transport_error + unit) \<times> session" where
  "queue_message body s =
     (if length body > MAX_MESSAGE_BYTES then (Inl (DiffTooLarge (length body) MAX_MESSAGE_BYTES), s)
      else (case advance (mq_push body) (se_messages s) of (r, ch) \<Rightarrow> (r, s\<lparr>se_messages := ch\<rparr>)))"

definition take_messages :: "session \<Rightarrow> bytes list \<times> session" where
  "take_messages s =
     (case received_mut mq_drain (se_messages s) of (taken, ch) \<Rightarrow>
        let s1 = s\<lparr>se_messages := ch\<rparr>
        in (taken, if taken = [] then s1
                   else s1\<lparr>se_ack := (se_ack s1)[unat CHANNEL_MESSAGES := True]\<rparr>))"

definition set_screen :: "bytes list \<Rightarrow> session \<Rightarrow> (transport_error + unit) \<times> session" where
  "set_screen rows s =
     (let next = rg_set_rows rows (ch_current (se_screen s));
          size = length (rg_diff_from next (ch_current (se_screen s)))
      in if size > MAX_DIFF_LEN then (Inl (DiffTooLarge size MAX_DIFF_LEN), s)
         else (case advance (\<lambda>g. (Inr (), rg_set_rows rows g)) (se_screen s) of
                 (r, ch) \<Rightarrow> (r, s\<lparr>se_screen := ch\<rparr>)))"

definition session_screen :: "session \<Rightarrow> row_grid" where
  "session_screen s = ch_received (se_screen s)"

section \<open>Sending\<close>

definition take_reply_ts :: "u64 \<Rightarrow> session \<Rightarrow> u16 \<times> session" where
  "take_reply_ts now_ms s =
     (let s' = s\<lparr>se_peer_ts := None\<rparr>
      in case se_peer_ts s of
           None \<Rightarrow> (0, s')
         | Some (ts, t) \<Rightarrow>
             if sat_sub now_ms t < TIMESTAMP_MAX_AGE
             then (let held = ucast (now_ms - t); reply = ts + held
                   in (if reply = 0 then 1 else reply, s'))
             else (0, s'))"

definition session_instruction :: "u8 \<Rightarrow> session \<Rightarrow> (transport_error + instruction) outcome" where
  "session_instruction i s =
     (if i = CHANNEL_SCREEN then channel_instruction row_grid_ssp (se_screen s)
      else channel_instruction message_queue_ssp (se_messages s))"

definition session_note_sent :: "u8 \<Rightarrow> instruction \<Rightarrow> u64 \<Rightarrow> session \<Rightarrow> session" where
  "session_note_sent i ins now_ms s =
     (let s1 = (if i = CHANNEL_SCREEN then s\<lparr>se_screen := note_sent ins now_ms (se_screen s)\<rparr>
                else s\<lparr>se_messages := note_sent ins now_ms (se_messages s)\<rparr>)
      in s1\<lparr>se_last_send := Some now_ms,
            se_ack := (se_ack s1)[min (unat i) (CHANNEL_COUNT - 1) := False]\<rparr>)"

text \<open>The header and the sealed packet of one datagram.\<close>

definition datagram_header :: "session \<Rightarrow> u64 \<Rightarrow> bool \<Rightarrow> outer_header" where
  "datagram_header s full_seq heartbeat =
     (let h = oh_with_epoch (se_local_epoch s)
                (oh_new (sc_node_id (se_config s)) (sc_peer_node_id (se_config s)) full_seq)
      in if heartbeat then oh_heartbeat h else h)"

definition datagram_bytes :: "crypto \<Rightarrow> session_config \<Rightarrow> outer_header \<Rightarrow> bytes \<Rightarrow> bytes" where
  "datagram_bytes c config h plaintext =
     oh_encode c (sc_forwarder_key config) h
       @ seal c (sc_pair_key config) (oh_seq h) (signed_bytes h) plaintext"

definition build ::
  "crypto \<Rightarrow> ('q \<Rightarrow> (key_error + u64) \<times> 'q) \<Rightarrow> u8 \<Rightarrow> u64 \<Rightarrow> bool \<Rightarrow> session \<Rightarrow> 'q \<Rightarrow>
   ((transport_error + bytes) \<times> session \<times> 'q) outcome" where
  "build c next i now_ms heartbeat s q =
     bind_outcome (session_instruction i s) (\<lambda>r. case r of
         Inl e \<Rightarrow> Ret (Inl e, s, q)
       | Inr ins \<Rightarrow>
           (let (reply, s1) = take_reply_ts now_ms s;
                pkt = \<lparr>pk_send_ts = timestamp16 now_ms, pk_reply_ts = reply, pk_instruction = ins\<rparr>
            in case packet_encode pkt of
                 Inl e \<Rightarrow> Ret (Inl (Packet e), s1, q)
               | Inr plaintext \<Rightarrow>
                   (case next q of
                      (Inl e, q1) \<Rightarrow> Ret (Inl (Key e), s1, q1)
                    | (Inr n, q1) \<Rightarrow>
                        (let full_seq = n OR direction_bit (sc_role (se_config s1));
                             d = datagram_bytes c (se_config s1) (datagram_header s1 full_seq heartbeat) plaintext
                         in if length d > MAX_DATAGRAM then Panic
                            else Ret (Inr d, session_note_sent i ins now_ms s1, q1)))))"

fun build_all ::
  "crypto \<Rightarrow> ('q \<Rightarrow> (key_error + u64) \<times> 'q) \<Rightarrow> u8 list \<Rightarrow> u64 \<Rightarrow> bytes list \<Rightarrow> session \<Rightarrow> 'q \<Rightarrow>
   ((transport_error + bytes list) \<times> session \<times> 'q) outcome" where
  "build_all c next [] now_ms out s q = Ret (Inr out, s, q)"
| "build_all c next (i # due) now_ms out s q =
     bind_outcome (build c next i now_ms False s q) (\<lambda>(r, s1, q1). case r of
         Inl e \<Rightarrow> Ret (Inl e, s1, q1)
       | Inr d \<Rightarrow> build_all c next due now_ms (out @ [d]) s1 q1)"

definition send_order :: "session \<Rightarrow> u8 list" where
  "send_order s =
     (if se_rotate s then [CHANNEL_SCREEN, CHANNEL_MESSAGES] else [CHANNEL_MESSAGES, CHANNEL_SCREEN])"

text \<open>What goes out when no channel is due: a bare acknowledgement, or a heartbeat.\<close>

definition build_idle ::
  "crypto \<Rightarrow> ('q \<Rightarrow> (key_error + u64) \<times> 'q) \<Rightarrow> u64 \<Rightarrow> session \<Rightarrow> 'q \<Rightarrow>
   ((transport_error + bytes list) \<times> session \<times> 'q) outcome" where
  "build_idle c next now_ms s q =
     (case pending_ack_channel s of
        Some i \<Rightarrow>
          bind_outcome (build c next i now_ms False s q) (\<lambda>(r, s1, q1).
            Ret (map_sum id (\<lambda>d. [d]) r, s1, q1))
      | None \<Rightarrow>
          if heartbeat_due s now_ms then
            bind_outcome (build c next CHANNEL_MESSAGES now_ms True s q) (\<lambda>(r, s1, q1).
              Ret (map_sum id (\<lambda>d. [d]) r, s1, q1))
          else Ret (Inr [], s, q))"

definition outgoing ::
  "crypto \<Rightarrow> ('q \<Rightarrow> (key_error + u64) \<times> 'q) \<Rightarrow> u64 \<Rightarrow> session \<Rightarrow> 'q \<Rightarrow>
   ((transport_error + bytes list) \<times> session \<times> 'q) outcome" where
  "outgoing c next now_ms s q =
     (if \<not> floor_elapsed s now_ms then Ret (Inr [], s, q)
      else
        let due = filter (\<lambda>i. channel_due s i now_ms) (send_order s)
        in bind_outcome (build_all c next due now_ms [] s q) (\<lambda>(r, s1, q1). case r of
             Inl e \<Rightarrow> Ret (Inl e, s1, q1)
           | Inr out \<Rightarrow>
               (let s2 = s1\<lparr>se_rotate := \<not> se_rotate s1\<rparr>
                in if out = [] then build_idle c next now_ms s2 q1 else Ret (Inr out, s2, q1))))"

section \<open>Receiving\<close>

text \<open>Everything that may refuse a datagram before the session is touched.\<close>

definition open_datagram ::
  "crypto \<Rightarrow> session_config \<Rightarrow> bytes \<Rightarrow> transport_error + (outer_header \<times> packet)" where
  "open_datagram c config d =
     (case oh_decode d of
        Inl e \<Rightarrow> Inl (Header e)
      | Inr h \<Rightarrow>
          if oh_dst h \<noteq> sc_node_id config then Inl (Misaddressed (oh_dst h) (sc_node_id config))
          else if oh_src h \<noteq> sc_peer_node_id config
          then Inl (Misaddressed (oh_src h) (sc_peer_node_id config))
          else
            (case open_payload c (sc_pair_key config) (oh_seq h) (signed_bytes h) (drop HEADER_LEN d) of
               Inl e \<Rightarrow> Inl (Crypto e)
             | Inr plaintext \<Rightarrow>
                 (case packet_decode plaintext of
                    Inl e \<Rightarrow> Inl (Packet e)
                  | Inr p \<Rightarrow> Inr (h, p))))"

text \<open>A changed epoch retires the old one and rebases both channels.\<close>

definition accept_epoch :: "u64 \<Rightarrow> session \<Rightarrow> session outcome" where
  "accept_epoch epoch s =
     (case se_peer_epoch s of
        Some old \<Rightarrow>
          if old \<noteq> epoch then
            (let pushed = se_retired s @ [old];
                 retired = (if length pushed > 8 then tl pushed else pushed)
             in bind_outcome (reset_peer message_queue_ssp (se_messages s)) (\<lambda>m.
                bind_outcome (reset_peer row_grid_ssp (se_screen s)) (\<lambda>g.
                Ret (s\<lparr>se_retired := retired, se_messages := m, se_screen := g,
                       se_ack := replicate CHANNEL_COUNT False, se_peer_epoch := Some epoch\<rparr>))))
          else Ret (s\<lparr>se_peer_epoch := Some epoch\<rparr>)
      | None \<Rightarrow> Ret (s\<lparr>se_peer_epoch := Some epoch\<rparr>))"

definition note_heard :: "outer_header \<Rightarrow> packet \<Rightarrow> u64 \<Rightarrow> session \<Rightarrow> session" where
  "note_heard h p now_ms s =
     (let fresh = (case se_highest s of None \<Rightarrow> True | Some seen \<Rightarrow> oh_seq h > seen);
          s1 = s\<lparr>se_advanced := fresh,
                 se_highest := (if fresh then Some (oh_seq h) else se_highest s),
                 se_last_heard := Some now_ms, se_peer_ts := Some (pk_send_ts p, now_ms)\<rparr>
      in if pk_reply_ts p \<noteq> 0
         then s1\<lparr>se_rtt := rtt_sample (ucast (elapsed16 now_ms (pk_reply_ts p))) (se_rtt s1)\<rparr>
         else s1)"

definition apply_instruction :: "instruction \<Rightarrow> session \<Rightarrow> (transport_error + bool) \<times> session" where
  "apply_instruction ins s =
     (let (r, s1) =
        (if in_channel ins = CHANNEL_MESSAGES
         then (case channel_apply message_queue_ssp ins (se_messages s) of
                 (r, ch) \<Rightarrow> (r, s\<lparr>se_messages := ch\<rparr>))
         else if in_channel ins = CHANNEL_SCREEN
         then (case channel_apply row_grid_ssp ins (se_screen s) of
                 (r, ch) \<Rightarrow> (r, s\<lparr>se_screen := ch\<rparr>))
         else (Inr False, s))
      in case r of
           Inl e \<Rightarrow> (Inl e, s1)
         | Inr applied \<Rightarrow>
             (Inr applied,
              if (applied \<or> in_new ins \<noteq> in_old ins) \<and> unat (in_channel ins) < CHANNEL_COUNT
              then s1\<lparr>se_ack := (se_ack s1)[unat (in_channel ins) := True]\<rparr> else s1))"

definition handle_datagram ::
  "crypto \<Rightarrow> bytes \<Rightarrow> u64 \<Rightarrow> session \<Rightarrow> ((transport_error + bool) \<times> session) outcome" where
  "handle_datagram c d now_ms s =
     (case open_datagram c (se_config s) d of
        Inl e \<Rightarrow> Ret (Inl e, s)
      | Inr (h, p) \<Rightarrow>
          if oh_epoch h \<in> set (se_retired s) then Ret (Inr False, s)
          else bind_outcome (accept_epoch (oh_epoch h) s) (\<lambda>s1.
                 Ret (apply_instruction (pk_instruction p) (note_heard h p now_ms s1))))"

section \<open>Status\<close>

record session_status =
  ss_liveness :: liveness
  ss_srtt_ms :: "f64 option"
  ss_rto_ms :: u64
  ss_pending :: bool

definition session_status_of :: "session \<Rightarrow> u64 \<Rightarrow> session_status" where
  "session_status_of s now_ms =
     \<lparr>ss_liveness = session_liveness s now_ms, ss_srtt_ms = re_srtt (se_rtt s),
      ss_rto_ms = session_rto s, ss_pending = has_pending_state s\<rparr>"

end
