(* ===== verification/SessionFacts.thy ===== *)
theory SessionFacts
  imports Session
begin

text \<open>
  Facts about one session: datagrams fit the budget and open at the peer to what was packed,
  a refused datagram changes nothing, no operation panics, and the send policy's timing.
\<close>

section \<open>Datagrams\<close>

definition wf_config :: "session_config \<Rightarrow> bool" where
  "wf_config config \<longleftrightarrow> wf_id (sc_node_id config) \<and> wf_id (sc_peer_node_id config)"

lemma datagram_header_sel [simp]:
  "oh_src (datagram_header s n hb) = sc_node_id (se_config s)"
  "oh_dst (datagram_header s n hb) = sc_peer_node_id (se_config s)"
  "oh_seq (datagram_header s n hb) = n"
  "oh_epoch (datagram_header s n hb) = se_local_epoch s"
  by (simp_all add: datagram_header_def Let_def oh_heartbeat_def oh_with_epoch_def oh_new_def)

lemma datagram_header_wf: "wf_config (se_config s) \<Longrightarrow> wf_header (datagram_header s n hb)"
  by (simp add: wf_header_def wf_config_def)
    (simp add: datagram_header_def Let_def oh_heartbeat_def oh_with_epoch_def oh_new_def)

lemma length_datagram_bytes:
  assumes "aead_laws c" "digest_laws c" "wf_header h" "packet_encode p = Inr pt"
  shows "length (datagram_bytes c config h pt) = HEADER_LEN + length pt + AEAD_OVERHEAD"
    "length (datagram_bytes c config h pt) \<le> MAX_DATAGRAM"
proof -
  show l: "length (datagram_bytes c config h pt) = HEADER_LEN + length pt + AEAD_OVERHEAD"
    using length_oh_encode [OF assms(3,2)] length_seal [OF assms(1)] by (simp add: datagram_bytes_def)
  show "length (datagram_bytes c config h pt) \<le> MAX_DATAGRAM"
    using packet_encode_length(2) [OF assms(4)] l
    by (simp add: MAX_PLAINTEXT_def MAX_DATAGRAM_def AEAD_OVERHEAD_def)
qed

text \<open>What one endpoint packs is what the other unpacks.\<close>

lemma open_datagram_bytes:
  assumes laws: "aead_laws c" "digest_laws c" and h: "wf_header h" and p: "packet_encode p = Inr pt"
    and to: "oh_dst h = sc_node_id config'" "oh_src h = sc_peer_node_id config'"
    and key: "sc_pair_key config' = sc_pair_key config"
  shows "open_datagram c config' (datagram_bytes c config h pt) = Inr (h, p)"
proof -
  let ?ct = "seal c (sc_pair_key config) (oh_seq h) (signed_bytes h) pt"
  let ?tag = "tag_for c (sc_forwarder_key config) (signed_bytes h)"
  have d: "datagram_bytes c config h pt = signed_bytes h @ ?tag @ ?ct"
    by (simp add: datagram_bytes_def oh_encode_def)
  have "oh_decode (signed_bytes h @ ?tag @ ?ct) = Inr h"
    using length_tag_for [OF laws(2)] by (intro oh_decode_signed [OF h]) simp
  moreover have "drop HEADER_LEN (signed_bytes h @ ?tag @ ?ct) = ?ct"
    using length_signed_bytes [OF h] length_tag_for [OF laws(2)] by simp
  ultimately show ?thesis
    using to key laws(1) packet_decode_encode [OF p] by (simp add: open_datagram_def d)
qed

text \<open>Whatever opens was sealed under the pair key for exactly this header: only the 16 bytes
  of the forwarder's tag are not fixed by it.\<close>

lemma open_datagram_sealed:
  assumes op: "open_datagram c config d = Inr (h, p)" and laws: "aead_laws c"
  shows "oh_dst h = sc_node_id config" "oh_src h = sc_peer_node_id config" "wf_header h"
    "\<exists>tag. length tag = TAG_LEN \<and>
       d = signed_bytes h @ tag @ seal c (sc_pair_key config) (oh_seq h) (signed_bytes h)
             (u16_be (pk_send_ts p) @ u16_be (pk_reply_ts p) @ instruction_body (pk_instruction p))"
proof -
  obtain pt where h: "oh_decode d = Inr h"
    and to: "oh_dst h = sc_node_id config" "oh_src h = sc_peer_node_id config"
    and ct: "open_payload c (sc_pair_key config) (oh_seq h) (signed_bytes h) (drop HEADER_LEN d) = Inr pt"
    and p: "packet_decode pt = Inr p"
    using op by (auto simp: open_datagram_def split: sum.splits if_splits prod.splits)
  show "oh_dst h = sc_node_id config" "oh_src h = sc_peer_node_id config" by (fact to)+
  show "wf_header h" by (rule oh_decode_wf [OF h])
  have l: "HEADER_LEN \<le> length d" using h by (auto simp: oh_decode_def split: if_splits)
  have "drop 50 d = take 16 (drop 50 d) @ drop 16 (drop 50 d)"
    by (rule append_take_drop_id [symmetric])
  then have "d = take 50 d @ take 16 (drop 50 d) @ drop 66 d"
    using append_take_drop_id [of 50 d] by simp
  moreover have "take 50 d = signed_bytes h" using oh_decode_canonical [OF h] by simp
  moreover have "drop 66 d = seal c (sc_pair_key config) (oh_seq h) (signed_bytes h) pt"
    using open_only_sealed [OF laws ct] by simp
  moreover have "length (take 16 (drop 50 d)) = TAG_LEN" using l by simp
  ultimately show "\<exists>tag. length tag = TAG_LEN \<and>
       d = signed_bytes h @ tag @ seal c (sc_pair_key config) (oh_seq h) (signed_bytes h)
             (u16_be (pk_send_ts p) @ u16_be (pk_reply_ts p) @ instruction_body (pk_instruction p))"
    using packet_decode_canonical [OF p] by metis
qed

section \<open>What building a datagram does\<close>

lemma take_reply_ts_frame [frame_simps]:
  "snd (take_reply_ts now s) = s\<lparr>se_peer_ts := None\<rparr>"
  by (auto simp: take_reply_ts_def Let_def split: option.splits)

lemma instruction_diff_bound:
  "channel_instruction ops ch = Ret (Inr ins) \<Longrightarrow> length (in_diff ins) \<le> MAX_DIFF_LEN"
  by (erule channel_instruction_cases) simp

lemma session_instruction_bound:
  "session_instruction i s = Ret (Inr ins) \<Longrightarrow> length (in_diff ins) \<le> MAX_DIFF_LEN"
  by (auto simp: session_instruction_def instruction_diff_bound split: if_splits)

lemma build_cases:
  assumes b: "build c nxt i now hb s q = Ret (r, s', q')"
  obtains (no_instruction) e where "session_instruction i s = Ret (Inl e)" "r = Inl e" "s' = s" "q' = q"
  | (no_sequence) ins e where "session_instruction i s = Ret (Inr ins)" "nxt q = (Inl e, q')"
      "r = Inl (Key e)" "s' = s\<lparr>se_peer_ts := None\<rparr>"
  | (built) ins n reply pt where "session_instruction i s = Ret (Inr ins)" "nxt q = (Inr n, q')"
      "packet_encode \<lparr>pk_send_ts = timestamp16 now, pk_reply_ts = reply, pk_instruction = ins\<rparr> = Inr pt"
      "reply = fst (take_reply_ts now s)"
      "r = Inr (datagram_bytes c (se_config s)
             (datagram_header s (n OR direction_bit (sc_role (se_config s))) hb) pt)"
      "s' = session_note_sent i ins now (s\<lparr>se_peer_ts := None\<rparr>)"
proof -
  obtain x where x: "session_instruction i s = Ret x"
    using b by (cases "session_instruction i s") (auto simp: build_def)
  show ?thesis
  proof (cases x)
    case (Inl e)
    then have "r = Inl e \<and> s' = s \<and> q' = q" using b x by (auto simp: build_def)
    then show ?thesis using x Inl by (intro no_instruction) simp_all
  next
    case (Inr ins)
    obtain reply where rep: "take_reply_ts now s = (reply, s\<lparr>se_peer_ts := None\<rparr>)"
      using take_reply_ts_frame [of now s] by (cases "take_reply_ts now s") simp
    let ?pkt = "\<lparr>pk_send_ts = timestamp16 now, pk_reply_ts = reply, pk_instruction = ins\<rparr>"
    obtain pt where pt: "packet_encode ?pkt = Inr pt"
      using packet_encode_ok [of ?pkt] session_instruction_bound x Inr by auto
    obtain y q1 where y: "nxt q = (y, q1)" by (cases "nxt q")
    have hdr: "datagram_header (s\<lparr>se_peer_ts := None\<rparr>) n hb = datagram_header s n hb" for n
      by (simp add: datagram_header_def)
    show ?thesis
    proof (cases y)
      case (Inl e)
      then have "r = Inl (Key e) \<and> s' = s\<lparr>se_peer_ts := None\<rparr> \<and> q' = q1"
        using b x Inr rep pt y by (simp add: build_def \<open>x = Inr ins\<close>)
      then show ?thesis using x \<open>x = Inr ins\<close> y Inl by (intro no_sequence) simp_all
    next
      case (Inr n)
      then have "r = Inr (datagram_bytes c (se_config s)
             (datagram_header s (n OR direction_bit (sc_role (se_config s))) hb) pt) \<and>
          s' = session_note_sent i ins now (s\<lparr>se_peer_ts := None\<rparr>) \<and> q' = q1"
        using b x rep pt y by (simp add: build_def \<open>x = Inr ins\<close> Let_def hdr split: if_splits)
      then show ?thesis
        using x \<open>x = Inr ins\<close> y Inr rep pt by (intro built [of ins n reply pt]) simp_all
    qed
  qed
qed

text \<open>A session no operation panics on.\<close>

definition session_ok :: "session \<Rightarrow> bool" where
  "session_ok s \<longleftrightarrow>
     ch_id (se_messages s) = CHANNEL_MESSAGES \<and> ch_id (se_screen s) = CHANNEL_SCREEN \<and>
     ch_sent_states (se_messages s) \<noteq> [] \<and> ch_sent_states (se_screen s) \<noteq> [] \<and>
     length (se_ack s) = CHANNEL_COUNT \<and> wf_config (se_config s)"

lemma channel_instruction_no_panic:
  "ch_sent_states ch \<noteq> [] \<Longrightarrow> channel_instruction ops ch \<noteq> Panic"
  by (auto simp: channel_instruction_def Let_def split: list.splits option.splits)

lemma session_instruction_no_panic: "session_ok s \<Longrightarrow> session_instruction i s \<noteq> Panic"
  by (simp add: session_instruction_def session_ok_def channel_instruction_no_panic)

lemma build_no_panic:
  assumes ok: "session_ok s" and laws: "aead_laws c" "digest_laws c"
  shows "build c nxt i now hb s q \<noteq> Panic"
proof (cases "session_instruction i s")
  case Panic
  then show ?thesis using session_instruction_no_panic [OF ok] by simp
next
  case (Ret x)
  have "\<not> MAX_DATAGRAM < length (datagram_bytes c (se_config s) (datagram_header (s\<lparr>se_peer_ts := None\<rparr>) n hb) pt)"
    if "packet_encode p = Inr pt" for p pt n
    using length_datagram_bytes(2) [OF laws datagram_header_wf that] ok
    by (simp add: session_ok_def not_less)
  moreover have "snd (take_reply_ts now s) = s\<lparr>se_peer_ts := None\<rparr>" by (simp add: frame_simps)
  ultimately show ?thesis
    using Ret by (auto simp: build_def Let_def split: sum.splits prod.splits)
qed

lemma session_note_sent_ok:
  "session_ok s \<Longrightarrow> session_ok (session_note_sent i ins now (s\<lparr>se_peer_ts := None\<rparr>))"
  by (simp add: session_ok_def session_note_sent_def Let_def frame_simps)

lemma build_ok:
  "build c nxt i now hb s q = Ret (r, s', q') \<Longrightarrow> session_ok s \<Longrightarrow> session_ok s'"
  by (erule build_cases) (simp_all add: session_note_sent_ok, simp add: session_ok_def)

lemma build_all_ok:
  assumes laws: "aead_laws c" "digest_laws c"
  shows "session_ok s \<Longrightarrow> build_all c nxt due now out s q \<noteq> Panic \<and>
    (\<forall>r s' q'. build_all c nxt due now out s q = Ret (r, s', q') \<longrightarrow> session_ok s')"
proof (induction due arbitrary: out s q)
  case (Cons i due)
  obtain r s1 q1 where b: "build c nxt i now False s q = Ret (r, s1, q1)"
    using build_no_panic [OF Cons.prems laws, of nxt i now False q] by (cases "build c nxt i now False s q") auto
  from build_ok [OF b Cons.prems] Cons.IH b show ?case
    by (cases r) simp_all
qed simp

lemma build_idle_ok:
  assumes laws: "aead_laws c" "digest_laws c" and ok: "session_ok s"
  shows "build_idle c nxt now s q \<noteq> Panic"
    "build_idle c nxt now s q = Ret (r, s', q') \<Longrightarrow> session_ok s'"
proof -
  have "bind_outcome (build c nxt i now hb s q) (\<lambda>(r, s1, q1). Ret (f r, s1, q1)) \<noteq> Panic"
    for i hb and f :: "transport_error + bytes \<Rightarrow> transport_error + bytes list"
    using build_no_panic [OF ok laws, of nxt i now hb q]
    by (cases "build c nxt i now hb s q") auto
  then show "build_idle c nxt now s q \<noteq> Panic"
    by (simp add: build_idle_def split: option.splits)
  show "build_idle c nxt now s q = Ret (r, s', q') \<Longrightarrow> session_ok s'"
    using build_ok ok by (auto simp: build_idle_def split: option.splits if_splits)
qed

lemma outgoing_ok:
  assumes laws: "aead_laws c" "digest_laws c" and ok: "session_ok s"
  shows "outgoing c nxt now s q \<noteq> Panic"
    "outgoing c nxt now s q = Ret (r, s', q') \<Longrightarrow> session_ok s'"
proof -
  let ?due = "filter (\<lambda>i. channel_due s i now) (send_order s)"
  note all = build_all_ok [OF laws ok, of nxt ?due now "[]" q]
  obtain x s1 q1 where b: "build_all c nxt ?due now [] s q = Ret (x, s1, q1)"
    using all by (cases "build_all c nxt ?due now [] s q") auto
  then have ok1: "session_ok (s1\<lparr>se_rotate := \<not> se_rotate s1\<rparr>)"
    using all by (auto simp: session_ok_def)
  note idle = build_idle_ok [OF laws ok1, of nxt now q1]
  show "outgoing c nxt now s q \<noteq> Panic"
    using b idle(1) by (cases x) (simp_all add: outgoing_def Let_def)
  show "outgoing c nxt now s q = Ret (r, s', q') \<Longrightarrow> session_ok s'"
    using b ok ok1 idle(2) all by (cases x) (auto simp: outgoing_def Let_def split: if_splits)
qed

section \<open>Receiving\<close>

lemma acknowledge_nonempty:
  "ch_sent_states ch \<noteq> [] \<Longrightarrow> ch_sent_states (acknowledge a ch) \<noteq> []"
  by (auto simp: acknowledge_def dropWhile_eq_Nil_conv)

lemma channel_apply_nonempty:
  "ch_sent_states ch \<noteq> [] \<Longrightarrow> ch_sent_states (snd (channel_apply ops i ch)) \<noteq> []"
  using channel_apply_frame(5) [OF surjective_pairing [of "channel_apply ops i ch"]]
  by (simp add: acknowledge_nonempty)

lemma channel_apply_id: "ch_id (snd (channel_apply ops i ch)) = ch_id ch"
  by (rule channel_apply_frame(1) [OF surjective_pairing])

lemma rebase_sent_queue_total:
  "\<exists>acc'. rebase_sent message_queue_ssp a xs acc = Ret (acc @ acc')"
proof (induction xs arbitrary: acc)
  case (Cons x xs)
  obtain n q where x: "x = (n, q)" by (cases x)
  have more: "\<exists>acc'. rebase_sent message_queue_ssp a xs (acc @ ys) = Ret (acc @ acc')" for ys
    using Cons.IH [of "acc @ ys"] by auto
  show ?case
    using more [of "[]"] more by (auto simp: x mq_reset_origin_def Let_def split: prod.splits)
qed simp

lemma reset_peer_messages:
  assumes "ch_id ch = CHANNEL_MESSAGES"
  obtains ch' where "reset_peer message_queue_ssp ch = Ret ch'" "ch_id ch' = CHANNEL_MESSAGES"
    "ch_sent_states ch' \<noteq> []"
proof -
  obtain acc where "rebase_sent message_queue_ssp (ch_assumed ch) (ch_sent_states ch) [(0, ch_initial ch)]
      = Ret ([(0, ch_initial ch)] @ acc)"
    using rebase_sent_queue_total by blast
  then show ?thesis
    using assms that by (simp add: reset_peer_def CHANNEL_MESSAGES_def mq_reset_origin_def Let_def)
qed

lemma reset_peer_screen:
  assumes "ch_id ch = CHANNEL_SCREEN"
  shows "\<exists>ch'. reset_peer row_grid_ssp ch = Ret ch' \<and> ch_id ch' = CHANNEL_SCREEN \<and>
    ch_sent_states ch' \<noteq> []"
proof (cases "rg_rebase_steps (ch_current ch) = []")
  case True
  with assms show ?thesis by (simp add: reset_peer_def CHANNEL_SCREEN_def Let_def)
next
  case False
  with assms show ?thesis by (simp add: reset_peer_def CHANNEL_SCREEN_def Let_def)
qed

lemma accept_epoch_ok:
  assumes ok: "session_ok s"
  shows "\<exists>s'. accept_epoch e s = Ret s' \<and> session_ok s'"
proof -
  obtain m where m: "reset_peer message_queue_ssp (se_messages s) = Ret m"
    "ch_id m = CHANNEL_MESSAGES" "ch_sent_states m \<noteq> []"
    using reset_peer_messages ok by (auto simp: session_ok_def)
  obtain g where g: "reset_peer row_grid_ssp (se_screen s) = Ret g"
    "ch_id g = CHANNEL_SCREEN" "ch_sent_states g \<noteq> []"
    using reset_peer_screen ok by (auto simp: session_ok_def)
  show ?thesis
    using ok m g by (auto simp: accept_epoch_def session_ok_def Let_def split: option.splits)
qed

lemma note_heard_frame [frame_simps]:
  "se_config (note_heard h p now s) = se_config s"
  "se_messages (note_heard h p now s) = se_messages s"
  "se_screen (note_heard h p now s) = se_screen s"
  "se_ack (note_heard h p now s) = se_ack s"
  "se_last_heard (note_heard h p now s) = Some now"
  "se_local_epoch (note_heard h p now s) = se_local_epoch s"
  "se_peer_epoch (note_heard h p now s) = se_peer_epoch s"
  "se_retired (note_heard h p now s) = se_retired s"
  "se_last_send (note_heard h p now s) = se_last_send s"
  by (simp_all add: note_heard_def Let_def)

lemma note_heard_ok: "session_ok s \<Longrightarrow> session_ok (note_heard h p now s)"
  by (simp add: session_ok_def frame_simps)

text \<open>Which channel an Instruction touches.\<close>

lemma apply_instruction_channels:
  "snd (apply_instruction ins s) =
     (let s1 = s\<lparr>se_messages := if in_channel ins = CHANNEL_MESSAGES
                   then snd (channel_apply message_queue_ssp ins (se_messages s)) else se_messages s,
                 se_screen := if in_channel ins = CHANNEL_SCREEN
                   then snd (channel_apply row_grid_ssp ins (se_screen s)) else se_screen s\<rparr>
      in s1\<lparr>se_ack := se_ack (snd (apply_instruction ins s))\<rparr>)"
  "length (se_ack (snd (apply_instruction ins s))) = length (se_ack s)"
proof -
  consider "in_channel ins = CHANNEL_MESSAGES" | "in_channel ins = CHANNEL_SCREEN"
    | "in_channel ins \<noteq> CHANNEL_MESSAGES" "in_channel ins \<noteq> CHANNEL_SCREEN" by blast
  then have "snd (apply_instruction ins s) =
     (let s1 = s\<lparr>se_messages := if in_channel ins = CHANNEL_MESSAGES
                   then snd (channel_apply message_queue_ssp ins (se_messages s)) else se_messages s,
                 se_screen := if in_channel ins = CHANNEL_SCREEN
                   then snd (channel_apply row_grid_ssp ins (se_screen s)) else se_screen s\<rparr>
      in s1\<lparr>se_ack := se_ack (snd (apply_instruction ins s))\<rparr>) \<and>
    length (se_ack (snd (apply_instruction ins s))) = length (se_ack s)"
  proof cases
    case 1
    obtain r ch where a: "channel_apply message_queue_ssp ins (se_messages s) = (r, ch)"
      by (cases "channel_apply message_queue_ssp ins (se_messages s)")
    show ?thesis
      using 1 a by (cases r) (simp_all add: apply_instruction_def Let_def CHANNEL_MESSAGES_def CHANNEL_SCREEN_def)
  next
    case 2
    obtain r ch where a: "channel_apply row_grid_ssp ins (se_screen s) = (r, ch)"
      by (cases "channel_apply row_grid_ssp ins (se_screen s)")
    show ?thesis
      using 2 a by (cases r) (simp_all add: apply_instruction_def Let_def CHANNEL_MESSAGES_def CHANNEL_SCREEN_def)
  next
    case 3
    then show ?thesis by (simp add: apply_instruction_def Let_def)
  qed
  then show "snd (apply_instruction ins s) =
     (let s1 = s\<lparr>se_messages := if in_channel ins = CHANNEL_MESSAGES
                   then snd (channel_apply message_queue_ssp ins (se_messages s)) else se_messages s,
                 se_screen := if in_channel ins = CHANNEL_SCREEN
                   then snd (channel_apply row_grid_ssp ins (se_screen s)) else se_screen s\<rparr>
      in s1\<lparr>se_ack := se_ack (snd (apply_instruction ins s))\<rparr>)"
    "length (se_ack (snd (apply_instruction ins s))) = length (se_ack s)" by blast+
qed

lemma apply_instruction_ok:
  assumes ok: "session_ok s"
  shows "session_ok (snd (apply_instruction ins s))"
  using ok apply_instruction_channels(2) [of ins s]
  by (subst apply_instruction_channels(1))
    (simp add: session_ok_def Let_def channel_apply_nonempty channel_apply_id)

lemma handle_datagram_ok:
  assumes ok: "session_ok s"
  obtains r s' where "handle_datagram c d now s = Ret (r, s')" "session_ok s'"
proof (cases "open_datagram c (se_config s) d")
  case (Inl e)
  then show ?thesis using that ok by (simp add: handle_datagram_def)
next
  case (Inr x)
  obtain h p where x: "x = (h, p)" by (cases x)
  show ?thesis
  proof (cases "oh_epoch h \<in> set (se_retired s)")
    case True
    then show ?thesis using that ok x Inr by (simp add: handle_datagram_def)
  next
    case False
    obtain s1 where "accept_epoch (oh_epoch h) s = Ret s1" "session_ok s1"
      using accept_epoch_ok [OF ok] by blast
    then show ?thesis
      using that [of "fst (apply_instruction (pk_instruction p) (note_heard h p now s1))"
          "snd (apply_instruction (pk_instruction p) (note_heard h p now s1))"]
        False x Inr apply_instruction_ok [OF note_heard_ok]
      by (simp add: handle_datagram_def)
  qed
qed

end
