(* ===== verification/ChannelNet.thy ===== *)
theory ChannelNet
  imports Channel
begin

text \<open>
  Two endpoints running one channel of \<open>src/link/src/transport/channel.rs\<close> each, over a
  network that loses, duplicates, delays and reorders Instructions at will: the sets of
  Instructions ever put on the wire only grow, and any member may be delivered at any time.
  The ghost fields record the updates each endpoint accepted and what it handed to its
  application.  The invariant is that the state an endpoint has received is exactly the
  peer's state with that number.
\<close>

section \<open>The network\<close>

record ('s, 'm, 'o) net =
  net_a :: "'s channel"
  net_b :: "'s channel"
  wire_ab :: "instruction set"
  wire_ba :: "instruction set"
  log_a :: "'m list"
  log_b :: "'m list"
  out_a :: "'o list"
  out_b :: "'o list"

definition net_swap :: "('s, 'm, 'o) net \<Rightarrow> ('s, 'm, 'o) net" where
  "net_swap w =
     \<lparr>net_a = net_b w, net_b = net_a w, wire_ab = wire_ba w, wire_ba = wire_ab w,
      log_a = log_b w, log_b = log_a w, out_a = out_b w, out_b = out_a w\<rparr>"

text \<open>Both endpoints start at state 0 of a given state, each with its own history bound.\<close>

definition net_init :: "u8 \<Rightarrow> 's \<Rightarrow> nat \<Rightarrow> 's \<Rightarrow> nat \<Rightarrow> ('s, 'm, 'o) net" where
  "net_init i s k s' k' =
     \<lparr>net_a = channel_new i s k, net_b = channel_new i s' k',
      wire_ab = {}, wire_ba = {}, log_a = [], log_b = [], out_a = [], out_b = []\<rparr>"

text \<open>One step of the left endpoint: it transmits, receives anything ever sent to it, applies
  an update its caller's guard \<open>ok\<close> lets through (while its 64-bit state counter has room), or
  hands received state upward.\<close>

inductive half_step ::
  "'s ssp \<Rightarrow> ('m \<Rightarrow> 's \<Rightarrow> (state_error + unit) \<times> 's) \<Rightarrow> ('m \<Rightarrow> 's \<Rightarrow> bool) \<Rightarrow> ('s \<Rightarrow> 'o list \<times> 's) \<Rightarrow>
   ('s, 'm, 'o) net \<Rightarrow> ('s, 'm, 'o) net \<Rightarrow> bool"
  for ops change ok consume where
  transmit:
    "channel_instruction ops (net_a w) = Ret (Inr i) \<Longrightarrow>
     half_step ops change ok consume w
       (w\<lparr>net_a := note_sent i t (net_a w), wire_ab := insert i (wire_ab w)\<rparr>)"
| receive:
    "i \<in> wire_ba w \<Longrightarrow> channel_apply ops i (net_a w) = (r, a') \<Longrightarrow>
     half_step ops change ok consume w (w\<lparr>net_a := a'\<rparr>)"
| update:
    "ok m (ch_current (net_a w)) \<Longrightarrow> advance (change m) (net_a w) = (Inr (), a') \<Longrightarrow> ch_current_num (net_a w) < - 1 \<Longrightarrow>
     half_step ops change ok consume w (w\<lparr>net_a := a', log_a := log_a w @ [m]\<rparr>)"
| hand_over:
    "received_mut consume (net_a w) = (out, a') \<Longrightarrow>
     half_step ops change ok consume w (w\<lparr>net_a := a', out_a := out_a w @ out\<rparr>)"

inductive net_step ::
  "'s ssp \<Rightarrow> ('m \<Rightarrow> 's \<Rightarrow> (state_error + unit) \<times> 's) \<Rightarrow> ('m \<Rightarrow> 's \<Rightarrow> bool) \<Rightarrow> ('s \<Rightarrow> 'o list \<times> 's) \<Rightarrow>
   ('s, 'm, 'o) net \<Rightarrow> ('s, 'm, 'o) net \<Rightarrow> bool"
  for ops change ok consume where
  left: "half_step ops change ok consume w w' \<Longrightarrow> net_step ops change ok consume w w'"
| right: "half_step ops change ok consume (net_swap w) w' \<Longrightarrow>
    net_step ops change ok consume w (net_swap w')"

definition net_reachable ::
  "'s ssp \<Rightarrow> ('m \<Rightarrow> 's \<Rightarrow> (state_error + unit) \<times> 's) \<Rightarrow> ('m \<Rightarrow> 's \<Rightarrow> bool) \<Rightarrow> ('s \<Rightarrow> 'o list \<times> 's) \<Rightarrow>
   ('s, 'm, 'o) net \<Rightarrow> ('s, 'm, 'o) net \<Rightarrow> bool" where
  "net_reachable ops change ok consume = (net_step ops change ok consume)\<^sup>*\<^sup>*"

lemma net_swap_swap [simp]: "net_swap (net_swap w) = w"
  by (simp add: net_swap_def)

lemma net_swap_sel [simp]:
  "net_a (net_swap w) = net_b w" "net_b (net_swap w) = net_a w"
  "wire_ab (net_swap w) = wire_ba w" "wire_ba (net_swap w) = wire_ab w"
  "log_a (net_swap w) = log_b w" "log_b (net_swap w) = log_a w"
  "out_a (net_swap w) = out_b w" "out_b (net_swap w) = out_a w"
  by (simp_all add: net_swap_def)

lemma net_swap_update:
  "net_swap (w\<lparr>net_a := x\<rparr>) = (net_swap w)\<lparr>net_b := x\<rparr>"
  "net_swap (w\<lparr>wire_ab := y\<rparr>) = (net_swap w)\<lparr>wire_ba := y\<rparr>"
  "net_swap (w\<lparr>out_a := z\<rparr>) = (net_swap w)\<lparr>out_b := z\<rparr>"
  by (simp_all add: net_swap_def)

text \<open>The steps of the right endpoint, written on the network itself.\<close>

lemma right_transmit:
  assumes "channel_instruction ops (net_b w) = Ret (Inr j)"
  shows "net_step ops change ok consume w
    (w\<lparr>net_b := note_sent j t (net_b w), wire_ba := insert j (wire_ba w)\<rparr>)"
proof -
  have "net_step ops change ok consume w (net_swap ((net_swap w)
      \<lparr>net_a := note_sent j t (net_a (net_swap w)), wire_ab := insert j (wire_ab (net_swap w))\<rparr>))"
    by (rule net_step.right, rule half_step.transmit) (simp add: assms)
  then show ?thesis by (simp add: net_swap_update)
qed

lemma right_receive:
  assumes "i \<in> wire_ab w"
  shows "net_step ops change ok consume w (w\<lparr>net_b := snd (channel_apply ops i (net_b w))\<rparr>)"
proof -
  have "net_step ops change ok consume w (net_swap ((net_swap w)
      \<lparr>net_a := snd (channel_apply ops i (net_b w))\<rparr>))"
    by (rule net_step.right, rule half_step.receive [where i = i and
        r = "fst (channel_apply ops i (net_b w))"]) (simp_all add: assms)
  then show ?thesis by (simp add: net_swap_update)
qed

lemma right_hand_over:
  "net_step ops change ok consume w (w\<lparr>net_b := snd (received_mut consume (net_b w)),
     out_b := out_b w @ fst (received_mut consume (net_b w))\<rparr>)"
proof -
  have "net_step ops change ok consume w (net_swap ((net_swap w)
      \<lparr>net_a := snd (received_mut consume (net_b w)),
       out_a := out_a (net_swap w) @ fst (received_mut consume (net_b w))\<rparr>))"
    by (rule net_step.right, rule half_step.hand_over) simp
  then show ?thesis by (simp add: net_swap_update)
qed

lemma left_receive:
  assumes "j \<in> wire_ba w"
  shows "net_step ops change ok consume w (w\<lparr>net_a := snd (channel_apply ops j (net_a w))\<rparr>)"
  by (rule net_step.left, rule half_step.receive [where i = j and
      r = "fst (channel_apply ops j (net_a w))"]) (simp_all add: assms)

lemma net_swap_init: "net_swap (net_init i s k s' k') = net_init i s' k' s k"
  by (simp add: net_swap_def net_init_def)

section \<open>The contents an endpoint has gone through\<close>

definition content_at :: "('m \<Rightarrow> 'a \<Rightarrow> 'a) \<Rightarrow> 'a \<Rightarrow> 'm list \<Rightarrow> u64 \<Rightarrow> 'a" where
  "content_at eff a0 log n = fold eff (take (unat n) log) a0"

lemma content_at_0 [simp]: "content_at eff a0 log 0 = a0"
  by (simp add: content_at_def)

lemma content_at_append: "unat n \<le> length log \<Longrightarrow> content_at eff a0 (log @ xs) n = content_at eff a0 log n"
  by (simp add: content_at_def)

lemma content_at_full: "length log \<le> unat n \<Longrightarrow> content_at eff a0 log n = fold eff log a0"
  by (simp add: content_at_def)

section \<open>The invariant of one direction\<close>

text \<open>
  \<open>sender_inv rep low H ch\<close>: the history of \<open>ch\<close> starts at the assumed receiver state, ends at
  the current one, is strictly increasing, and every state in it represents the content \<open>H\<close>
  gives its number and still holds everything above the assumed receiver state.
\<close>

definition sender_inv ::
  "('s \<Rightarrow> u64 \<Rightarrow> 'a \<Rightarrow> bool) \<Rightarrow> ('s \<Rightarrow> u64) \<Rightarrow> (u64 \<Rightarrow> 'a) \<Rightarrow> 's channel \<Rightarrow> bool" where
  "sender_inv rep low H ch \<longleftrightarrow>
     ch_sent_states ch \<noteq> [] \<and>
     fst (hd (ch_sent_states ch)) = ch_assumed ch \<and>
     fst (last (ch_sent_states ch)) = ch_current_num ch \<and>
     sorted_wrt (<) (map fst (ch_sent_states ch)) \<and>
     (\<forall>(n, s) \<in> set (ch_sent_states ch). rep s n (H n) \<and> low s \<le> ch_assumed ch) \<and>
     rep (ch_current ch) (ch_current_num ch) (H (ch_current_num ch)) \<and>
     low (ch_current ch) \<le> ch_assumed ch"

text \<open>An Instruction on the wire is the diff between two of the sender's states.\<close>

definition carried ::
  "'s ssp \<Rightarrow> ('s \<Rightarrow> u64 \<Rightarrow> 'a \<Rightarrow> bool) \<Rightarrow> ('s \<Rightarrow> u64) \<Rightarrow> (u64 \<Rightarrow> 'a) \<Rightarrow> instruction \<Rightarrow> bool" where
  "carried ops rep low H i \<longleftrightarrow>
     (\<exists>s p. rep s (in_new i) (H (in_new i)) \<and> rep p (in_old i) (H (in_old i)) \<and>
            low s \<le> in_old i \<and> in_old i \<le> in_new i \<and>
            in_diff i = diff_from ops s p \<and> length (in_diff i) \<le> MAX_DIFF_LEN)"

definition direction_inv ::
  "'s ssp \<Rightarrow> ('s \<Rightarrow> u64 \<Rightarrow> 'a \<Rightarrow> bool) \<Rightarrow> ('s \<Rightarrow> u64) \<Rightarrow> ('m \<Rightarrow> 'a \<Rightarrow> 'a) \<Rightarrow> 'a \<Rightarrow>
   ('s, 'm, 'o) net \<Rightarrow> bool" where
  "direction_inv ops rep low eff a0 w \<longleftrightarrow>
     (let H = content_at eff a0 (log_a w) in
      sender_inv rep low H (net_a w) \<and>
      unat (ch_current_num (net_a w)) = length (log_a w) \<and>
      rep (ch_received (net_b w)) (ch_received_num (net_b w)) (H (ch_received_num (net_b w))) \<and>
      ch_assumed (net_a w) \<le> ch_received_num (net_b w) \<and>
      ch_received_num (net_b w) \<in> fst ` set (ch_sent_states (net_a w)) \<and>
      (\<forall>i \<in> wire_ab w. carried ops rep low H i \<and> in_new i \<le> ch_current_num (net_a w) \<and>
         (ch_assumed (net_a w) \<le> in_new i \<longrightarrow> in_new i \<in> fst ` set (ch_sent_states (net_a w)))) \<and>
      (\<forall>j \<in> wire_ba w. in_ack j \<le> ch_received_num (net_b w)))"

lemmas direction_inv_iff = direction_inv_def [unfolded Let_def]

section \<open>Facts about strictly increasing histories\<close>

lemma sorted_history_ge_hd:
  "sorted_wrt (<) (map fst xs) \<Longrightarrow> (n, s) \<in> set xs \<Longrightarrow> fst (hd xs) \<le> (n :: u64)"
  by (cases xs) force+

lemma sorted_history_le_last:
  "sorted_wrt (<) (map fst xs) \<Longrightarrow> (n, s) \<in> set xs \<Longrightarrow> (n :: u64) \<le> fst (last xs)"
proof (induction xs)
  case (Cons x xs)
  have later: "\<And>y. y \<in> set xs \<Longrightarrow> fst x < fst y" using Cons.prems(1) by auto
  consider "xs = []" | "xs \<noteq> []" "(n, s) = x" | "xs \<noteq> []" "(n, s) \<in> set xs"
    using Cons.prems(2) by auto
  then show ?case
  proof cases
    case 2
    then have "fst x < fst (last xs)" by (intro later) simp
    with 2 show ?thesis by (auto dest: order.strict_implies_order)
  qed (use Cons in auto)
qed simp

lemma sender_inv_bounds:
  assumes "sender_inv rep low H ch" "(n, s) \<in> set (ch_sent_states ch)"
  shows "ch_assumed ch \<le> n" "n \<le> ch_current_num ch"
  using assms sorted_history_ge_hd [of "ch_sent_states ch" n s]
    sorted_history_le_last [of "ch_sent_states ch" n s]
  by (auto simp: sender_inv_def)

lemma sender_inv_pending:
  assumes "sender_inv rep low H ch"
  shows "ch_assumed ch \<le> ch_current_num ch"
proof -
  have ne: "ch_sent_states ch \<noteq> []" and hd: "fst (hd (ch_sent_states ch)) = ch_assumed ch"
    using assms by (auto simp: sender_inv_def)
  have "(fst (hd (ch_sent_states ch)), snd (hd (ch_sent_states ch))) \<in> set (ch_sent_states ch)"
    using ne by simp
  from sender_inv_bounds(2) [OF assms this] show ?thesis by (simp add: hd)
qed

text \<open>Dropping the front up to a number that is in the history leaves that number in front.\<close>

lemma dropWhile_history:
  assumes "sorted_wrt (<) (map fst xs)" "(a :: u64) \<in> fst ` set xs"
  defines "ys \<equiv> dropWhile (\<lambda>(n, _). n < a) xs"
  shows "ys \<noteq> []" "fst (hd ys) = a" "last ys = last xs" "sorted_wrt (<) (map fst ys)"
    "set ys \<subseteq> set xs" "\<And>n s. (n, s) \<in> set xs \<Longrightarrow> a \<le> n \<Longrightarrow> (n, s) \<in> set ys"
proof -
  from assms(2) obtain us b vs where xs: "xs = us @ (a, b) # vs"
    by (metis (no_types, lifting) imageE prod.collapse split_list)
  have lt: "\<forall>(n, s) \<in> set us. n < a"
    using assms(1) unfolding xs by (force simp: sorted_wrt_append)
  then have ys: "ys = (a, b) # vs"
    unfolding ys_def xs by (subst dropWhile_append2) auto
  show "ys \<noteq> []" "fst (hd ys) = a" "last ys = last xs" "set ys \<subseteq> set xs"
    by (auto simp: ys xs)
  show "sorted_wrt (<) (map fst ys)"
    using assms(1) by (simp add: ys xs sorted_wrt_append)
  show "(n, s) \<in> set ys" if "(n, s) \<in> set xs" "a \<le> n" for n s
    using that lt by (auto simp: ys xs)
qed

lemma acknowledge_sender_inv:
  assumes inv: "sender_inv rep low H ch"
  shows "sender_inv rep low H (acknowledge a ch)"
    "ch_assumed (acknowledge a ch) = (if ch_assumed ch < a \<and> a \<in> fst ` set (ch_sent_states ch)
       then a else ch_assumed ch)"
    "set (ch_sent_states (acknowledge a ch)) \<subseteq> set (ch_sent_states ch)"
    "\<And>n s. (n, s) \<in> set (ch_sent_states ch) \<Longrightarrow> ch_assumed (acknowledge a ch) \<le> n \<Longrightarrow>
       (n, s) \<in> set (ch_sent_states (acknowledge a ch))"
proof -
  let ?moves = "ch_assumed ch < a \<and> a \<in> fst ` set (ch_sent_states ch)"
  have ex: "(\<exists>(num, _) \<in> set (ch_sent_states ch). num = a) \<longleftrightarrow> a \<in> fst ` set (ch_sent_states ch)"
    by force
  have stay: "\<not> ?moves \<Longrightarrow> acknowledge a ch = ch"
    unfolding acknowledge_def ex by auto
  have move: "?moves \<Longrightarrow> acknowledge a ch = ch\<lparr>ch_assumed := a,
      ch_sent_states := dropWhile (\<lambda>(n, _). n < a) (ch_sent_states ch)\<rparr>"
    unfolding acknowledge_def ex by auto
  have all: "sender_inv rep low H (acknowledge a ch) \<and>
    ch_assumed (acknowledge a ch) = (if ?moves then a else ch_assumed ch) \<and>
    set (ch_sent_states (acknowledge a ch)) \<subseteq> set (ch_sent_states ch) \<and>
    (\<forall>n s. (n, s) \<in> set (ch_sent_states ch) \<longrightarrow> ch_assumed (acknowledge a ch) \<le> n \<longrightarrow>
       (n, s) \<in> set (ch_sent_states (acknowledge a ch)))"
  proof (cases ?moves)
    case False
    then show ?thesis using inv stay by (simp only: if_False) auto
  next
    case True
    have s: "sorted_wrt (<) (map fst (ch_sent_states ch))" using inv by (simp add: sender_inv_def)
    note d = dropWhile_history [OF s conjunct2 [OF True]]
    have le: "ch_assumed ch \<le> a" using True by (blast intro: order.strict_implies_order)
    have "sender_inv rep low H (acknowledge a ch)"
      unfolding sender_inv_def move [OF True]
    proof (simp add: d(1-4), intro conjI ballI)
      fix x assume "x \<in> set (dropWhile (\<lambda>(n, _). n < a) (ch_sent_states ch))"
      then have x: "x \<in> set (ch_sent_states ch)" using d(5) by auto
      from x inv show "case x of (n, s) \<Rightarrow> rep s n (H n) \<and> low s \<le> a"
        using order_trans [OF _ le] by (auto simp: sender_inv_def)
    qed (use inv True d(1) order_trans [OF _ le] in \<open>auto simp: sender_inv_def\<close>)
    then show ?thesis using d True by (auto simp: move)
  qed
  then show "sender_inv rep low H (acknowledge a ch)"
    "ch_assumed (acknowledge a ch) = (if ?moves then a else ch_assumed ch)"
    "set (ch_sent_states (acknowledge a ch)) \<subseteq> set (ch_sent_states ch)"
    "\<And>n s. (n, s) \<in> set (ch_sent_states ch) \<Longrightarrow> ch_assumed (acknowledge a ch) \<le> n \<Longrightarrow>
       (n, s) \<in> set (ch_sent_states (acknowledge a ch))"
    by blast+
qed

section \<open>What an implementation's updates promise\<close>

text \<open>
  On top of the law of the state: an accepted update moves the content by \<open>eff\<close>, and handing
  received state to the application leaves its number and content alone.
\<close>

locale ssp_channel = ssp_state +
  fixes change :: "'m \<Rightarrow> 'a \<Rightarrow> (state_error + unit) \<times> 'a"
    and ok :: "'m \<Rightarrow> 'a \<Rightarrow> bool"
    and eff :: "'m \<Rightarrow> 'b \<Rightarrow> 'b"
    and consume :: "'a \<Rightarrow> 'o list \<times> 'a"
    and content0 :: 'b
    and initial :: "'a \<Rightarrow> bool"
  assumes change_rep: "rep s n a \<Longrightarrow> n < - 1 \<Longrightarrow> ok m s \<Longrightarrow> change m s = (Inr (), s') \<Longrightarrow>
      rep s' (n + 1) (eff m a)"
    and change_low: "rep s n a \<Longrightarrow> ok m s \<Longrightarrow> change m s = (Inr (), s') \<Longrightarrow> low s' = low s"
    and eff_anc: "anc a (eff m a)"
    and consume_rep: "rep s n a \<Longrightarrow> rep (snd (consume s)) n a"
    and initial_rep: "initial s \<Longrightarrow> rep s 0 content0"
    and initial_low: "initial s \<Longrightarrow> low s = 0"
begin

lemma anc_fold: "anc a (fold eff ms a)"
  by (induction ms arbitrary: a) (auto intro: anc_refl anc_trans eff_anc)

lemma anc_content_at:
  assumes "m \<le> n"
  shows "anc (content_at eff content0 log m) (content_at eff content0 log n)"
proof -
  have "unat m \<le> unat n" using assms by (simp add: word_le_nat_alt)
  then have "take (unat n) log = take (unat m) log @ take (unat n - unat m) (drop (unat m) log)"
    by (simp flip: take_add)
  then show ?thesis using anc_fold by (simp add: content_at_def)
qed

lemma init_direction:
  "initial s \<Longrightarrow> initial s' \<Longrightarrow> direction_inv ops rep low eff content0 (net_init i s k s' k')"
  by (simp add: direction_inv_def net_init_def channel_new_def sender_inv_def initial_rep initial_low)

text \<open>An Instruction emitted in a good state is carried.\<close>

lemma emitted_carried:
  assumes inv: "sender_inv rep low H ch" and em: "channel_instruction ops ch = Ret (Inr i)"
  shows "carried ops rep low H i" "in_new i \<le> ch_current_num ch"
    "in_new i \<in> fst ` set (ch_sent_states ch)" "in_old i = ch_assumed ch"
    "in_ack i = ch_received_num ch"
proof -
  obtain m base rest n s where h: "ch_sent_states ch = (m, base) # rest"
    and i: "i = instruction_with ch n (diff_from ops s base)"
    and l: "length (diff_from ops s base) \<le> MAX_DIFF_LEN"
    and n: "(n = ch_current_num ch \<and> s = ch_current ch) \<or> (n, s) \<in> set rest"
    by (rule channel_instruction_cases [OF em])
  have m: "m = ch_assumed ch" and base: "rep base m (H m)"
    using inv h by (auto simp: sender_inv_def)
  have rn: "rep s n (H n) \<and> low s \<le> ch_assumed ch"
    using n inv h by (auto simp: sender_inv_def)
  have mem: "n \<in> fst ` set (ch_sent_states ch)"
  proof (cases "(n, s) \<in> set rest")
    case True
    then show ?thesis by (force simp: h)
  next
    case False
    then have "n = fst (last (ch_sent_states ch))" "ch_sent_states ch \<noteq> []"
      using n inv by (auto simp: sender_inv_def)
    then show ?thesis by simp
  qed
  then obtain s' where "(n, s') \<in> set (ch_sent_states ch)" by force
  note bounds = sender_inv_bounds [OF inv this]
  show "carried ops rep low H i"
    using rn base m l bounds(1) unfolding carried_def i
    by (intro exI [of _ s] exI [of _ base]) simp
  show "in_new i \<le> ch_current_num ch" using bounds(2) by (simp add: i)
  show "in_new i \<in> fst ` set (ch_sent_states ch)" using mem by (simp add: i)
  show "in_old i = ch_assumed ch" "in_ack i = ch_received_num ch" by (simp_all add: i)
qed

text \<open>Applying a carried Instruction lands on the state it names.\<close>

lemma carried_applied:
  assumes "carried ops rep low (content_at eff content0 log) i"
    and "rep r (in_old i) (content_at eff content0 log (in_old i))"
    and "apply_diff ops r (in_diff i) = (Inr (), r')"
  shows "rep r' (in_new i) (content_at eff content0 log (in_new i))"
proof -
  obtain s p where s: "rep s (in_new i) (content_at eff content0 log (in_new i))"
    and p: "rep p (in_old i) (content_at eff content0 log (in_old i))"
    and le: "low s \<le> in_old i" "in_old i \<le> in_new i"
    and d: "in_diff i = diff_from ops s p" "length (in_diff i) \<le> MAX_DIFF_LEN"
    using assms(1) unfolding carried_def by blast
  have "length (diff_from ops s p) < 2 ^ 32" using d by (simp add: MAX_DIFF_LEN_eq)
  from apply_diff_correct [OF s p anc_content_at [OF le(2)] le(2) le(1) assms(2) this]
  show ?thesis using assms(3) by (simp add: d(1))
qed

end

section \<open>Preservation\<close>

context ssp_channel
begin

lemma carried_log_extend:
  assumes "carried ops rep low (content_at eff content0 log) i" "unat (in_new i) \<le> length log"
  shows "carried ops rep low (content_at eff content0 (log @ ms)) i"
proof -
  have "in_old i \<le> in_new i" using assms(1) by (auto simp: carried_def)
  then have "unat (in_old i) \<le> length log" using assms(2) by (simp add: word_le_nat_alt)
  then show ?thesis using assms by (simp add: carried_def content_at_append)
qed

lemma advance_sender_inv:
  assumes inv: "sender_inv rep low (content_at eff content0 log) ch"
    and num: "unat (ch_current_num ch) = length log" and room: "ch_current_num ch < - 1"
    and m: "ok m (ch_current ch)" and adv: "advance (change m) ch = (Inr (), ch')"
  shows "sender_inv rep low (content_at eff content0 (log @ [m])) ch'"
    "unat (ch_current_num ch') = length (log @ [m])"
    "ch_assumed ch' = ch_assumed ch" "ch_current_num ch \<le> ch_current_num ch'"
    "fst ` set (ch_sent_states ch) \<subseteq> fst ` set (ch_sent_states ch')"
    "ch_received ch' = ch_received ch" "ch_received_num ch' = ch_received_num ch"
proof -
  let ?n = "ch_current_num ch" and ?H = "content_at eff content0 log"
  let ?H' = "content_at eff content0 (log @ [m])"
  obtain s where chg: "change m (ch_current ch) = (Inr (), s)"
    and ch': "ch' = ch\<lparr>ch_current := s, ch_current_num := ?n + 1,
         ch_sent_states := ch_sent_states ch @ [(?n + 1, s)]\<rparr>"
    using adv by (cases rule: advance_cases) auto
  have suc: "unat (?n + 1) = Suc (unat ?n)" "?n < ?n + 1"
    using room by (simp_all add: unat_Suc word_Suc_less)
  have cur: "rep (ch_current ch) ?n (?H ?n)" "low (ch_current ch) \<le> ch_assumed ch"
    using inv by (auto simp: sender_inv_def)
  have H1: "?H' (?n + 1) = eff m (?H ?n)"
    using num suc by (simp add: content_at_def)
  have new: "rep s (?n + 1) (?H' (?n + 1))" "low s \<le> ch_assumed ch"
    using change_rep [OF cur(1) room m chg] change_low [OF cur(1) m chg] cur(2) H1 by simp_all
  have old: "rep t k (?H' k) \<and> low t \<le> ch_assumed ch" "k < ?n + 1"
    if "(k, t) \<in> set (ch_sent_states ch)" for k t
  proof -
    have "k \<le> ?n" using sender_inv_bounds(2) [OF inv that] .
    then have "unat k \<le> length log" using num by (simp add: word_le_nat_alt)
    then show "rep t k (?H' k) \<and> low t \<le> ch_assumed ch"
      using inv that by (auto simp: sender_inv_def content_at_append)
    show "k < ?n + 1" using \<open>k \<le> ?n\<close> suc(2) by (rule le_less_trans)
  qed
  have "sorted_wrt (<) (map fst (ch_sent_states ch'))"
    using inv old(2) by (auto simp: ch' sender_inv_def sorted_wrt_append)
  then show "sender_inv rep low ?H' ch'"
    using inv new old(1) by (auto simp: sender_inv_def ch')
  show "unat (ch_current_num ch') = length (log @ [m])" using suc num by (simp add: ch')
  show "?n \<le> ch_current_num ch'" using suc(2) by (auto simp: ch' dest: order.strict_implies_order)
qed (use adv in \<open>cases rule: advance_cases; auto\<close>)+

text \<open>The left endpoint's step keeps the direction in which it sends.\<close>

lemma half_step_sender:
  assumes step: "half_step ops change ok consume w w'"
    and inv: "direction_inv ops rep low eff content0 w"
  shows "direction_inv ops rep low eff content0 w'"
  using step
proof cases
  case (transmit i t)
  have s: "sender_inv rep low (content_at eff content0 (log_a w)) (net_a w)"
    using inv by (simp add: direction_inv_iff)
  have s': "sender_inv rep low H (note_sent i t ch) = sender_inv rep low H ch" for H ch
    by (simp add: sender_inv_def frame_simps)
  show ?thesis
    using inv emitted_carried [OF s transmit(2)]
    by (simp add: transmit(1) direction_inv_iff s' frame_simps)
next
  case (receive i r a')
  let ?H = "content_at eff content0 (log_a w)"
  have s: "sender_inv rep low ?H (net_a w)" using inv by (simp add: direction_inv_iff)
  note fr = channel_apply_frame [OF receive(3)]
  let ?k = "acknowledge (in_ack i) (net_a w)"
  note ack = acknowledge_sender_inv [OF s, where a = "in_ack i"]
  have ackle: "in_ack i \<le> ch_received_num (net_b w)"
    using inv receive(2) by (simp add: direction_inv_iff)
  have as: "ch_assumed (net_a w) \<le> ch_assumed ?k" "ch_assumed ?k \<le> ch_received_num (net_b w)"
    using ack(2) ackle inv by (auto simp: direction_inv_iff)
  have cur: "rep (ch_current ?k) (ch_current_num ?k) (?H (ch_current_num ?k))"
    "low (ch_current ?k) \<le> ch_assumed ?k"
    using ack(1) by (auto simp: sender_inv_def)
  have "low (ch_current a') \<le> ch_assumed ?k"
    unfolding fr(6) using release_low_le [OF cur, of "min (in_throwaway i) (ch_assumed ?k)"]
    by (simp add: frame_simps)
  moreover have "rep (ch_current a') (ch_current_num a') (?H (ch_current_num a'))"
    unfolding fr(3,6) using release_rep [OF cur(1)] by (simp add: frame_simps)
  ultimately have "sender_inv rep low ?H a'"
    using ack(1) by (simp add: sender_inv_def fr(3-5) frame_simps)
  moreover have "\<And>n. n \<in> fst ` set (ch_sent_states (net_a w)) \<Longrightarrow> ch_assumed ?k \<le> n \<Longrightarrow>
      n \<in> fst ` set (ch_sent_states a')"
    using ack(4) by (fastforce simp: fr(5) image_iff)
  ultimately show ?thesis
    using inv as by (auto simp: receive(1) direction_inv_iff fr(3,4))
next
  case (update m a')
  let ?H' = "content_at eff content0 (log_a w @ [m])"
  have s: "sender_inv rep low (content_at eff content0 (log_a w)) (net_a w)"
    and num: "unat (ch_current_num (net_a w)) = length (log_a w)"
    using inv by (simp_all add: direction_inv_iff)
  note adv = advance_sender_inv [OF s num update(4) update(2) update(3)]
  have small: "unat n \<le> length (log_a w)" if "n \<le> ch_current_num (net_a w)" for n
    using that num by (simp add: word_le_nat_alt)
  obtain t where "(ch_received_num (net_b w), t) \<in> set (ch_sent_states (net_a w))"
    using inv by (auto simp: direction_inv_iff)
  then have "ch_received_num (net_b w) \<le> ch_current_num (net_a w)"
    by (rule sender_inv_bounds(2) [OF s])
  then have "?H' (ch_received_num (net_b w))
      = content_at eff content0 (log_a w) (ch_received_num (net_b w))"
    by (simp add: content_at_append small)
  moreover have "carried ops rep low ?H' i \<and> in_new i \<le> ch_current_num a'" if "i \<in> wire_ab w" for i
    using inv that small carried_log_extend order_trans [OF _ adv(4)]
    by (auto simp: direction_inv_iff)
  ultimately show ?thesis
    using inv adv by (auto simp: update(1) direction_inv_iff)
next
  case (hand_over out a')
  have "a' = snd (received_mut consume (net_a w))" by (simp add: hand_over(2))
  then show ?thesis
    using inv by (simp add: hand_over(1) direction_inv_iff sender_inv_def frame_simps)
qed

text \<open>And it keeps the direction in which it receives.\<close>

lemma half_step_receiver:
  assumes step: "half_step ops change ok consume w w'"
    and inv: "direction_inv ops rep low eff content0 (net_swap w)"
  shows "direction_inv ops rep low eff content0 (net_swap w')"
  using step
proof cases
  case (transmit i t)
  have "in_ack i = ch_received_num (net_a w)"
    using transmit(2) by (cases rule: channel_instruction_cases) simp
  then show ?thesis
    using inv by (simp add: transmit(1) direction_inv_iff frame_simps)
next
  case (receive i r a')
  let ?H = "content_at eff content0 (log_b w)"
  have inst: "carried ops rep low ?H i"
    and mem: "ch_assumed (net_b w) \<le> in_new i \<Longrightarrow> in_new i \<in> fst ` set (ch_sent_states (net_b w))"
    and rr: "rep (ch_received (net_a w)) (ch_received_num (net_a w)) (?H (ch_received_num (net_a w)))"
    and as: "ch_assumed (net_b w) \<le> ch_received_num (net_a w)"
    using inv receive(2) by (auto simp: direction_inv_iff)
  show ?thesis
    using receive(3)
  proof (cases rule: channel_apply_cases)
    case stale
    then show ?thesis
      using inv by (simp add: receive(1) direction_inv_iff frame_simps)
  next
    case (rejected e s)
    have "s = ch_received (net_a w)" using apply_diff_error [OF rejected(3)] .
    then show ?thesis
      using inv by (simp add: receive(1) rejected(4) direction_inv_iff frame_simps)
  next
    case (applied s)
    have "rep s (in_new i) (?H (in_new i))"
      using carried_applied [OF inst _ applied(2)] rr applied(1) by simp
    moreover have le: "ch_received_num (net_a w) \<le> in_new i"
      using inst applied(1) by (auto simp: carried_def)
    moreover have "in_new i \<in> fst ` set (ch_sent_states (net_b w))"
      using mem order_trans [OF as le] by simp
    ultimately show ?thesis
      using inv order_trans [OF _ le]
      by (auto simp: receive(1) applied(4) direction_inv_iff frame_simps)
  qed
next
  case (update m a')
  have "ch_received a' = ch_received (net_a w)" "ch_received_num a' = ch_received_num (net_a w)"
    using update(3) by (cases rule: advance_cases; auto)+
  then show ?thesis
    using inv by (simp add: update(1) direction_inv_iff)
next
  case (hand_over out a')
  have "a' = snd (received_mut consume (net_a w))" by (simp add: hand_over(2))
  then show ?thesis
    using inv consume_rep by (simp add: hand_over(1) direction_inv_iff frame_simps)
qed

lemma net_step_direction:
  assumes "net_step ops change ok consume w w'"
    and "direction_inv ops rep low eff content0 w"
    and "direction_inv ops rep low eff content0 (net_swap w)"
  shows "direction_inv ops rep low eff content0 w' \<and>
    direction_inv ops rep low eff content0 (net_swap w')"
  using assms(1)
proof cases
  case left
  with assms(2,3) half_step_sender half_step_receiver show ?thesis by blast
next
  case (right w'')
  with assms(2,3) half_step_sender [of "net_swap w" w''] half_step_receiver [of "net_swap w" w'']
  show ?thesis by simp
qed

theorem reachable_direction:
  assumes "net_reachable ops change ok consume (net_init i s k s' k') w" "initial s" "initial s'"
  shows "direction_inv ops rep low eff content0 w \<and>
    direction_inv ops rep low eff content0 (net_swap w)"
  using assms(1) unfolding net_reachable_def
proof (induction rule: rtranclp_induct)
  case base
  show ?case by (simp add: net_swap_init init_direction assms(2,3))
next
  case (step v w)
  then show ?case using net_step_direction by blast
qed

end

end
