(* ===== verification/ChannelLive.thy ===== *)
theory ChannelLive
  imports ChannelNet
begin

text \<open>
  Progress of one channel: an endpoint can always build its next Instruction (no state change
  it accepted is too large to send), and one lossless round trip with a peer that has handed
  its received state upward moves the assumed receiver state strictly forward, so at most one
  round trip per retained state brings the peer to the current state.
\<close>

section \<open>Every step of the history fits a datagram\<close>

definition history_fits :: "'s ssp \<Rightarrow> 's channel \<Rightarrow> bool" where
  "history_fits ops ch \<longleftrightarrow>
     successively (\<lambda>(_, s) (_, s'). length (diff_from ops s' s) \<le> MAX_DIFF_LEN) (ch_sent_states ch)"

lemma successively_dropWhile: "successively P xs \<Longrightarrow> successively P (dropWhile Q xs)"
  using successively_append_iff [of P "takeWhile Q xs" "dropWhile Q xs"] by simp

lemma acknowledge_fits: "history_fits ops ch \<Longrightarrow> history_fits ops (acknowledge a ch)"
  by (simp add: history_fits_def acknowledge_def successively_dropWhile)

lemma choose_step_Some:
  "chosen \<noteq> None \<Longrightarrow> choose_step ops base xs chosen \<noteq> None"
  by (induction xs arbitrary: chosen) auto

section \<open>One lossless round trip\<close>

text \<open>The right endpoint hands over what it holds, the left one transmits and the right one
  applies the Instruction; then the right one transmits and the left one applies the answer.\<close>

definition outbound ::
  "'s ssp \<Rightarrow> ('s \<Rightarrow> 'o list \<times> 's) \<Rightarrow> u64 \<Rightarrow> ('s, 'm, 'o) net \<Rightarrow>
   (transport_error + ('s, 'm, 'o) net) outcome" where
  "outbound ops consume t w =
     bind_outcome (channel_instruction ops (net_a w)) (\<lambda>sent. case sent of
         Inl e \<Rightarrow> Ret (Inl e)
       | Inr i \<Rightarrow>
           (let held = received_mut consume (net_b w)
            in Ret (Inr (w\<lparr>net_a := note_sent i t (net_a w),
                           net_b := snd (channel_apply ops i (snd held)),
                           wire_ab := insert i (wire_ab w),
                           out_b := out_b w @ fst held\<rparr>))))"

definition answered ::
  "'s ssp \<Rightarrow> u64 \<Rightarrow> ('s, 'm, 'o) net \<Rightarrow> (transport_error + ('s, 'm, 'o) net) outcome" where
  "answered ops t w =
     bind_outcome (channel_instruction ops (net_b w)) (\<lambda>sent. case sent of
         Inl e \<Rightarrow> Ret (Inl e)
       | Inr j \<Rightarrow> Ret (Inr (w\<lparr>net_a := snd (channel_apply ops j (net_a w)),
                             net_b := note_sent j t (net_b w),
                             wire_ba := insert j (wire_ba w)\<rparr>)))"

definition round_trip ::
  "'s ssp \<Rightarrow> ('s \<Rightarrow> 'o list \<times> 's) \<Rightarrow> u64 \<Rightarrow> ('s, 'm, 'o) net \<Rightarrow>
   (transport_error + ('s, 'm, 'o) net) outcome" where
  "round_trip ops consume t w =
     bind_outcome (outbound ops consume t w) (\<lambda>r. case r of
         Inl e \<Rightarrow> Ret (Inl e)
       | Inr v \<Rightarrow> answered ops t v)"

fun round_trips ::
  "'s ssp \<Rightarrow> ('s \<Rightarrow> 'o list \<times> 's) \<Rightarrow> u64 \<Rightarrow> nat \<Rightarrow> ('s, 'm, 'o) net \<Rightarrow>
   (transport_error + ('s, 'm, 'o) net) outcome" where
  "round_trips ops consume t 0 w = Ret (Inr w)"
| "round_trips ops consume t (Suc k) w =
     bind_outcome (round_trip ops consume t w) (\<lambda>r. case r of
         Inl e \<Rightarrow> Ret (Inl e)
       | Inr w' \<Rightarrow> round_trips ops consume t k w')"

section \<open>What an implementation must promise for progress\<close>

locale ssp_live = ssp_channel +
  assumes diff_prev_cong: "rep p m b \<Longrightarrow> rep p' m b \<Longrightarrow> diff_from ops s p = diff_from ops s p'"
    and diff_same_small: "rep s n a \<Longrightarrow> rep p n a \<Longrightarrow> length (diff_from ops s p) \<le> MAX_DIFF_LEN"
    and change_fits: "rep s n a \<Longrightarrow> n < - 1 \<Longrightarrow> ok u s \<Longrightarrow> change u s = (Inr (), s') \<Longrightarrow>
      length (diff_from ops s' s) \<le> MAX_DIFF_LEN"
    and consumed_accepts: "rep s n a \<Longrightarrow> rep p m b \<Longrightarrow> anc b a \<Longrightarrow> m \<le> n \<Longrightarrow> low s \<le> m \<Longrightarrow> rep r m b \<Longrightarrow>
      length (diff_from ops s p) \<le> MAX_DIFF_LEN \<Longrightarrow>
      \<exists>r'. apply_diff ops (snd (consume r)) (diff_from ops s p) = (Inr (), r')"
begin

lemma half_step_fits:
  assumes step: "half_step ops change ok consume w w'"
    and inv: "direction_inv ops rep low eff content0 w"
    and fits: "history_fits ops (net_a w)"
  shows "history_fits ops (net_a w')"
  using step
proof cases
  case (receive i r a')
  have "history_fits ops a' = history_fits ops (acknowledge (in_ack i) (net_a w))"
    by (simp add: history_fits_def channel_apply_frame [OF receive(3)])
  then show ?thesis using acknowledge_fits [OF fits] by (simp add: receive(1))
next
  case (update m a')
  let ?a = "net_a w" and ?H = "content_at eff content0 (log_a w)"
  have s: "sender_inv rep low ?H ?a" using inv by (simp add: direction_inv_iff)
  obtain s where chg: "change m (ch_current ?a) = (Inr (), s)"
    and a': "a' = ?a\<lparr>ch_current := s, ch_current_num := ch_current_num ?a + 1,
         ch_sent_states := ch_sent_states ?a @ [(ch_current_num ?a + 1, s)]\<rparr>"
    using update(3) by (cases rule: advance_cases) auto
  have cur: "rep (ch_current ?a) (ch_current_num ?a) (?H (ch_current_num ?a))"
    using s by (simp add: sender_inv_def)
  have ne: "ch_sent_states ?a \<noteq> []" "fst (last (ch_sent_states ?a)) = ch_current_num ?a"
    using s by (auto simp: sender_inv_def)
  have last_in: "last (ch_sent_states ?a) \<in> set (ch_sent_states ?a)"
    using ne(1) by simp
  have "rep (snd (last (ch_sent_states ?a))) (ch_current_num ?a) (?H (ch_current_num ?a))"
    using s last_in ne(2) by (cases "last (ch_sent_states ?a)") (auto simp: sender_inv_def)
  then have "length (diff_from ops s (snd (last (ch_sent_states ?a)))) \<le> MAX_DIFF_LEN"
    using diff_prev_cong [OF cur] change_fits [OF cur update(4,2) chg] by metis
  then show ?thesis
    using fits by (auto simp: update(1) history_fits_def a' successively_append_iff split: prod.splits)
next
  case (hand_over out a')
  have "a' = snd (received_mut consume (net_a w))" by (simp add: hand_over(2))
  then show ?thesis using fits by (simp add: hand_over(1) history_fits_def frame_simps)
qed (use fits in \<open>simp add: history_fits_def frame_simps\<close>)

lemma half_step_keeps_right: "half_step ops change ok consume w w' \<Longrightarrow> net_b w' = net_b w"
  by (erule half_step.cases) simp_all

theorem reachable_fits:
  assumes "net_reachable ops change ok consume (net_init i s k s' k') w" "initial s" "initial s'"
  shows "history_fits ops (net_a w) \<and> history_fits ops (net_b w)"
  using assms(1) unfolding net_reachable_def
proof (induction rule: rtranclp_induct)
  case base
  show ?case by (simp add: history_fits_def net_init_def channel_new_def)
next
  case (step v w)
  have dirs: "direction_inv ops rep low eff content0 v \<and> direction_inv ops rep low eff content0 (net_swap v)"
    using step(1) reachable_direction [OF _ assms(2,3)] by (simp add: net_reachable_def)
  with step(2,3) show ?case
  proof cases
    case left
    with step(3) show ?thesis
      using half_step_fits half_step_keeps_right dirs by metis
  next
    case (right w'')
    with step(3) show ?thesis
      using half_step_fits [OF right(2)] half_step_keeps_right [OF right(2)] dirs right(1) by simp
  qed
qed

text \<open>An endpoint in a good state always has an Instruction to send, and it makes progress.\<close>

lemma instruction_progress:
  assumes inv: "sender_inv rep low H ch" and fits: "history_fits ops ch"
  obtains i where "channel_instruction ops ch = Ret (Inr i)"
    "ch_assumed ch < ch_current_num ch \<Longrightarrow> ch_assumed ch < in_new i"
proof -
  obtain m base rest where h: "ch_sent_states ch = (m, base) # rest"
    using inv by (cases "ch_sent_states ch") (auto simp: sender_inv_def)
  have m: "m = ch_assumed ch" "rep base m (H m)"
    using inv h by (auto simp: sender_inv_def)
  show ?thesis
  proof (cases "length (diff_from ops (ch_current ch) base) \<le> MAX_DIFF_LEN")
    case True
    then show ?thesis using that h by (simp add: channel_instruction_def)
  next
    case False
    have "rest \<noteq> []"
    proof
      assume "rest = []"
      then have "ch_current_num ch = m" using inv h by (auto simp: sender_inv_def)
      then have "rep (ch_current ch) m (H m)" using inv by (auto simp: sender_inv_def)
      with diff_same_small m(2) False show False by blast
    qed
    then obtain n s rest' where r: "rest = (n, s) # rest'" by (cases rest) auto
    have "length (diff_from ops s base) \<le> MAX_DIFF_LEN"
      using fits h r by (simp add: history_fits_def)
    then have "choose_step ops base rest None \<noteq> None"
      using r choose_step_Some [of "Some (n, diff_from ops s base)" ops base rest'] by simp
    then obtain n' d where c: "choose_step ops base rest None = Some (n', d)" by auto
    then have "channel_instruction ops ch = Ret (Inr (instruction_with ch n' d))"
      using False h by (simp add: channel_instruction_def Let_def)
    moreover have "ch_assumed ch < n'"
      using choose_step_cases [OF c] inv h m(1) by (force simp: sender_inv_def)
    ultimately show ?thesis using that by simp
  qed
qed

definition good where
  "good w \<longleftrightarrow> direction_inv ops rep low eff content0 w \<and>
     direction_inv ops rep low eff content0 (net_swap w) \<and>
     history_fits ops (net_a w) \<and> history_fits ops (net_b w)"

lemma good_step: "net_step ops change ok consume w w' \<Longrightarrow> good w \<Longrightarrow> good w'"
proof -
  assume st: "net_step ops change ok consume w w'" and g: "good w"
  then have "direction_inv ops rep low eff content0 w' \<and> direction_inv ops rep low eff content0 (net_swap w')"
    using net_step_direction by (auto simp: good_def)
  moreover have "history_fits ops (net_a w') \<and> history_fits ops (net_b w')"
    using st
  proof cases
    case left
    with g show ?thesis using half_step_fits half_step_keeps_right by (metis good_def)
  next
    case (right w'')
    with g show ?thesis
      using half_step_fits [OF right(2)] half_step_keeps_right [OF right(2)] by (simp add: good_def)
  qed
  ultimately show ?thesis by (simp add: good_def)
qed

lemma good_reachable:
  "net_reachable ops change ok consume (net_init i s k s' k') w \<Longrightarrow> initial s \<Longrightarrow> initial s' \<Longrightarrow> good w"
  using reachable_direction reachable_fits by (auto simp: good_def)

text \<open>The outbound half: the peer's received state moves past the assumed one.\<close>

lemma outbound_runs:
  assumes i: "channel_instruction ops (net_a w) = Ret (Inr i)"
  defines "b0 \<equiv> snd (received_mut consume (net_b w))"
  obtains v where "outbound ops consume t w = Ret (Inr v)" "net_reachable ops change ok consume w v"
    "log_a v = log_a w" "log_b v = log_b w" "net_a v = note_sent i t (net_a w)"
    "net_b v = snd (channel_apply ops i b0)"
proof -
  define w1 where "w1 = w\<lparr>net_b := b0, out_b := out_b w @ fst (received_mut consume (net_b w))\<rparr>"
  define w2 where "w2 = w1\<lparr>net_a := note_sent i t (net_a w1), wire_ab := insert i (wire_ab w1)\<rparr>"
  define v where "v = w2\<lparr>net_b := snd (channel_apply ops i (net_b w2))\<rparr>"
  have "net_step ops change ok consume w w1"
    using right_hand_over [of ops change ok consume w] by (simp add: w1_def b0_def)
  moreover have "net_step ops change ok consume w1 w2"
    unfolding w2_def by (rule net_step.left, rule half_step.transmit) (simp add: w1_def i)
  moreover have "net_step ops change ok consume w2 v"
    unfolding v_def by (rule right_receive) (simp add: w2_def)
  ultimately have "net_reachable ops change ok consume w v"
    unfolding net_reachable_def by (meson converse_rtranclp_into_rtranclp rtranclp.rtrancl_refl)
  moreover have "outbound ops consume t w = Ret (Inr v)"
    by (simp add: outbound_def i v_def w2_def w1_def b0_def Let_def)
  ultimately show ?thesis
    by (intro that [of v]) (simp_all add: v_def w2_def w1_def)
qed

lemma good_run: "net_reachable ops change ok consume w v \<Longrightarrow> good w \<Longrightarrow> good v"
  unfolding net_reachable_def by (induction rule: rtranclp_induct) (auto intro: good_step)

lemma outbound_progress:
  assumes g: "good w"
  obtains v i where "outbound ops consume t w = Ret (Inr v)" "net_reachable ops change ok consume w v"
    "log_a v = log_a w" "log_b v = log_b w" "net_a v = note_sent i t (net_a w)"
    "ch_assumed (net_a w) < ch_current_num (net_a w) \<Longrightarrow> ch_assumed (net_a w) < ch_received_num (net_b v)"
proof -
  let ?a = "net_a w" and ?b = "net_b w" and ?H = "content_at eff content0 (log_a w)"
  let ?held = "snd (received_mut consume ?b)"
  have sa: "sender_inv rep low ?H ?a" using g by (auto simp: good_def direction_inv_iff)
  obtain i where i: "channel_instruction ops ?a = Ret (Inr i)"
    and ip: "ch_assumed ?a < ch_current_num ?a \<Longrightarrow> ch_assumed ?a < in_new i"
    using instruction_progress [OF sa] g by (auto simp: good_def)
  obtain v where v: "outbound ops consume t w = Ret (Inr v)" "net_reachable ops change ok consume w v"
    "log_a v = log_a w" "log_b v = log_b w" "net_a v = note_sent i t ?a"
    "net_b v = snd (channel_apply ops i ?held)"
    using outbound_runs [OF i] by blast
  have le: "ch_assumed ?a \<le> ch_received_num ?b" using g by (simp add: good_def direction_inv_iff)
  have adv: "ch_assumed ?a < ch_received_num (net_b v)" if pend: "ch_assumed ?a < ch_current_num ?a"
  proof (cases "in_old i = ch_received_num ?b")
    case False
    moreover have "in_old i = ch_assumed ?a" using emitted_carried(4) [OF sa i] .
    moreover have "ch_received_num (net_b v) = ch_received_num ?b"
      using False by (simp add: v(6) channel_apply_def frame_simps)
    ultimately show ?thesis using le by (simp add: frame_simps)
  next
    case True
    have rr: "rep (ch_received ?b) (in_old i) (?H (in_old i))"
      using g True by (simp add: good_def direction_inv_iff)
    obtain s p where sp: "rep s (in_new i) (?H (in_new i))" "rep p (in_old i) (?H (in_old i))"
      "low s \<le> in_old i" "in_old i \<le> in_new i" "in_diff i = diff_from ops s p"
      "length (in_diff i) \<le> MAX_DIFF_LEN"
      using emitted_carried(1) [OF sa i] unfolding carried_def by blast
    obtain r' where "apply_diff ops (ch_received ?held) (in_diff i) = (Inr (), r')"
      using consumed_accepts [OF sp(1,2) anc_content_at [OF sp(4)] sp(4,3) rr] sp(5,6)
      by (auto simp: frame_simps)
    then show ?thesis
      using True ip [OF pend] by (simp add: v(6) channel_apply_def frame_simps)
  qed
  show ?thesis by (rule that [OF v(1-5)]) (use adv in simp)
qed

text \<open>The answering half: the assumed receiver state becomes the peer's received one.\<close>

lemma answered_progress:
  assumes g: "good v"
  obtains w' where "answered ops t v = Ret (Inr w')" "net_reachable ops change ok consume v w'"
    "log_a w' = log_a v" "log_b w' = log_b v"
    "ch_current_num (net_a w') = ch_current_num (net_a v)"
    "ch_assumed (net_a w') = ch_received_num (net_b w')"
    "ch_received_num (net_b w') = ch_received_num (net_b v)"
    "ch_sent_states (net_a w') =
       ch_sent_states (acknowledge (ch_received_num (net_b v)) (net_a v))"
proof -
  let ?a = "net_a v" and ?b = "net_b v" and ?H = "content_at eff content0 (log_a v)"
  have sa: "sender_inv rep low ?H ?a"
    and mem: "ch_received_num ?b \<in> fst ` set (ch_sent_states ?a)" "ch_assumed ?a \<le> ch_received_num ?b"
    and sb: "sender_inv rep low (content_at eff content0 (log_b v)) ?b" "history_fits ops ?b"
    using g by (auto simp: good_def direction_inv_iff)
  obtain j where j: "channel_instruction ops ?b = Ret (Inr j)"
    using instruction_progress [OF sb] by blast
  have jack: "in_ack j = ch_received_num ?b"
    using j by (cases rule: channel_instruction_cases) simp
  define w1 where "w1 = v\<lparr>net_b := note_sent j t ?b, wire_ba := insert j (wire_ba v)\<rparr>"
  define w' where "w' = w1\<lparr>net_a := snd (channel_apply ops j (net_a w1))\<rparr>"
  have "net_step ops change ok consume v w1"
    unfolding w1_def by (rule right_transmit) (rule j)
  moreover have "net_step ops change ok consume w1 w'"
    unfolding w'_def by (rule left_receive) (simp add: w1_def)
  ultimately have run: "net_reachable ops change ok consume v w'"
    unfolding net_reachable_def by (meson converse_rtranclp_into_rtranclp rtranclp.rtrancl_refl)
  have trip: "answered ops t v = Ret (Inr w')"
    by (simp add: answered_def j w1_def w'_def)
  have na: "net_a w' = snd (channel_apply ops j ?a)" and nb: "net_b w' = note_sent j t ?b"
    by (simp_all add: w'_def w1_def)
  note fr = channel_apply_frame [OF surjective_pairing [of "channel_apply ops j ?a"]]
  have "ch_assumed (net_a w') = ch_received_num ?b"
    using acknowledge_sender_inv(2) [OF sa, of "ch_received_num ?b"] mem
    by (auto simp: na fr(4) jack)
  then show ?thesis
    by (intro that [OF trip run]) (simp_all add: w'_def w1_def fr jack frame_simps)
qed

lemma acknowledge_shrinks:
  assumes "sender_inv rep low H ch" "a \<in> fst ` set (ch_sent_states ch)" "ch_assumed ch < a"
  shows "length (ch_sent_states (acknowledge a ch)) < length (ch_sent_states ch)"
proof -
  obtain s rest where h: "ch_sent_states ch = (ch_assumed ch, s) # rest"
    using assms(1) by (cases "ch_sent_states ch") (auto simp: sender_inv_def)
  have "ch_sent_states (acknowledge a ch) = dropWhile (\<lambda>(n, _). n < a) (ch_sent_states ch)"
    using assms(2,3) by (auto simp: acknowledge_def)
  then show ?thesis
    using assms(3) length_dropWhile_le [of "\<lambda>(n, _). n < a" rest] by (simp add: h)
qed

lemma round_trip_progress:
  assumes g: "good w"
  obtains w' where "round_trip ops consume t w = Ret (Inr w')"
    "net_reachable ops change ok consume w w'" "good w'"
    "log_a w' = log_a w" "log_b w' = log_b w"
    "ch_current_num (net_a w') = ch_current_num (net_a w)"
    "ch_assumed (net_a w') = ch_received_num (net_b w')"
    "ch_assumed (net_a w) \<le> ch_assumed (net_a w')"
    "ch_assumed (net_a w) < ch_current_num (net_a w) \<Longrightarrow>
       history_len (net_a w') < history_len (net_a w)"
proof -
  obtain v i where v: "outbound ops consume t w = Ret (Inr v)" "net_reachable ops change ok consume w v"
    "log_a v = log_a w" "log_b v = log_b w" "net_a v = note_sent i t (net_a w)"
    and adv: "ch_assumed (net_a w) < ch_current_num (net_a w) \<Longrightarrow>
      ch_assumed (net_a w) < ch_received_num (net_b v)"
    by (rule outbound_progress [OF g, where t = t]) blast
  have gv: "good v" using good_run [OF v(2) g] .
  obtain w' where w': "answered ops t v = Ret (Inr w')" "net_reachable ops change ok consume v w'"
    "log_a w' = log_a v" "log_b w' = log_b v" "ch_current_num (net_a w') = ch_current_num (net_a v)"
    "ch_assumed (net_a w') = ch_received_num (net_b w')"
    "ch_received_num (net_b w') = ch_received_num (net_b v)"
    "ch_sent_states (net_a w') = ch_sent_states (acknowledge (ch_received_num (net_b v)) (net_a v))"
    by (rule answered_progress [OF gv, where t = t]) blast
  have va: "ch_assumed (net_a v) = ch_assumed (net_a w)"
    "ch_sent_states (net_a v) = ch_sent_states (net_a w)"
    "ch_current_num (net_a v) = ch_current_num (net_a w)"
    by (simp_all add: v(5) frame_simps)
  have iv: "sender_inv rep low (content_at eff content0 (log_a v)) (net_a v)"
    "ch_received_num (net_b v) \<in> fst ` set (ch_sent_states (net_a v))"
    "ch_assumed (net_a v) \<le> ch_received_num (net_b v)"
    using gv by (auto simp: good_def direction_inv_iff)
  have run: "net_reachable ops change ok consume w w'"
    using v(2) w'(2) unfolding net_reachable_def by (rule rtranclp_trans)
  have trip: "round_trip ops consume t w = Ret (Inr w')"
    by (simp add: round_trip_def v(1) w'(1))
  have "history_len (net_a w') < history_len (net_a w)"
    if "ch_assumed (net_a w) < ch_current_num (net_a w)"
    using acknowledge_shrinks [OF iv(1,2)] adv [OF that] va by (simp add: history_len_def w'(8))
  then show ?thesis
    by (intro that [OF trip run good_run [OF run g]]) (use v w' va iv(3) in simp_all)
qed

lemma in_sync_when_acknowledged:
  assumes "good w" "ch_assumed (net_a w) = ch_current_num (net_a w)"
  shows "ch_received_num (net_b w) = ch_current_num (net_a w)"
proof -
  have inv: "sender_inv rep low (content_at eff content0 (log_a w)) (net_a w)"
    and mem: "ch_received_num (net_b w) \<in> fst ` set (ch_sent_states (net_a w))"
    using assms(1) by (auto simp: good_def direction_inv_iff)
  obtain s where "(ch_received_num (net_b w), s) \<in> set (ch_sent_states (net_a w))"
    using mem by auto
  from sender_inv_bounds [OF inv this] show ?thesis using assms(2) by simp
qed

lemma acknowledged_when_history_single:
  assumes "good w" "history_len (net_a w) \<le> 1"
  shows "ch_assumed (net_a w) = ch_current_num (net_a w)"
  using assms by (cases "ch_sent_states (net_a w)") (auto simp: good_def direction_inv_iff sender_inv_def history_len_def)

lemma good_pending: "good w \<Longrightarrow> ch_assumed (net_a w) \<le> ch_current_num (net_a w)"
  by (auto simp: good_def direction_inv_iff intro: sender_inv_pending)

theorem round_trips_converge:
  assumes "good w" "history_len (net_a w) \<le> Suc k \<or> ch_assumed (net_a w) = ch_current_num (net_a w)"
  shows "\<exists>w'. round_trips ops consume t k w = Ret (Inr w') \<and>
    net_reachable ops change ok consume w w' \<and> good w' \<and> log_a w' = log_a w \<and>
    ch_assumed (net_a w') = ch_current_num (net_a w') \<and>
    ch_received_num (net_b w') = ch_current_num (net_a w')"
  using assms
proof (induction k arbitrary: w)
  case 0
  then have "ch_assumed (net_a w) = ch_current_num (net_a w)"
    using acknowledged_when_history_single by auto
  then show ?case
    using 0 in_sync_when_acknowledged by (simp add: net_reachable_def)
next
  case (Suc k)
  obtain v where v: "round_trip ops consume t w = Ret (Inr v)"
    "net_reachable ops change ok consume w v" "good v" "log_a v = log_a w"
    "ch_current_num (net_a v) = ch_current_num (net_a w)"
    "ch_assumed (net_a w) \<le> ch_assumed (net_a v)"
    "ch_assumed (net_a w) < ch_current_num (net_a w) \<Longrightarrow> history_len (net_a v) < history_len (net_a w)"
    by (rule round_trip_progress [OF Suc.prems(1), where t = t]) blast
  have "history_len (net_a v) \<le> Suc k \<or> ch_assumed (net_a v) = ch_current_num (net_a v)"
  proof (cases "ch_assumed (net_a w) < ch_current_num (net_a w)")
    case True
    then show ?thesis using v(7) Suc.prems(2) by auto
  next
    case False
    then have "ch_assumed (net_a w) = ch_current_num (net_a w)"
      using good_pending [OF Suc.prems(1)] by simp
    then show ?thesis using v(5,6) good_pending [OF v(3)] by simp
  qed
  from Suc.IH [OF v(3) this] v(1,2,4) show ?case
    by (auto simp: net_reachable_def intro: rtranclp_trans)
qed

end

end
