(* ===== verification/DeliveryQueue.thy ===== *)
theory DeliveryQueue
  imports ChannelLive StateQueue TransportTypes
begin

text \<open>
  Channel 0 end to end: the message queue interprets the channel contracts, so the messages
  handed to the application are, over any loss, duplication, delay and reordering, the sent
  ones in order, each once, and a bounded number of round trips delivers them all.
\<close>

section \<open>The queue meets the channel contract\<close>

text \<open>The guard of \<open>Session::queue_message\<close>.\<close>

definition queue_ok :: "bytes \<Rightarrow> message_queue \<Rightarrow> bool" where
  "queue_ok m q \<longleftrightarrow> length m \<le> MAX_MESSAGE_BYTES"

definition queue_eff :: "bytes \<Rightarrow> bytes list \<Rightarrow> bytes list" where
  "queue_eff m M = M @ [m]"

definition queue_fresh :: "message_queue \<Rightarrow> bool" where
  "queue_fresh q \<longleftrightarrow> (\<exists>L. q = mq_new L)"

lemma fold_queue_eff: "fold queue_eff ms M = M @ ms"
  by (induction ms arbitrary: M) (simp_all add: queue_eff_def)

lemma content_at_queue [simp]: "content_at queue_eff [] log n = take (unat n) log"
  by (simp add: content_at_def fold_queue_eff)

lemma mq_push_base: "mq_push m q = (Inr (), q') \<Longrightarrow> mq_base q' = mq_base q \<and> mq_limits q' = mq_limits q"
  using mq_push_cases by fastforce

lemma mq_new_base [simp]: "mq_base (mq_new L) = 0" "mq_limits (mq_new L) = L"
  by (simp_all add: mq_new_def)

interpretation queue_channel: ssp_channel message_queue_ssp mq_rep prefix mq_base
  mq_push queue_ok queue_eff mq_drain "[]" queue_fresh
proof (unfold_locales, goal_cases)
  case (1 s n a m s')
  then show ?case by (simp add: queue_eff_def mq_push_rep)
next
  case (2 s n a m s')
  then show ?case using mq_push_base by blast
qed (auto simp: queue_eff_def queue_fresh_def mq_drain_rep mq_rep_new mq_new_base)

section \<open>Enough room at the receiver\<close>

text \<open>A diff of one datagram carries at most 318 messages (4 bytes each after the count); a
  queue whose bounds take that much when empty never refuses one after it was drained.\<close>

definition roomy :: "queue_limits \<Rightarrow> bool" where
  "roomy L \<longleftrightarrow> 318 \<le> max_messages L \<and> MAX_DIFF_LEN \<le> max_bytes L"

lemma roomy_default: "roomy default_queue_limits"
  by (simp add: roomy_def default_queue_limits_def MAX_DIFF_LEN_eq)

definition roomy_rep :: "message_queue \<Rightarrow> u64 \<Rightarrow> bytes list \<Rightarrow> bool" where
  "roomy_rep q n M \<longleftrightarrow> mq_rep q n M \<and> roomy (mq_limits q)"

definition roomy_fresh :: "message_queue \<Rightarrow> bool" where
  "roomy_fresh q \<longleftrightarrow> (\<exists>L. roomy L \<and> q = mq_new L)"

lemma mq_limits_kept [simp]:
  "mq_limits (mq_prune_through k q) = mq_limits q" "mq_limits (snd (mq_drain q)) = mq_limits q"
  by (simp_all add: mq_prune_through_def Let_def mq_drain_def)

lemma mq_apply_diff_limits: "mq_apply_diff q d = (Inr (), q') \<Longrightarrow> mq_limits q' = mq_limits q \<and> mq_base q' = mq_base q"
  by (auto elim!: mq_apply_diff_Inr)

lemma mq_diff_prev_cong:
  "mq_rep p m b \<Longrightarrow> mq_rep p' m b \<Longrightarrow> mq_diff_from s p = mq_diff_from s p'"
  by (simp add: mq_diff_from_def mq_rep_num)

lemma mq_diff_same:
  assumes "mq_rep s n a" "mq_rep p n a"
  shows "mq_diff_from s p = encode_messages []"
proof -
  have "mq_base s \<le> n" using assms(1) by (simp add: mq_rep_def word_le_nat_alt)
  then show ?thesis using mq_diff_from_rep [OF assms] assms(1) by (simp add: mq_rep_def)
qed

lemma mq_push_diff:
  assumes r: "mq_rep s n a" and n: "n < - 1" and p: "mq_push u s = (Inr (), s')"
  shows "mq_diff_from s' s = encode_messages [u]"
proof -
  have "mq_base s' \<le> n" using r mq_push_base [OF p] by (simp add: mq_rep_def word_le_nat_alt)
  then show ?thesis
    using mq_diff_from_rep [OF mq_push_rep [OF r p n] r] r word_Suc_less [OF n]
    by (simp add: mq_rep_def order.strict_implies_order)
qed

lemma mq_drained_accepts:
  assumes s: "mq_rep s n a" and p: "mq_rep p m b" and le: "m \<le> n" "mq_base s \<le> m"
    and room: "roomy (mq_limits r)" and fits: "length (mq_diff_from s p) \<le> MAX_DIFF_LEN"
  shows "\<exists>r'. mq_apply_diff (snd (mq_drain r)) (mq_diff_from s p) = (Inr (), r')"
proof -
  let ?ms = "drop (unat m) a"
  have d: "mq_diff_from s p = encode_messages ?ms" by (rule mq_diff_from_rep [OF s p le])
  have l: "4 + 4 * length ?ms + sum_list (map length ?ms) \<le> 1277"
    using fits unfolding d length_encode_messages MAX_DIFF_LEN_eq .
  have "decode_messages (encode_messages ?ms) = Inr ?ms"
    using l by (intro decode_encode_messages encode_messages_small)
      (simp_all add: length_encode_messages del: length_drop)
  moreover have "length ?ms \<le> max_messages (mq_limits r)"
    "sum_list (map length ?ms) \<le> max_bytes (mq_limits r)"
    using l room unfolding roomy_def MAX_DIFF_LEN_eq by linarith+
  ultimately show ?thesis
    unfolding d by (simp add: mq_apply_diff_def mq_drain_def mq_check_capacity_def Let_def del: length_drop)
qed

interpretation queue_live: ssp_live message_queue_ssp roomy_rep prefix mq_base
  mq_push queue_ok queue_eff mq_drain "[]" roomy_fresh
proof (unfold_locales, goal_cases)
  case (3 s n a p m b r r')
  then show ?case
    using queue_ssp.apply_diff_correct [of s n a p m b r r'] mq_apply_diff_limits
    by (auto simp: roomy_rep_def)
next
  case (7 s n a m s')
  then show ?case
    using mq_push_rep mq_push_base by (auto simp: roomy_rep_def queue_eff_def)
next
  case (8 s n a m s')
  then show ?case using mq_push_base by blast
next
  case (13 p m b p' s)
  then show ?case using mq_diff_prev_cong unfolding roomy_rep_def message_queue_ssp_simps by blast
next
  case (14 s n a p)
  then show ?case using mq_diff_same [of s n a p] by (simp add: roomy_rep_def length_encode_messages MAX_DIFF_LEN_eq)
next
  case (15 s n a u s')
  then show ?case using mq_push_diff [of s n a u s']
    by (simp add: roomy_rep_def length_encode_messages queue_ok_def MAX_MESSAGE_BYTES_def
        MAX_DIFF_LEN_eq)
next
  case (16 s n a p m b r)
  then show ?case using mq_drained_accepts [of s n a p m b r] by (simp add: roomy_rep_def)
qed (auto simp: roomy_rep_def roomy_fresh_def queue_eff_def mq_drain_rep mq_rep_new mq_new_base
  intro: prefix_order.trans simp: mq_apply_diff_Inl mq_prune_rep mq_prune_base min_le_iff_disj le_max_iff_disj)

section \<open>Exactly once, in order\<close>

abbreviation queue_direction :: "(message_queue, bytes, bytes) net \<Rightarrow> bool" where
  "queue_direction \<equiv> direction_inv message_queue_ssp mq_rep mq_base queue_eff []"

abbreviation queue_step ::
  "(message_queue, bytes, bytes) net \<Rightarrow> (message_queue, bytes, bytes) net \<Rightarrow> bool" where
  "queue_step \<equiv> net_step message_queue_ssp mq_push queue_ok mq_drain"

abbreviation queue_reachable ::
  "(message_queue, bytes, bytes) net \<Rightarrow> (message_queue, bytes, bytes) net \<Rightarrow> bool" where
  "queue_reachable \<equiv> net_reachable message_queue_ssp mq_push queue_ok mq_drain"

text \<open>What the right application was handed is what the right queue has let go of.\<close>

definition handed_over :: "(message_queue, bytes, bytes) net \<Rightarrow> bool" where
  "handed_over w \<longleftrightarrow> out_b w = take (unat (mq_base (ch_received (net_b w)))) (log_a w)"

lemma queue_direction_received:
  "queue_direction w \<Longrightarrow>
   mq_rep (ch_received (net_b w)) (ch_received_num (net_b w))
     (take (unat (ch_received_num (net_b w))) (log_a w)) \<and>
   unat (ch_received_num (net_b w)) \<le> length (log_a w)"
  by (auto simp: direction_inv_iff mq_rep_def)

lemma handed_over_left:
  assumes st: "half_step message_queue_ssp mq_push queue_ok mq_drain w w'"
    and inv: "queue_direction w" and h: "handed_over w"
  shows "handed_over w'"
  using st
proof cases
  case (update m a')
  have "unat (mq_base (ch_received (net_b w))) \<le> length (log_a w)"
    using queue_direction_received [OF inv] by (auto simp: mq_rep_def)
  then show ?thesis using h by (simp add: update(1) handed_over_def)
qed (use h in \<open>simp_all add: handed_over_def\<close>)

lemma handed_over_right:
  assumes st: "half_step message_queue_ssp mq_push queue_ok mq_drain w w'"
    and inv: "queue_direction (net_swap w)" and h: "handed_over (net_swap w)"
  shows "handed_over (net_swap w')"
  using st
proof cases
  case (transmit i t)
  then show ?thesis using h by (simp add: handed_over_def frame_simps)
next
  case (receive i r a')
  have "mq_base (ch_received a') = mq_base (ch_received (net_a w))"
    using receive(3)
  proof (cases rule: channel_apply_cases)
    case (applied s)
    then show ?thesis using mq_apply_diff_limits [of "ch_received (net_a w)" "in_diff i" s] by simp
  next
    case (rejected e s)
    have "s = ch_received (net_a w)"
      using rejected(3) unfolding message_queue_ssp_simps by (rule mq_apply_diff_Inl)
    then show ?thesis by (simp add: rejected(4))
  qed (simp add: frame_simps)
  then show ?thesis using h by (simp add: receive(1) handed_over_def)
next
  case (update m a')
  then show ?thesis using h by (auto simp: handed_over_def elim: advance_cases)
next
  case (hand_over out a')
  let ?q = "ch_received (net_a w)" and ?n = "ch_received_num (net_a w)"
  have r: "mq_rep ?q ?n (take (unat ?n) (log_b w))" "unat ?n \<le> length (log_b w)"
    using queue_direction_received [OF inv] by auto
  have "unat (mq_base ?q) \<le> unat ?n" using r by (auto simp: mq_rep_def)
  then have "take (unat (mq_base ?q)) (log_b w) = take (unat (mq_base ?q)) (take (unat ?n) (log_b w))"
    by (simp add: min_def)
  then have "take (unat (mq_base ?q)) (log_b w) @ drop (unat (mq_base ?q)) (take (unat ?n) (log_b w))
      = take (unat ?n) (log_b w)"
    by (simp only: append_take_drop_id)
  moreover have "out = drop (unat (mq_base ?q)) (take (unat ?n) (log_b w))"
    "mq_base (ch_received a') = ?n"
    using mq_drain_rep [OF r(1)] received_mut_frame(6,7) [of mq_drain "net_a w"]
    by (simp_all add: hand_over(2))
  ultimately show ?thesis
    using h by (simp add: hand_over(1) handed_over_def)
qed

lemma queue_directions:
  assumes "queue_reachable (net_init i (mq_new L) k (mq_new L') k') w"
  shows "queue_direction w \<and> queue_direction (net_swap w)"
  by (rule queue_channel.reachable_direction [OF assms]) (auto simp: queue_fresh_def)

text \<open>Both directions are in order and both applications were handed what was let go of.\<close>

definition queue_good :: "(message_queue, bytes, bytes) net \<Rightarrow> bool" where
  "queue_good w \<longleftrightarrow> queue_direction w \<and> queue_direction (net_swap w) \<and>
     handed_over w \<and> handed_over (net_swap w)"

lemma queue_good_init: "queue_good (net_init i (mq_new L) k (mq_new L') k')"
proof -
  have "queue_direction (net_init i (mq_new L) k (mq_new L') k')" for L k L' k'
    by (rule queue_channel.init_direction) (auto simp: queue_fresh_def)
  moreover have "handed_over (net_init i (mq_new L) k (mq_new L') k' :: (message_queue, bytes, bytes) net)"
    for L k L' k'
    by (simp add: handed_over_def net_init_def)
  ultimately show ?thesis by (simp add: queue_good_def net_swap_init)
qed

lemma queue_good_step: "queue_step v w \<Longrightarrow> queue_good v \<Longrightarrow> queue_good w"
proof -
  assume st: "queue_step v w" and g: "queue_good v"
  have dir: "queue_direction w \<and> queue_direction (net_swap w)"
    using st g queue_channel.net_step_direction by (auto simp: queue_good_def)
  show ?thesis
    using st
  proof cases
    case left
    then show ?thesis using dir g handed_over_left handed_over_right by (simp add: queue_good_def)
  next
    case (right w')
    then show ?thesis
      using dir g handed_over_left [OF right(2)] handed_over_right [OF right(2)]
      by (simp add: queue_good_def)
  qed
qed

lemma queue_good_run: "queue_reachable v w \<Longrightarrow> queue_good v \<Longrightarrow> queue_good w"
  unfolding net_reachable_def by (induction rule: rtranclp_induct) (auto intro: queue_good_step)

lemma received_queue_content:
  assumes g: "queue_good w"
  shows "out_b w @ mq_pending (ch_received (net_b w))
      = take (unat (ch_received_num (net_b w))) (log_a w)"
proof -
  let ?q = "ch_received (net_b w)" and ?n = "ch_received_num (net_b w)"
  have "queue_direction w" using g by (simp add: queue_good_def)
  then have r: "mq_rep ?q ?n (take (unat ?n) (log_a w))" "unat (mq_base ?q) \<le> unat ?n"
    using queue_direction_received by (auto simp: mq_rep_def)
  then have "mq_messages ?q = drop (unat (mq_base ?q)) (take (unat ?n) (log_a w))"
    by (simp add: mq_rep_def)
  moreover have "out_b w = take (unat (mq_base ?q)) (take (unat ?n) (log_a w))"
    using g r(2) by (simp add: queue_good_def handed_over_def min_def)
  ultimately show ?thesis by (simp only: mq_pending_def append_take_drop_id)
qed

text \<open>A bounded number of lossless round trips delivers everything.\<close>

lemma queue_round_trips:
  assumes g: "queue_good w" and live: "queue_live.good w" and len: "history_len (net_a w) \<le> Suc k"
  shows "\<exists>w'. round_trips message_queue_ssp mq_drain t k w = Ret (Inr w') \<and>
    log_a w' = log_a w \<and> \<not> is_pending (net_a w') \<and>
    out_b w' @ mq_pending (ch_received (net_b w')) = log_a w"
proof -
  obtain w' where w': "round_trips message_queue_ssp mq_drain t k w = Ret (Inr w')"
    "queue_reachable w w'" "log_a w' = log_a w"
    "ch_assumed (net_a w') = ch_current_num (net_a w')"
    "ch_received_num (net_b w') = ch_current_num (net_a w')"
    using queue_live.round_trips_converge [OF live disjI1, OF len] by metis
  have g': "queue_good w'" by (rule queue_good_run [OF w'(2) g])
  then have "unat (ch_current_num (net_a w')) = length (log_a w')"
    by (simp add: queue_good_def direction_inv_iff)
  then show ?thesis
    using w' received_queue_content [OF g'] by (auto simp: is_pending_def)
qed

end
