(* ===== verification/DeliveryReset.thy ===== *)
theory DeliveryReset
  imports DeliveryQueue
begin

text \<open>
  Channel 0 across a restart of the peer: \<open>Channel::reset_peer\<close> renumbers the retained queue
  states onto the fresh origin, so that exactly the messages the old peer never acknowledged
  are what the new one will be brought to.
\<close>

section \<open>A sender whose states can be renumbered\<close>

text \<open>The current queue has released exactly what the peer acknowledged, and the history
  misses no number in between.\<close>

definition renumberable :: "message_queue channel \<Rightarrow> bool" where
  "renumberable ch \<longleftrightarrow>
     mq_base (ch_current ch) = ch_assumed ch \<and>
     (\<forall>n. ch_assumed ch \<le> n \<and> n \<le> ch_current_num ch \<longrightarrow> n \<in> fst ` set (ch_sent_states ch))"

definition acks_paired :: "instruction set \<Rightarrow> bool" where
  "acks_paired I \<longleftrightarrow> (\<forall>j \<in> I. in_throwaway j = in_ack j)"

lemma acknowledge_renumberable:
  assumes "sender_inv rep low H ch" "renumberable ch" "a \<le> ch_current_num ch"
  shows "ch_assumed (acknowledge a ch) = max (ch_assumed ch) a"
    "\<forall>n. ch_assumed (acknowledge a ch) \<le> n \<and> n \<le> ch_current_num ch \<longrightarrow>
       n \<in> fst ` set (ch_sent_states (acknowledge a ch))"
proof -
  note ack = acknowledge_sender_inv [OF assms(1), where a = a]
  have "ch_assumed ch < a \<Longrightarrow> a \<in> fst ` set (ch_sent_states ch)"
    using assms(2,3) by (simp add: renumberable_def)
  then show m: "ch_assumed (acknowledge a ch) = max (ch_assumed ch) a"
    using ack(2) by (auto simp: max_def)
  show "\<forall>n. ch_assumed (acknowledge a ch) \<le> n \<and> n \<le> ch_current_num ch \<longrightarrow>
       n \<in> fst ` set (ch_sent_states (acknowledge a ch))"
  proof (intro allI impI)
    fix n assume n: "ch_assumed (acknowledge a ch) \<le> n \<and> n \<le> ch_current_num ch"
    then have "n \<in> fst ` set (ch_sent_states ch)"
      using assms(2) m by (simp add: renumberable_def)
    then obtain s where "(n, s) \<in> set (ch_sent_states ch)" by auto
    then show "n \<in> fst ` set (ch_sent_states (acknowledge a ch))"
      using ack(4) n by force
  qed
qed

lemma renumberable_left:
  assumes st: "half_step message_queue_ssp mq_push queue_ok mq_drain w w'"
    and dir: "queue_direction w" and ren: "renumberable (net_a w)" and acks: "acks_paired (wire_ba w)"
  shows "renumberable (net_a w')"
  using st
proof cases
  case (transmit i t)
  then show ?thesis using ren by (simp add: renumberable_def frame_simps)
next
  case (receive i r a')
  let ?a = "net_a w" and ?x = "in_ack i"
  have s: "sender_inv mq_rep mq_base (content_at queue_eff [] (log_a w)) ?a"
    and le: "?x \<le> ch_received_num (net_b w)"
    and mem: "ch_received_num (net_b w) \<in> fst ` set (ch_sent_states ?a)"
    using dir receive(2) by (auto simp: direction_inv_iff)
  obtain q where "(ch_received_num (net_b w), q) \<in> set (ch_sent_states ?a)" using mem by auto
  then have lec: "?x \<le> ch_current_num ?a" using sender_inv_bounds(2) [OF s] le order_trans by blast
  note ack = acknowledge_renumberable [OF s ren lec] and fr = channel_apply_frame [OF receive(3)]
  have cur: "mq_rep (ch_current ?a) (ch_current_num ?a) (take (unat (ch_current_num ?a)) (log_a w))"
    using s by (simp add: sender_inv_def)
  have "in_throwaway i = ?x" using acks receive(2) by (simp add: acks_paired_def)
  then have "ch_current a' = mq_prune_through ?x (ch_current ?a)"
    using ack(1) by (simp add: fr(6) min_def max_def)
  then have "mq_base (ch_current a') = max (ch_assumed ?a) ?x"
    using mq_prune_base [OF cur] ren lec by (simp add: renumberable_def min_def)
  then show ?thesis
    using ack by (simp add: receive(1) renumberable_def fr(3-5))
next
  case (update m a')
  let ?a = "net_a w"
  obtain s where s: "mq_push m (ch_current ?a) = (Inr (), s)"
    and a': "a' = ?a\<lparr>ch_current := s, ch_current_num := ch_current_num ?a + 1,
         ch_sent_states := ch_sent_states ?a @ [(ch_current_num ?a + 1, s)]\<rparr>"
    using update(3) by (cases rule: advance_cases) auto
  have "n \<le> ch_current_num ?a \<or> n = ch_current_num ?a + 1" if "n \<le> ch_current_num ?a + 1" for n
    using that update(4) by (metis inc_le order.order_iff_strict word_le_less_eq not_le)
  then show ?thesis
    using ren mq_push_base [OF s] by (auto simp: update(1) renumberable_def a')
next
  case (hand_over out a')
  have "a' = snd (received_mut mq_drain (net_a w))" by (simp add: hand_over(2))
  then show ?thesis using ren by (simp add: hand_over(1) renumberable_def frame_simps)
qed

lemma acks_paired_left:
  assumes "half_step message_queue_ssp mq_push queue_ok mq_drain w w'" "acks_paired (wire_ab w)"
  shows "acks_paired (wire_ab w')"
  using assms(1)
proof cases
  case (transmit i t)
  from transmit(2) have "in_throwaway i = in_ack i"
    by (cases rule: channel_instruction_cases) simp
  then show ?thesis using transmit(1) assms(2) by (simp add: acks_paired_def)
qed (use assms(2) in simp_all)

definition queue_start :: "queue_limits \<Rightarrow> message_queue channel \<Rightarrow> bool" where
  "queue_start L ch \<longleftrightarrow> ch_id ch = CHANNEL_MESSAGES \<and> ch_initial ch = mq_new L"

lemma half_step_start:
  assumes "half_step message_queue_ssp mq_push queue_ok mq_drain w w'"
  shows "queue_start L (net_a w') = queue_start L (net_a w) \<and> net_b w' = net_b w \<and> wire_ba w' = wire_ba w"
  using assms
proof cases
  case (receive i r a')
  then show ?thesis by (simp add: queue_start_def channel_apply_frame [OF receive(3)])
next
  case (update m a')
  then show ?thesis by (auto simp: queue_start_def elim: advance_cases)
next
  case (hand_over out a')
  then show ?thesis by (auto simp: queue_start_def received_mut_def split: prod.splits)
qed (simp_all add: queue_start_def frame_simps)

text \<open>Everything a restart relies on, for both endpoints.\<close>

definition restartable :: "queue_limits \<Rightarrow> (message_queue, bytes, bytes) net \<Rightarrow> bool" where
  "restartable L w \<longleftrightarrow> queue_good w \<and>
     renumberable (net_a w) \<and> renumberable (net_b w) \<and>
     acks_paired (wire_ab w) \<and> acks_paired (wire_ba w) \<and>
     queue_start L (net_a w) \<and> queue_start L (net_b w)"

lemma restartable_init: "restartable L (net_init CHANNEL_MESSAGES (mq_new L) k (mq_new L) k')"
proof -
  have "renumberable (channel_new CHANNEL_MESSAGES (mq_new L) k)" for k
    by (auto simp: renumberable_def channel_new_def)
  then show ?thesis
    using queue_good_init by (simp add: restartable_def net_init_def acks_paired_def queue_start_def channel_new_def)
qed

lemma restartable_step: "queue_step v w \<Longrightarrow> restartable L v \<Longrightarrow> restartable L w"
proof -
  assume st: "queue_step v w" and r: "restartable L v"
  then have g: "queue_good w" "queue_good v" using queue_good_step by (auto simp: restartable_def)
  show ?thesis
    using st
  proof cases
    case left
    then show ?thesis
      using g r renumberable_left [OF left] acks_paired_left [OF left] half_step_start [OF left]
      by (simp add: restartable_def queue_good_def)
  next
    case (right w')
    then show ?thesis
      using g r renumberable_left [OF right(2)] acks_paired_left [OF right(2)] half_step_start [OF right(2)]
      by (simp add: restartable_def queue_good_def)
  qed
qed

lemma restartable_run: "queue_reachable v w \<Longrightarrow> restartable L v \<Longrightarrow> restartable L w"
  unfolding net_reachable_def by (induction rule: rtranclp_induct) (auto intro: restartable_step)

section \<open>Renumbering\<close>

definition rebased :: "u64 \<Rightarrow> message_queue \<Rightarrow> message_queue" where
  "rebased a q = (mq_prune_through a q)\<lparr>mq_base := 0\<rparr>"

lemma rebased_rep:
  assumes r: "mq_rep q n (take (unat n) log)" and b: "mq_base q \<le> a" and le: "a \<le> n"
  shows "mq_rep (rebased a q) (n - a) (take (unat (n - a)) (drop (unat a) log))"
    "mq_reset_origin (mq_prune_through a q) = (Some (n - a), rebased a q)"
proof -
  have base: "mq_base (mq_prune_through a q) = a"
    using mq_prune_base [OF r, of a] b le by (simp add: min_def max_def)
  have p: "mq_rep (mq_prune_through a q) n (take (unat n) log)" by (rule mq_prune_rep [OF r])
  have u: "unat (n - a) = unat n - unat a" using le by (simp add: unat_sub)
  have ms: "mq_messages (rebased a q) = take (unat (n - a)) (drop (unat a) log)"
    using p base by (simp add: rebased_def mq_rep_def drop_take u)
  have len: "length (take (unat (n - a)) (drop (unat a) log)) = unat (n - a)"
  proof -
    have "unat n \<le> length log" using p by (auto simp: mq_rep_def min_def split: if_splits)
    then show ?thesis using u by simp
  qed
  show "mq_rep (rebased a q) (n - a) (take (unat (n - a)) (drop (unat a) log))"
    using ms len p mq_prune_wf base u by (simp add: mq_rep_def mq_wf_def rebased_def)
  show "mq_reset_origin (mq_prune_through a q) = (Some (n - a), rebased a q)"
    using ms len by (simp add: mq_reset_origin_def mq_num_def rebased_def Let_def)
qed

lemma rebase_sent_queue:
  assumes "sorted_wrt (<) (map fst xs)"
    and "\<forall>(n, q) \<in> set xs. a < n \<and> mq_rep q n (take (unat n) log) \<and> mq_base q \<le> a"
    and "fst (last acc) = k - a" "\<forall>(n, q) \<in> set xs. k < n" "a \<le> k"
  shows "rebase_sent message_queue_ssp a xs acc = Ret (acc @ map (\<lambda>(n, q). (n - a, rebased a q)) xs)"
  using assms
proof (induction xs arbitrary: acc k)
  case (Cons x xs)
  obtain n q where x: "x = (n, q)" by (cases x)
  have n: "a < n" "mq_rep q n (take (unat n) log)" "mq_base q \<le> a" "k < n"
    using Cons.prems x by auto
  have ne: "n - a > 0" "fst (last acc) \<noteq> n - a"
    using n(1,4) Cons.prems(3,5) by (auto simp: word_greater_zero_iff)
  have "rebase_sent message_queue_ssp a xs (acc @ [(n - a, rebased a q)])
      = Ret ((acc @ [(n - a, rebased a q)]) @ map (\<lambda>(n, q). (n - a, rebased a q)) xs)"
    using Cons.prems x n(1) by (intro Cons.IH [where k = n]) auto
  then show ?case
    using n(1) ne rebased_rep(2) [OF n(2,3)] by (simp add: x)
qed simp

definition after_reset :: "queue_limits \<Rightarrow> message_queue channel \<Rightarrow> message_queue channel" where
  "after_reset L ch =
     (let a = ch_assumed ch in
      ch\<lparr>ch_current := rebased a (ch_current ch),
         ch_current_num := ch_current_num ch - a,
         ch_sent_states := (0, mq_new L) # map (\<lambda>(n, q). (n - a, rebased a q)) (tl (ch_sent_states ch)),
         ch_assumed := 0, ch_received := mq_new L, ch_received_num := 0,
         ch_sent_num := 0, ch_last_sent_ms := None\<rparr>)"

lemma reset_peer_queue:
  assumes inv: "sender_inv mq_rep mq_base (content_at queue_eff [] log) ch"
    and ren: "renumberable ch" and st: "queue_start L ch"
  shows "reset_peer message_queue_ssp ch = Ret (after_reset L ch)"
proof -
  let ?a = "ch_assumed ch" and ?c = "ch_current_num ch"
  obtain s0 rest where h: "ch_sent_states ch = (?a, s0) # rest"
    using inv by (cases "ch_sent_states ch") (auto simp: sender_inv_def)
  have facts: "sorted_wrt (<) (map fst rest)" "\<forall>(n, q) \<in> set rest. ?a < n"
    "\<forall>(n, q) \<in> set rest. ?a < n \<and> mq_rep q n (take (unat n) log) \<and> mq_base q \<le> ?a"
    "fst (last ((?a, s0) # rest)) = ?c"
    using inv h by (auto simp: sender_inv_def)
  have sent: "rebase_sent message_queue_ssp ?a (ch_sent_states ch) [(0, ch_initial ch)]
      = Ret ((0, mq_new L) # map (\<lambda>(n, q). (n - ?a, rebased ?a q)) rest)"
    using rebase_sent_queue [OF facts(1,3), of "[(0, mq_new L)]" ?a] facts(2) st
    by (simp add: h queue_start_def)
  have cur: "mq_rep (ch_current ch) ?c (take (unat ?c) log)" "mq_base (ch_current ch) = ?a" "?a \<le> ?c"
    using inv ren sender_inv_pending [OF inv] by (auto simp: sender_inv_def renumberable_def)
  then have keep: "mq_prune_through ?a (ch_current ch) = ch_current ch"
    by (simp add: mq_prune_through_def)
  have org: "mq_reset_origin (ch_current ch) = (Some (?c - ?a), rebased ?a (ch_current ch))"
    using rebased_rep(2) [OF cur(1) _ cur(3)] cur(2) keep by simp
  have last: "\<not> (?c - ?a > 0 \<and> fst (last ((0, mq_new L) # map (\<lambda>(n, q). (n - ?a, rebased ?a q)) rest)) \<noteq> ?c - ?a)"
    using facts(4) by (cases rest rule: rev_cases) auto
  show ?thesis
    using st sent org last
    by (auto simp: reset_peer_def after_reset_def queue_start_def CHANNEL_MESSAGES_def h Let_def)
qed

lemma after_reset_sender:
  assumes inv: "sender_inv mq_rep mq_base (content_at queue_eff [] log) ch" and ren: "renumberable ch"
  shows "sender_inv mq_rep mq_base (content_at queue_eff [] (drop (unat (ch_assumed ch)) log)) (after_reset L ch)"
proof -
  let ?a = "ch_assumed ch" and ?c = "ch_current_num ch"
  let ?f = "\<lambda>(n, q). (n - ?a, rebased ?a q)"
  obtain s0 rest where h: "ch_sent_states ch = (?a, s0) # rest"
    using inv by (cases "ch_sent_states ch") (auto simp: sender_inv_def)
  have srt: "sorted_wrt (<) (map fst rest)" and last: "fst (last ((?a, s0) # rest)) = ?c"
    and each: "\<And>n q. (n, q) \<in> set rest \<Longrightarrow> ?a < n \<and> mq_rep q n (take (unat n) log) \<and> mq_base q \<le> ?a"
    using inv h by (auto simp: sender_inv_def)
  have cur: "mq_rep (ch_current ch) ?c (take (unat ?c) log)" "mq_base (ch_current ch) = ?a" "?a \<le> ?c"
    using inv ren sender_inv_pending [OF inv] by (auto simp: sender_inv_def renumberable_def)
  have mono: "m - ?a < n - ?a" if "?a < m" "m < n" for m n
    using that by (simp add: word_less_nat_alt unat_sub word_le_nat_alt)
  have "sorted_wrt (<) (map fst (map ?f rest))"
    using srt each unfolding map_map sorted_wrt_map
    by (elim sorted_wrt_mono_rel [rotated]) (fastforce intro: mono)
  moreover have "0 < fst (?f x)" if "x \<in> set rest" for x
    using each [of "fst x" "snd x"] that by (cases x) (auto simp: word_greater_zero_iff)
  moreover have "fst (last ((0, mq_new L) # map ?f rest)) = ?c - ?a"
    using last by (cases rest rule: rev_cases) auto
  moreover have "mq_rep (rebased ?a q) (n - ?a) (take (unat (n - ?a)) (drop (unat ?a) log))"
    if "(n, q) \<in> set rest" for n q
    using each [OF that] by (intro rebased_rep) (auto intro: order.strict_implies_order)
  moreover have "mq_rep (rebased ?a (ch_current ch)) (?c - ?a) (take (unat (?c - ?a)) (drop (unat ?a) log))"
    using cur by (intro rebased_rep) auto
  ultimately show ?thesis
    by (auto simp: sender_inv_def after_reset_def h Let_def mq_rep_new rebased_def)
qed

section \<open>The network after the restart\<close>

text \<open>The right process restarted with a new epoch and none of the old session's datagrams is
  left; \<open>a'\<close> is the left channel after \<open>reset_peer\<close>.\<close>

definition fresh_peer ::
  "message_queue channel \<Rightarrow> queue_limits \<Rightarrow> nat \<Rightarrow> bytes list \<Rightarrow> (message_queue, bytes, bytes) net" where
  "fresh_peer a' L k log =
     \<lparr>net_a = a', net_b = channel_new CHANNEL_MESSAGES (mq_new L) k, wire_ab = {}, wire_ba = {},
      log_a = log, log_b = [], out_a = [], out_b = []\<rparr>"

lemma after_reset_sel [simp]:
  "ch_assumed (after_reset L ch) = 0" "ch_received (after_reset L ch) = mq_new L"
  "ch_received_num (after_reset L ch) = 0"
  "ch_current_num (after_reset L ch) = ch_current_num ch - ch_assumed ch"
  "ch_id (after_reset L ch) = ch_id ch" "ch_initial (after_reset L ch) = ch_initial ch"
  "ch_current (after_reset L ch) = rebased (ch_assumed ch) (ch_current ch)"
  "ch_sent_states (after_reset L ch) = (0, mq_new L) #
     map (\<lambda>(n, q). (n - ch_assumed ch, rebased (ch_assumed ch) q)) (tl (ch_sent_states ch))"
  by (simp_all add: after_reset_def Let_def)

lemma after_reset_renumberable:
  assumes inv: "sender_inv mq_rep mq_base (content_at queue_eff [] log) ch" and ren: "renumberable ch"
  shows "renumberable (after_reset L ch)"
proof -
  let ?a = "ch_assumed ch" and ?c = "ch_current_num ch"
  have "n = 0 \<or> n \<in> (\<lambda>(n, q). n - ?a) ` set (tl (ch_sent_states ch))" if n: "n \<le> ?c - ?a" for n
  proof (cases "n = 0")
    case False
    have ac: "?a \<le> ?c" using sender_inv_pending [OF inv] .
    then have le: "unat n + unat ?a \<le> unat ?c"
      using n by (simp add: word_le_nat_alt unat_sub)
    then have u: "unat (n + ?a) = unat n + unat ?a"
      using unat_bound64 [of ?c] by (simp add: unat_u64_add)
    moreover have "0 < unat n" using False by (simp add: unat_gt_0)
    ultimately have "?a < n + ?a" "n + ?a \<le> ?c"
      using le by (simp_all add: word_less_nat_alt word_le_nat_alt)
    then have mem: "n + ?a \<in> fst ` set (ch_sent_states ch)"
      using ren by (simp add: renumberable_def order.strict_implies_order)
    obtain s0 rest where "ch_sent_states ch = (?a, s0) # rest"
      using inv by (cases "ch_sent_states ch") (auto simp: sender_inv_def)
    then have "n + ?a \<in> fst ` set (tl (ch_sent_states ch))"
      using mem \<open>?a < n + ?a\<close> by auto
    then show ?thesis by (force simp: image_iff)
  qed simp
  then show ?thesis
    by (auto simp: renumberable_def rebased_def image_image case_prod_beta)
qed

lemma restarted_restartable:
  assumes r: "restartable L w"
  shows "restartable L (fresh_peer (after_reset L (net_a w)) L k (drop (unat (ch_assumed (net_a w))) (log_a w)))"
    (is "restartable L ?w")
proof -
  let ?a = "net_a w"
  have inv: "sender_inv mq_rep mq_base (content_at queue_eff [] (log_a w)) ?a"
    and num: "unat (ch_current_num ?a) = length (log_a w)"
    using r by (auto simp: restartable_def queue_good_def direction_inv_iff)
  have ren: "renumberable ?a" and st: "queue_start L ?a" using r by (auto simp: restartable_def)
  have le: "ch_assumed ?a \<le> ch_current_num ?a" using sender_inv_pending [OF inv] .
  have "queue_direction ?w"
    using after_reset_sender [OF inv ren] num le
    by (simp add: direction_inv_iff fresh_peer_def channel_new_def mq_rep_new unat_sub)
  moreover have "queue_direction (net_swap ?w)"
    by (simp add: direction_inv_iff fresh_peer_def channel_new_def mq_rep_new sender_inv_def)
  moreover have "renumberable (channel_new CHANNEL_MESSAGES (mq_new L) k)"
    by (auto simp: renumberable_def channel_new_def)
  ultimately show ?thesis
    using after_reset_renumberable [OF inv ren] st
    by (auto simp: restartable_def queue_good_def handed_over_def fresh_peer_def acks_paired_def
        queue_start_def channel_new_def)
qed

text \<open>Accepted updates only extend the log.\<close>

lemma log_prefix: "queue_reachable v w \<Longrightarrow> prefix (log_a v) (log_a w)"
proof -
  have half: "prefix (log_a x) (log_a y) \<and> log_b x = log_b y"
    if "half_step message_queue_ssp mq_push queue_ok mq_drain x y" for x y
    using that by cases simp_all
  have one: "prefix (log_a x) (log_a y)" if "queue_step x y" for x y
    using that
  proof (cases rule: net_step.cases)
    case left
    then show ?thesis using half by blast
  next
    case (right w')
    then show ?thesis using half [OF right(2)] by simp
  qed
  show "queue_reachable v w \<Longrightarrow> prefix (log_a v) (log_a w)"
    unfolding net_reachable_def
    by (induction rule: rtranclp_induct) (auto intro: prefix_order.trans one)
qed

section \<open>The renumbered history still fits datagrams\<close>

lemma mq_diff_from_any:
  assumes s: "mq_rep s n a" and p: "mq_rep p m b" and b: "mq_base s \<le> m"
  shows "mq_diff_from s p = encode_messages (drop (unat m) a)"
proof -
  have "unat (m - mq_base s) = unat m - unat (mq_base s)" "unat (mq_base s) \<le> unat m"
    using b by (simp_all add: unat_sub word_le_nat_alt)
  then show ?thesis
    using s mq_rep_num [OF p] b by (auto simp: mq_diff_from_def mq_rep_def Let_def max_def)
qed

lemma history_fits_queue:
  assumes "\<forall>(n, q) \<in> set (ch_sent_states ch). mq_rep q n (take (unat n) log) \<and> mq_base q \<le> n \<and> mq_base q \<le> a"
    and "\<forall>(n, q) \<in> set (ch_sent_states ch). a \<le> n"
  shows "history_fits message_queue_ssp ch \<longleftrightarrow>
    successively (\<lambda>n n'. length (encode_messages (drop (unat n) (take (unat n') log))) \<le> MAX_DIFF_LEN)
      (map fst (ch_sent_states ch))"
  unfolding history_fits_def successively_map
proof (rule successively_cong, goal_cases)
  case (1 x y)
  obtain n q n' q' where xy: "x = (n, q)" "y = (n', q')" by (metis surj_pair)
  have "mq_base q' \<le> n" using 1 xy assms by (auto intro: order_trans)
  then have "mq_diff_from q' q = encode_messages (drop (unat n) (take (unat n') log))"
    using 1 xy assms(1) by (intro mq_diff_from_any) auto
  then show ?case by (simp add: xy)
qed simp

lemma after_reset_fits:
  assumes inv: "sender_inv mq_rep mq_base (content_at queue_eff [] log) ch"
    and ren: "renumberable ch" and fits: "history_fits message_queue_ssp ch"
  shows "history_fits message_queue_ssp (after_reset L ch)"
proof -
  let ?a = "ch_assumed ch" and ?log' = "drop (unat (ch_assumed ch)) log"
  obtain s0 rest where h: "ch_sent_states ch = (?a, s0) # rest"
    using inv by (cases "ch_sent_states ch") (auto simp: sender_inv_def)
  have bound: "?a \<le> n" if "(n, q) \<in> set (ch_sent_states ch)" for n q
    using sender_inv_bounds(1) [OF inv that] .
  have old: "successively (\<lambda>n n'. length (encode_messages (drop (unat n) (take (unat n') log))) \<le> MAX_DIFF_LEN)
      (map fst (ch_sent_states ch))"
    using fits inv bound order_trans
    by (subst (asm) history_fits_queue [where a = ?a and log = log]) (auto simp: sender_inv_def, fastforce)
  have shift: "drop (unat (n - ?a)) (take (unat (n' - ?a)) ?log') = drop (unat n) (take (unat n') log)"
    if "?a \<le> n" "?a \<le> n'" for n n'
    using that by (simp add: unat_sub drop_take word_le_nat_alt)
  have nums: "map fst (ch_sent_states (after_reset L ch)) = map (\<lambda>n. n - ?a) (map fst (ch_sent_states ch))"
    by (simp add: h case_prod_beta)
  have inv': "sender_inv mq_rep mq_base (content_at queue_eff [] ?log') (after_reset L ch)"
    by (rule after_reset_sender [OF inv ren])
  have "successively (\<lambda>n n'. length (encode_messages (drop (unat n) (take (unat n') ?log'))) \<le> MAX_DIFF_LEN)
      (map fst (ch_sent_states (after_reset L ch)))"
    unfolding nums successively_map
    using old unfolding successively_map
    by (rule successively_cong [THEN iffD1, rotated 2]) (use bound shift in \<open>auto simp del: drop_drop\<close>)
  then show ?thesis
    using inv'
    by (subst history_fits_queue [where a = 0 and log = ?log']) (auto simp: sender_inv_def)
qed

lemma roomy_sender_inv:
  "sender_inv roomy_rep low H ch \<longleftrightarrow>
     sender_inv mq_rep low H ch \<and> roomy (mq_limits (ch_current ch)) \<and>
     (\<forall>(n, q) \<in> set (ch_sent_states ch). roomy (mq_limits q))"
  by (auto simp: sender_inv_def roomy_rep_def)

lemma after_reset_roomy:
  assumes "sender_inv roomy_rep mq_base (content_at queue_eff [] log) ch" "renumberable ch" "roomy L"
  shows "sender_inv roomy_rep mq_base (content_at queue_eff [] (drop (unat (ch_assumed ch)) log))
    (after_reset L ch)"
proof -
  have "roomy (mq_limits q)" if "(n, q) \<in> set (tl (ch_sent_states ch))" for n q
    using assms(1) that by (cases "ch_sent_states ch") (auto simp: roomy_sender_inv)
  then show ?thesis
    using after_reset_sender [of log ch L] assms
    by (auto simp: roomy_sender_inv rebased_def)
qed

lemma restarted_live:
  assumes r: "restartable L w" and live: "queue_live.good w" and room: "roomy L"
  shows "queue_live.good
    (fresh_peer (after_reset L (net_a w)) L k (drop (unat (ch_assumed (net_a w))) (log_a w)))"
    (is "queue_live.good ?w")
proof -
  let ?a = "net_a w"
  have inv: "sender_inv roomy_rep mq_base (content_at queue_eff [] (log_a w)) ?a"
    and num: "unat (ch_current_num ?a) = length (log_a w)" and fits: "history_fits message_queue_ssp ?a"
    using live by (auto simp: queue_live.good_def direction_inv_iff)
  have ren: "renumberable ?a" using r by (simp add: restartable_def)
  have inv': "sender_inv mq_rep mq_base (content_at queue_eff [] (log_a w)) ?a"
    using inv by (simp add: roomy_sender_inv)
  have le: "ch_assumed ?a \<le> ch_current_num ?a" using sender_inv_pending [OF inv] .
  have new: "roomy_rep (mq_new L) 0 []" using room by (simp add: roomy_rep_def mq_rep_new)
  have "direction_inv message_queue_ssp roomy_rep mq_base queue_eff [] ?w"
    using after_reset_roomy [OF inv ren room] num le new
    by (simp add: direction_inv_iff fresh_peer_def channel_new_def unat_sub)
  moreover have "direction_inv message_queue_ssp roomy_rep mq_base queue_eff [] (net_swap ?w)"
    using new by (simp add: direction_inv_iff fresh_peer_def channel_new_def sender_inv_def)
  moreover have "history_fits message_queue_ssp (net_a ?w)"
    using after_reset_fits [OF inv' ren fits] by (simp add: fresh_peer_def)
  ultimately show ?thesis
    by (simp add: queue_live.good_def fresh_peer_def history_fits_def channel_new_def)
qed

end
