(* ===== verification/DeliveryGrid.thy ===== *)
theory DeliveryGrid
  imports ChannelLive StateGrid TransportTypes
begin

text \<open>
  Channel 1 end to end: the row grid interprets the channel contracts, so a peer always shows
  exactly one of the grids the sender set (never a mixture of two), and converges to the last.
\<close>

section \<open>The grid meets the channel contract\<close>

text \<open>The step \<open>Session::set_screen\<close> hands to \<open>advance\<close>, and its guard; the row bound is the
  caller's duty, since the code checks the size of the diff only.\<close>

definition screen_change :: "bytes list \<Rightarrow> row_grid \<Rightarrow> (state_error + unit) \<times> row_grid" where
  "screen_change rows g = (Inr (), rg_set_rows rows g)"

definition screen_ok :: "bytes list \<Rightarrow> row_grid \<Rightarrow> bool" where
  "screen_ok rows g \<longleftrightarrow>
     length (rg_diff_from (rg_set_rows rows g) g) \<le> MAX_DIFF_LEN \<and> length rows \<le> MAX_GRID_ROWS"

definition screen_eff :: "bytes list \<Rightarrow> bytes list \<Rightarrow> bytes list" where
  "screen_eff rows old = rows"

definition screen_look :: "row_grid \<Rightarrow> unit list \<times> row_grid" where
  "screen_look g = ([], g)"

definition screen_fresh :: "row_grid \<Rightarrow> bool" where
  "screen_fresh g \<longleftrightarrow> g = rg_new"

lemma rg_set_rows_rows [simp]: "rg_rows (rg_set_rows rows g) = rows"
  by (simp add: rg_set_rows_def)

lemma content_at_screen:
  "unat n \<le> length log \<Longrightarrow>
   content_at screen_eff [] log n = (if n = 0 then [] else log ! (unat n - 1))"
proof -
  have "fold screen_eff xs a = (if xs = [] then a else last xs)" for xs a
    by (induction xs arbitrary: a) (auto simp: screen_eff_def)
  moreover assume "unat n \<le> length log"
  ultimately show ?thesis
    by (auto simp: content_at_def last_conv_nth unat_eq_0 unat_gt_0 intro!: nth_take)
qed

lemma rg_rep_eq: "rg_rep g n a \<Longrightarrow> rg_rep h m a \<Longrightarrow> g = h"
  by (auto simp: rg_rep_def)

lemma rg_changed_same: "rg_changed rows rows = []"
  by (auto simp: rg_changed_def filter_empty_conv in_set_enumerate_eq)

lemma rg_diff_same: "length (rg_diff_from g g) = 8"
  by (simp add: rg_diff_from_def rg_changed_same length_encode_rows)

interpretation screen_live: ssp_live row_grid_ssp rg_rep any_ancestor rg_low
  screen_change screen_ok screen_eff screen_look "[]" screen_fresh
proof (unfold_locales, goal_cases)
  case (1 s n a m s')
  then show ?case
    by (auto simp: screen_change_def screen_ok_def screen_eff_def rg_rep_def)
next
  case (7 p m b p' s)
  then show ?case using rg_rep_eq by blast
next
  case (8 s n a p)
  then show ?case using rg_rep_eq [of s n a p n] by (simp add: rg_diff_same MAX_DIFF_LEN_eq)
next
  case (9 s n a u s')
  then show ?case by (auto simp: screen_change_def screen_ok_def)
next
  case (10 s n a p m b r)
  then have "r = p" using rg_rep_eq by blast
  with 10 show ?case
    by (simp add: screen_look_def rg_apply_diff_correct rg_rep_def MAX_DIFF_LEN_eq)
qed (auto simp: screen_change_def screen_eff_def screen_look_def screen_fresh_def any_ancestor_def
  rg_low_def rg_rep_new)

section \<open>Only grids the peer set\<close>

abbreviation screen_reachable ::
  "(row_grid, bytes list, unit) net \<Rightarrow> (row_grid, bytes list, unit) net \<Rightarrow> bool" where
  "screen_reachable \<equiv> net_reachable row_grid_ssp screen_change screen_ok screen_look"

lemma screen_received:
  assumes "screen_live.good w"
  shows "rg_rows (ch_received (net_b w)) =
      (let n = unat (ch_received_num (net_b w)) in if n = 0 then [] else log_a w ! (n - 1))"
    "unat (ch_received_num (net_b w)) \<le> length (log_a w)"
proof -
  have dir: "direction_inv row_grid_ssp rg_rep rg_low screen_eff [] w"
    using assms by (simp add: screen_live.good_def)
  then obtain s where "(ch_received_num (net_b w), s) \<in> set (ch_sent_states (net_a w))"
    by (auto simp: direction_inv_iff)
  then have "ch_received_num (net_b w) \<le> ch_current_num (net_a w)"
    using dir sender_inv_bounds(2) by (fastforce simp: direction_inv_iff)
  then show le: "unat (ch_received_num (net_b w)) \<le> length (log_a w)"
    using dir by (simp add: direction_inv_iff word_le_nat_alt)
  show "rg_rows (ch_received (net_b w)) =
      (let n = unat (ch_received_num (net_b w)) in if n = 0 then [] else log_a w ! (n - 1))"
    using dir content_at_screen [OF le] by (simp add: direction_inv_iff rg_rep_def Let_def unat_eq_0)
qed

lemma screen_round_trips:
  assumes live: "screen_live.good w" and len: "history_len (net_a w) \<le> Suc k"
  shows "\<exists>w'. round_trips row_grid_ssp screen_look t k w = Ret (Inr w') \<and> log_a w' = log_a w \<and>
    \<not> is_pending (net_a w') \<and> rg_rows (ch_received (net_b w')) = (if log_a w = [] then [] else last (log_a w))"
proof -
  obtain w' where w': "round_trips row_grid_ssp screen_look t k w = Ret (Inr w')"
    "screen_live.good w'" "log_a w' = log_a w"
    "ch_assumed (net_a w') = ch_current_num (net_a w')"
    "ch_received_num (net_b w') = ch_current_num (net_a w')"
    using screen_live.round_trips_converge [OF live disjI1, OF len] by metis
  have "unat (ch_current_num (net_a w')) = length (log_a w')"
    using w'(2) by (simp add: screen_live.good_def direction_inv_iff)
  then show ?thesis
    using w' screen_received(1) [OF w'(2)] by (auto simp: is_pending_def Let_def last_conv_nth)
qed

end
