(* ===== verification/SessionLink.thy ===== *)
theory SessionLink
  imports SessionFacts DeliveryReset DeliveryGrid
begin

text \<open>
  Two sessions over a network that loses, duplicates, delays, reorders and forges datagrams.
  Every step of the two sessions is matched by steps of the two channel networks, one per
  channel, so what holds of the channels holds of \<open>queue_message\<close>, \<open>set_screen\<close>,
  \<open>outgoing\<close>, \<open>handle_datagram\<close> and \<open>take_messages\<close> together.
\<close>

section \<open>The system\<close>

record 'q world =
  wd_a :: session
  wd_b :: session
  wd_qa :: 'q
  wd_qb :: 'q
  wd_ab :: "bytes set"
  wd_ba :: "bytes set"
  sent_a :: "bytes list"
  sent_b :: "bytes list"
  taken_a :: "bytes list"
  taken_b :: "bytes list"
  frames_a :: "bytes list list"
  frames_b :: "bytes list list"

definition world_swap :: "'q world \<Rightarrow> 'q world" where
  "world_swap w =
     \<lparr>wd_a = wd_b w, wd_b = wd_a w, wd_qa = wd_qb w, wd_qb = wd_qa w, wd_ab = wd_ba w, wd_ba = wd_ab w,
      sent_a = sent_b w, sent_b = sent_a w, taken_a = taken_b w, taken_b = taken_a w,
      frames_a = frames_b w, frames_b = frames_a w\<rparr>"

lemma world_swap_sel [simp]:
  "wd_a (world_swap w) = wd_b w" "wd_b (world_swap w) = wd_a w"
  "wd_ab (world_swap w) = wd_ba w" "wd_ba (world_swap w) = wd_ab w"
  "sent_a (world_swap w) = sent_b w" "sent_b (world_swap w) = sent_a w"
  "taken_a (world_swap w) = taken_b w" "taken_b (world_swap w) = taken_a w"
  "frames_a (world_swap w) = frames_b w" "frames_b (world_swap w) = frames_a w"
  by (simp_all add: world_swap_def)

lemma world_swap_swap [simp]: "world_swap (world_swap w) = w"
  by (simp add: world_swap_def)

text \<open>A datagram the network may present to a session: anything that does not open there, or
  that opens to what a datagram the peer really sent opens to.\<close>

definition genuine :: "crypto \<Rightarrow> session_config \<Rightarrow> bytes set \<Rightarrow> bytes \<Rightarrow> bool" where
  "genuine c config wire d \<longleftrightarrow>
     (\<forall>x. open_datagram c config d = Inr x \<longrightarrow> (\<exists>d' \<in> wire. open_datagram c config d' = Inr x))"

fun datagrams :: "transport_error + bytes list \<Rightarrow> bytes set" where
  "datagrams (Inl e) = {}"
| "datagrams (Inr ds) = set ds"

inductive endpoint_step ::
  "crypto \<Rightarrow> ('q \<Rightarrow> (key_error + u64) \<times> 'q) \<Rightarrow> 'q world \<Rightarrow> 'q world \<Rightarrow> bool"
  for c nxt where
  queued: "queue_message m (wd_a w) = (Inr (), s) \<Longrightarrow> ch_current_num (se_messages (wd_a w)) < - 1 \<Longrightarrow>
    endpoint_step c nxt w (w\<lparr>wd_a := s, sent_a := sent_a w @ [m]\<rparr>)"
| drawn: "set_screen rows (wd_a w) = (Inr (), s) \<Longrightarrow> ch_current_num (se_screen (wd_a w)) < - 1 \<Longrightarrow>
    length rows \<le> MAX_GRID_ROWS \<Longrightarrow>
    endpoint_step c nxt w (w\<lparr>wd_a := s, frames_a := frames_a w @ [rows]\<rparr>)"
| took: "take_messages (wd_a w) = (ms, s) \<Longrightarrow>
    endpoint_step c nxt w (w\<lparr>wd_a := s, taken_a := taken_a w @ ms\<rparr>)"
| sent: "outgoing c nxt now (wd_a w) (wd_qa w) = Ret (r, s, q) \<Longrightarrow>
    endpoint_step c nxt w (w\<lparr>wd_a := s, wd_qa := q, wd_ab := wd_ab w \<union> datagrams r\<rparr>)"
| heard: "genuine c (se_config (wd_a w)) (wd_ba w) d \<Longrightarrow> handle_datagram c d now (wd_a w) = Ret (r, s) \<Longrightarrow>
    endpoint_step c nxt w (w\<lparr>wd_a := s\<rparr>)"

inductive world_step ::
  "crypto \<Rightarrow> ('q \<Rightarrow> (key_error + u64) \<times> 'q) \<Rightarrow> 'q world \<Rightarrow> 'q world \<Rightarrow> bool"
  for c nxt where
  world_left: "endpoint_step c nxt w w' \<Longrightarrow> world_step c nxt w w'"
| world_right: "endpoint_step c nxt (world_swap w) w' \<Longrightarrow> world_step c nxt w (world_swap w')"

definition world_init :: "session_config \<Rightarrow> session_config \<Rightarrow> u64 \<Rightarrow> u64 \<Rightarrow> u64 \<Rightarrow> u64 \<Rightarrow> 'q \<Rightarrow> 'q \<Rightarrow> 'q world" where
  "world_init ca cb ta tb ea eb qa qb =
     \<lparr>wd_a = session_new ca ta ea, wd_b = session_new cb tb eb, wd_qa = qa, wd_qb = qb,
      wd_ab = {}, wd_ba = {}, sent_a = [], sent_b = [], taken_a = [], taken_b = [],
      frames_a = [], frames_b = []\<rparr>"

text \<open>The two configurations of one link.\<close>

definition mirrored :: "session_config \<Rightarrow> session_config \<Rightarrow> bool" where
  "mirrored ca cb \<longleftrightarrow>
     sc_node_id ca = sc_peer_node_id cb \<and> sc_peer_node_id ca = sc_node_id cb \<and>
     sc_pair_key ca = sc_pair_key cb \<and> wf_config ca"

section \<open>The simulation relation\<close>

definition carries ::
  "crypto \<Rightarrow> u64 \<Rightarrow> session_config \<Rightarrow> bytes set \<Rightarrow> instruction set \<Rightarrow> instruction set \<Rightarrow> bool" where
  "carries c epoch config ds M G \<longleftrightarrow>
     (\<forall>d \<in> ds. \<exists>h p. open_datagram c config d = Inr (h, p) \<and> oh_epoch h = epoch \<and>
        (in_channel (pk_instruction p) = CHANNEL_MESSAGES \<and> pk_instruction p \<in> M \<or>
         in_channel (pk_instruction p) = CHANNEL_SCREEN \<and> pk_instruction p \<in> G))"

definition epochs_ok :: "session \<Rightarrow> u64 \<Rightarrow> bool" where
  "epochs_ok s e \<longleftrightarrow> se_retired s = [] \<and> (se_peer_epoch s = None \<or> se_peer_epoch s = Some e)"

definition link_half ::
  "crypto \<Rightarrow> 'q world \<Rightarrow> (message_queue, bytes, bytes) net \<Rightarrow> (row_grid, bytes list, unit) net \<Rightarrow> bool" where
  "link_half c w mn gn \<longleftrightarrow>
     net_a mn = se_messages (wd_a w) \<and> log_a mn = sent_a w \<and> out_a mn = taken_a w \<and>
     net_a gn = se_screen (wd_a w) \<and> log_a gn = frames_a w \<and>
     carries c (se_local_epoch (wd_a w)) (se_config (wd_b w)) (wd_ab w) (wire_ab mn) (wire_ab gn) \<and>
     epochs_ok (wd_a w) (se_local_epoch (wd_b w)) \<and> session_ok (wd_a w) \<and>
     mirrored (se_config (wd_a w)) (se_config (wd_b w))"

definition link_rel ::
  "crypto \<Rightarrow> 'q world \<Rightarrow> (message_queue, bytes, bytes) net \<Rightarrow> (row_grid, bytes list, unit) net \<Rightarrow> bool" where
  "link_rel c w mn gn \<longleftrightarrow> link_half c w mn gn \<and> link_half c (world_swap w) (net_swap mn) (net_swap gn)"

lemma link_rel_swap: "link_rel c (world_swap w) (net_swap mn) (net_swap gn) = link_rel c w mn gn"
  by (auto simp: link_rel_def)

lemma carries_mono:
  "carries c e config ds M G \<Longrightarrow> ds' \<subseteq> ds \<Longrightarrow> M \<subseteq> M' \<Longrightarrow> G \<subseteq> G' \<Longrightarrow> carries c e config ds' M' G'"
  unfolding carries_def by blast

lemma link_init:
  assumes "mirrored ca cb" "wf_config cb"
  shows "link_rel c (world_init ca cb ta tb ea eb qa qb)
    (net_init CHANNEL_MESSAGES (mq_new (sc_queue_limits ca)) (sc_max_sent_states ca)
       (mq_new (sc_queue_limits cb)) (sc_max_sent_states cb))
    (net_init CHANNEL_SCREEN rg_new (sc_max_sent_states ca) rg_new (sc_max_sent_states cb))"
  using assms
  by (simp add: link_rel_def link_half_def world_init_def world_swap_def net_swap_def net_init_def
      session_new_def carries_def epochs_ok_def session_ok_def mirrored_def channel_new_def wf_config_def)

section \<open>Each session step is matched\<close>

abbreviation both_reachable where
  "both_reachable mn gn mn' gn' \<equiv> queue_reachable mn mn' \<and> screen_reachable gn gn'"

lemma reachable_refl [simp]: "net_reachable ops change ok consume w w"
  by (simp add: net_reachable_def)

lemma reachable_one: "net_step ops change ok consume v w \<Longrightarrow> net_reachable ops change ok consume v w"
  by (simp add: net_reachable_def r_into_rtranclp)

lemma reachable_trans:
  "net_reachable ops change ok consume u v \<Longrightarrow> net_reachable ops change ok consume v w \<Longrightarrow>
   net_reachable ops change ok consume u w"
  unfolding net_reachable_def by (rule rtranclp_trans)

lemma left_update:
  assumes "ok m (ch_current (net_a w))" "advance (change m) (net_a w) = (Inr (), a')"
    "ch_current_num (net_a w) < - 1"
  shows "net_step ops change ok consume w (w\<lparr>net_a := a', log_a := log_a w @ [m]\<rparr>)"
  by (rule net_step.left, rule half_step.update) (rule assms)+

lemma link_queued:
  assumes rel: "link_rel c w mn gn" and q: "queue_message m (wd_a w) = (Inr (), s)"
    and room: "ch_current_num (se_messages (wd_a w)) < - 1"
  shows "\<exists>mn'. queue_reachable mn mn' \<and> link_rel c (w\<lparr>wd_a := s, sent_a := sent_a w @ [m]\<rparr>) mn' gn"
proof -
  let ?a = "wd_a w"
  obtain ch where adv: "advance (mq_push m) (se_messages ?a) = (Inr (), ch)"
    and s: "s = ?a\<lparr>se_messages := ch\<rparr>" and len: "length m \<le> MAX_MESSAGE_BYTES"
    using q by (auto simp: queue_message_def split: if_splits prod.splits)
  have na: "net_a mn = se_messages ?a" using rel by (simp add: link_rel_def link_half_def)
  let ?mn = "mn\<lparr>net_a := ch, log_a := log_a mn @ [m]\<rparr>"
  have "queue_step mn ?mn"
    by (rule left_update) (simp_all add: queue_ok_def na len adv room)
  moreover have "ch_id ch = ch_id (se_messages ?a) \<and> (ch_sent_states (se_messages ?a) \<noteq> [] \<longrightarrow> ch_sent_states ch \<noteq> [])"
    using adv by (cases rule: advance_cases) auto
  then have "link_rel c (w\<lparr>wd_a := s, sent_a := sent_a w @ [m]\<rparr>) ?mn gn"
    using rel by (simp add: link_rel_def link_half_def s session_ok_def epochs_ok_def world_swap_def net_swap_def)
  ultimately show ?thesis using reachable_one by blast
qed

lemma link_drawn:
  assumes rel: "link_rel c w mn gn" and q: "set_screen rows (wd_a w) = (Inr (), s)"
    and room: "ch_current_num (se_screen (wd_a w)) < - 1" and few: "length rows \<le> MAX_GRID_ROWS"
  shows "\<exists>gn'. screen_reachable gn gn' \<and> link_rel c (w\<lparr>wd_a := s, frames_a := frames_a w @ [rows]\<rparr>) mn gn'"
proof -
  let ?a = "wd_a w"
  obtain ch where adv: "advance (screen_change rows) (se_screen ?a) = (Inr (), ch)"
    and s: "s = ?a\<lparr>se_screen := ch\<rparr>"
    and len: "length (rg_diff_from (rg_set_rows rows (ch_current (se_screen ?a))) (ch_current (se_screen ?a))) \<le> MAX_DIFF_LEN"
    using q by (auto simp: set_screen_def screen_change_def [abs_def] Let_def split: if_splits prod.splits)
  have na: "net_a gn = se_screen ?a" using rel by (simp add: link_rel_def link_half_def)
  let ?gn = "gn\<lparr>net_a := ch, log_a := log_a gn @ [rows]\<rparr>"
  have "net_step row_grid_ssp screen_change screen_ok screen_look gn ?gn"
    by (rule left_update) (simp_all add: screen_ok_def na len adv room few)
  moreover have "ch_id ch = ch_id (se_screen ?a) \<and> (ch_sent_states (se_screen ?a) \<noteq> [] \<longrightarrow> ch_sent_states ch \<noteq> [])"
    using adv by (cases rule: advance_cases) auto
  then have "link_rel c (w\<lparr>wd_a := s, frames_a := frames_a w @ [rows]\<rparr>) mn ?gn"
    using rel by (simp add: link_rel_def link_half_def s session_ok_def epochs_ok_def world_swap_def net_swap_def)
  ultimately show ?thesis using reachable_one by blast
qed

lemma link_took:
  assumes rel: "link_rel c w mn gn" and q: "take_messages (wd_a w) = (ms, s)"
  shows "\<exists>mn'. queue_reachable mn mn' \<and> link_rel c (w\<lparr>wd_a := s, taken_a := taken_a w @ ms\<rparr>) mn' gn"
proof -
  let ?a = "wd_a w"
  obtain ch where rm: "received_mut mq_drain (se_messages ?a) = (ms, ch)"
    and s: "s = ?a\<lparr>se_messages := ch, se_ack := se_ack s\<rparr>" "length (se_ack s) = length (se_ack ?a)"
    using q by (auto simp: take_messages_def Let_def split: prod.splits if_splits)
  have na: "net_a mn = se_messages ?a" using rel by (simp add: link_rel_def link_half_def)
  let ?mn = "mn\<lparr>net_a := ch, out_a := out_a mn @ ms\<rparr>"
  have "queue_step mn ?mn"
    by (rule net_step.left, rule half_step.hand_over) (simp add: na rm)
  moreover have "ch_id ch = ch_id (se_messages ?a) \<and> ch_sent_states ch = ch_sent_states (se_messages ?a)"
    using rm by (auto simp: received_mut_def split: prod.splits)
  then have "link_rel c (w\<lparr>wd_a := s, taken_a := taken_a w @ ms\<rparr>) ?mn gn"
    using rel s(2) by (subst s(1))
      (simp add: link_rel_def link_half_def session_ok_def epochs_ok_def world_swap_def net_swap_def)
  ultimately show ?thesis using reachable_one by blast
qed

text \<open>One datagram.\<close>

lemma session_note_sent_frame [frame_simps]:
  "se_config (session_note_sent i ins now s) = se_config s"
  "se_local_epoch (session_note_sent i ins now s) = se_local_epoch s"
  "se_peer_epoch (session_note_sent i ins now s) = se_peer_epoch s"
  "se_retired (session_note_sent i ins now s) = se_retired s"
  "se_messages (session_note_sent i ins now s) =
     (if i = CHANNEL_SCREEN then se_messages s else note_sent ins now (se_messages s))"
  "se_screen (session_note_sent i ins now s) =
     (if i = CHANNEL_SCREEN then note_sent ins now (se_screen s) else se_screen s)"
  by (simp_all add: session_note_sent_def Let_def)

lemma left_transmit:
  assumes "channel_instruction ops (net_a w) = Ret (Inr i)"
  shows "net_step ops change ok consume w
    (w\<lparr>net_a := note_sent i t (net_a w), wire_ab := insert i (wire_ab w)\<rparr>)"
  by (rule net_step.left, rule half_step.transmit) (rule assms)

lemma instruction_channel:
  "channel_instruction ops ch = Ret (Inr ins) \<Longrightarrow> in_channel ins = ch_id ch"
  by (erule channel_instruction_cases) simp

lemma link_fewer:
  assumes "link_rel c w mn gn" "D \<subseteq> wd_ab w"
  shows "link_rel c (w\<lparr>wd_ab := D\<rparr>) mn gn"
  using assms by (auto simp: link_rel_def link_half_def world_swap_def net_swap_def intro: carries_mono)

lemma link_quiet:
  assumes "link_rel c w mn gn"
  shows "link_rel c (w\<lparr>wd_a := (wd_a w)\<lparr>se_peer_ts := None\<rparr>\<rparr>) mn gn"
    "link_rel c (w\<lparr>wd_a := (wd_a w)\<lparr>se_rotate := b\<rparr>\<rparr>) mn gn"
  using assms by (auto simp: link_rel_def link_half_def world_swap_def net_swap_def session_ok_def epochs_ok_def)

lemma link_built:
  assumes rel: "link_rel c w mn gn" and laws: "aead_laws c" "digest_laws c"
    and ins: "session_instruction i (wd_a w) = Ret (Inr ins)"
    and pt: "packet_encode \<lparr>pk_send_ts = ts, pk_reply_ts = reply, pk_instruction = ins\<rparr> = Inr pt"
    and d: "d = datagram_bytes c (se_config (wd_a w)) (datagram_header (wd_a w) n hb) pt"
    and s: "s = session_note_sent i ins now ((wd_a w)\<lparr>se_peer_ts := None\<rparr>)"
  shows "\<exists>mn' gn'. both_reachable mn gn mn' gn' \<and> link_rel c (w\<lparr>wd_a := s, wd_ab := insert d (wd_ab w)\<rparr>) mn' gn'"
proof -
  let ?a = "wd_a w" and ?b = "wd_b w"
  have half: "link_half c w mn gn" and ok: "session_ok ?a" and mir: "mirrored (se_config ?a) (se_config ?b)"
    using rel by (auto simp: link_rel_def link_half_def)
  have opens: "open_datagram c (se_config ?b) d
      = Inr (datagram_header ?a n hb, \<lparr>pk_send_ts = ts, pk_reply_ts = reply, pk_instruction = ins\<rparr>)"
    unfolding d using mir ok pt
    by (intro open_datagram_bytes [OF laws datagram_header_wf]) (auto simp: mirrored_def session_ok_def)
  have ok': "session_ok s" unfolding s by (rule session_note_sent_ok [OF ok])
  have fr: "se_local_epoch s = se_local_epoch ?a" "se_config s = se_config ?a"
    "epochs_ok s e = epochs_ok ?a e" for e
    by (simp_all add: s epochs_ok_def frame_simps)
  show ?thesis
  proof (cases "i = CHANNEL_SCREEN")
    case True
    have e: "channel_instruction row_grid_ssp (net_a gn) = Ret (Inr ins)"
      using ins True half by (simp add: session_instruction_def link_half_def)
    let ?gn = "gn\<lparr>net_a := note_sent ins now (net_a gn), wire_ab := insert ins (wire_ab gn)\<rparr>"
    have ch: "in_channel ins = CHANNEL_SCREEN"
      using instruction_channel [OF e] half ok by (simp add: link_half_def session_ok_def)
    have "carries c (se_local_epoch ?a) (se_config ?b) (insert d (wd_ab w)) (wire_ab mn) (wire_ab ?gn)"
      using half opens ch by (auto simp: carries_def link_half_def)
    then have "link_half c (w\<lparr>wd_a := s, wd_ab := insert d (wd_ab w)\<rparr>) mn ?gn"
      using half ok' fr True by (simp add: link_half_def) (simp add: s frame_simps)
    moreover have "link_half c (world_swap (w\<lparr>wd_a := s, wd_ab := insert d (wd_ab w)\<rparr>)) (net_swap mn) (net_swap ?gn)"
      using rel fr by (simp add: link_rel_def link_half_def world_swap_def net_swap_def)
    ultimately show ?thesis
      using reachable_one [OF left_transmit [OF e]]
      by (intro exI [of _ mn] exI [of _ ?gn]) (simp add: link_rel_def)
  next
    case False
    have e: "channel_instruction message_queue_ssp (net_a mn) = Ret (Inr ins)"
      using ins False half by (simp add: session_instruction_def link_half_def)
    let ?mn = "mn\<lparr>net_a := note_sent ins now (net_a mn), wire_ab := insert ins (wire_ab mn)\<rparr>"
    have ch: "in_channel ins = CHANNEL_MESSAGES"
      using instruction_channel [OF e] half ok by (simp add: link_half_def session_ok_def)
    have "carries c (se_local_epoch ?a) (se_config ?b) (insert d (wd_ab w)) (wire_ab ?mn) (wire_ab gn)"
      using half opens ch by (auto simp: carries_def link_half_def)
    then have "link_half c (w\<lparr>wd_a := s, wd_ab := insert d (wd_ab w)\<rparr>) ?mn gn"
      using half ok' fr False by (simp add: link_half_def) (simp add: s frame_simps)
    moreover have "link_half c (world_swap (w\<lparr>wd_a := s, wd_ab := insert d (wd_ab w)\<rparr>)) (net_swap ?mn) (net_swap gn)"
      using rel fr by (simp add: link_rel_def link_half_def world_swap_def net_swap_def)
    ultimately show ?thesis
      using reachable_one [OF left_transmit [OF e]]
      by (intro exI [of _ ?mn] exI [of _ gn]) (simp add: link_rel_def)
  qed
qed

fun datagram_of :: "transport_error + bytes \<Rightarrow> bytes set" where
  "datagram_of (Inl e) = {}"
| "datagram_of (Inr d) = {d}"

lemma link_build:
  assumes rel: "link_rel c w mn gn" and laws: "aead_laws c" "digest_laws c"
    and b: "build c nxt i now hb (wd_a w) q = Ret (r, s, q')"
  shows "\<exists>mn' gn'. both_reachable mn gn mn' gn' \<and> link_rel c (w\<lparr>wd_a := s, wd_ab := wd_ab w \<union> datagram_of r\<rparr>) mn' gn'"
  using b
proof (cases rule: build_cases)
  case no_instruction
  then show ?thesis using rel by (intro exI [of _ mn] exI [of _ gn]) simp
next
  case (no_sequence ins e)
  then show ?thesis using link_quiet(1) [OF rel] by (intro exI [of _ mn] exI [of _ gn]) simp
next
  case (built ins n reply pt)
  have u: "wd_ab w \<union> datagram_of r = insert (datagram_bytes c (se_config (wd_a w))
      (datagram_header (wd_a w) (n OR direction_bit (sc_role (se_config (wd_a w)))) hb) pt) (wd_ab w)"
    by (simp add: built(5))
  show ?thesis
    unfolding u by (rule link_built [OF rel laws built(1,3) refl built(6)])
qed

lemma link_build_all:
  assumes laws: "aead_laws c" "digest_laws c"
  shows "link_rel c w mn gn \<Longrightarrow> set out \<subseteq> wd_ab w \<Longrightarrow>
    build_all c nxt due now out (wd_a w) q = Ret (r, s, q') \<Longrightarrow>
    \<exists>mn' gn'. both_reachable mn gn mn' gn' \<and> link_rel c (w\<lparr>wd_a := s, wd_ab := wd_ab w \<union> datagrams r\<rparr>) mn' gn'"
proof (induction due arbitrary: w mn gn out q)
  case Nil
  then show ?case by (intro exI [of _ mn] exI [of _ gn]) (auto simp: Un_absorb2)
next
  case (Cons i due)
  obtain x s1 q1 where x: "build c nxt i now False (wd_a w) q = Ret (x, s1, q1)"
    using Cons.prems by (cases "build c nxt i now False (wd_a w) q") auto
  obtain m1 g1 where one: "both_reachable mn gn m1 g1"
    "link_rel c (w\<lparr>wd_a := s1, wd_ab := wd_ab w \<union> datagram_of x\<rparr>) m1 g1"
    using link_build [OF Cons.prems(1) laws x] by blast
  show ?case
  proof (cases x)
    case (Inl e)
    then show ?thesis using Cons.prems(3) x one by (intro exI [of _ m1] exI [of _ g1]) auto
  next
    case (Inr d)
    let ?w = "w\<lparr>wd_a := s1, wd_ab := wd_ab w \<union> {d}\<rparr>"
    have "build_all c nxt due now (out @ [d]) (wd_a ?w) q1 = Ret (r, s, q')"
      using Cons.prems(3) x Inr by simp
    moreover have "set (out @ [d]) \<subseteq> wd_ab ?w" using Cons.prems(2) by auto
    moreover have "link_rel c ?w m1 g1" using one(2) Inr by simp
    ultimately obtain m2 g2 where two: "both_reachable m1 g1 m2 g2"
      "link_rel c (?w\<lparr>wd_a := s, wd_ab := wd_ab ?w \<union> datagrams r\<rparr>) m2 g2"
      using Cons.IH [of ?w m1 g1 "out @ [d]" q1] by blast
    have "link_rel c (?w\<lparr>wd_a := s, wd_ab := wd_ab ?w \<union> datagrams r, wd_ab := wd_ab w \<union> datagrams r\<rparr>) m2 g2"
      by (rule link_fewer [OF two(2)]) auto
    moreover have "both_reachable mn gn m2 g2"
      using one(1) two(1) by (auto intro: reachable_trans)
    ultimately show ?thesis by (intro exI [of _ m2] exI [of _ g2]) simp
  qed
qed

lemma both_trans:
  "both_reachable mn gn m1 g1 \<Longrightarrow> both_reachable m1 g1 m2 g2 \<Longrightarrow> both_reachable mn gn m2 g2"
  by (auto intro: reachable_trans)

lemma link_build_idle:
  assumes rel: "link_rel c w mn gn" and laws: "aead_laws c" "digest_laws c"
    and b: "build_idle c nxt now (wd_a w) q = Ret (r, s, q')"
  shows "\<exists>mn' gn'. both_reachable mn gn mn' gn' \<and> link_rel c (w\<lparr>wd_a := s, wd_ab := wd_ab w \<union> datagrams r\<rparr>) mn' gn'"
proof -
  have one: "datagram_of x = datagrams (map_sum id (\<lambda>d. [d]) x)" for x by (cases x) simp_all
  show ?thesis
  proof (cases "\<exists>i hb x. build c nxt i now hb (wd_a w) q = Ret (x, s, q') \<and> r = map_sum id (\<lambda>d. [d]) x")
    case True
    then show ?thesis using link_build [OF rel laws] one by metis
  next
    case False
    then have "r = Inr [] \<and> s = wd_a w"
      using b by (auto simp: build_idle_def split: option.splits if_splits)
    then show ?thesis using rel by (intro exI [of _ mn] exI [of _ gn]) simp
  qed
qed

lemma link_sent:
  assumes rel: "link_rel c w mn gn" and laws: "aead_laws c" "digest_laws c"
    and b: "outgoing c nxt now (wd_a w) q = Ret (r, s, q')"
  shows "\<exists>mn' gn'. both_reachable mn gn mn' gn' \<and> link_rel c (w\<lparr>wd_a := s, wd_ab := wd_ab w \<union> datagrams r\<rparr>) mn' gn'"
proof (cases "floor_elapsed (wd_a w) now")
  case False
  then show ?thesis using b rel by (intro exI [of _ mn] exI [of _ gn]) (auto simp: outgoing_def)
next
  case True
  let ?due = "filter (\<lambda>i. channel_due (wd_a w) i now) (send_order (wd_a w))"
  obtain x s1 q1 where x: "build_all c nxt ?due now [] (wd_a w) q = Ret (x, s1, q1)"
    using b True by (auto simp: outgoing_def Let_def)
  obtain m1 g1 where one: "both_reachable mn gn m1 g1"
    "link_rel c (w\<lparr>wd_a := s1, wd_ab := wd_ab w \<union> datagrams x\<rparr>) m1 g1"
    using link_build_all [OF laws rel _ x] by auto
  let ?s2 = "s1\<lparr>se_rotate := \<not> se_rotate s1\<rparr>"
  have two: "link_rel c (w\<lparr>wd_a := ?s2, wd_ab := wd_ab w \<union> datagrams x\<rparr>) m1 g1"
    using link_quiet(2) [OF one(2), of "\<not> se_rotate s1"] by (cases w) simp
  consider (failed) e where "x = Inl e" "r = Inl e" "s = s1"
    | (idle) "x = Inr []" "build_idle c nxt now ?s2 q1 = Ret (r, s, q')"
    | (all_built) ds where "x = Inr ds" "r = Inr ds" "s = ?s2"
    using b True x by (cases x) (auto simp: outgoing_def Let_def split: if_splits)
  then show ?thesis
  proof cases
    case idle
    let ?w = "w\<lparr>wd_a := ?s2\<rparr>"
    have "link_rel c ?w m1 g1" "build_idle c nxt now (wd_a ?w) q1 = Ret (r, s, q')"
      using two idle by simp_all
    from link_build_idle [OF this(1) laws this(2)] obtain m2 g2 where three: "both_reachable m1 g1 m2 g2"
      "link_rel c (w\<lparr>wd_a := s, wd_ab := wd_ab w \<union> datagrams r\<rparr>) m2 g2" by auto
    then show ?thesis using both_trans [OF one(1)] by blast
  next
    case failed
    then show ?thesis using one by (intro exI [of _ m1] exI [of _ g1]) simp
  next
    case all_built
    then show ?thesis using one(1) two by (intro exI [of _ m1] exI [of _ g1]) simp
  qed
qed

text \<open>Receiving.\<close>

lemma apply_instruction_frame [frame_simps]:
  "se_config (snd (apply_instruction ins s)) = se_config s"
  "se_local_epoch (snd (apply_instruction ins s)) = se_local_epoch s"
  "se_peer_epoch (snd (apply_instruction ins s)) = se_peer_epoch s"
  "se_retired (snd (apply_instruction ins s)) = se_retired s"
  "se_messages (snd (apply_instruction ins s)) =
     (if in_channel ins = CHANNEL_MESSAGES
      then snd (channel_apply message_queue_ssp ins (se_messages s)) else se_messages s)"
  "se_screen (snd (apply_instruction ins s)) =
     (if in_channel ins = CHANNEL_SCREEN
      then snd (channel_apply row_grid_ssp ins (se_screen s)) else se_screen s)"
  by (subst apply_instruction_channels(1); simp add: Let_def)+

lemma link_applied:
  assumes rel: "link_rel c w mn gn"
    and cfg: "se_config s1 = se_config (wd_a w)" "se_local_epoch s1 = se_local_epoch (wd_a w)"
      "se_messages s1 = se_messages (wd_a w)" "se_screen s1 = se_screen (wd_a w)"
    and ep: "epochs_ok s1 (se_local_epoch (wd_b w))" and ok: "session_ok s1"
    and ins: "in_channel ins = CHANNEL_MESSAGES \<and> ins \<in> wire_ba mn \<or>
      in_channel ins = CHANNEL_SCREEN \<and> ins \<in> wire_ba gn"
  shows "\<exists>mn' gn'. both_reachable mn gn mn' gn' \<and>
    link_rel c (w\<lparr>wd_a := snd (apply_instruction ins s1)\<rparr>) mn' gn'"
proof -
  have ne: "CHANNEL_MESSAGES \<noteq> CHANNEL_SCREEN" by (simp add: CHANNEL_MESSAGES_def CHANNEL_SCREEN_def)
  have ok': "session_ok (snd (apply_instruction ins s1))" by (rule apply_instruction_ok [OF ok])
  have ep': "epochs_ok (snd (apply_instruction ins s1)) (se_local_epoch (wd_b w))"
    using ep by (simp add: epochs_ok_def frame_simps)
  have na: "net_a mn = se_messages s1" "net_a gn = se_screen s1"
    using rel cfg by (simp_all add: link_rel_def link_half_def)
  show ?thesis
    using ins
  proof (elim disjE conjE)
    assume i: "in_channel ins = CHANNEL_MESSAGES" "ins \<in> wire_ba mn"
    have "link_rel c (w\<lparr>wd_a := snd (apply_instruction ins s1)\<rparr>)
        (mn\<lparr>net_a := snd (channel_apply message_queue_ssp ins (net_a mn))\<rparr>) gn"
      using rel ok' ep' cfg na i ne
      by (simp add: link_rel_def link_half_def world_swap_def net_swap_def frame_simps)
    then show ?thesis
      using reachable_one [OF left_receive [OF i(2)]]
      by (intro exI [of _ "mn\<lparr>net_a := snd (channel_apply message_queue_ssp ins (net_a mn))\<rparr>"]
          exI [of _ gn]) simp
  next
    assume i: "in_channel ins = CHANNEL_SCREEN" "ins \<in> wire_ba gn"
    have "link_rel c (w\<lparr>wd_a := snd (apply_instruction ins s1)\<rparr>) mn
        (gn\<lparr>net_a := snd (channel_apply row_grid_ssp ins (net_a gn))\<rparr>)"
      using rel ok' ep' cfg na i ne
      by (simp add: link_rel_def link_half_def world_swap_def net_swap_def frame_simps)
    then show ?thesis
      using reachable_one [OF left_receive [OF i(2)]]
      by (intro exI [of _ mn] exI [of _ "gn\<lparr>net_a := snd (channel_apply row_grid_ssp ins (net_a gn))\<rparr>"]) simp
  qed
qed

lemma link_heard:
  assumes rel: "link_rel c w mn gn" and gen: "genuine c (se_config (wd_a w)) (wd_ba w) d"
    and hd: "handle_datagram c d now (wd_a w) = Ret (r, s)"
  shows "\<exists>mn' gn'. both_reachable mn gn mn' gn' \<and> link_rel c (w\<lparr>wd_a := s\<rparr>) mn' gn'"
proof (cases "open_datagram c (se_config (wd_a w)) d")
  case (Inl e)
  then have "w\<lparr>wd_a := s\<rparr> = w" using hd by (cases w) (simp add: handle_datagram_def)
  then show ?thesis using rel by (intro exI [of _ mn] exI [of _ gn]) simp
next
  case (Inr x)
  obtain h p where x: "x = (h, p)" by (cases x)
  let ?e = "se_local_epoch (wd_b w)" and ?ins = "pk_instruction p"
  have ep: "epochs_ok (wd_a w) ?e" and ok: "session_ok (wd_a w)"
    and car: "carries c ?e (se_config (wd_a w)) (wd_ba w) (wire_ba mn) (wire_ba gn)"
    using rel by (auto simp: link_rel_def link_half_def)
  obtain d' where "d' \<in> wd_ba w" "open_datagram c (se_config (wd_a w)) d' = Inr (h, p)"
    using gen Inr x by (auto simp: genuine_def)
  then have he: "oh_epoch h = ?e" and ins: "in_channel ?ins = CHANNEL_MESSAGES \<and> ?ins \<in> wire_ba mn \<or>
      in_channel ?ins = CHANNEL_SCREEN \<and> ?ins \<in> wire_ba gn"
    using car by (force simp: carries_def)+
  let ?s1 = "(wd_a w)\<lparr>se_peer_epoch := Some ?e\<rparr>"
  have "accept_epoch ?e (wd_a w) = Ret ?s1"
    using ep by (auto simp: accept_epoch_def epochs_ok_def)
  then have s: "s = snd (apply_instruction ?ins (note_heard h p now ?s1))"
    using hd Inr x he ep by (simp add: handle_datagram_def epochs_ok_def)
  show ?thesis
    unfolding s
  proof (rule link_applied [OF rel _ _ _ _ _ _ ins])
    show "epochs_ok (note_heard h p now ?s1) ?e"
      using ep by (simp add: epochs_ok_def frame_simps)
    show "session_ok (note_heard h p now ?s1)"
      using ok by (intro note_heard_ok) (simp add: session_ok_def)
  qed (simp_all add: frame_simps)
qed

section \<open>The simulation\<close>

lemma link_endpoint_step:
  assumes laws: "aead_laws c" "digest_laws c" and st: "endpoint_step c nxt w w'" and rel: "link_rel c w mn gn"
  shows "\<exists>mn' gn'. both_reachable mn gn mn' gn' \<and> link_rel c w' mn' gn'"
  using st
proof cases
  case (queued m s)
  from link_queued [OF rel queued(2,3)] show ?thesis using queued(1) reachable_refl by blast
next
  case (drawn rows s)
  from link_drawn [OF rel drawn(2,3,4)] show ?thesis using drawn(1) reachable_refl by blast
next
  case (took ms s)
  from link_took [OF rel took(2)] show ?thesis using took(1) reachable_refl by blast
next
  case (sent now r s q)
  from link_sent [OF rel laws sent(2)] obtain mn' gn' where "both_reachable mn gn mn' gn'"
    "link_rel c (w\<lparr>wd_a := s, wd_ab := wd_ab w \<union> datagrams r\<rparr>) mn' gn'" by blast
  moreover have "link_rel c (v\<lparr>wd_qa := q\<rparr>) m g = link_rel c v m g" for v m g
    by (simp add: link_rel_def link_half_def world_swap_def)
  ultimately have "link_rel c ((w\<lparr>wd_a := s, wd_ab := wd_ab w \<union> datagrams r\<rparr>)\<lparr>wd_qa := q\<rparr>) mn' gn'"
    by blast
  then show ?thesis
    using \<open>both_reachable mn gn mn' gn'\<close> sent(1) by (intro exI [of _ mn'] exI [of _ gn']) (cases w; simp)
next
  case (heard d now r s)
  from link_heard [OF rel heard(2,3)] show ?thesis using heard(1) by blast
qed

lemma right_reachable:
  "net_reachable ops change ok consume (net_swap v) w \<Longrightarrow> net_reachable ops change ok consume v (net_swap w)"
  unfolding net_reachable_def
proof (induction rule: rtranclp_induct)
  case (step w1 w2)
  have "net_step ops change ok consume (net_swap w1) (net_swap w2)"
    using step(2)
  proof cases
    case left
    then show ?thesis using net_step.right [of ops change ok consume "net_swap w1" w2] by simp
  next
    case (right u)
    then show ?thesis using net_step.left [of ops change ok consume "net_swap w1" u] by simp
  qed
  then show ?case using step(3) by (rule rtranclp.rtrancl_into_rtrancl [rotated])
qed simp

theorem link_world_step:
  assumes laws: "aead_laws c" "digest_laws c" and st: "world_step c nxt w w'" and rel: "link_rel c w mn gn"
  shows "\<exists>mn' gn'. both_reachable mn gn mn' gn' \<and> link_rel c w' mn' gn'"
  using st
proof cases
  case world_left
  then show ?thesis using link_endpoint_step [OF laws _ rel] by blast
next
  case (world_right v)
  have "link_rel c (world_swap w) (net_swap mn) (net_swap gn)" using rel by (simp add: link_rel_swap)
  from link_endpoint_step [OF laws world_right(2) this] obtain m g where
    "both_reachable (net_swap mn) (net_swap gn) m g" "link_rel c v m g" by blast
  then have "both_reachable mn gn (net_swap m) (net_swap g) \<and> link_rel c w' (net_swap m) (net_swap g)"
    using world_right(1) link_rel_swap [of c v m g] by (auto intro: right_reachable)
  then show ?thesis by blast
qed

theorem link_run:
  assumes laws: "aead_laws c" "digest_laws c" and run: "(world_step c nxt)\<^sup>*\<^sup>* w w'" and rel: "link_rel c w mn gn"
  shows "\<exists>mn' gn'. both_reachable mn gn mn' gn' \<and> link_rel c w' mn' gn'"
  using run
proof (induction rule: rtranclp_induct)
  case base
  then show ?case using rel by (intro exI [of _ mn] exI [of _ gn]) simp
next
  case (step v w')
  then obtain m1 g1 where one: "both_reachable mn gn m1 g1" "link_rel c v m1 g1" by blast
  from link_world_step [OF laws step(2) one(2)] obtain m2 g2 where "both_reachable m1 g1 m2 g2"
    "link_rel c w' m2 g2" by blast
  then show ?case using both_trans [OF one(1)] by blast
qed

end
