(* ===== verification/SessionExample.thy ===== *)
theory SessionExample
  imports SessionLink
begin

text \<open>
  One concrete run of the two-session system: the owner queues a message and draws a screen,
  transmits, and the host hears the datagrams and takes the message.  It shows that the runs the
  theorems speak of exist and carry data.
\<close>

definition ex_owner :: session_config where
  "ex_owner = session_config_new (NodeId (replicate 16 1)) (NodeId (replicate 16 2)) Owner
     (PairKey (replicate 16 7)) (ForwarderKey (replicate 16 8))"

definition ex_host :: session_config where
  "ex_host = session_config_new (NodeId (replicate 16 2)) (NodeId (replicate 16 1)) Host
     (PairKey (replicate 16 7)) (ForwarderKey (replicate 16 9))"

definition ex_seq :: "u64 \<Rightarrow> (key_error + u64) \<times> u64" where
  "ex_seq q = (Inr q, q + 1)"

lemma ex_mirrored: "mirrored ex_owner ex_host" "wf_config ex_host" "wf_config ex_owner"
  by (simp_all add: mirrored_def wf_config_def wf_id_def ex_owner_def ex_host_def session_config_new_def)

definition ex_message :: bytes where "ex_message = [104, 105]"

definition ex_queued :: message_queue where
  "ex_queued = (mq_new default_queue_limits)\<lparr>mq_messages := [ex_message], mq_bytes := 2\<rparr>"

definition ex_a1 :: session where
  "ex_a1 = snd (queue_message ex_message (session_new ex_owner 0 11))"

lemma ex_queue: "queue_message ex_message (session_new ex_owner 0 11) = (Inr (), ex_a1)"
  "se_messages ex_a1 = (channel_new 0 (mq_new default_queue_limits) 512)\<lparr>ch_current := ex_queued,
     ch_current_num := 1, ch_sent_states := [(0, mq_new default_queue_limits), (1, ex_queued)]\<rparr>"
  "se_screen ex_a1 = channel_new 1 rg_new 512" "se_last_send ex_a1 = None" "se_rotate ex_a1 = False"
  "se_config ex_a1 = ex_owner" "se_peer_ts ex_a1 = None" "se_local_epoch ex_a1 = 11"
  "se_ack ex_a1 = [False, False]"
proof -
  show q: "queue_message ex_message (session_new ex_owner 0 11) = (Inr (), ex_a1)"
    by (simp add: ex_a1_def queue_message_def ex_message_def MAX_MESSAGE_BYTES_def MAX_DIFF_LEN_eq
        advance_def session_new_def channel_new_def ex_owner_def session_config_new_def MAX_SENT_STATES_def
        mq_push_def mq_check_capacity_def mq_new_def default_queue_limits_def)
  show "se_messages ex_a1 = (channel_new 0 (mq_new default_queue_limits) 512)\<lparr>ch_current := ex_queued,
     ch_current_num := 1, ch_sent_states := [(0, mq_new default_queue_limits), (1, ex_queued)]\<rparr>"
   "se_screen ex_a1 = channel_new 1 rg_new 512" "se_last_send ex_a1 = None" "se_rotate ex_a1 = False"
   "se_config ex_a1 = ex_owner" "se_peer_ts ex_a1 = None" "se_local_epoch ex_a1 = 11"
   "se_ack ex_a1 = [False, False]"
    by (simp_all add: ex_a1_def queue_message_def ex_message_def MAX_MESSAGE_BYTES_def MAX_DIFF_LEN_eq
        advance_def session_new_def channel_new_def ex_owner_def session_config_new_def MAX_SENT_STATES_def
        mq_push_def mq_check_capacity_def mq_new_def default_queue_limits_def ex_queued_def
        CHANNEL_MESSAGES_def CHANNEL_SCREEN_def CHANNEL_COUNT_def numeral_2_eq_2)
qed

lemma ex_a1_ok: "session_ok ex_a1"
  using ex_mirrored(3)
  by (simp add: session_ok_def ex_queue channel_new_def CHANNEL_MESSAGES_def CHANNEL_SCREEN_def CHANNEL_COUNT_def)

definition ex_instruction :: instruction where
  "ex_instruction = \<lparr>in_channel = 0, in_old = 0, in_new = 1, in_ack = 0, in_throwaway = 0,
     in_diff = encode_messages [ex_message]\<rparr>"

lemma ex_emits: "session_instruction 0 ex_a1 = Ret (Inr ex_instruction)"
proof -
  have "mq_diff_from ex_queued (mq_new default_queue_limits) = encode_messages [ex_message]"
    by (simp add: mq_diff_from_def ex_queued_def mq_num_def mq_new_def)
  moreover have "length (encode_messages [ex_message]) = 10"
    by (simp add: length_encode_messages ex_message_def)
  ultimately show ?thesis
    by (simp add: session_instruction_def CHANNEL_SCREEN_def channel_instruction_def ex_queue
        channel_new_def MAX_DIFF_LEN_eq instruction_with_def ex_instruction_def)
qed

lemma ex_due: "filter (\<lambda>i. channel_due ex_a1 i 100) (send_order ex_a1) = [0]"
  by (simp add: send_order_def ex_queue channel_due_def channel_due_at_def channel_timing_def
      CHANNEL_MESSAGES_def CHANNEL_SCREEN_def is_pending_def has_unsent_change_def channel_new_def)

lemma ex_build:
  obtains d a2 p where "build toy_crypto ex_seq 0 100 False ex_a1 1 = Ret (Inr d, a2, 2)"
    "open_datagram toy_crypto ex_host d = Inr (datagram_header ex_a1 (1 OR DIRECTION_MASK) False, p)"
    "pk_instruction p = ex_instruction"
proof -
  obtain r a2 q where b: "build toy_crypto ex_seq 0 100 False ex_a1 1 = Ret (r, a2, q)"
    using build_no_panic [OF ex_a1_ok toy_aead_laws toy_digest_laws]
    by (metis outcome.exhaust prod_cases3)
  show ?thesis
    using b
  proof (cases rule: build_cases)
    case no_instruction
    then show ?thesis by (simp add: ex_emits)
  next
    case (no_sequence ins e)
    then show ?thesis by (simp add: ex_seq_def)
  next
    case (built ins n reply pt)
    then have e: "ins = ex_instruction" "n = 1" "q = 2" by (simp_all add: ex_emits ex_seq_def)
    let ?p = "\<lparr>pk_send_ts = timestamp16 100, pk_reply_ts = reply, pk_instruction = ex_instruction\<rparr>"
    let ?h = "datagram_header ex_a1 (1 OR DIRECTION_MASK) False"
    have "open_datagram toy_crypto ex_host (datagram_bytes toy_crypto ex_owner ?h pt) = Inr (?h, ?p)"
      using built(3) e ex_mirrored
      by (intro open_datagram_bytes [OF toy_aead_laws toy_digest_laws datagram_header_wf])
        (simp_all add: ex_queue mirrored_def)
    then show ?thesis
      using that [of "datagram_bytes toy_crypto ex_owner ?h pt" a2 ?p] b built(5) e
      by (simp add: ex_queue ex_owner_def session_config_new_def)
  qed
qed

lemma ex_sends:
  obtains d a3 p where "outgoing toy_crypto ex_seq 100 ex_a1 1 = Ret (Inr [d], a3, 2)"
    "open_datagram toy_crypto ex_host d = Inr (datagram_header ex_a1 (1 OR DIRECTION_MASK) False, p)"
    "pk_instruction p = ex_instruction"
proof -
  obtain d a2 p where b: "build toy_crypto ex_seq 0 100 False ex_a1 1 = Ret (Inr d, a2, 2)"
    "open_datagram toy_crypto ex_host d = Inr (datagram_header ex_a1 (1 OR DIRECTION_MASK) False, p)"
    "pk_instruction p = ex_instruction" using ex_build by blast
  have "outgoing toy_crypto ex_seq 100 ex_a1 1 = Ret (Inr [d], a2\<lparr>se_rotate := \<not> se_rotate a2\<rparr>, 2)"
    by (simp add: outgoing_def floor_elapsed_def ex_due b(1) ex_queue)
  then show ?thesis using that b by blast
qed

text \<open>The same send with any sequence source that has a number to hand out.\<close>

lemma ex_sends_from:
  assumes "nxt q = (Inr n, q')"
  shows "\<exists>d a3. outgoing toy_crypto nxt 100 ex_a1 q = Ret (Inr [d], a3, q')"
proof -
  obtain r a2 q1 where b: "build toy_crypto nxt 0 100 False ex_a1 q = Ret (r, a2, q1)"
    using build_no_panic [OF ex_a1_ok toy_aead_laws toy_digest_laws]
    by (metis outcome.exhaust prod_cases3)
  then obtain d where "r = Inr d" "q1 = q'"
    by (cases rule: build_cases) (use assms in \<open>auto simp: ex_emits\<close>)
  then have "outgoing toy_crypto nxt 100 ex_a1 q = Ret (Inr [d], a2\<lparr>se_rotate := \<not> se_rotate a2\<rparr>, q')"
    using b by (simp add: outgoing_def floor_elapsed_def ex_due ex_queue)
  then show ?thesis by blast
qed

text \<open>The host hears it and takes the message.\<close>

lemma ex_hears:
  assumes op: "open_datagram toy_crypto ex_host d = Inr (datagram_header ex_a1 n False, p)"
    and ins: "pk_instruction p = ex_instruction"
  obtains b1 b2 where "handle_datagram toy_crypto d 150 (session_new ex_host 0 22) = Ret (Inr True, b1)"
    "take_messages b1 = ([ex_message], b2)" "se_peer_epoch b1 = Some 11" "session_screen b1 = rg_new"
proof -
  let ?b = "session_new ex_host 0 22"
  have dec: "decode_messages (encode_messages [ex_message]) = Inr [ex_message]"
    by (intro decode_encode_messages) (simp_all add: ex_message_def)
  let ?heard = "note_heard (datagram_header ex_a1 n False) p 150 (?b\<lparr>se_peer_epoch := Some 11\<rparr>)"
  have c: "se_messages ?heard = channel_new 0 (mq_new default_queue_limits) 512"
    by (simp add: frame_simps session_new_def CHANNEL_MESSAGES_def ex_host_def session_config_new_def MAX_SENT_STATES_def)
  have ap: "channel_apply message_queue_ssp ex_instruction (se_messages ?heard) = (Inr True,
      (channel_new 0 (mq_new default_queue_limits) 512)\<lparr>ch_received := ex_queued, ch_received_num := 1\<rparr>)"
    unfolding c using dec
    by (simp add: channel_apply_def apply_ack_def acknowledge_def ex_instruction_def channel_new_def Let_def
        mq_prune_through_def mq_apply_diff_def mq_check_capacity_def mq_new_def default_queue_limits_def
        ex_queued_def ex_message_def)
  have "handle_datagram toy_crypto d 150 ?b = Ret (apply_instruction ex_instruction ?heard)"
    using op ins by (simp add: handle_datagram_def session_new_def accept_epoch_def ex_queue)
  moreover obtain b1 where b1: "apply_instruction ex_instruction ?heard = (Inr True, b1)"
    "ch_received (se_messages b1) = ex_queued" "se_peer_epoch b1 = se_peer_epoch ?heard"
    "se_screen b1 = se_screen ?heard"
    using ap by (auto simp: apply_instruction_def ex_instruction_def CHANNEL_MESSAGES_def Let_def)
  moreover have "fst (take_messages b1) = [ex_message]"
    using b1(2) by (simp add: take_messages_def received_mut_def mq_drain_def ex_queued_def Let_def)
  then obtain b2 where "take_messages b1 = ([ex_message], b2)" by (metis prod.collapse)
  moreover have "se_peer_epoch b1 = Some 11" "session_screen b1 = rg_new"
    using b1(3,4) by (simp_all add: frame_simps session_screen_def session_new_def channel_new_def)
  ultimately show ?thesis using that by metis
qed

text \<open>The whole run.\<close>

lemma ex_run:
  "\<exists>w. (world_step toy_crypto ex_seq)\<^sup>*\<^sup>* (world_init ex_owner ex_host 0 0 11 22 1 1) w \<and>
     sent_a w = [ex_message] \<and> taken_b w = [ex_message]"
proof -
  let ?w0 = "world_init ex_owner ex_host 0 0 11 22 1 1 :: u64 world"
  obtain d a3 p where snd: "outgoing toy_crypto ex_seq 100 ex_a1 1 = Ret (Inr [d], a3, 2)"
    and op: "open_datagram toy_crypto ex_host d = Inr (datagram_header ex_a1 (1 OR DIRECTION_MASK) False, p)"
    and p: "pk_instruction p = ex_instruction" using ex_sends by blast
  obtain b1 b2 where b: "handle_datagram toy_crypto d 150 (session_new ex_host 0 22) = Ret (Inr True, b1)"
    "take_messages b1 = ([ex_message], b2)" using ex_hears [OF op p] by blast
  define w1 where "w1 = ?w0\<lparr>wd_a := ex_a1, sent_a := [ex_message]\<rparr>"
  define w2 where "w2 = w1\<lparr>wd_a := a3, wd_qa := 2, wd_ab := {d}\<rparr>"
  define w3 where "w3 = w2\<lparr>wd_b := b1\<rparr>"
  define w4 where "w4 = w3\<lparr>wd_b := b2, taken_b := [ex_message]\<rparr>"
  have "endpoint_step toy_crypto ex_seq ?w0 (?w0\<lparr>wd_a := ex_a1, sent_a := sent_a ?w0 @ [ex_message]\<rparr>)"
  proof (rule queued)
    show "queue_message ex_message (wd_a ?w0) = (Inr (), ex_a1)"
      by (simp add: world_init_def ex_queue(1))
    show "ch_current_num (se_messages (wd_a ?w0)) < - 1"
      by (simp add: world_init_def session_new_def channel_new_def word_less_nat_alt unat_u64_max)
  qed
  then have s1: "world_step toy_crypto ex_seq ?w0 w1"
    by (intro world_left) (simp add: w1_def world_init_def)
  have "endpoint_step toy_crypto ex_seq w1 (w1\<lparr>wd_a := a3, wd_qa := 2, wd_ab := wd_ab w1 \<union> datagrams (Inr [d])\<rparr>)"
    by (rule sent [where now = 100]) (simp add: w1_def world_init_def snd)
  then have s2: "world_step toy_crypto ex_seq w1 w2"
    by (intro world_left) (simp add: w2_def w1_def world_init_def)
  have "endpoint_step toy_crypto ex_seq (world_swap w2) ((world_swap w2)\<lparr>wd_a := b1\<rparr>)"
    by (rule heard [where d = d and now = 150 and r = "Inr True"])
      (simp_all add: w2_def w1_def world_init_def genuine_def b(1))
  from world_right [OF this] have s3: "world_step toy_crypto ex_seq w2 w3"
    by (simp add: w3_def world_swap_def w2_def w1_def world_init_def)
  have "endpoint_step toy_crypto ex_seq (world_swap w3)
      ((world_swap w3)\<lparr>wd_a := b2, taken_a := taken_a (world_swap w3) @ [ex_message]\<rparr>)"
    by (rule took) (simp add: w3_def b(2))
  from world_right [OF this] have s4: "world_step toy_crypto ex_seq w3 w4"
    by (simp add: w4_def w3_def world_swap_def w2_def w1_def world_init_def)
  have "(world_step toy_crypto ex_seq)\<^sup>*\<^sup>* ?w0 w4"
    using s1 s2 s3 s4 by (meson converse_rtranclp_into_rtranclp rtranclp.rtrancl_refl)
  moreover have "sent_a w4 = [ex_message]" "taken_b w4 = [ex_message]"
    by (simp_all add: w4_def w3_def w2_def w1_def)
  ultimately show ?thesis by blast
qed

section \<open>Channels with something to deliver\<close>

definition ex_pending_net :: "(message_queue, bytes, bytes) net" where
  "ex_pending_net =
     (net_init 0 (mq_new default_queue_limits) 512 (mq_new default_queue_limits) 512)
       \<lparr>net_a := snd (advance (mq_push ex_message) (channel_new 0 (mq_new default_queue_limits) 512)),
        log_a := [ex_message]\<rparr>"

lemma ex_pending_net:
  "queue_reachable (net_init 0 (mq_new default_queue_limits) 512 (mq_new default_queue_limits) 512)
     ex_pending_net"
  "history_len (net_a ex_pending_net) = 2" "log_a ex_pending_net = [ex_message]"
proof -
  let ?ch = "channel_new 0 (mq_new default_queue_limits) 512"
  let ?w = "net_init 0 (mq_new default_queue_limits) 512 (mq_new default_queue_limits) 512
    :: (message_queue, bytes, bytes) net"
  have adv: "advance (mq_push ex_message) ?ch = (Inr (), snd (advance (mq_push ex_message) ?ch))"
    by (simp add: advance_def channel_new_def mq_push_def mq_check_capacity_def mq_new_def
        default_queue_limits_def ex_message_def)
  have "net_step message_queue_ssp mq_push queue_ok mq_drain ?w
      (?w\<lparr>net_a := snd (advance (mq_push ex_message) ?ch), log_a := log_a ?w @ [ex_message]\<rparr>)"
  proof (rule left_update)
    show "queue_ok ex_message (ch_current (net_a ?w))"
      by (simp add: queue_ok_def ex_message_def MAX_MESSAGE_BYTES_def MAX_DIFF_LEN_eq)
    show "advance (mq_push ex_message) (net_a ?w) = (Inr (), snd (advance (mq_push ex_message) ?ch))"
      using adv by (simp add: net_init_def)
    show "ch_current_num (net_a ?w) < - 1"
      by (simp add: net_init_def channel_new_def word_less_nat_alt unat_u64_max)
  qed
  then show "queue_reachable ?w ex_pending_net"
    by (intro reachable_one) (simp add: ex_pending_net_def net_init_def)
  show "history_len (net_a ex_pending_net) = 2" "log_a ex_pending_net = [ex_message]"
    by (simp_all add: ex_pending_net_def history_len_def advance_def channel_new_def mq_push_def
        mq_check_capacity_def mq_new_def default_queue_limits_def ex_message_def)
qed

definition ex_drawn_net :: "(row_grid, bytes list, unit) net" where
  "ex_drawn_net =
     (net_init 1 rg_new 512 rg_new 512)
       \<lparr>net_a := snd (advance (screen_change [ex_message]) (channel_new 1 rg_new 512)),
        log_a := [[ex_message]]\<rparr>"

lemma ex_drawn_net:
  "screen_reachable (net_init 1 rg_new 512 rg_new 512) ex_drawn_net"
  "history_len (net_a ex_drawn_net) = 2" "log_a ex_drawn_net = [[ex_message]]"
proof -
  let ?ch = "channel_new 1 rg_new 512"
  let ?w = "net_init 1 rg_new 512 rg_new 512 :: (row_grid, bytes list, unit) net"
  have adv: "advance (screen_change [ex_message]) ?ch = (Inr (), snd (advance (screen_change [ex_message]) ?ch))"
    by (simp add: advance_def channel_new_def screen_change_def)
  have "length (rg_diff_from (rg_set_rows [ex_message] rg_new) rg_new) = 18"
    by (simp add: rg_diff_from_def length_encode_rows rg_changed_def rg_set_rows_def rg_new_def ex_message_def)
  then have ok: "screen_ok [ex_message] (ch_current (net_a ?w))"
    by (simp add: screen_ok_def net_init_def channel_new_def MAX_DIFF_LEN_eq MAX_GRID_ROWS_def)
  have "net_step row_grid_ssp screen_change screen_ok screen_look ?w
      (?w\<lparr>net_a := snd (advance (screen_change [ex_message]) ?ch), log_a := log_a ?w @ [[ex_message]]\<rparr>)"
  proof (rule left_update)
    show "screen_ok [ex_message] (ch_current (net_a ?w))" by (rule ok)
    show "advance (screen_change [ex_message]) (net_a ?w)
        = (Inr (), snd (advance (screen_change [ex_message]) ?ch))"
      using adv by (simp add: net_init_def)
    show "ch_current_num (net_a ?w) < - 1"
      by (simp add: net_init_def channel_new_def word_less_nat_alt unat_u64_max)
  qed
  then show "screen_reachable ?w ex_drawn_net"
    by (intro reachable_one) (simp add: ex_drawn_net_def net_init_def)
  show "history_len (net_a ex_drawn_net) = 2" "log_a ex_drawn_net = [[ex_message]]"
    by (simp_all add: ex_drawn_net_def history_len_def advance_def channel_new_def screen_change_def)
qed

end
