(* ===== verification/SessionPolicy.thy ===== *)
theory SessionPolicy
  imports SessionFacts
begin

text \<open>
  The send policy of \<open>Session::outgoing\<close> against the schedule of \<open>Session::next_send_ms\<close>:
  the floor between sends, at most one datagram per channel, and that a call at the scheduled
  time always produces a datagram (or the error that prevented it).
\<close>

lemma build_sent:
  "build c nxt i now hb s q = Ret (Inr d, s', q') \<Longrightarrow> se_last_send s' = Some now"
  by (erule build_cases) (auto simp: session_note_sent_def Let_def)

lemma build_all_sent:
  "build_all c nxt due now out s q = Ret (Inr ds, s', q') \<Longrightarrow>
   length ds = length out + length due \<and> (due \<noteq> [] \<longrightarrow> se_last_send s' = Some now) \<and>
   (due = [] \<longrightarrow> s' = s \<and> q' = q \<and> ds = out)"
proof (induction due arbitrary: out s q)
  case (Cons i due)
  obtain x s1 q1 where x: "build c nxt i now False s q = Ret (x, s1, q1)"
    using Cons.prems by (cases "build c nxt i now False s q") auto
  then obtain d where d: "x = Inr d" using Cons.prems by (cases x) auto
  then have b: "build c nxt i now False s q = Ret (Inr d, s1, q1)"
    and r: "build_all c nxt due now (out @ [d]) s1 q1 = Ret (Inr ds, s', q')"
    using x Cons.prems by auto
  show ?case using Cons.IH [OF r] build_sent [OF b] by auto
qed simp

lemma send_order_channels: "set (send_order s) = {CHANNEL_MESSAGES, CHANNEL_SCREEN}" "length (send_order s) = 2"
  by (auto simp: send_order_def)

lemma map_sum_eq_Inr: "map_sum id f r = Inr y \<longleftrightarrow> (\<exists>d. r = Inr d \<and> y = f d)"
  by (cases r) auto

lemma build_idle_sent:
  assumes "build_idle c nxt now s q = Ret (Inr ds, s', q')"
  shows "length ds \<le> 1" "ds \<noteq> [] \<Longrightarrow> se_last_send s' = Some now" "ds = [] \<Longrightarrow> s' = s"
    "ds = [] \<longleftrightarrow> pending_ack_channel s = None \<and> \<not> heartbeat_due s now"
proof -
  have "(\<exists>i hb d. ds = [d] \<and> build c nxt i now hb s q = Ret (Inr d, s', q') \<and>
      \<not> (pending_ack_channel s = None \<and> \<not> heartbeat_due s now)) \<or>
    ds = [] \<and> s' = s \<and> pending_ack_channel s = None \<and> \<not> heartbeat_due s now"
  proof (cases "pending_ack_channel s")
    case (Some i)
    then show ?thesis using assms by (auto simp: build_idle_def map_sum_eq_Inr)
  next
    case None
    then show ?thesis
      using assms by (auto simp: build_idle_def map_sum_eq_Inr split: if_splits)
  qed
  then show "length ds \<le> 1" "ds \<noteq> [] \<Longrightarrow> se_last_send s' = Some now" "ds = [] \<Longrightarrow> s' = s"
    "ds = [] \<longleftrightarrow> pending_ack_channel s = None \<and> \<not> heartbeat_due s now"
    using build_sent by (auto 0 3)
qed

text \<open>The two shapes of a call that passed the floor and met no error.\<close>

lemma outgoing_cases:
  assumes out: "outgoing c nxt now s q = Ret (Inr ds, s', q')"
  defines "due \<equiv> filter (\<lambda>i. channel_due s i now) (send_order s)"
  obtains (floor_holds) "\<not> floor_elapsed s now" "ds = []" "s' = s" "q' = q"
  | (channels) "floor_elapsed s now" "due \<noteq> []" "length ds = length due" "se_last_send s' = Some now"
  | (idle) "floor_elapsed s now" "due = []"
      "build_idle c nxt now (s\<lparr>se_rotate := \<not> se_rotate s\<rparr>) q = Ret (Inr ds, s', q')"
proof (cases "floor_elapsed s now")
  case False
  then have "ds = [] \<and> s' = s \<and> q' = q" using out by (auto simp: outgoing_def)
  then show ?thesis using False by (intro floor_holds) simp_all
next
  case True
  obtain ds1 s1 q1 where b: "build_all c nxt due now [] s q = Ret (Inr ds1, s1, q1)"
  proof -
    obtain x s1 q1 where x: "build_all c nxt due now [] s q = Ret (x, s1, q1)"
      using out True by (auto simp: outgoing_def Let_def due_def)
    then obtain ds1 where "x = Inr ds1" using out True by (cases x) (auto simp: outgoing_def Let_def due_def)
    then show ?thesis using that x by simp
  qed
  note all = build_all_sent [OF b]
  show ?thesis
  proof (cases "due = []")
    case True
    then show ?thesis
      using out \<open>floor_elapsed s now\<close> by (intro idle) (auto simp: outgoing_def Let_def due_def)
  next
    case False
    then have "ds1 \<noteq> []" using all by auto
    then have "ds = ds1 \<and> s' = s1\<lparr>se_rotate := \<not> se_rotate s1\<rparr>"
      using out True b by (auto simp: outgoing_def Let_def due_def split: if_splits)
    then show ?thesis using True False all by (intro channels) auto
  qed
qed

lemma outgoing_sends:
  assumes out: "outgoing c nxt now s q = Ret (Inr ds, s', q')"
  shows "length ds \<le> 2"
    "ds \<noteq> [] \<Longrightarrow> se_last_send s' = Some now \<and> floor_elapsed s now"
    "ds = [] \<Longrightarrow> se_last_send s' = se_last_send s"
proof -
  have two: "length (filter (\<lambda>i. channel_due s i now) (send_order s)) \<le> 2"
    using length_filter_le [of _ "send_order s"] send_order_channels(2) [of s] by metis
  show "length ds \<le> 2"
    using out
  proof (cases rule: outgoing_cases)
    case idle
    then show ?thesis using build_idle_sent(1) [OF idle(3)] by simp
  qed (use two in simp_all)
  show "ds \<noteq> [] \<Longrightarrow> se_last_send s' = Some now \<and> floor_elapsed s now"
    using out
  proof (cases rule: outgoing_cases)
    case idle
    then show "ds \<noteq> [] \<Longrightarrow> se_last_send s' = Some now \<and> floor_elapsed s now"
      using build_idle_sent(2) [OF idle(3)] by simp
  qed simp_all
  show "ds = [] \<Longrightarrow> se_last_send s' = se_last_send s"
    using out
  proof (cases rule: outgoing_cases)
    case idle
    then show "ds = [] \<Longrightarrow> se_last_send s' = se_last_send s"
      using build_idle_sent(3) [OF idle(3)] by simp
  next
    case channels
    then show "ds = [] \<Longrightarrow> se_last_send s' = se_last_send s" by auto
  qed simp
qed

text \<open>Every datagram handed out fits.\<close>

lemma build_length:
  assumes "aead_laws c" "digest_laws c" "session_ok s" "build c nxt i now hb s q = Ret (Inr d, s', q')"
  shows "length d \<le> MAX_DATAGRAM"
  using assms(4)
proof (cases rule: build_cases)
  case (built ins n reply pt)
  then show ?thesis
    using length_datagram_bytes(2) [OF assms(1,2) datagram_header_wf built(3)] assms(3)
    by (simp add: session_ok_def)
qed simp_all

lemma build_all_lengths:
  assumes laws: "aead_laws c" "digest_laws c"
  shows "session_ok s \<Longrightarrow> build_all c nxt due now out s q = Ret (Inr ds, s', q') \<Longrightarrow>
    \<forall>d \<in> set out. length d \<le> MAX_DATAGRAM \<Longrightarrow> \<forall>d \<in> set ds. length d \<le> MAX_DATAGRAM"
proof (induction due arbitrary: out s q)
  case (Cons i due)
  obtain x s1 q1 where x: "build c nxt i now False s q = Ret (x, s1, q1)"
    using Cons.prems(2) by (cases "build c nxt i now False s q") auto
  then obtain d where d: "x = Inr d" using Cons.prems(2) by (cases x) auto
  have "build c nxt i now False s q = Ret (Inr d, s1, q1)" using x d by simp
  from build_length [OF laws Cons.prems(1) this] have "length d \<le> MAX_DATAGRAM" .
  then show ?case
    using Cons.IH [of s1 "out @ [d]" q1] Cons.prems x d build_ok [OF x Cons.prems(1)] by auto
qed simp

lemma outgoing_lengths:
  assumes laws: "aead_laws c" "digest_laws c" and ok: "session_ok s"
    and out: "outgoing c nxt now s q = Ret (Inr ds, s', q')"
  shows "\<forall>d \<in> set ds. length d \<le> MAX_DATAGRAM"
proof (cases "floor_elapsed s now")
  case True
  let ?due = "filter (\<lambda>i. channel_due s i now) (send_order s)"
  obtain x s1 q1 where x: "build_all c nxt ?due now [] s q = Ret (x, s1, q1)"
    using out True by (auto simp: outgoing_def Let_def)
  then obtain out1 where o: "x = Inr out1" using out True by (cases x) (auto simp: outgoing_def Let_def)
  have ok1: "session_ok (s1\<lparr>se_rotate := \<not> se_rotate s1\<rparr>)"
    using build_all_ok [OF laws ok, of nxt ?due now "[]" q] x by (auto simp: session_ok_def)
  show ?thesis
  proof (cases "out1 = []")
    case False
    then have "ds = out1" using out True x o by (simp add: outgoing_def Let_def)
    then have "build_all c nxt ?due now [] s q = Ret (Inr ds, s1, q1)" using x o by simp
    from build_all_lengths [OF laws ok this] show ?thesis by simp
  next
    case True
    then have "build_idle c nxt now (s1\<lparr>se_rotate := \<not> se_rotate s1\<rparr>) q1 = Ret (Inr ds, s', q')"
      using out \<open>floor_elapsed s now\<close> x o by (simp add: outgoing_def Let_def)
    then show ?thesis
      using build_length [OF laws ok1]
      by (auto simp: build_idle_def map_sum_eq_Inr split: option.splits if_splits)
  qed
qed (use out in \<open>simp add: outgoing_def\<close>)

section \<open>The schedule\<close>

lemma rotate_queries [simp]:
  "pending_ack_channel (s\<lparr>se_rotate := b\<rparr>) = pending_ack_channel s"
  "heartbeat_due (s\<lparr>se_rotate := b\<rparr>) now = heartbeat_due s now"
  by (simp_all add: pending_ack_channel_def heartbeat_due_def)

lemma due_min_le_iff: "due_min a d \<le> t \<longleftrightarrow> d \<le> t \<or> (\<exists>x. a = Some x \<and> x \<le> t)"
  by (cases a) (auto simp: min_le_iff_disj)

lemma channel_due_iff: "channel_due s i now \<longleftrightarrow> (\<exists>x. channel_due_at s i = Some x \<and> x \<le> now)"
  by (auto simp: channel_due_def split: option.splits)

text \<open>At or after the scheduled time something is due and the floor has passed.\<close>

lemma schedule_reached:
  assumes n: "next_send_ms s now0 \<le> now"
  shows "floor_elapsed s now"
    "(\<exists>i \<in> set (send_order s). channel_due s i now) \<or> pending_ack_channel s \<noteq> None \<or> heartbeat_due s now"
proof -
  show "floor_elapsed s now"
    using n by (auto simp: floor_elapsed_def next_send_ms_def Let_def split: option.splits)
  show "(\<exists>i \<in> set (send_order s). channel_due s i now) \<or> pending_ack_channel s \<noteq> None \<or> heartbeat_due s now"
  proof (cases "pending_ack_channel s = None \<and> \<not> heartbeat_due s now")
    case True
    then obtain t where t: "se_last_send s = Some t" "\<not> t + HEARTBEAT \<le> now"
      by (auto simp: heartbeat_due_def split: option.splits)
    then have "(\<exists>x. channel_due_at s CHANNEL_MESSAGES = Some x \<and> x \<le> now) \<or>
        (\<exists>x. channel_due_at s CHANNEL_SCREEN = Some x \<and> x \<le> now)"
      using n True by (auto simp: next_send_ms_def Let_def due_min_le_iff)
    then show ?thesis by (auto simp: channel_due_iff send_order_channels(1))
  qed simp
qed

lemma outgoing_on_schedule:
  assumes n: "next_send_ms s now0 \<le> now" and out: "outgoing c nxt now s q = Ret (Inr ds, s', q')"
  shows "ds \<noteq> []"
  using out
proof (cases rule: outgoing_cases)
  case channels
  then show ?thesis by auto
next
  case idle
  then have "\<not> (\<exists>i \<in> set (send_order s). channel_due s i now)" by (auto simp: filter_empty_conv)
  then show ?thesis
    using schedule_reached(2) [OF n] build_idle_sent(4) [OF idle(3)] by auto
qed (use schedule_reached(1) [OF n] in simp)

text \<open>Before it, and with no acknowledgement owed, nothing goes out.\<close>

lemma outgoing_early:
  assumes n: "now < next_send_ms s now" and ack: "pending_ack_channel s = None"
  shows "\<exists>s'. outgoing c nxt now s q = Ret (Inr [], s', q)"
proof (cases "floor_elapsed s now")
  case False
  then show ?thesis by (simp add: outgoing_def)
next
  case True
  obtain t where t: "se_last_send s = Some t"
  proof (cases "se_last_send s")
    case None
    then have "next_send_ms s now \<le> max now now"
      unfolding next_send_ms_def Let_def by (intro max.mono) (simp_all add: due_min_le_iff ack)
    then show ?thesis using n by simp
  qed
  have "\<not> max (due_min (channel_due_at s CHANNEL_SCREEN)
      (due_min (channel_due_at s CHANNEL_MESSAGES) (t + HEARTBEAT))) (t + SEND_INTERVAL_MIN) \<le> now"
    using n t ack by (simp add: next_send_ms_def Let_def not_le less_max_iff_disj)
  moreover have "t + SEND_INTERVAL_MIN \<le> now" using True t by (simp add: floor_elapsed_def)
  ultimately have "\<not> channel_due s CHANNEL_MESSAGES now" "\<not> channel_due s CHANNEL_SCREEN now"
    "\<not> heartbeat_due s now"
    using t by (auto simp: due_min_le_iff channel_due_iff heartbeat_due_def)
  then have "filter (\<lambda>i. channel_due s i now) (send_order s) = []"
    by (auto simp: filter_empty_conv send_order_channels(1))
  then show ?thesis
    using True ack \<open>\<not> heartbeat_due s now\<close> by (simp add: outgoing_def build_idle_def)
qed

text \<open>An unacknowledged state is retransmitted at most a second after it was last sent.\<close>

lemma channel_due_at_rto:
  assumes "channel_due_at s i = Some x" "channel_timing s i = (True, False, Some t)"
    and "unat t + 1000 < 2 ^ 64"
  shows "x \<le> t + MAX_RTO"
proof -
  have "session_rto s \<le> MAX_RTO" using rto_bounds by (simp add: session_rto_def)
  moreover have "x = t + session_rto s" using assms by (simp add: channel_due_at_def)
  moreover have "unat (session_rto s) \<le> 1000" using \<open>session_rto s \<le> MAX_RTO\<close>
    by (simp add: MAX_RTO_def word_le_nat_alt)
  ultimately show ?thesis
    using assms(3) by (simp add: word_le_nat_alt unat_u64_add MAX_RTO_def)
qed

end
