(* ===== verification/StaleDatagram.thy ===== *)
theory StaleDatagram
  imports DeliveryReset
begin

text \<open>
  A late copy of the old session's first datagram, handed to a peer that has restarted: the
  steps of both channels, one by one.
\<close>

definition fresh_queue_channel :: "message_queue channel" where
  "fresh_queue_channel = channel_new CHANNEL_MESSAGES (mq_new default_queue_limits) MAX_SENT_STATES"

text \<open>A default queue holding one message, with its base.\<close>

definition queue_of :: "u64 \<Rightarrow> bytes list \<Rightarrow> message_queue" where
  "queue_of base ms = \<lparr>mq_messages = ms, mq_base = base, mq_bytes = sum_list (map length ms),
     mq_limits = default_queue_limits\<rparr>"

lemma queue_of_new: "mq_new default_queue_limits = queue_of 0 []"
  by (simp add: mq_new_def queue_of_def)

lemma queue_of_push:
  "length m \<le> MAX_MESSAGE_BYTES \<Longrightarrow> length ms < 2 \<Longrightarrow> sum_list (map length ms) \<le> 2 * MAX_MESSAGE_BYTES \<Longrightarrow>
   mq_push m (queue_of b ms) = (Inr (), queue_of b (ms @ [m]))"
  by (simp add: mq_push_def mq_check_capacity_def queue_of_def default_queue_limits_def
      MAX_MESSAGE_BYTES_def MAX_DIFF_LEN_eq)

definition stale_a1 :: "bytes \<Rightarrow> message_queue channel" where
  "stale_a1 m1 = fresh_queue_channel\<lparr>ch_current := queue_of 0 [m1], ch_current_num := 1,
     ch_sent_states := [(0, queue_of 0 []), (1, queue_of 0 [m1])]\<rparr>"

definition stale_datagram :: "bytes \<Rightarrow> instruction" where
  "stale_datagram m1 = \<lparr>in_channel = 0, in_old = 0, in_new = 1, in_ack = 0, in_throwaway = 0,
     in_diff = encode_messages [m1]\<rparr>"

definition stale_b :: "bytes \<Rightarrow> message_queue channel" where
  "stale_b m1 = fresh_queue_channel\<lparr>ch_received := queue_of 0 [m1], ch_received_num := 1\<rparr>"

definition stale_ack :: instruction where
  "stale_ack = \<lparr>in_channel = 0, in_old = 0, in_new = 0, in_ack = 1, in_throwaway = 1,
     in_diff = encode_messages []\<rparr>"

definition stale_a2 :: "bytes \<Rightarrow> message_queue channel" where
  "stale_a2 m1 = fresh_queue_channel\<lparr>ch_current := queue_of 1 [], ch_current_num := 1,
     ch_sent_states := [(1, queue_of 0 [m1])], ch_assumed := 1, ch_received := queue_of 0 []\<rparr>"

definition stale_a3 :: "bytes \<Rightarrow> bytes \<Rightarrow> message_queue channel" where
  "stale_a3 m1 m2 = (stale_a2 m1)\<lparr>ch_current := queue_of 1 [m2], ch_current_num := 2,
     ch_sent_states := [(1, queue_of 0 [m1]), (2, queue_of 1 [m2])]\<rparr>"

definition stale_a4 :: "bytes \<Rightarrow> message_queue channel" where
  "stale_a4 m2 = fresh_queue_channel\<lparr>ch_current := queue_of 0 [m2], ch_current_num := 1,
     ch_sent_states := [(0, queue_of 0 []), (1, queue_of 0 [m2])]\<rparr>"

lemmas stale_defs = fresh_queue_channel_def channel_new_def queue_of_new CHANNEL_MESSAGES_def

lemma stale_1: "length m1 \<le> MAX_MESSAGE_BYTES \<Longrightarrow> advance (mq_push m1) fresh_queue_channel = (Inr (), stale_a1 m1)"
  by (simp add: advance_def stale_a1_def stale_defs queue_of_push MAX_SENT_STATES_def)

lemma stale_2: "length m1 \<le> MAX_MESSAGE_BYTES \<Longrightarrow>
    channel_instruction message_queue_ssp (stale_a1 m1) = Ret (Inr (stale_datagram m1))"
  by (simp add: channel_instruction_def stale_a1_def stale_defs mq_diff_from_def mq_num_def queue_of_def
      length_encode_messages MAX_MESSAGE_BYTES_def MAX_DIFF_LEN_eq instruction_with_def stale_datagram_def)

lemma stale_3:
  assumes "length m1 \<le> MAX_MESSAGE_BYTES"
  shows "channel_apply message_queue_ssp (stale_datagram m1) fresh_queue_channel = (Inr True, stale_b m1)"
proof -
  have "decode_messages (encode_messages [m1]) = Inr [m1]"
    using assms by (intro decode_encode_messages) (simp_all add: MAX_MESSAGE_BYTES_def MAX_DIFF_LEN_eq)
  then have "mq_apply_diff (queue_of 0 []) (encode_messages [m1]) = (Inr (), queue_of 0 [m1])"
    using assms by (simp add: mq_apply_diff_def mq_check_capacity_def queue_of_def default_queue_limits_def
        MAX_MESSAGE_BYTES_def MAX_DIFF_LEN_eq)
  then show ?thesis
    by (simp add: channel_apply_def apply_ack_def acknowledge_def stale_defs stale_datagram_def stale_b_def
        mq_prune_through_def Let_def)
qed

lemma stale_4: "channel_instruction message_queue_ssp (stale_b m1) = Ret (Inr stale_ack)"
  by (simp add: channel_instruction_def stale_b_def stale_defs mq_diff_from_def mq_num_def queue_of_def
      length_encode_messages MAX_DIFF_LEN_eq instruction_with_def stale_ack_def)

lemma stale_diff: "decode_messages (encode_messages []) = Inr []"
  by (rule decode_encode_messages) simp_all

lemma stale_prune: "mq_prune_through 1 (queue_of 0 [m]) = queue_of 1 []"
  by (simp add: mq_prune_through_def queue_of_def Let_def)

lemma stale_apply_none: "mq_apply_diff (queue_of 0 []) (encode_messages []) = (Inr (), queue_of 0 [])"
  by (simp add: mq_apply_diff_def stale_diff mq_check_capacity_def queue_of_def default_queue_limits_def)

lemma stale_5: "channel_apply message_queue_ssp stale_ack (stale_a1 m1) = (Inr False, stale_a2 m1)"
  by (simp add: channel_apply_def apply_ack_def acknowledge_def stale_defs stale_a1_def stale_a2_def
      stale_ack_def stale_prune stale_apply_none Let_def)

lemma stale_6: "length m2 \<le> MAX_MESSAGE_BYTES \<Longrightarrow> advance (mq_push m2) (stale_a2 m1) = (Inr (), stale_a3 m1 m2)"
  by (simp add: advance_def stale_a2_def stale_a3_def stale_defs queue_of_push MAX_SENT_STATES_def)

lemma stale_7: "reset_peer message_queue_ssp (stale_a3 m1 m2) = Ret (stale_a4 m2)"
  by (simp add: reset_peer_def stale_a3_def stale_a2_def stale_a4_def stale_defs mq_prune_through_def
      mq_reset_origin_def mq_num_def queue_of_def Let_def)

lemma stale_8: "channel_apply message_queue_ssp stale_ack (stale_a4 m2) = (Inr False, stale_a2 m2)"
  by (simp add: channel_apply_def apply_ack_def acknowledge_def stale_defs stale_a4_def stale_a2_def
      stale_ack_def stale_prune stale_apply_none Let_def)

lemma stale_pending:
  "\<not> is_pending (stale_a2 m)" "mq_pending (ch_current (stale_a2 m)) = []"
  "is_pending (stale_a4 m)" "mq_pending (ch_current (stale_a4 m)) = [m]"
  "mq_pending (ch_received (stale_b m)) = [m]"
  by (simp_all add: is_pending_def mq_pending_def stale_a2_def stale_a4_def stale_b_def queue_of_def stale_defs)

end
