(* ===== verification/KeyText.thy ===== *)
theory KeyText
  imports Prelude
begin

text \<open>
  Text forms of key material: Crockford base32 (\<open>src/src/link/src/keys/crockford.rs\<close>) and the
  hexadecimal codec at the end of \<open>keys/types.rs\<close>.  Both work on what a human typed, so a
  string is a list of Unicode scalar values and byte offsets into it count UTF-8 bytes; slicing
  off a character boundary panics, as in Rust.
\<close>

section \<open>Crockford base32\<close>

definition ALPHABET :: rstr where
  "ALPHABET = lit ''0123456789ABCDEFGHJKMNPQRSTVWXYZ''"

definition GROUP :: nat where
  "GROUP = 4"

datatype crockford_error = Crockford_length nat | Crockford_character rchar

definition div_ceil :: "nat \<Rightarrow> nat \<Rightarrow> nat" where
  "div_ceil a b = (a + b - 1) div b"

text \<open>\<open>ALPHABET[value as usize] as char\<close>.\<close>

definition alphabet_char :: "u8 \<Rightarrow> rchar outcome" where
  "alphabet_char v = (if unat v < length ALPHABET then Ret (ALPHABET ! unat v) else Panic)"

subsection \<open>Encoding\<close>

fun encode_loop :: "bytes \<Rightarrow> nat list \<Rightarrow> rstr \<Rightarrow> u8 \<Rightarrow> nat \<Rightarrow> (rstr \<times> u8 \<times> nat) outcome" where
  "encode_loop bs [] out chunk filled = Ret (out, chunk, filled)"
| "encode_loop bs (index # rest) out chunk filled =
     (if index div 8 \<ge> length bs then Panic
      else
        let b = drop_bit (7 - index mod 8) (bs ! (index div 8)) AND 1;
            chunk = push_bit 1 chunk OR b;
            filled = filled + 1
        in if filled = 5
           then bind_outcome (alphabet_char chunk) (\<lambda>c. encode_loop bs rest (out @ [c]) 0 0)
           else encode_loop bs rest out chunk filled)"

definition encode_bits :: "bytes \<Rightarrow> nat \<Rightarrow> rstr outcome" where
  "encode_bits bs bits =
     (if \<not> bits \<le> length bs * 8 then Panic
      else bind_outcome (encode_loop bs [0..<bits] [] 0 0) (\<lambda>(out, chunk, filled).
        if filled > 0
        then bind_outcome (alphabet_char (push_bit (5 - filled) chunk)) (\<lambda>c. Ret (out @ [c]))
        else Ret out))"

subsection \<open>Decoding\<close>

definition fold_char :: "rchar \<Rightarrow> rchar" where
  "fold_char ch =
     (let upper = to_ascii_uppercase ch
      in if upper = of_char (CHR ''O'') then of_char (CHR ''0'')
         else if upper = of_char (CHR ''I'') \<or> upper = of_char (CHR ''L'') then of_char (CHR ''1'')
         else upper)"

definition decode_char :: "rchar \<Rightarrow> u8 option" where
  "decode_char ch =
     map_option word_of_nat (find (\<lambda>i. ALPHABET ! i = fold_char ch) [0..<length ALPHABET])"

fun typed_values :: "rstr \<Rightarrow> crockford_error + u8 list" where
  "typed_values [] = Inr []"
| "typed_values (ch # rest) =
     (if ch = of_char (CHR ''-'') \<or> is_whitespace ch then typed_values rest
      else
        (case decode_char ch of
           None \<Rightarrow> Inl (Crockford_character ch)
         | Some v \<Rightarrow> and_then (typed_values rest) (\<lambda>vs. Inr (v # vs))))"

fun decode_value :: "nat \<Rightarrow> nat \<Rightarrow> u8 \<Rightarrow> nat list \<Rightarrow> bytes \<Rightarrow> bytes" where
  "decode_value bits index v [] bs = bs"
| "decode_value bits index v (offset # rest) bs =
     (let bit_index = index * 5 + offset
      in if bit_index \<ge> bits then bs
         else
           let b = drop_bit (4 - offset) v AND 1
           in decode_value bits index v rest
                (bs[bit_index div 8 := (bs ! (bit_index div 8)) OR push_bit (7 - bit_index mod 8) b]))"

definition decode_bits :: "rstr \<Rightarrow> nat \<Rightarrow> crockford_error + bytes" where
  "decode_bits text bits =
     and_then (typed_values text) (\<lambda>vs.
       if length vs \<noteq> div_ceil bits 5 then Inl (Crockford_length (length vs))
       else Inr (fold (\<lambda>(index, v). decode_value bits index v [0..<5]) (enumerate 0 vs)
                   (replicate (div_ceil bits 8) 0)))"

subsection \<open>Display groups\<close>

definition group :: "rstr \<Rightarrow> rstr" where
  "group raw =
     concat (map (\<lambda>(index, ch). (if index > 0 \<and> index mod GROUP = 0 then [of_char (CHR ''-'')] else []) @ [ch])
       (enumerate 0 raw))"

section \<open>Hexadecimal\<close>

definition hex_digit :: "nat \<Rightarrow> rchar" where
  "hex_digit n = (if n < 10 then 48 + n else 87 + n)"

text \<open>\<open>format!("{byte:02x}")\<close> of every byte.\<close>

definition hex_encode :: "bytes \<Rightarrow> rstr" where
  "hex_encode bs = concat (map (\<lambda>b. [hex_digit (unat b div 16), hex_digit (unat b mod 16)]) bs)"

text \<open>\<open>&text[a..b]\<close> in bytes: the string after \<open>n\<close> bytes and the first \<open>n\<close> bytes, \<open>None\<close> when
  the offset is past the end or inside a character.\<close>

fun str_suffix :: "nat \<Rightarrow> rstr \<Rightarrow> rstr option" where
  "str_suffix n [] = (if n = 0 then Some [] else None)"
| "str_suffix n (c # s) =
     (if n = 0 then Some (c # s) else if utf8_width c \<le> n then str_suffix (n - utf8_width c) s else None)"

fun str_prefix :: "nat \<Rightarrow> rstr \<Rightarrow> rstr option" where
  "str_prefix n [] = (if n = 0 then Some [] else None)"
| "str_prefix n (c # s) =
     (if n = 0 then Some []
      else if utf8_width c \<le> n then map_option ((#) c) (str_prefix (n - utf8_width c) s) else None)"

definition str_slice :: "nat \<Rightarrow> nat \<Rightarrow> rstr \<Rightarrow> rstr outcome" where
  "str_slice a b s =
     (case str_suffix a s of
        None \<Rightarrow> Panic
      | Some r \<Rightarrow> (case str_prefix (b - a) r of None \<Rightarrow> Panic | Some t \<Rightarrow> Ret t))"

definition hex_value :: "rchar \<Rightarrow> nat option" where
  "hex_value c =
     (if 48 \<le> c \<and> c \<le> 57 then Some (c - 48)
      else if 97 \<le> c \<and> c \<le> 102 then Some (c - 87)
      else if 65 \<le> c \<and> c \<le> 70 then Some (c - 55) else None)"

text \<open>\<open>u8::from_str_radix(text, 16)\<close> on at most two characters: a leading \<open>+\<close> before a digit is
  accepted, an empty string and a lone sign are not; two digits cannot overflow.\<close>

fun from_str_radix16 :: "rstr \<Rightarrow> u8 option" where
  "from_str_radix16 [] = None"
| "from_str_radix16 [c] = map_option word_of_nat (hex_value c)"
| "from_str_radix16 (c # d # rest) =
     (if c = of_char (CHR ''+'') then from_str_radix16 (d # rest)
      else if rest \<noteq> [] then None
      else (case (hex_value c, hex_value d) of
              (Some x, Some y) \<Rightarrow> Some (word_of_nat (16 * x + y)) | _ \<Rightarrow> None))"

text \<open>The lazy \<open>map(..).collect()\<close>: the first byte that does not parse ends it.\<close>

fun hex_decode_loop :: "rstr \<Rightarrow> nat list \<Rightarrow> bytes option outcome" where
  "hex_decode_loop text [] = Ret (Some [])"
| "hex_decode_loop text (index # rest) =
     bind_outcome (str_slice (index * 2) (index * 2 + 2) text) (\<lambda>s.
       case from_str_radix16 s of
         None \<Rightarrow> Ret None
       | Some b \<Rightarrow> bind_outcome (hex_decode_loop text rest) (\<lambda>r. Ret (map_option ((#) b) r)))"

definition hex_decode :: "rstr \<Rightarrow> bytes option outcome" where
  "hex_decode text =
     (let text = trim text
      in if \<not> even (str_len text) then Ret None else hex_decode_loop text [0..<str_len text div 2])"

section \<open>Bits of a byte string\<close>

declare push_bit_Suc [simp del]

text \<open>The \<open>j\<close>-th bit of a byte string, most significant first.\<close>

definition bit_at :: "bytes \<Rightarrow> nat \<Rightarrow> bool" where
  "bit_at bs j \<longleftrightarrow> bit (bs ! (j div 8)) (7 - j mod 8)"

text \<open>The \<open>k\<close>-th group of five bits among the first \<open>n\<close>, padded with zeros.\<close>

definition is_quintet :: "bytes \<Rightarrow> nat \<Rightarrow> nat \<Rightarrow> u8 \<Rightarrow> bool" where
  "is_quintet bs n k v \<longleftrightarrow>
     (\<forall>b. bit v b \<longleftrightarrow> b < 5 \<and> 5 * k + (4 - b) < n \<and> bit_at bs (5 * k + (4 - b)))"

lemma word_small: "(\<And>b. bit v b \<Longrightarrow> b < 5) \<Longrightarrow> unat (v :: u8) < 32"
proof -
  assume "\<And>b. bit v b \<Longrightarrow> b < 5"
  then have "v = take_bit 5 v" by (auto simp: bit_eq_iff bit_take_bit_iff)
  then have "unat v = take_bit 5 (unat v)" by (metis unsigned_take_bit_eq)
  also have "\<dots> < 2 ^ 5" by (rule take_bit_nat_less_exp)
  finally show ?thesis by simp
qed

lemma is_quintet_less: "is_quintet bs n k v \<Longrightarrow> unat v < 32"
  by (rule word_small) (simp add: is_quintet_def)

lemma is_quintet_unique: "is_quintet bs n k v \<Longrightarrow> is_quintet bs n k w \<Longrightarrow> v = w"
  unfolding is_quintet_def by (intro bit_eqI) blast

lemma length_ALPHABET [simp]: "length ALPHABET = 32"
  by (simp add: ALPHABET_def lit_def)

lemma alphabet_char_Ret [simp]: "unat v < 32 \<Longrightarrow> alphabet_char v = Ret (ALPHABET ! unat v)"
  by (simp add: alphabet_char_def)

abbreviation spelled :: "u8 list \<Rightarrow> rstr" where
  "spelled vs \<equiv> map (\<lambda>v. ALPHABET ! unat v) vs"

section \<open>What \<open>encode_bits\<close> spells\<close>

lemma bit_shift_in:
  "bit (push_bit 1 (w :: u8) OR (drop_bit m x AND 1)) b \<longleftrightarrow>
     (if b = 0 then bit x m else b < 8 \<and> bit w (b - 1))"
  by (cases b) (auto simp: bit_or_iff bit_and_iff bit_push_bit_iff bit_drop_bit_eq bit_1_iff)

lemma encode_loop_quintets:
  assumes "n \<le> 8 * length bs" "i \<le> n" "length vs = i div 5"
    and "\<forall>k < i div 5. is_quintet bs n k (vs ! k)"
    and "\<And>b. bit chunk b \<longleftrightarrow> b < i mod 5 \<and> bit_at bs (i - 1 - b)"
  shows "\<exists>vs' chunk'. length vs' = n div 5 \<and> (\<forall>k < n div 5. is_quintet bs n k (vs' ! k)) \<and>
    (\<forall>b. bit chunk' b \<longleftrightarrow> b < n mod 5 \<and> bit_at bs (n - 1 - b)) \<and>
    encode_loop bs [i..<n] (spelled vs) chunk (i mod 5) = Ret (spelled vs', chunk', n mod 5)"
  using assms(2-)
proof (induction "n - i" arbitrary: i vs chunk)
  case 0
  then have "i = n" by simp
  with 0 show ?case by (intro exI [of _ vs] exI [of _ chunk]) auto
next
  case (Suc d)
  then have i: "i < n" "[i..<n] = i # [Suc i..<n]" by (simp_all add: upt_conv_Cons)
  have at: "i div 8 < length bs" using i(1) assms(1) by simp
  let ?c = "push_bit 1 chunk OR (drop_bit (7 - i mod 8) (bs ! (i div 8)) AND 1)"
  have c: "bit ?c b \<longleftrightarrow> b < Suc (i mod 5) \<and> bit_at bs (i - b)" for b
  proof (cases b)
    case 0
    then show ?thesis by (simp only: bit_shift_in) (simp add: bit_at_def)
  next
    case (Suc b')
    have "i mod 5 < 5" by simp
    then show ?thesis using Suc Suc.prems(4) [of b'] by (simp only: bit_shift_in) auto
  qed
  show ?case
  proof (cases "i mod 5 = 4")
    case True
    then obtain k where k: "i = 5 * k + 4" by (metis mult_div_mod_eq)
    have q: "is_quintet bs n k ?c"
      unfolding is_quintet_def
    proof
      fix b show "bit ?c b \<longleftrightarrow> b < 5 \<and> 5 * k + (4 - b) < n \<and> bit_at bs (5 * k + (4 - b))"
        unfolding c using i(1) k by (cases "b < 5") auto
    qed
    have "\<exists>vs' chunk'. length vs' = n div 5 \<and> (\<forall>k < n div 5. is_quintet bs n k (vs' ! k)) \<and>
      (\<forall>b. bit chunk' b \<longleftrightarrow> b < n mod 5 \<and> bit_at bs (n - 1 - b)) \<and>
      encode_loop bs [Suc i..<n] (spelled (vs @ [?c])) 0 (Suc i mod 5) = Ret (spelled vs', chunk', n mod 5)"
    proof (rule Suc.hyps(1))
      show "\<forall>j < Suc i div 5. is_quintet bs n j ((vs @ [?c]) ! j)"
        using Suc.prems(2,3) k q by (auto simp: nth_append less_Suc_eq)
    qed (use Suc.hyps(2) i Suc.prems(2) k in auto)
    moreover have "alphabet_char ?c = Ret (ALPHABET ! unat ?c)"
      by (rule alphabet_char_Ret [OF is_quintet_less [OF q]])
    moreover have "Suc i mod 5 = 0" using True by (simp add: mod_Suc)
    ultimately show ?thesis using True at by (simp add: i(2))
  next
    case False
    have m: "Suc i mod 5 = Suc (i mod 5)" "Suc i div 5 = i div 5"
      using False by (simp_all add: mod_Suc div_Suc)
    have "\<exists>vs' chunk'. length vs' = n div 5 \<and> (\<forall>k < n div 5. is_quintet bs n k (vs' ! k)) \<and>
      (\<forall>b. bit chunk' b \<longleftrightarrow> b < n mod 5 \<and> bit_at bs (n - 1 - b)) \<and>
      encode_loop bs [Suc i..<n] (spelled vs) ?c (Suc i mod 5) = Ret (spelled vs', chunk', n mod 5)"
      by (rule Suc.hyps(1)) (use Suc.hyps(2) i Suc.prems(2,3) m c in auto)
    then show ?thesis using False at by (simp add: i(2) m(1))
  qed
qed

lemma padded_quintet:
  assumes m: "m = n mod 5" "0 < m" and k: "k = n div 5"
    and chunk: "\<And>b. bit chunk b \<longleftrightarrow> b < m \<and> bit_at bs (n - 1 - b)"
  shows "is_quintet bs n k (push_bit (5 - m) chunk)"
  unfolding is_quintet_def
proof
  fix b
  have n: "n = 5 * k + m" "m < 5" using m(1) k by auto
  have "bit (push_bit (5 - m) chunk) b \<longleftrightarrow>
      5 - m \<le> b \<and> b < 8 \<and> b - (5 - m) < m \<and> bit_at bs (n - 1 - (b - (5 - m)))"
    by (simp add: bit_push_bit_iff chunk)
  also have "\<dots> \<longleftrightarrow> 5 - m \<le> b \<and> b < 5 \<and> bit_at bs (n - 1 - (b - (5 - m)))"
    using n(2) by auto
  also have "\<dots> \<longleftrightarrow> 5 - m \<le> b \<and> b < 5 \<and> bit_at bs (5 * k + (4 - b))"
  proof (cases "5 - m \<le> b \<and> b < 5")
    case True
    then have "n - 1 - (b - (5 - m)) = 5 * k + (4 - b)" using n by auto
    then show ?thesis by simp
  qed blast
  also have "\<dots> \<longleftrightarrow> b < 5 \<and> 5 * k + (4 - b) < n \<and> bit_at bs (5 * k + (4 - b))"
    using n by auto
  finally show "bit (push_bit (5 - m) chunk) b \<longleftrightarrow>
      b < 5 \<and> 5 * k + (4 - b) < n \<and> bit_at bs (5 * k + (4 - b))" .
qed

lemma encode_bits_quintets:
  assumes "n \<le> 8 * length bs"
  shows "\<exists>vs. length vs = div_ceil n 5 \<and> (\<forall>k < length vs. is_quintet bs n k (vs ! k)) \<and>
    encode_bits bs n = Ret (spelled vs)"
proof -
  obtain vs chunk where vs: "length vs = n div 5" "\<forall>k < n div 5. is_quintet bs n k (vs ! k)"
    and chunk: "\<And>b. bit chunk b \<longleftrightarrow> b < n mod 5 \<and> bit_at bs (n - 1 - b)"
    and loop: "encode_loop bs [0..<n] [] 0 0 = Ret (spelled vs, chunk, n mod 5)"
    using encode_loop_quintets [OF assms, of 0 "[]" 0] by auto
  show ?thesis
  proof (cases "n mod 5 = 0")
    case True
    then have "div_ceil n 5 = n div 5" by (auto simp: div_ceil_def elim!: dvdE)
    with True vs loop assms show ?thesis by (intro exI [of _ vs]) (simp add: encode_bits_def mult.commute)
  next
    case False
    let ?last = "push_bit (5 - n mod 5) chunk"
    have len: "div_ceil n 5 = Suc (n div 5)"
      using False by (simp add: div_ceil_def) presburger
    have q: "is_quintet bs n (n div 5) ?last"
      by (rule padded_quintet) (use False chunk in auto)
    have "encode_bits bs n = Ret (spelled (vs @ [?last]))"
      using False loop assms is_quintet_less [OF q] by (simp add: encode_bits_def mult.commute)
    moreover have "\<forall>k < length (vs @ [?last]). is_quintet bs n k ((vs @ [?last]) ! k)"
      using vs q by (auto simp: nth_append less_Suc_eq)
    ultimately show ?thesis using vs(1) len by (intro exI [of _ "vs @ [?last]"]) simp
  qed
qed

section \<open>What \<open>decode_bits\<close> reads\<close>

lemma decode_char_ALPHABET: "v < 32 \<Longrightarrow> decode_char (ALPHABET ! v) = Some (word_of_nat v)"
proof -
  have "list_all (\<lambda>v. decode_char (ALPHABET ! v) = Some (word_of_nat v)) [0..<32]" by code_simp
  then show "v < 32 \<Longrightarrow> ?thesis" by (simp add: list_all_iff)
qed

lemma decode_char_Some:
  assumes "decode_char ch = Some v"
  shows "unat v < 32 \<and> ALPHABET ! unat v = fold_char ch"
proof -
  from assms obtain i where i: "find (\<lambda>i. ALPHABET ! i = fold_char ch) [0..<length ALPHABET] = Some i"
    "v = word_of_nat i" by (auto simp: decode_char_def)
  then have "i < 32" "ALPHABET ! i = fold_char ch" by (auto simp: find_Some_iff)
  then show ?thesis using i(2) by simp
qed

lemma decode_char_fold: "fold_char a = fold_char b \<Longrightarrow> decode_char a = decode_char b"
  by (simp add: decode_char_def)

text \<open>How a typed string reads: its separators dropped and its characters folded.\<close>

definition separator :: "rchar \<Rightarrow> bool" where
  "separator ch \<longleftrightarrow> ch = of_char (CHR ''-'') \<or> is_whitespace ch"

definition reads :: "rstr \<Rightarrow> rstr" where
  "reads s = map fold_char (filter (\<lambda>ch. \<not> separator ch) s)"

lemma ALPHABET_plain: "v < 32 \<Longrightarrow> \<not> separator (ALPHABET ! v) \<and> fold_char (ALPHABET ! v) = ALPHABET ! v"
proof -
  have "list_all (\<lambda>c. \<not> separator c \<and> fold_char c = c) ALPHABET"
    by (simp add: ALPHABET_def lit_def separator_def is_whitespace_def fold_char_def to_ascii_uppercase_def)
  then show "v < 32 \<Longrightarrow> ?thesis" by (simp add: list_all_length)
qed

lemma reads_spelled [simp]: "\<forall>v \<in> set vs. unat v < 32 \<Longrightarrow> reads (spelled vs) = spelled vs"
  by (induction vs) (auto simp: reads_def ALPHABET_plain)

lemma ALPHABET_inject: "a < 32 \<Longrightarrow> b < 32 \<Longrightarrow> ALPHABET ! a = ALPHABET ! b \<longleftrightarrow> a = b"
proof -
  assume "a < 32" "b < 32"
  moreover have "distinct ALPHABET" by (simp add: ALPHABET_def lit_def)
  ultimately show ?thesis by (simp add: nth_eq_iff_index_eq)
qed

lemma typed_values_iff:
  "typed_values s = Inr vs \<longleftrightarrow> (\<forall>v \<in> set vs. unat v < 32) \<and> reads s = spelled vs"
proof (induction s arbitrary: vs)
  case Nil
  then show ?case by (auto simp: reads_def)
next
  case (Cons ch s)
  show ?case
  proof (cases "separator ch")
    case True
    then show ?thesis using Cons by (auto simp: reads_def separator_def)
  next
    case False
    then have r: "reads (ch # s) = fold_char ch # reads s" by (simp add: reads_def)
    show ?thesis
    proof (cases "decode_char ch")
      case None
      have "fold_char ch \<noteq> ALPHABET ! unat v" if "unat v < 32" for v :: u8
        using None decode_char_ALPHABET [OF that] ALPHABET_plain [OF that]
          decode_char_fold [of ch "ALPHABET ! unat v"] by auto
      then show ?thesis using False None by (cases vs) (auto simp: r separator_def)
    next
      case (Some w)
      have w: "unat w < 32" "fold_char ch = ALPHABET ! unat w" using decode_char_Some [OF Some] by auto
      show ?thesis
        using False Some Cons w ALPHABET_inject [of "unat w"]
        by (cases vs) (auto simp: r separator_def word_unat_eq_iff)
    qed
  qed
qed

section \<open>The decode loop\<close>

lemma bit_set_bit:
  "p < 8 \<Longrightarrow> bit (x OR push_bit p (drop_bit m (v :: u8) AND 1)) q \<longleftrightarrow> bit x q \<or> q = p \<and> bit v m"
  for x :: u8
  by (auto simp: bit_or_iff bit_and_iff bit_push_bit_iff bit_drop_bit_eq bit_1_iff simp del: push_bit_and)

lemma bit_at_update:
  assumes "j div 8 < length bs"
  shows "bit_at (bs[j div 8 := bs ! (j div 8) OR push_bit (7 - j mod 8) (drop_bit m v AND 1)]) i
    \<longleftrightarrow> bit_at bs i \<or> i = j \<and> bit v m"
proof (cases "i div 8 = j div 8")
  case True
  have e: "7 - i mod 8 = 7 - j mod 8 \<longleftrightarrow> i = j"
  proof -
    have "i mod 8 < 8" "j mod 8 < 8" by simp_all
    moreover have "i mod 8 = j mod 8 \<longleftrightarrow> i = j" using True by (metis div_mult_mod_eq)
    ultimately show ?thesis by linarith
  qed
  have "7 - j mod 8 < 8" by simp
  from bit_set_bit [OF this] show ?thesis using True assms e by (simp add: bit_at_def)
next
  case False
  then show ?thesis using assms by (auto simp: bit_at_def)
qed

lemma length_decode_value [simp]: "length (decode_value n k v os bs) = length bs"
  by (induction n k v os bs rule: decode_value.induct) (simp_all add: Let_def)

lemma bit_at_decode_value:
  assumes "n \<le> 8 * length bs" "b \<le> 5"
  shows "bit_at (decode_value n k v [b..<5] bs) i \<longleftrightarrow>
    bit_at bs i \<or> i < n \<and> i div 5 = k \<and> b \<le> i mod 5 \<and> bit v (4 - i mod 5)"
  using assms
proof (induction "5 - b" arbitrary: b bs)
  case 0
  then have "b = 5" by simp
  moreover have "\<not> 5 \<le> i mod 5" by (simp add: not_le)
  ultimately show ?case by simp
next
  case (Suc d)
  then have b: "b < 5" "[b..<5] = b # [Suc b..<5]" by (simp_all add: upt_conv_Cons)
  show ?case
  proof (cases "k * 5 + b \<ge> n")
    case True
    then have "\<not> (i < n \<and> i div 5 = k \<and> b \<le> i mod 5)" by (metis add_mono_thms_linordered_semiring(2) div_mult_mod_eq leD le_trans)
    then show ?thesis using True by (auto simp: b(2) Let_def)
  next
    case False
    let ?j = "k * 5 + b"
    let ?bs = "bs[?j div 8 := bs ! (?j div 8) OR push_bit (7 - ?j mod 8) (drop_bit (4 - b) v AND 1)]"
    have at: "?j div 8 < length bs" using False Suc.prems(1) by simp
    have "bit_at (decode_value n k v [b..<5] bs) i \<longleftrightarrow> bit_at (decode_value n k v [Suc b..<5] ?bs) i"
      using False by (simp add: b(2) Let_def)
    also have "\<dots> \<longleftrightarrow> bit_at ?bs i \<or> i < n \<and> i div 5 = k \<and> Suc b \<le> i mod 5 \<and> bit v (4 - i mod 5)"
      by (rule Suc.hyps(1)) (use Suc b in auto)
    also have "\<dots> \<longleftrightarrow> (bit_at bs i \<or> i = ?j \<and> bit v (4 - b)) \<or>
        i < n \<and> i div 5 = k \<and> Suc b \<le> i mod 5 \<and> bit v (4 - i mod 5)"
      using bit_at_update [OF at] by simp
    also have "\<dots> \<longleftrightarrow> bit_at bs i \<or> i < n \<and> i div 5 = k \<and> b \<le> i mod 5 \<and> bit v (4 - i mod 5)"
    proof -
      have "i = ?j \<longleftrightarrow> i div 5 = k \<and> i mod 5 = b"
        using b(1) by auto
      then show ?thesis using False by auto
    qed
    finally show ?thesis .
  qed
qed

abbreviation decode_all :: "nat \<Rightarrow> nat \<Rightarrow> u8 list \<Rightarrow> bytes \<Rightarrow> bytes" where
  "decode_all n k vs \<equiv> fold (\<lambda>(index, v). decode_value n index v [0..<5]) (enumerate k vs)"

lemma length_decode_all [simp]: "length (decode_all n k vs bs) = length bs"
  by (induction vs arbitrary: k bs) simp_all

lemma bit_at_decode_all:
  assumes "n \<le> 8 * length bs"
  shows "bit_at (decode_all n k vs bs) i \<longleftrightarrow>
    bit_at bs i \<or> i < n \<and> k \<le> i div 5 \<and> i div 5 < k + length vs \<and> bit (vs ! (i div 5 - k)) (4 - i mod 5)"
  using assms
proof (induction vs arbitrary: k bs)
  case Nil
  then show ?case by auto
next
  case (Cons v vs)
  have "bit_at (decode_all n k (v # vs) bs) i \<longleftrightarrow> bit_at (decode_all n (Suc k) vs (decode_value n k v [0..<5] bs)) i"
    by simp
  also have "\<dots> \<longleftrightarrow> (bit_at bs i \<or> i < n \<and> i div 5 = k \<and> bit v (4 - i mod 5)) \<or>
      i < n \<and> Suc k \<le> i div 5 \<and> i div 5 < Suc k + length vs \<and> bit (vs ! (i div 5 - Suc k)) (4 - i mod 5)"
    using Cons bit_at_decode_value [of n bs 0] by simp
  also have "\<dots> \<longleftrightarrow> bit_at bs i \<or> i < n \<and> k \<le> i div 5 \<and> i div 5 < k + length (v # vs) \<and>
      bit ((v # vs) ! (i div 5 - k)) (4 - i mod 5)"
  proof (cases "k < i div 5")
    case True
    then obtain m where "i div 5 = Suc (k + m)" by (metis less_iff_Suc_add)
    then show ?thesis by simp
  qed auto
  finally show ?case .
qed

section \<open>Round trips\<close>

lemma digit_div_mod: "r < m \<Longrightarrow> (m * k + r) div m = k \<and> (m * k + r) mod m = r" for m :: nat
  by simp

lemma bytes_eqI:
  assumes "length a = length b" "\<And>i. i < 8 * length a \<Longrightarrow> bit_at a i = bit_at b i"
  shows "a = b"
proof (rule nth_equalityI [OF assms(1)])
  fix k assume k: "k < length a"
  have "bit (a ! k) q = bit (b ! k) q" for q
  proof (cases "q < 8")
    case True
    then have "8 * k + (7 - q) < 8 * length a" using k by simp
    moreover have "(8 * k + (7 - q)) div 8 = k" "7 - (8 * k + (7 - q)) mod 8 = q"
      using digit_div_mod [of "7 - q" 8 k] True by simp_all
    ultimately show ?thesis using assms(2) [of "8 * k + (7 - q)"] by (simp only: bit_at_def)
  qed (auto dest: bit_imp_possible_bit)
  then show "a ! k = b ! k" by (simp add: bit_eq_iff)
qed

lemma div_ceil_mult:
  assumes "0 < b"
  shows "a \<le> b * div_ceil a b"
proof -
  have "b * ((a + b - 1) div b) + (a + b - 1) mod b = a + b - 1" by (rule mult_div_mod_eq)
  moreover have "(a + b - 1) mod b < b" using assms by simp
  ultimately show ?thesis using assms unfolding div_ceil_def by linarith
qed

lemma decode_bits_Inr:
  "decode_bits s n = Inr out \<longleftrightarrow>
     (\<exists>vs. length vs = div_ceil n 5 \<and> (\<forall>v \<in> set vs. unat v < 32) \<and> reads s = spelled vs \<and>
        length out = div_ceil n 8 \<and>
        (\<forall>i < 8 * div_ceil n 8. bit_at out i \<longleftrightarrow> i < n \<and> bit (vs ! (i div 5)) (4 - i mod 5)))"
  (is "_ \<longleftrightarrow> (\<exists>vs. ?P vs)")
proof -
  let ?zero = "replicate (div_ceil n 8) 0 :: bytes"
  have out: "out = decode_all n 0 vs ?zero \<longleftrightarrow> length out = div_ceil n 8 \<and>
      (\<forall>i < 8 * div_ceil n 8. bit_at out i \<longleftrightarrow> i < n \<and> bit (vs ! (i div 5)) (4 - i mod 5))"
    if "length vs = div_ceil n 5" for vs
  proof -
    have b: "bit_at (decode_all n 0 vs ?zero) i \<longleftrightarrow> i < n \<and> bit (vs ! (i div 5)) (4 - i mod 5)"
      if "i < 8 * div_ceil n 8" for i
    proof -
      have "i div 5 < length vs" if "i < n"
        using that div_ceil_mult [of 5 n] \<open>length vs = div_ceil n 5\<close> by (simp add: div_less_iff_less_mult mult.commute)
      moreover have "\<not> bit_at ?zero i" using that by (simp add: bit_at_def)
      ultimately show ?thesis
        using bit_at_decode_all [of n ?zero 0 vs i] div_ceil_mult [of 8 n] by auto
    qed
    then show ?thesis by (auto intro: bytes_eqI)
  qed
  have "decode_bits s n = Inr out \<longleftrightarrow> (\<exists>vs. typed_values s = Inr vs \<and> length vs = div_ceil n 5 \<and>
      out = decode_all n 0 vs ?zero)"
    by (auto simp: decode_bits_def split: if_splits)
  also have "\<dots> \<longleftrightarrow> (\<exists>vs. ?P vs)"
    using out by (auto simp: typed_values_iff)
  finally show ?thesis .
qed

text \<open>Any text that reads as the encoding decodes to the bytes, and what decodes reads as the
  encoding of its result, up to the padding bits of the last character.\<close>

lemma decode_encode_bits:
  assumes n: "n \<le> 8 * length bs" "length bs = div_ceil n 8"
    and pad: "\<And>i. n \<le> i \<Longrightarrow> i < 8 * length bs \<Longrightarrow> \<not> bit_at bs i"
    and enc: "encode_bits bs n = Ret (reads s)"
  shows "decode_bits s n = Inr bs"
proof -
  obtain vs where vs: "length vs = div_ceil n 5" "\<forall>k < length vs. is_quintet bs n k (vs ! k)"
    "encode_bits bs n = Ret (spelled vs)"
    using encode_bits_quintets [OF n(1)] by blast
  have "\<forall>v \<in> set vs. unat v < 32" using vs(2) is_quintet_less by (metis in_set_conv_nth)
  moreover have "bit_at bs i \<longleftrightarrow> i < n \<and> bit (vs ! (i div 5)) (4 - i mod 5)" if i: "i < 8 * div_ceil n 8" for i
  proof (cases "i < n")
    case True
    then have "i div 5 < length vs"
      using div_ceil_mult [of 5 n] vs(1) by (simp add: div_less_iff_less_mult mult.commute)
    moreover have "5 * (i div 5) + (4 - (4 - i mod 5)) = i" "4 - i mod 5 < 5" by presburger+
    ultimately show ?thesis using vs(2) True by (simp add: is_quintet_def)
  qed (use pad i n(2) in auto)
  ultimately show ?thesis
    unfolding decode_bits_Inr using vs(1,3) n(2) enc by (intro exI [of _ vs]) simp
qed

lemma encode_decode_bits:
  assumes "decode_bits s n = Inr bs"
  shows "\<exists>t. encode_bits bs n = Ret t \<and> length t = length (reads s) \<and>
    take (n div 5) t = take (n div 5) (reads s)"
proof -
  obtain vs where vs: "length vs = div_ceil n 5" "\<forall>v \<in> set vs. unat v < 32" "reads s = spelled vs"
    "length bs = div_ceil n 8"
    "\<And>i. i < 8 * div_ceil n 8 \<Longrightarrow> bit_at bs i \<longleftrightarrow> i < n \<and> bit (vs ! (i div 5)) (4 - i mod 5)"
    using assms unfolding decode_bits_Inr by blast
  have n: "n \<le> 8 * length bs" using div_ceil_mult [of 8 n] vs(4) by simp
  obtain ws where ws: "length ws = div_ceil n 5" "\<forall>k < length ws. is_quintet bs n k (ws ! k)"
    "encode_bits bs n = Ret (spelled ws)"
    using encode_bits_quintets [OF n] by blast
  have "ws ! k = vs ! k" if k: "k < n div 5" "k < length vs" for k
  proof (rule is_quintet_unique)
    show "is_quintet bs n k (ws ! k)" using ws(1,2) vs(1) k(2) by simp
    show "is_quintet bs n k (vs ! k)"
      unfolding is_quintet_def
    proof
      fix b
      have small: "bit (vs ! k) b \<Longrightarrow> b < 5"
      proof -
        have "unat (vs ! k) < 2 ^ 5" using vs(2) k(2) by (simp add: nth_mem)
        then have "take_bit 5 (vs ! k) = vs ! k"
          by (metis take_bit_nat_eq_self unsigned_take_bit_eq word_unat_eq_iff)
        then show "bit (vs ! k) b \<Longrightarrow> b < 5" by (metis bit_take_bit_iff)
      qed
      have "5 * k + 5 \<le> n" using k(1) by presburger
      then show "bit (vs ! k) b \<longleftrightarrow> b < 5 \<and> 5 * k + (4 - b) < n \<and> bit_at bs (5 * k + (4 - b))"
      proof (cases "b < 5")
        case True
        then have "(5 * k + (4 - b)) div 5 = k" "4 - (5 * k + (4 - b)) mod 5 = b"
          using digit_div_mod [of "4 - b" 5 k] by simp_all
        moreover have "5 * k + (4 - b) < n" "5 * k + (4 - b) < 8 * div_ceil n 8"
          using \<open>5 * k + 5 \<le> n\<close> n vs(4) by auto
        ultimately show ?thesis using vs(5) [of "5 * k + (4 - b)"] True by simp
      qed (use small in blast)
    qed
  qed
  moreover have "n div 5 \<le> div_ceil n 5" by (simp add: div_ceil_def div_le_mono)
  ultimately have "take (n div 5) ws = take (n div 5) vs"
    using ws(1) vs(1) by (intro nth_take_lemma) auto
  then show ?thesis using ws vs(1,3) by (intro exI [of _ "spelled ws"]) (simp add: take_map)
qed

lemma reads_append [simp]: "reads (a @ b) = reads a @ reads b"
  by (simp add: reads_def)

lemma reads_group [simp]: "reads (group s) = reads s"
proof -
  have "reads (concat (map (\<lambda>(i, ch). (if P i then [of_char (CHR ''-'')] else []) @ [ch]) (enumerate k s)))
      = reads s" for k and P :: "nat \<Rightarrow> bool"
    by (induction s arbitrary: k) (simp_all add: reads_def separator_def)
  then show ?thesis by (simp add: group_def)
qed

section \<open>Hexadecimal facts\<close>

definition is_ascii :: "rstr \<Rightarrow> bool" where
  "is_ascii s \<longleftrightarrow> (\<forall>c \<in> set s. c < 128)"

lemma is_ascii_simps [simp]:
  "is_ascii []" "is_ascii (c # s) \<longleftrightarrow> c < 128 \<and> is_ascii s" "is_ascii (s @ t) \<longleftrightarrow> is_ascii s \<and> is_ascii t"
  by (auto simp: is_ascii_def)

lemma ascii_len: "is_ascii s \<Longrightarrow> str_len s = length s"
  by (induction s) (auto simp: str_len_def utf8_width_def)

lemma ascii_suffix: "is_ascii s \<Longrightarrow> n \<le> length s \<Longrightarrow> str_suffix n s = Some (drop n s)"
  by (induction n s rule: str_suffix.induct) (auto simp: utf8_width_def drop_Cons')

lemma ascii_prefix: "is_ascii s \<Longrightarrow> n \<le> length s \<Longrightarrow> str_prefix n s = Some (take n s)"
  by (induction n s rule: str_prefix.induct) (auto simp: utf8_width_def take_Cons')

lemma is_ascii_drop: "is_ascii s \<Longrightarrow> is_ascii (drop n s)"
  by (auto simp: is_ascii_def dest: in_set_dropD)

lemma ascii_slice:
  assumes "is_ascii s" "a \<le> b" "b \<le> length s"
  shows "str_slice a b s = Ret (slice a b s)"
  using assms ascii_suffix [of s a] ascii_prefix [of "drop a s" "b - a"] is_ascii_drop [of s a]
  by (simp add: str_slice_def slice_def)

lemma trim_ascii: "is_ascii s \<Longrightarrow> is_ascii (trim s)"
  by (auto simp: is_ascii_def trim_def dest!: set_dropWhileD)

lemma hex_loop_ascii:
  "is_ascii s \<Longrightarrow> \<forall>i \<in> set is. i * 2 + 2 \<le> length s \<Longrightarrow> \<exists>r. hex_decode_loop s is = Ret r"
  by (induction "is") (auto simp: ascii_slice split: option.splits)

lemma hex_decode_ascii: "is_ascii s \<Longrightarrow> \<exists>r. hex_decode s = Ret r"
  using hex_loop_ascii [OF trim_ascii, of s "[0..<length (trim s) div 2]"]
  by (auto simp: hex_decode_def Let_def ascii_len [OF trim_ascii])

lemma hex_digit_value: "n < 16 \<Longrightarrow> hex_value (hex_digit n) = Some n \<and> hex_digit n \<noteq> 43 \<and>
    hex_digit n < 128 \<and> \<not> is_whitespace (hex_digit n)"
  by (auto simp: hex_value_def hex_digit_def is_whitespace_def)

lemma hex_byte: "from_str_radix16 [hex_digit (unat b div 16), hex_digit (unat b mod 16)] = Some b"
proof -
  have "unat b div 16 < 16" "unat b mod 16 < 16" using unat_bound8 [of b] by auto
  then show ?thesis using hex_digit_value by simp
qed

lemma length_hex_encode [simp]: "length (hex_encode bs) = 2 * length bs"
  by (induction bs) (simp_all add: hex_encode_def)

lemma hex_digits_ok:
  "c \<in> set (hex_encode bs) \<Longrightarrow> c < 128 \<and> \<not> is_whitespace c"
proof (induction bs)
  case (Cons b bs)
  have "unat b div 16 < 16" "unat b mod 16 < 16" using unat_bound8 [of b] by auto
  then show ?case
    using Cons hex_digit_value [of "unat b div 16"] hex_digit_value [of "unat b mod 16"]
    by (auto simp: hex_encode_def)
qed (simp add: hex_encode_def)

lemma hex_encode_slice:
  assumes "i < length bs"
  shows "slice (i * 2) (i * 2 + 2) (hex_encode bs)
    = [hex_digit (unat (bs ! i) div 16), hex_digit (unat (bs ! i) mod 16)]"
proof -
  have split: "hex_encode bs = hex_encode (take i bs) @ hex_encode [bs ! i] @ hex_encode (drop (Suc i) bs)"
    by (subst id_take_nth_drop [OF assms], simp only: hex_encode_def map_append concat_append) simp
  have "length (hex_encode (take i bs)) = i * 2" using assms by simp
  then show ?thesis unfolding split by (simp add: slice_def hex_encode_def)
qed

lemma hex_decode_encode: "hex_decode (hex_encode bs) = Ret (Some bs)"
proof -
  have a: "is_ascii (hex_encode bs)" using hex_digits_ok by (auto simp: is_ascii_def)
  have "trim (hex_encode bs) = hex_encode bs"
    using hex_digits_ok by (intro trim_id) (metis hd_in_set last_in_set)
  moreover have "hex_decode_loop (hex_encode bs) [i..<length bs] = Ret (Some (drop i bs))"
    if "i \<le> length bs" for i
    using that
  proof (induction "length bs - i" arbitrary: i)
    case 0
    then show ?case by simp
  next
    case (Suc d)
    then have i: "i < length bs" by simp
    have "hex_decode_loop (hex_encode bs) [Suc i..<length bs] = Ret (Some (drop (Suc i) bs))"
      by (rule Suc.hyps(1)) (use Suc.hyps(2) i in auto)
    then show ?case
      using i a by (simp add: upt_conv_Cons ascii_slice hex_encode_slice [OF i, simplified] hex_byte
        Cons_nth_drop_Suc del: from_str_radix16.simps)
  qed
  ultimately show ?thesis by (simp add: hex_decode_def Let_def ascii_len [OF a] flip: drop_0)
qed

end
