(* ===== verification/KeyPair.thy ===== *)
theory KeyPair
  imports KeyText LinkTypes
begin

text \<open>
  The typed and pasted forms of key material: \<open>keys/pair_key.rs\<close> (28 characters: 128 key bits and
  a 12-bit checksum), \<open>keys/host_key.rs\<close> (\<open>HK1-\<close> and 85 characters: version, two node ids, pair
  key, port and a 16-bit checksum), and the hexadecimal form of a node id (\<open>keys/types.rs\<close>).
  SHA-256 is the \<open>sha256\<close> of the parameter \<open>crypto\<close>.
\<close>

section \<open>Pair keys\<close>

definition ENCODED_CHARS :: nat where "ENCODED_CHARS = 28"
definition PAIR_PAYLOAD_BITS :: nat where "PAIR_PAYLOAD_BITS = 140"

datatype pair_key_error = Pair_length nat | Pair_character rchar | Pair_checksum

fun pair_error_from :: "crockford_error \<Rightarrow> pair_key_error" where
  "pair_error_from (Crockford_length got) = Pair_length got"
| "pair_error_from (Crockford_character ch) = Pair_character ch"

definition pair_checksum_of :: "crypto \<Rightarrow> bytes \<Rightarrow> u16" where
  "pair_checksum_of c key =
     (let digest = sha256 c key
      in push_bit 4 (ucast (digest ! 0)) OR ucast (drop_bit 4 (digest ! 1)))"

definition pair_payload :: "crypto \<Rightarrow> pair_key \<Rightarrow> bytes" where
  "pair_payload c key =
     (let checksum = pair_checksum_of c (key_bytes key)
      in key_bytes key @ [ucast (drop_bit 4 checksum), ucast (push_bit 4 (checksum AND 15))])"

definition pair_encode_compact :: "crypto \<Rightarrow> pair_key \<Rightarrow> rstr outcome" where
  "pair_encode_compact c key = encode_bits (pair_payload c key) PAIR_PAYLOAD_BITS"

definition pair_encode :: "crypto \<Rightarrow> pair_key \<Rightarrow> rstr outcome" where
  "pair_encode c key = bind_outcome (pair_encode_compact c key) (\<lambda>t. Ret (group t))"

definition pair_decode :: "crypto \<Rightarrow> rstr \<Rightarrow> pair_key_error + pair_key" where
  "pair_decode c text =
     (case decode_bits text PAIR_PAYLOAD_BITS of
        Inl e \<Rightarrow> Inl (pair_error_from e)
      | Inr payload \<Rightarrow>
          (let key = take 16 payload;
               found = push_bit 4 (ucast (payload ! 16)) OR ucast (drop_bit 4 (payload ! 17))
           in if found \<noteq> pair_checksum_of c key then Inl Pair_checksum else Inr (PairKey key)))"

section \<open>Host keys\<close>

definition PREFIX :: rstr where "PREFIX = lit ''HK1''"
definition HOST_VERSION :: u8 where "HOST_VERSION = 1"
definition BODY_LEN :: nat where "BODY_LEN = 1 + 16 + 16 + 16 + 2"
definition RAW_LEN :: nat where "RAW_LEN = BODY_LEN + 2"
definition HOST_PAYLOAD_BITS :: nat where "HOST_PAYLOAD_BITS = RAW_LEN * 8"

datatype host_key_error =
    Host_prefix | Host_length nat | Host_character rchar | Host_checksum | Host_version u8

fun host_error_from :: "crockford_error \<Rightarrow> host_key_error" where
  "host_error_from (Crockford_length got) = Host_length got"
| "host_error_from (Crockford_character ch) = Host_character ch"

record host_key =
  hk_client :: node_id
  hk_host :: node_id
  hk_pair_key :: pair_key
  hk_port :: u16

definition host_checksum_of :: "crypto \<Rightarrow> bytes \<Rightarrow> bytes" where
  "host_checksum_of c body = (let digest = sha256 c body in [digest ! 0, digest ! 1])"

definition eq_ignore_ascii_case :: "rstr \<Rightarrow> rstr \<Rightarrow> bool" where
  "eq_ignore_ascii_case a b \<longleftrightarrow> map to_ascii_uppercase a = map to_ascii_uppercase b"

definition looks_like :: "rstr \<Rightarrow> bool" where
  "looks_like text =
     (let trimmed = trim text
      in str_len trimmed > length PREFIX + 1 \<and>
         (case str_prefix (length PREFIX + 1) trimmed of
            None \<Rightarrow> False
          | Some head \<Rightarrow> eq_ignore_ascii_case head (PREFIX @ lit ''-'')))"

definition host_raw :: "crypto \<Rightarrow> host_key \<Rightarrow> bytes" where
  "host_raw c k =
     (let body = [HOST_VERSION] @ id_bytes (hk_client k) @ id_bytes (hk_host k)
                   @ key_bytes (hk_pair_key k) @ u16_be (hk_port k)
      in body @ host_checksum_of c body)"

definition host_encode_compact :: "crypto \<Rightarrow> host_key \<Rightarrow> rstr outcome" where
  "host_encode_compact c k = encode_bits (host_raw c k) HOST_PAYLOAD_BITS"

definition host_encode :: "crypto \<Rightarrow> host_key \<Rightarrow> rstr outcome" where
  "host_encode c k = bind_outcome (host_encode_compact c k) (\<lambda>t. Ret (PREFIX @ lit ''-'' @ group t))"

definition host_decode :: "crypto \<Rightarrow> rstr \<Rightarrow> (host_key_error + host_key) outcome" where
  "host_decode c text =
     (let trimmed = trim text
      in if \<not> looks_like trimmed then Ret (Inl Host_prefix)
         else
           (case str_suffix (length PREFIX + 1) trimmed of
              None \<Rightarrow> Panic
            | Some payload \<Rightarrow>
                (case decode_bits payload HOST_PAYLOAD_BITS of
                   Inl e \<Rightarrow> Ret (Inl (host_error_from e))
                 | Inr raw \<Rightarrow>
                     if host_checksum_of c (take BODY_LEN raw) \<noteq> slice BODY_LEN RAW_LEN raw
                     then Ret (Inl Host_checksum)
                     else if raw ! 0 \<noteq> HOST_VERSION then Ret (Inl (Host_version (raw ! 0)))
                     else Ret (Inr \<lparr>hk_client = NodeId (slice 1 17 raw), hk_host = NodeId (slice 17 33 raw),
                                   hk_pair_key = PairKey (slice 33 49 raw), hk_port = be_u16 (slice 49 51 raw)\<rparr>))))"

section \<open>Node ids as text\<close>

definition node_display :: "node_id \<Rightarrow> rstr" where
  "node_display n = hex_encode (id_bytes n)"

definition node_from_hex :: "rstr \<Rightarrow> node_id option outcome" where
  "node_from_hex text =
     bind_outcome (hex_decode text) (\<lambda>r. case r of
         None \<Rightarrow> Ret None
       | Some bs \<Rightarrow> Ret (if length bs = 16 then Some (NodeId bs) else None))"

section \<open>Transcribing a pair key\<close>

declare push_bit_and [simp del]

lemma bit_fifteen: "bit (s AND 15 :: u16) q \<longleftrightarrow> bit s q \<and> q < 4"
proof -
  have "s AND 15 = take_bit 4 s" by (simp add: take_bit_eq_mask mask_eq_exp_minus_1)
  then show ?thesis by (auto simp: bit_take_bit_iff)
qed

lemma checksum_bits:
  fixes a b :: u8
  shows "bit (push_bit 4 (ucast a) OR ucast (drop_bit 4 b) :: u16) q \<longleftrightarrow>
    (4 \<le> q \<and> bit a (q - 4)) \<or> bit b (4 + q)"
  using bit_imp_le_length [of a "q - 4"] bit_imp_le_length [of b "4 + q"]
  by (auto simp: bit_simps)

lemma checksum_nibbles:
  fixes a b :: u8 and s :: u16
  assumes b: "\<And>q. q < 4 \<Longrightarrow> \<not> bit b q"
  shows "push_bit 4 (ucast a) OR ucast (drop_bit 4 b) = s \<longleftrightarrow>
    a = ucast (drop_bit 4 s) \<and> b = ucast (push_bit 4 (s AND 15)) \<and> (\<forall>q \<ge> 12. \<not> bit s q)"
    (is "?l = s \<longleftrightarrow> ?r")
proof
  assume "?l = s"
  then have s: "bit s q \<longleftrightarrow> (4 \<le> q \<and> bit a (q - 4)) \<or> bit b (4 + q)" for q
    using checksum_bits by metis
  have high: "\<not> bit b (4 + q)" if "4 \<le> q" for q using that bit_imp_le_length [of b "4 + q"] by auto
  have "\<not> bit b (8 + q)" for q using high [of "4 + q"] by simp
  have "a = ucast (drop_bit 4 s)"
    by (rule bit_word_eqI) (simp add: bit_simps s \<open>\<And>q. \<not> bit b (8 + q)\<close>)
  moreover have "b = ucast (push_bit 4 (s AND 15))"
  proof (rule bit_word_eqI)
    fix q assume "q < LENGTH(8)"
    then show "bit b q \<longleftrightarrow> bit (ucast (push_bit 4 (s AND 15)) :: u8) q"
      using b [of q] by (cases "q < 4") (auto simp: bit_ucast_iff bit_push_bit_iff bit_fifteen s)
  qed
  moreover have "\<forall>q \<ge> 12. \<not> bit s q"
    using high bit_imp_le_length [of a] by (fastforce simp: s)
  ultimately show ?r by blast
next
  assume r: ?r
  show "?l = s"
  proof (rule bit_word_eqI)
    fix q assume "q < LENGTH(16)"
    then show "bit ?l q \<longleftrightarrow> bit s q"
      unfolding checksum_bits using r
      by (cases "q < 4"; cases "q < 12")
        (auto simp: bit_ucast_iff bit_push_bit_iff bit_drop_bit_eq bit_fifteen)
  qed
qed

lemma pair_checksum_bits: "12 \<le> q \<Longrightarrow> \<not> bit (pair_checksum_of c key) q"
  using bit_imp_le_length [of "sha256 c key ! 0" "q - 4"] bit_imp_le_length [of "sha256 c key ! 1" "4 + q"]
  by (auto simp: pair_checksum_of_def Let_def checksum_bits)

lemma list_last_two: "length xs = n + 2 \<Longrightarrow> xs = take n xs @ [xs ! n, xs ! (n + 1)]"
  using take_Suc_conv_app_nth [of "Suc n" xs] take_Suc_conv_app_nth [of n xs] by simp

lemma pair_payload_facts:
  assumes "wf_key k"
  shows "length (pair_payload c k) = 18" "take 16 (pair_payload c k) = key_bytes k"
    "pair_payload c k ! 16 = ucast (drop_bit 4 (pair_checksum_of c (key_bytes k)))"
    "pair_payload c k ! 17 = ucast (push_bit 4 (pair_checksum_of c (key_bytes k) AND 15))"
  using assms by (simp_all add: wf_key_def pair_payload_def Let_def nth_append)

text \<open>A typed text decodes to a key exactly when it reads as the key's encoding.\<close>

lemma pair_decode_iff:
  assumes "wf_key k"
  shows "pair_decode c s = Inr k \<longleftrightarrow> pair_encode_compact c k = Ret (reads s)"
proof
  let ?n = PAIR_PAYLOAD_BITS
  note f = pair_payload_facts [OF assms, of c]
  {
    assume enc: "pair_encode_compact c k = Ret (reads s)"
    have pad: "\<not> bit_at (pair_payload c k) i" if "?n \<le> i" "i < 8 * length (pair_payload c k)" for i
    proof -
      have i: "i = 140 \<or> i = 141 \<or> i = 142 \<or> i = 143" using that f(1) by (auto simp: PAIR_PAYLOAD_BITS_def)
      then have "i div 8 = 17" "7 - i mod 8 < 4" by auto
      then show ?thesis by (simp add: bit_at_def f(4) bit_ucast_iff bit_push_bit_iff)
    qed
    have "decode_bits s ?n = Inr (pair_payload c k)"
      using pad enc by (intro decode_encode_bits)
        (auto simp: f(1) PAIR_PAYLOAD_BITS_def div_ceil_def pair_encode_compact_def)
    moreover have "push_bit 4 (ucast (pair_payload c k ! 16)) OR ucast (drop_bit 4 (pair_payload c k ! 17))
        = pair_checksum_of c (key_bytes k)"
      unfolding f(3,4)
      by (subst checksum_nibbles) (auto simp: bit_ucast_iff bit_push_bit_iff pair_checksum_bits)
    ultimately show "pair_decode c s = Inr k" by (simp add: pair_decode_def f(2))
  next
    assume dec: "pair_decode c s = Inr k"
    then obtain p where p: "decode_bits s ?n = Inr p" and k: "key_bytes k = take 16 p"
      and sum: "push_bit 4 (ucast (p ! 16)) OR ucast (drop_bit 4 (p ! 17)) = pair_checksum_of c (take 16 p)"
      by (auto simp: pair_decode_def Let_def split: sum.splits if_splits)
    have len: "length p = 18" and bits: "\<And>i. i < 144 \<Longrightarrow> 140 \<le> i \<Longrightarrow> \<not> bit_at p i"
      using p unfolding decode_bits_Inr by (auto simp: PAIR_PAYLOAD_BITS_def div_ceil_def)
    have low: "\<not> bit (p ! 17) q" if "q < 4" for q
    proof -
      have "\<not> bit_at p (8 * 17 + (7 - q))" using that by (intro bits) auto
      moreover have "(8 * 17 + (7 - q)) div 8 = 17" "7 - (8 * 17 + (7 - q)) mod 8 = q"
        using digit_div_mod [of "7 - q" 8 17] that by simp_all
      ultimately show ?thesis by (simp only: bit_at_def not_False_eq_True)
    qed
    have "p ! 16 = pair_payload c k ! 16" "p ! 17 = pair_payload c k ! 17"
      using checksum_nibbles [OF low] sum k f(3,4) by simp_all
    then have "p = pair_payload c k"
      using list_last_two [of p 16] list_last_two [of "pair_payload c k" 16] len f(1,2) k by simp
    moreover obtain t where "encode_bits p ?n = Ret t" "length t = length (reads s)"
      "take (?n div 5) t = take (?n div 5) (reads s)"
      using encode_decode_bits [OF p] by blast
    moreover have "length (reads s) = 28"
      using p unfolding decode_bits_Inr by (auto simp: PAIR_PAYLOAD_BITS_def div_ceil_def)
    ultimately show "pair_encode_compact c k = Ret (reads s)"
      by (simp add: pair_encode_compact_def PAIR_PAYLOAD_BITS_def)
  }
qed

lemma encode_bits_Ret: "n \<le> 8 * length bs \<Longrightarrow> \<exists>t. encode_bits bs n = Ret t \<and> reads t = t \<and>
    (\<forall>c \<in> set t. \<not> separator c) \<and> length t = div_ceil n 5"
proof -
  assume "n \<le> 8 * length bs"
  then obtain vs where vs: "length vs = div_ceil n 5" "\<forall>k < length vs. is_quintet bs n k (vs ! k)"
    "encode_bits bs n = Ret (spelled vs)"
    using encode_bits_quintets by blast
  then have "\<forall>v \<in> set vs. unat v < 32" using is_quintet_less by (metis in_set_conv_nth)
  then show ?thesis using vs ALPHABET_plain by (intro exI [of _ "spelled vs"]) auto
qed

lemma pair_encode_Ret:
  assumes "wf_key k"
  shows "\<exists>t. pair_encode_compact c k = Ret t \<and> reads t = t \<and> length t = ENCODED_CHARS \<and>
    pair_encode c k = Ret (group t)"
  using encode_bits_Ret [of PAIR_PAYLOAD_BITS "pair_payload c k"] pair_payload_facts(1) [OF assms, of c]
  by (auto simp: pair_encode_def pair_encode_compact_def PAIR_PAYLOAD_BITS_def ENCODED_CHARS_def div_ceil_def)

lemma pair_decode_wf: "pair_decode c s = Inr k \<Longrightarrow> wf_key k"
  by (auto simp: pair_decode_def Let_def wf_key_def decode_bits_Inr PAIR_PAYLOAD_BITS_def div_ceil_def
      split: sum.splits if_splits)

section \<open>Pasting a host key\<close>

definition wf_host_key :: "host_key \<Rightarrow> bool" where
  "wf_host_key k \<longleftrightarrow> wf_id (hk_client k) \<and> wf_id (hk_host k) \<and> wf_key (hk_pair_key k)"

lemma length_PREFIX [simp]: "length PREFIX = 3"
  by (simp add: PREFIX_def lit_def)

lemma str_prefix_suffix: "str_prefix n s = Some p \<Longrightarrow> \<exists>r. str_suffix n s = Some r \<and> s = p @ r"
  by (induction n s arbitrary: p rule: str_prefix.induct) (auto split: if_splits)

lemma trim_trim: "trim (trim s) = trim s"
proof (rule trim_id)
  let ?d = "dropWhile is_whitespace s"
  show "trim s = [] \<or> \<not> is_whitespace (hd (trim s)) \<and> \<not> is_whitespace (last (trim s))"
  proof (cases "trim s = []")
    case False
    have "rev (trim s) = dropWhile is_whitespace (rev ?d)" by (simp add: trim_def)
    then have "\<not> is_whitespace (last (trim s))" using False
      by (metis hd_dropWhile hd_rev rev_is_Nil_conv)
    moreover obtain ys where d: "?d = trim s @ ys" unfolding trim_def
      by (metis rev_append rev_rev_ident takeWhile_dropWhile_id)
    have "hd (trim s) = hd ?d" "?d \<noteq> []" unfolding d using False by simp_all
    then have "\<not> is_whitespace (hd (trim s))" by (metis hd_dropWhile)
    ultimately show ?thesis by blast
  qed simp
qed

text \<open>Decoding never panics: a text that looks like a host key has a character boundary after
  its prefix.\<close>

lemma host_decode_cases:
  "host_decode c text = Ret (Inl Host_prefix) \<and> \<not> looks_like text \<or>
   (\<exists>head payload. looks_like text \<and> trim text = head @ payload \<and>
      str_suffix 4 (trim text) = Some payload)"
proof (cases "looks_like text")
  case True
  then obtain head where "str_prefix 4 (trim text) = Some head"
    by (auto simp: looks_like_def Let_def split: option.splits)
  from str_prefix_suffix [OF this] True show ?thesis by blast
qed (simp add: host_decode_def looks_like_def trim_trim)

lemma looks_like_trim [simp]: "looks_like (trim s) = looks_like s"
  by (simp add: looks_like_def trim_trim)

lemma host_decode_total: "\<exists>r. host_decode c text = Ret r"
  using host_decode_cases [of c "text"]
  by (auto simp: host_decode_def Let_def split: sum.splits)

lemma host_raw_facts:
  assumes "wf_host_key k"
  shows "length (host_raw c k) = 53"
    "host_checksum_of c (take BODY_LEN (host_raw c k)) = slice BODY_LEN RAW_LEN (host_raw c k)"
    "host_raw c k ! 0 = HOST_VERSION" "slice 1 17 (host_raw c k) = id_bytes (hk_client k)"
    "slice 17 33 (host_raw c k) = id_bytes (hk_host k)"
    "slice 33 49 (host_raw c k) = key_bytes (hk_pair_key k)"
    "slice 49 51 (host_raw c k) = u16_be (hk_port k)"
  using assms
  by (simp_all add: wf_host_key_def wf_id_def wf_key_def host_raw_def Let_def host_checksum_of_def
      BODY_LEN_def RAW_LEN_def slice_def)

lemma host_decode_reads:
  assumes k: "wf_host_key k" and t: "looks_like s" "str_suffix 4 (trim s) = Some payload"
    and enc: "host_encode_compact c k = Ret (reads payload)"
  shows "host_decode c s = Ret (Inr k)"
proof -
  note f = host_raw_facts [OF k, of c]
  have "decode_bits payload HOST_PAYLOAD_BITS = Inr (host_raw c k)"
    using enc by (intro decode_encode_bits)
      (auto simp: f(1) HOST_PAYLOAD_BITS_def RAW_LEN_def BODY_LEN_def div_ceil_def host_encode_compact_def)
  then show ?thesis using t by (simp add: host_decode_def Let_def f del: One_nat_def)
qed

lemma host_decode_encode:
  assumes "wf_host_key k"
  shows "\<exists>t. host_encode c k = Ret t \<and> looks_like t \<and> host_decode c t = Ret (Inr k)"
proof -
  obtain t where t: "host_encode_compact c k = Ret t" "reads t = t" "\<forall>c \<in> set t. \<not> separator c" "length t = 85"
    using encode_bits_Ret [of HOST_PAYLOAD_BITS "host_raw c k"] host_raw_facts(1) [OF assms, of c]
    by (auto simp: host_encode_compact_def HOST_PAYLOAD_BITS_def RAW_LEN_def BODY_LEN_def div_ceil_def)
  let ?head = "PREFIX @ lit ''-''"
  have head: "?head = [72, 75, 49, 45]" by (simp add: PREFIX_def lit_def)
  have last: "last (group t) = last t" "group t \<noteq> []"
  proof -
    obtain u x where "t = u @ [x]" using t(4) by (cases t rule: rev_cases) auto
    then show "last (group t) = last t" "group t \<noteq> []"
      by (simp_all add: group_def enumerate_append_eq)
  qed
  have trim: "trim (?head @ group t) = ?head @ group t"
  proof (rule trim_id, rule disjI2, rule conjI)
    show "\<not> is_whitespace (hd (?head @ group t))" by (simp add: head is_whitespace_def)
    have "\<not> separator (last t)" using t(3,4) by (cases t rule: rev_cases) auto
    then show "\<not> is_whitespace (last (?head @ group t))" using last by (simp add: separator_def)
  qed
  have suffix: "str_suffix 4 (?head @ group t) = Some (group t)"
    by (simp add: head utf8_width_def str_suffix.simps split: list.split) (cases "group t"; simp)
  have pre: "str_prefix 4 (?head @ group t) = Some ?head"
    by (simp add: head utf8_width_def str_prefix.simps) (cases "group t"; simp)
  have "str_len (?head @ group t) > 4"
    using last(2) by (cases "group t") (simp_all add: head str_len_def utf8_width_def)
  then have looks: "looks_like (?head @ group t)"
    unfolding looks_like_def Let_def trim using pre by (simp add: eq_ignore_ascii_case_def)
  then have "host_decode c (?head @ group t) = Ret (Inr k)"
    using suffix t by (intro host_decode_reads [OF assms, where payload = "group t"]) (simp_all only: trim reads_group)
  then show ?thesis using looks t(1) by (simp add: host_encode_def)
qed

lemma host_decode_canonical:
  assumes "host_decode c s = Ret (Inr k)"
  shows "wf_host_key k \<and> looks_like s \<and> (\<exists>payload t. str_suffix 4 (trim s) = Some payload \<and>
    host_encode_compact c k = Ret t \<and> length t = length (reads payload) \<and> take 84 t = take 84 (reads payload))"
proof -
  have looks: "looks_like s" using assms by (auto simp: host_decode_def Let_def split: if_splits)
  obtain payload raw where p: "str_suffix 4 (trim s) = Some payload"
    "decode_bits payload HOST_PAYLOAD_BITS = Inr raw"
    "host_checksum_of c (take BODY_LEN raw) = slice BODY_LEN RAW_LEN raw" "raw ! 0 = HOST_VERSION"
    and k: "k = \<lparr>hk_client = NodeId (slice 1 17 raw), hk_host = NodeId (slice 17 33 raw),
      hk_pair_key = PairKey (slice 33 49 raw), hk_port = be_u16 (slice 49 51 raw)\<rparr>"
    using assms by (auto simp: host_decode_def Let_def split: if_splits option.splits sum.splits)
  have len: "length raw = 53"
    using p(2) unfolding decode_bits_Inr
    by (auto simp: HOST_PAYLOAD_BITS_def RAW_LEN_def BODY_LEN_def div_ceil_def)
  have wf: "wf_host_key k" using len by (simp add: k wf_host_key_def wf_id_def wf_key_def)
  have "take 51 raw = slice 0 1 raw @ slice 1 17 raw @ slice 17 33 raw @ slice 33 49 raw @ slice 49 51 raw"
  proof -
    have "slice 0 51 raw = slice 0 1 raw @ slice 1 51 raw" by (rule slice_split) simp_all
    also have "slice 1 51 raw = slice 1 17 raw @ slice 17 51 raw" by (rule slice_split) simp_all
    also have "slice 17 51 raw = slice 17 33 raw @ slice 33 51 raw" by (rule slice_split) simp_all
    also have "slice 33 51 raw = slice 33 49 raw @ slice 49 51 raw" by (rule slice_split) simp_all
    finally show ?thesis by (simp add: slice_def)
  qed
  moreover have "slice 0 1 raw = [HOST_VERSION]" using p(4) len by (cases raw) (simp_all add: slice_def)
  ultimately have body: "take 51 raw = [HOST_VERSION] @ id_bytes (hk_client k) @ id_bytes (hk_host k)
      @ key_bytes (hk_pair_key k) @ u16_be (hk_port k)"
    using len by (simp add: k u16_be_be_u16)
  have "host_raw c k = take 51 raw @ host_checksum_of c (take 51 raw)"
    unfolding host_raw_def Let_def body [symmetric] ..
  also have "host_checksum_of c (take 51 raw) = drop 51 raw"
    using p(3) len by (simp add: BODY_LEN_def RAW_LEN_def slice_def)
  finally have "host_raw c k = raw" by simp
  with encode_decode_bits [OF p(2)] show ?thesis
    using wf looks p(1) by (auto simp: host_encode_compact_def HOST_PAYLOAD_BITS_def RAW_LEN_def BODY_LEN_def)
qed

section \<open>Node ids\<close>

lemma node_from_hex_display: "wf_id n \<Longrightarrow> node_from_hex (node_display n) = Ret (Some n)"
  by (cases n) (simp add: node_from_hex_def node_display_def hex_decode_encode wf_id_def)

lemma node_from_hex_ascii: "is_ascii s \<Longrightarrow> \<exists>r. node_from_hex s = Ret r"
proof -
  assume "is_ascii s"
  then obtain r where "hex_decode s = Ret r" using hex_decode_ascii by blast
  then show ?thesis by (cases r) (simp_all add: node_from_hex_def)
qed

lemma node_from_hex_wf: "node_from_hex s = Ret (Some n) \<Longrightarrow> wf_id n"
  by (auto simp: node_from_hex_def wf_id_def split: option.splits if_splits)

end
