(* ===== verification/KeyStore.thy ===== *)
theory KeyStore
  imports LinkTypes
begin

text \<open>
  The persisted identity of a node and its sequence reservation: \<open>NodeState\<close> and its peers
  (\<open>keys/types.rs\<close>), locking, reading and the atomic write (\<open>keys/store.rs\<close>), the reserved and
  the in-memory sequence sources (\<open>keys/seq.rs\<close>) and acquisition (\<open>keys/mod.rs\<close>).

  The file system is what these functions can observe of it: the contents under the name
  \<open>node.json\<close>, the temporary sibling, the lock, and the contents a power cut may leave under the
  name (a rename is durable only once the directory is synced; the data of the temporary are taken to
  be on disk once written, so its own \<open>sync_all\<close> changes nothing here).  Every system call consumes one
  entry of a list of faults: none, or the error it returns; a failed call has no effect.  A
  process killed inside a write is a run whose next call fails, followed by the end of the
  process.  \<open>serde_json\<close> is the parameter \<open>json\<close>, over an abstract type of file contents; the
  file system modelled is the Unix one (\<open>cfg(unix)\<close>).
\<close>

section \<open>The node state\<close>

record enrolled_peer =
  ep_node_id :: node_id
  ep_pair_key :: pair_key

record node_state =
  ns_version :: u32
  ns_node_id :: node_id
  ns_role :: role
  ns_pair_key :: pair_key
  ns_forwarder_key :: forwarder_key
  ns_forwarder_endpoint :: rstr
  ns_peer_node_id :: node_id
  ns_peers :: "enrolled_peer list"
  ns_seq_reservation :: u64

definition enrolled_peers :: "node_state \<Rightarrow> enrolled_peer list" where
  "enrolled_peers st =
     (if ns_peers st = [] \<and> ns_version st \<le> 1
      then [\<lparr>ep_node_id = ns_peer_node_id st, ep_pair_key = ns_pair_key st\<rparr>]
      else ns_peers st)"

text \<open>What the array types of the source fix.\<close>

definition wf_state :: "node_state \<Rightarrow> bool" where
  "wf_state st \<longleftrightarrow> wf_id (ns_node_id st) \<and> wf_key (ns_pair_key st) \<and> length (fkey_bytes (ns_forwarder_key st)) = 32 \<and>
     wf_id (ns_peer_node_id st) \<and> (\<forall>p \<in> set (ns_peers st). wf_id (ep_node_id p) \<and> wf_key (ep_pair_key p))"

section \<open>Files\<close>

record 'f json =
  to_json :: "node_state \<Rightarrow> io_error + 'f"
  push_newline :: "'f \<Rightarrow> 'f"
  from_json :: "'f \<Rightarrow> node_state option"

text \<open>The derived \<open>Serialize\<close> and \<open>Deserialize\<close> are inverse to each other, a trailing newline is
  not read, and a parsed state has arrays of the right lengths.\<close>

definition json_laws :: "'f json \<Rightarrow> bool" where
  "json_laws j \<longleftrightarrow>
     (\<forall>st f. to_json j st = Inr f \<and> wf_state st \<longrightarrow> from_json j (push_newline j f) = Some st) \<and>
     (\<forall>f st. from_json j f = Some st \<longrightarrow> wf_state st)"

record 'f disk =
  dk_name :: "'f option"
  dk_cut :: "'f option list"
  dk_temp :: "'f option"
  dk_locked :: bool

record 'f env =
  en_disk :: "'f disk"
  en_faults :: "io_error option list"

definition io_call :: "('f disk \<Rightarrow> 'f disk) \<Rightarrow> 'f env \<Rightarrow> (io_error + unit) \<times> 'f env" where
  "io_call act e =
     (case en_faults e of
        Some err # fs \<Rightarrow> (Inl err, e\<lparr>en_faults := fs\<rparr>)
      | fs \<Rightarrow> (Inr (), \<lparr>en_disk = act (en_disk e), en_faults = tl fs\<rparr>))"

fun io_calls :: "('f disk \<Rightarrow> 'f disk) list \<Rightarrow> 'f env \<Rightarrow> (io_error + unit) \<times> 'f env" where
  "io_calls [] e = (Inr (), e)"
| "io_calls (act # acts) e =
     (case io_call act e of (Inl err, e1) \<Rightarrow> (Inl err, e1) | (Inr _, e1) \<Rightarrow> io_calls acts e1)"

definition create_dir_all :: "'f disk \<Rightarrow> 'f disk" where
  "create_dir_all d = d"

definition replace_file :: "'f disk \<Rightarrow> 'f disk" where
  "replace_file d = d\<lparr>dk_name := dk_temp d, dk_cut := dk_temp d # dk_cut d, dk_temp := None\<rparr>"

definition sync_parent :: "'f disk \<Rightarrow> 'f disk" where
  "sync_parent d = d\<lparr>dk_cut := [dk_name d]\<rparr>"

text \<open>The closure of \<open>write_node_state\<close>: open the temporary (mode 0600), write, sync, set the mode
  again, rename, sync the directory.  An opened, still empty temporary is no contents yet.\<close>

definition write_steps :: "'f \<Rightarrow> ('f disk \<Rightarrow> 'f disk) list" where
  "write_steps contents =
     [\<lambda>d. d\<lparr>dk_temp := None\<rparr>, \<lambda>d. d\<lparr>dk_temp := Some contents\<rparr>, id, id, replace_file, sync_parent]"

definition write_node_state :: "'f json \<Rightarrow> node_state \<Rightarrow> 'f env \<Rightarrow> (key_error + unit) \<times> 'f env" where
  "write_node_state j st e =
     (case io_call create_dir_all e of
        (Inl err, e1) \<Rightarrow> (Inl (Key_io err), e1)
      | (Inr _, e1) \<Rightarrow>
          (case to_json j st of
             Inl err \<Rightarrow> (Inl (Key_io err), e1)
           | Inr f \<Rightarrow>
               (case io_calls (write_steps (push_newline j f)) e1 of
                  (Inl err, e2) \<Rightarrow>
                    (Inl (Key_io err), snd (io_call (\<lambda>d. d\<lparr>dk_temp := None\<rparr>) e2))
                | (Inr _, e2) \<Rightarrow> (Inr (), e2))))"

definition read_node_state :: "'f json \<Rightarrow> path \<Rightarrow> 'f env \<Rightarrow> (key_error + node_state) \<times> 'f env" where
  "read_node_state j p e =
     (case io_call id e of
        (Inl Io_not_found, e1) \<Rightarrow> (Inl (Not_enrolled p), e1)
      | (Inl err, e1) \<Rightarrow> (Inl (Key_io err), e1)
      | (Inr _, e1) \<Rightarrow>
          (case dk_name (en_disk e1) of
             None \<Rightarrow> (Inl (Not_enrolled p), e1)
           | Some f \<Rightarrow>
               (case from_json j f of
                  None \<Rightarrow> (Inl (Key_malformed p), e1)
                | Some st \<Rightarrow> (Inr st, e1))))"

definition lock_node_dir :: "path \<Rightarrow> 'f env \<Rightarrow> (key_error + unit) \<times> 'f env" where
  "lock_node_dir p e =
     (case io_calls [create_dir_all, id] e of
        (Inl err, e1) \<Rightarrow> (Inl (Key_io err), e1)
      | (Inr _, e1) \<Rightarrow>
          if dk_locked (en_disk e1) then (Inl (Busy p), e1)
          else
            (case io_call (\<lambda>d. d\<lparr>dk_locked := True\<rparr>) e1 of
               (Inl err, e2) \<Rightarrow> (Inl (Key_io err), e2)
             | (Inr _, e2) \<Rightarrow> (Inr (), e2)))"

text \<open>Dropping the \<open>NodeLock\<close>.\<close>

definition unlock :: "'f env \<Rightarrow> 'f env" where
  "unlock e = e\<lparr>en_disk := (en_disk e)\<lparr>dk_locked := False\<rparr>\<rparr>"

section \<open>Sequence sources\<close>

definition RESERVATION_BLOCK :: u64 where "RESERVATION_BLOCK = 10000"
definition MAX_SEQ :: u64 where "MAX_SEQ = push_bit 63 1 - 1"

record memory_seq =
  ms_next :: u64

definition memory_seq_new :: "u64 \<Rightarrow> memory_seq" where
  "memory_seq_new start = \<lparr>ms_next = max start 1\<rparr>"

definition memory_next_seq :: "memory_seq \<Rightarrow> (key_error + u64) \<times> memory_seq" where
  "memory_next_seq m = (Inr (ms_next m), m\<lparr>ms_next := sat_add (ms_next m) 1\<rparr>)"

record reserved_seq =
  rs_path :: path
  rs_state :: node_state
  rs_next :: u64
  rs_limit :: u64

definition reserve :: "'f json \<Rightarrow> reserved_seq \<Rightarrow> 'f env \<Rightarrow> (key_error + unit) \<times> reserved_seq \<times> 'f env" where
  "reserve j rs e =
     (let limit = min (sat_add (rs_next rs) RESERVATION_BLOCK) MAX_SEQ;
          rs1 = rs\<lparr>rs_state := (rs_state rs)\<lparr>ns_seq_reservation := limit\<rparr>\<rparr>
      in case write_node_state j (rs_state rs1) e of
           (Inl err, e1) \<Rightarrow> (Inl err, rs1, e1)
         | (Inr _, e1) \<Rightarrow> (Inr (), rs1\<lparr>rs_limit := limit\<rparr>, e1))"

definition reserved_open :: "'f json \<Rightarrow> path \<Rightarrow> node_state \<Rightarrow> 'f env \<Rightarrow> (key_error + reserved_seq) \<times> 'f env" where
  "reserved_open j p st e =
     (let nxt = max (ns_seq_reservation st) 1;
          source = \<lparr>rs_path = p, rs_state = st, rs_next = nxt, rs_limit = nxt\<rparr>
      in case reserve j source e of
           (Inl err, _, e1) \<Rightarrow> (Inl err, e1)
         | (Inr _, rs, e1) \<Rightarrow> (Inr rs, e1))"

definition reserved_next_seq ::
  "'f json \<Rightarrow> reserved_seq \<times> 'f env \<Rightarrow> (key_error + u64) \<times> reserved_seq \<times> 'f env" where
  "reserved_next_seq j q =
     (let (rs, e) = q;
          (r, rs1, e1) = (if rs_next rs \<ge> rs_limit rs then reserve j rs e else (Inr (), rs, e))
      in case r of
           Inl err \<Rightarrow> (Inl err, rs1, e1)
         | Inr _ \<Rightarrow>
             if rs_next rs1 \<ge> MAX_SEQ then (Inl (Key_io Io_exhausted), rs1, e1)
             else (Inr (rs_next rs1), rs1\<lparr>rs_next := rs_next rs1 + 1\<rparr>, e1))"

section \<open>Acquisition\<close>

record acquired_node =
  an_state :: node_state
  an_path :: path
  an_seq :: reserved_seq

text \<open>An error after the lock was taken drops the guard, which unlocks.\<close>

definition finish_acquire :: "'f json \<Rightarrow> path \<Rightarrow> node_state \<Rightarrow> 'f env \<Rightarrow> (key_error + acquired_node) \<times> 'f env" where
  "finish_acquire j p st e =
     (case reserved_open j p st e of
        (Inl err, e1) \<Rightarrow> (Inl err, unlock e1)
      | (Inr rs, e1) \<Rightarrow> (Inr \<lparr>an_state = st, an_path = p, an_seq = rs\<rparr>, e1))"

definition acquire :: "'f json \<Rightarrow> path \<Rightarrow> 'f env \<Rightarrow> (key_error + acquired_node) \<times> 'f env" where
  "acquire j p e =
     (case lock_node_dir p e of
        (Inl err, e1) \<Rightarrow> (Inl err, e1)
      | (Inr _, e1) \<Rightarrow>
          (case read_node_state j p e1 of
             (Inl err, e2) \<Rightarrow> (Inl err, unlock e2)
           | (Inr st, e2) \<Rightarrow> finish_acquire j p st e2))"

definition acquire_or_create ::
  "'f json \<Rightarrow> path \<Rightarrow> node_state \<Rightarrow> 'f env \<Rightarrow> (key_error + acquired_node) \<times> 'f env" where
  "acquire_or_create j p seed e =
     (case lock_node_dir p e of
        (Inl err, e1) \<Rightarrow> (Inl err, e1)
      | (Inr _, e1) \<Rightarrow>
          (case read_node_state j p e1 of
             (Inr st, e2) \<Rightarrow> finish_acquire j p st e2
           | (Inl (Not_enrolled _), e2) \<Rightarrow>
               (case write_node_state j seed e2 of
                  (Inl err, e3) \<Rightarrow> (Inl err, unlock e3)
                | (Inr _, e3) \<Rightarrow> finish_acquire j p seed e3)
           | (Inl err, e2) \<Rightarrow> (Inl err, unlock e2)))"

end
