(* ===== verification/KeyNonce.thy ===== *)
theory KeyNonce
  imports KeyStore
begin

text \<open>
  No sequence is handed out twice, whatever crashes: the processes of one node as a step
  relation over its disk, with failing system calls, processes that stop at any point and power
  cuts that undo a rename not yet synced.  The invariant is that every contents the name may hold
  reserves at least what was issued.
\<close>

section \<open>What a write leaves\<close>

text \<open>The contents \<open>node.json\<close> has, or may have after a power cut.\<close>

definition candidates :: "'f disk \<Rightarrow> 'f option set" where
  "candidates d = insert (dk_name d) (set (dk_cut d))"

definition honest :: "io_error option list \<Rightarrow> bool" where
  "honest fs \<longleftrightarrow> Some Io_not_found \<notin> set fs"

definition reserves :: "'f json \<Rightarrow> nat \<Rightarrow> 'f option \<Rightarrow> bool" where
  "reserves j n f \<longleftrightarrow>
     (\<exists>f' st. f = Some f' \<and> from_json j f' = Some st \<and> n \<le> unat (ns_seq_reservation st))"

lemma reserves_mono: "reserves j n f \<Longrightarrow> m \<le> n \<Longrightarrow> reserves j m f"
  by (auto simp: reserves_def intro: order_trans)

lemma io_call_cases:
  assumes "io_call act e = (r, e')"
  shows "(r = Inr () \<and> en_disk e' = act (en_disk e) \<or>
      (\<exists>err. r = Inl err \<and> Some err \<in> set (en_faults e) \<and> en_disk e' = en_disk e)) \<and>
    set (en_faults e') \<subseteq> set (en_faults e)"
  using assms by (auto simp: io_call_def split: list.splits option.splits)

lemma io_calls_cases:
  assumes "io_calls acts e = (r, e')"
  shows "(\<exists>k \<le> length acts. en_disk e' = fold (\<lambda>act. act) (take k acts) (en_disk e) \<and>
      (r = Inr () \<longrightarrow> k = length acts)) \<and> set (en_faults e') \<subseteq> set (en_faults e)"
  using assms
proof (induction acts arbitrary: e)
  case Nil
  then show ?case by simp
next
  case (Cons act acts)
  obtain r1 e1 where c: "io_call act e = (r1, e1)" by (cases "io_call act e")
  show ?case
  proof (cases r1)
    case (Inl err)
    then show ?thesis using Cons.prems c io_call_cases [OF c] by (auto intro: exI [of _ 0])
  next
    case (Inr u)
    then have d: "en_disk e1 = act (en_disk e)" "set (en_faults e1) \<subseteq> set (en_faults e)"
      using io_call_cases [OF c] by auto
    have "io_calls acts e1 = (r, e')" using Cons.prems c Inr by simp
    from Cons.IH [OF this] obtain k where k: "k \<le> length acts"
      "en_disk e' = fold (\<lambda>act. act) (take k acts) (en_disk e1)" "r = Inr () \<longrightarrow> k = length acts"
      "set (en_faults e') \<subseteq> set (en_faults e1)" by blast
    then show ?thesis using d by (intro conjI exI [of _ "Suc k"]) auto
  qed
qed

lemma write_steps_disk:
  assumes "io_calls (write_steps f) e = (r, e')"
  shows "candidates (en_disk e') \<subseteq> insert (Some f) (candidates (en_disk e)) \<and>
    (r = Inr () \<longrightarrow> candidates (en_disk e') = {Some f}) \<and>
    dk_locked (en_disk e') = dk_locked (en_disk e) \<and> set (en_faults e') \<subseteq> set (en_faults e)"
proof -
  have len: "length (write_steps f) = 6" by (simp add: write_steps_def)
  obtain k where k: "k \<le> 6" "en_disk e' = fold (\<lambda>act. act) (take k (write_steps f)) (en_disk e)"
    "r = Inr () \<longrightarrow> k = 6" "set (en_faults e') \<subseteq> set (en_faults e)"
    using io_calls_cases [OF assms, unfolded len] by blast
  from k(1) have "k = 0 \<or> k = 1 \<or> k = 2 \<or> k = 3 \<or> k = 4 \<or> k = 5 \<or> k = 6" by arith
  then show ?thesis
    using k(2-4)
    by (elim disjE) (auto simp: write_steps_def replace_file_def sync_parent_def candidates_def)
qed

lemma write_node_state_disk:
  assumes "write_node_state j st e = (r, e')" "json_laws j" "wf_state st"
  shows "\<exists>f. from_json j f = Some st \<and>
    candidates (en_disk e') \<subseteq> insert (Some f) (candidates (en_disk e)) \<and>
    (r = Inr () \<longrightarrow> candidates (en_disk e') = {Some f}) \<or>
    (r \<noteq> Inr () \<and> en_disk e' = en_disk e)"
    "dk_locked (en_disk e') = dk_locked (en_disk e) \<and> set (en_faults e') \<subseteq> set (en_faults e)"
proof -
  obtain r1 e1 where c1: "io_call create_dir_all e = (r1, e1)" by (cases "io_call create_dir_all e")
  note d1 = io_call_cases [OF c1]
  have both: "(\<exists>f. from_json j f = Some st \<and>
      candidates (en_disk e') \<subseteq> insert (Some f) (candidates (en_disk e)) \<and>
      (r = Inr () \<longrightarrow> candidates (en_disk e') = {Some f}) \<or>
      (r \<noteq> Inr () \<and> en_disk e' = en_disk e)) \<and>
    dk_locked (en_disk e') = dk_locked (en_disk e) \<and> set (en_faults e') \<subseteq> set (en_faults e)"
  proof (cases "r1 = Inr () \<and> (\<exists>f. to_json j st = Inr f)")
    case False
    then show ?thesis using assms(1) c1 d1
      by (cases r1; cases "to_json j st") (auto simp: write_node_state_def create_dir_all_def)
  next
    case True
    then obtain f where f: "r1 = Inr ()" "to_json j st = Inr f" by blast
    then have d: "en_disk e1 = en_disk e" "set (en_faults e1) \<subseteq> set (en_faults e)"
      using d1 by (auto simp: create_dir_all_def)
    let ?f = "push_newline j f"
    have law: "from_json j ?f = Some st" using assms(2,3) f(2) by (simp add: json_laws_def)
    obtain r2 e2 where c2: "io_calls (write_steps ?f) e1 = (r2, e2)"
      by (cases "io_calls (write_steps ?f) e1")
    note d2 = write_steps_disk [OF c2]
    show ?thesis
    proof (cases r2)
      case (Inr u)
      then have "r = Inr ()" "e' = e2" using assms(1) c1 c2 f by (auto simp: write_node_state_def)
      then show ?thesis using d d2 law Inr by auto
    next
      case (Inl err)
      obtain r3 e3 where c3: "io_call (\<lambda>d. d\<lparr>dk_temp := None\<rparr>) e2 = (r3, e3)"
        by (cases "io_call (\<lambda>d :: 'a disk. d\<lparr>dk_temp := None\<rparr>) e2")
      have r: "r = Inl (Key_io err)" "e' = e3"
        using assms(1) c1 c2 c3 f Inl by (auto simp: write_node_state_def)
      have "candidates (en_disk e3) = candidates (en_disk e2)" "dk_locked (en_disk e3) = dk_locked (en_disk e2)"
        "set (en_faults e3) \<subseteq> set (en_faults e2)"
        using io_call_cases [OF c3] by (auto simp: candidates_def)
      then show ?thesis using d d2 law r by (auto intro!: exI [of _ ?f])
    qed
  qed
  show "\<exists>f. from_json j f = Some st \<and>
      candidates (en_disk e') \<subseteq> insert (Some f) (candidates (en_disk e)) \<and>
      (r = Inr () \<longrightarrow> candidates (en_disk e') = {Some f}) \<or>
      (r \<noteq> Inr () \<and> en_disk e' = en_disk e)" using both by blast
  show "dk_locked (en_disk e') = dk_locked (en_disk e) \<and> set (en_faults e') \<subseteq> set (en_faults e)"
    using both by blast
qed

section \<open>Reservations\<close>

definition safe :: "'f json \<Rightarrow> nat \<Rightarrow> 'f disk \<Rightarrow> bool" where
  "safe j n d \<longleftrightarrow> (\<forall>f \<in> candidates d. reserves j n f)"

definition rs_ok :: "'f json \<Rightarrow> reserved_seq \<Rightarrow> 'f disk \<Rightarrow> bool" where
  "rs_ok j rs d \<longleftrightarrow> wf_state (rs_state rs) \<and> rs_limit rs \<le> MAX_SEQ \<and> safe j (unat (rs_limit rs)) d"

abbreviation next_limit :: "reserved_seq \<Rightarrow> u64" where
  "next_limit rs \<equiv> min (sat_add (rs_next rs) RESERVATION_BLOCK) MAX_SEQ"

lemma unat_MAX_SEQ: "unat MAX_SEQ = 2 ^ 63 - 1"
  by (simp add: MAX_SEQ_def)

lemma unat_min: "unat (min a b :: u64) = min (unat a) (unat b)"
  by (simp add: min_def word_le_nat_alt)

lemma unat_max: "unat (max a b :: u64) = max (unat a) (unat b)"
  by (simp add: max_def word_le_nat_alt)

lemma unat_next_limit: "unat (next_limit rs) = min (unat (rs_next rs) + 10000) (2 ^ 63 - 1)"
  by (simp add: unat_min unat_sat_add unat_MAX_SEQ RESERVATION_BLOCK_def)

lemma wf_state_reservation [simp]: "wf_state (st\<lparr>ns_seq_reservation := n\<rparr>) = wf_state st"
  by (simp add: wf_state_def)

lemma reserves_written:
  "from_json j f = Some (st\<lparr>ns_seq_reservation := l\<rparr>) \<Longrightarrow> n \<le> unat l \<Longrightarrow> reserves j n (Some f)"
  by (simp add: reserves_def)

lemma reserve_disk:
  assumes "reserve j rs e = (r, rs', e')" "json_laws j" "wf_state (rs_state rs)"
  shows "rs_next rs' = rs_next rs \<and> wf_state (rs_state rs') \<and>
    rs_limit rs' = (if r = Inr () then next_limit rs else rs_limit rs) \<and>
    (r = Inr () \<longrightarrow> safe j (unat (next_limit rs)) (en_disk e')) \<and>
    (\<forall>n \<le> unat (next_limit rs). safe j n (en_disk e) \<longrightarrow> safe j n (en_disk e')) \<and>
    dk_locked (en_disk e') = dk_locked (en_disk e) \<and> set (en_faults e') \<subseteq> set (en_faults e)"
proof -
  let ?st = "(rs_state rs)\<lparr>ns_seq_reservation := next_limit rs\<rparr>"
  obtain r1 e1 where w: "write_node_state j ?st e = (r1, e1)" by (cases "write_node_state j ?st e")
  have eq: "r1 = r" "e1 = e'" and rs': "rs_next rs' = rs_next rs" "rs_state rs' = ?st"
    "rs_limit rs' = (if r = Inr () then next_limit rs else rs_limit rs)"
    using assms(1) w by (auto simp: reserve_def Let_def split: sum.splits)
  have wf: "wf_state ?st" using assms(3) by simp
  note disk = write_node_state_disk [OF w [unfolded eq] assms(2) wf]
  have new: "reserves j n (Some f)" if "from_json j f = Some ?st" "n \<le> unat (next_limit rs)" for n f
    by (rule reserves_written [OF that])
  have main: "(r = Inr () \<longrightarrow> safe j (unat (next_limit rs)) (en_disk e')) \<and>
    (\<forall>n \<le> unat (next_limit rs). safe j n (en_disk e) \<longrightarrow> safe j n (en_disk e'))"
  proof (cases "r \<noteq> Inr () \<and> en_disk e' = en_disk e")
    case False
    with disk(1) obtain f where f: "from_json j f = Some ?st"
      "candidates (en_disk e') \<subseteq> insert (Some f) (candidates (en_disk e))"
      "r = Inr () \<longrightarrow> candidates (en_disk e') = {Some f}" by blast
    note n = new [OF f(1)]
    have "safe j (unat (next_limit rs)) (en_disk e')" if "r = Inr ()"
      using f(3) that n [OF order_refl] by (simp add: safe_def)
    moreover have "safe j m (en_disk e')" if "m \<le> unat (next_limit rs)" "safe j m (en_disk e)" for m
    proof -
      have "\<forall>x \<in> insert (Some f) (candidates (en_disk e)). reserves j m x"
        using n [OF that(1)] that(2) by (simp add: safe_def)
      then show ?thesis using f(2) unfolding safe_def by (meson subsetD)
    qed
    ultimately show ?thesis by metis
  qed simp
  have "wf_state (rs_state rs')" unfolding rs'(2) by (rule wf)
  then show ?thesis using main rs'(1,3) disk(2) by (intro conjI) blast+
qed

lemma reserved_next_seq_disk:
  assumes "reserved_next_seq j (rs, e) = (r, rs', e')" "json_laws j" "rs_ok j rs (en_disk e)"
  shows "rs_ok j rs' (en_disk e') \<and> rs_next rs \<le> rs_next rs' \<and>
    (\<forall>n. r = Inr n \<longrightarrow> n = rs_next rs \<and> n < MAX_SEQ \<and> rs_next rs' = n + 1 \<and>
      safe j (Suc (unat n)) (en_disk e')) \<and>
    (\<forall>n. n \<le> unat (rs_next rs) \<and> n \<le> unat MAX_SEQ \<and> safe j n (en_disk e) \<longrightarrow> safe j n (en_disk e')) \<and>
    dk_locked (en_disk e') = dk_locked (en_disk e) \<and> set (en_faults e') \<subseteq> set (en_faults e)"
proof -
  obtain r1 rs1 e1 where one: "(if rs_next rs \<ge> rs_limit rs then reserve j rs e else (Inr (), rs, e)) = (r1, rs1, e1)"
    by (cases "if rs_next rs \<ge> rs_limit rs then reserve j rs e else (Inr (), rs, e)")
  have step: "rs_ok j rs1 (en_disk e1) \<and> rs_next rs1 = rs_next rs \<and>
    (r1 = Inr () \<and> rs_next rs < MAX_SEQ \<longrightarrow> rs_next rs < rs_limit rs1) \<and>
    (\<forall>n. n \<le> unat (rs_next rs) \<and> n \<le> unat MAX_SEQ \<and> safe j n (en_disk e) \<longrightarrow> safe j n (en_disk e1)) \<and>
    dk_locked (en_disk e1) = dk_locked (en_disk e) \<and> set (en_faults e1) \<subseteq> set (en_faults e)"
  proof (cases "rs_next rs \<ge> rs_limit rs")
    case False
    then have "r1 = Inr ()" "rs1 = rs" "e1 = e" "rs_next rs < rs_limit rs" using one by auto
    then show ?thesis using assms(3) by simp
  next
    case True
    then have "reserve j rs e = (r1, rs1, e1)" using one by simp
    note d = reserve_disk [OF this assms(2)]
    have wf: "wf_state (rs_state rs)" "rs_limit rs \<le> MAX_SEQ" "safe j (unat (rs_limit rs)) (en_disk e)"
      using assms(3) by (simp_all add: rs_ok_def)
    have below: "unat (rs_limit rs) \<le> unat (next_limit rs)"
      using True wf(2) unfolding unat_next_limit word_le_nat_alt unat_MAX_SEQ by linarith
    have "rs_next rs < next_limit rs" if "rs_next rs < MAX_SEQ"
      using that unfolding word_less_nat_alt unat_next_limit unat_MAX_SEQ by linarith
    moreover have "n \<le> unat (next_limit rs)" if "n \<le> unat (rs_next rs)" "n \<le> unat MAX_SEQ" for n
      using that unfolding unat_next_limit unat_MAX_SEQ by linarith
    ultimately show ?thesis using d [OF wf(1)] wf below by (auto simp: rs_ok_def)
  qed
  show ?thesis
  proof (cases "\<exists>u. r1 = Inr u \<and> rs_next rs1 < MAX_SEQ")
    case False
    then have "rs' = rs1" "e' = e1" "\<forall>n. r \<noteq> Inr n"
      using assms(1) one by (auto simp: reserved_next_seq_def not_less split: sum.splits)
    then show ?thesis using step by auto
  next
    case True
    then have "r1 = Inr ()" "\<not> MAX_SEQ \<le> rs_next rs1" by (auto simp: not_le)
    with True have eq: "r = Inr (rs_next rs)" "rs' = rs1\<lparr>rs_next := rs_next rs + 1\<rparr>" "e' = e1"
      and less: "rs_next rs < MAX_SEQ" "rs_next rs < rs_limit rs1"
      using assms(1) one step by (auto simp: reserved_next_seq_def)
    have "rs_next rs < - 1" using less(1) by (simp add: word_less_nat_alt unat_MAX_SEQ unat_u64_max)
    then have "rs_next rs \<le> rs_next rs + 1" using word_Suc_less by (simp add: less_imp_le)
    moreover have "safe j (Suc (unat (rs_next rs))) (en_disk e1)"
      using step less(2) by (auto simp: rs_ok_def safe_def word_less_nat_alt intro: reserves_mono)
    ultimately show ?thesis using step eq less by (auto simp: rs_ok_def)
  qed
qed

section \<open>Acquisition\<close>

text \<open>What a started process may assume of the disk it leaves: a failed start releases the lock, a
  successful one holds it with a reservation, and nothing issued before becomes unsafe.\<close>

definition started :: "'f json \<Rightarrow> 'f env \<Rightarrow> key_error + acquired_node \<Rightarrow> 'f env \<Rightarrow> bool" where
  "started j e r e' \<longleftrightarrow>
     (\<forall>n. Suc n \<le> unat MAX_SEQ \<and> safe j (Suc n) (en_disk e) \<longrightarrow>
        safe j (Suc n) (en_disk e') \<and> (\<forall>a. r = Inr a \<longrightarrow> n < unat (rs_next (an_seq a)))) \<and>
     dk_locked (en_disk e') = (\<exists>a. r = Inr a) \<and>
     (\<forall>a. r = Inr a \<longrightarrow> rs_ok j (an_seq a) (en_disk e'))"

lemma unlock_simps [simp]:
  "safe j n (en_disk (unlock e)) = safe j n (en_disk e)" "dk_locked (en_disk (unlock e)) = False"
  by (simp_all add: unlock_def safe_def candidates_def)

lemma finish_started:
  assumes "finish_acquire j p st e = (r, e')" "json_laws j" "wf_state st" "dk_locked (en_disk e)"
    and "\<And>n. safe j (Suc n) (en_disk e) \<Longrightarrow> Suc n \<le> unat (ns_seq_reservation st)"
  shows "started j e r e'"
proof -
  let ?nxt = "max (ns_seq_reservation st) 1"
  let ?src = "\<lparr>rs_path = p, rs_state = st, rs_next = ?nxt, rs_limit = ?nxt\<rparr>"
  obtain r1 rs1 e1 where res: "reserve j ?src e = (r1, rs1, e1)" by (cases "reserve j ?src e")
  have "wf_state (rs_state ?src)" using assms(3) by simp
  note d = reserve_disk [OF res assms(2) this]
  have le: "Suc n \<le> unat (next_limit ?src)" if "Suc n \<le> unat MAX_SEQ" "safe j (Suc n) (en_disk e)" for n
    using that(1) assms(5) [OF that(2)] unfolding unat_next_limit by (simp add: unat_MAX_SEQ unat_max)
  have keep: "safe j (Suc n) (en_disk e1)" if "Suc n \<le> unat MAX_SEQ" "safe j (Suc n) (en_disk e)" for n
    using d le [OF that] that(2) by blast
  show ?thesis
  proof (cases r1)
    case (Inl err)
    then have "r = Inl err" "e' = unlock e1"
      using assms(1) res by (simp_all add: finish_acquire_def reserved_open_def Let_def)
    then show ?thesis using keep by (simp add: started_def)
  next
    case (Inr u)
    then have r: "r = Inr \<lparr>an_state = st, an_path = p, an_seq = rs1\<rparr>" "e' = e1"
      using assms(1) res by (simp_all add: finish_acquire_def reserved_open_def Let_def)
    have ok: "rs_ok j rs1 (en_disk e1)"
      using d Inr by (simp add: rs_ok_def)
    have n: "rs_next rs1 = ?nxt" "dk_locked (en_disk e1)" using d assms(4) by simp_all
    have "n < unat ?nxt" if "safe j (Suc n) (en_disk e)" for n
      using assms(5) [OF that] unfolding unat_max by simp
    then show ?thesis using r ok n keep by (simp add: started_def)
  qed
qed

lemma lock_cases:
  assumes "lock_node_dir p e = (r, e1)"
  shows "(\<exists>err. r = Inl err \<and> en_disk e1 = en_disk e) \<or>
    (r = Inr () \<and> \<not> dk_locked (en_disk e) \<and> en_disk e1 = (en_disk e)\<lparr>dk_locked := True\<rparr>)"
    "set (en_faults e1) \<subseteq> set (en_faults e)"
proof -
  obtain r1 e2 where c: "io_calls [create_dir_all, id] e = (r1, e2)"
    by (cases "io_calls [create_dir_all, id] e")
  obtain r3 e3 where l: "io_call (\<lambda>d. d\<lparr>dk_locked := True\<rparr>) e2 = (r3, e3)"
    by (cases "io_call (\<lambda>d :: 'a disk. d\<lparr>dk_locked := True\<rparr>) e2")
  have len: "length [create_dir_all, id] = 2" by simp
  obtain k where "k \<le> 2" "en_disk e2 = fold (\<lambda>act. act) (take k [create_dir_all, id]) (en_disk e)"
    and f: "set (en_faults e2) \<subseteq> set (en_faults e)"
    using io_calls_cases [OF c, unfolded len] by blast
  then have d: "en_disk e2 = en_disk e"
    by (auto simp: create_dir_all_def le_Suc_eq numeral_2_eq_2)
  show "(\<exists>err. r = Inl err \<and> en_disk e1 = en_disk e) \<or>
    (r = Inr () \<and> \<not> dk_locked (en_disk e) \<and> en_disk e1 = (en_disk e)\<lparr>dk_locked := True\<rparr>)"
    using assms c l d io_call_cases [OF l]
    by (auto simp: lock_node_dir_def simp del: io_calls.simps split: sum.splits if_splits)
  show "set (en_faults e1) \<subseteq> set (en_faults e)"
    using assms c l f io_call_cases [OF l]
    by (auto simp: lock_node_dir_def simp del: io_calls.simps split: sum.splits if_splits)
qed

lemma read_cases:
  assumes "read_node_state j p e = (r, e1)"
  shows "en_disk e1 = en_disk e" "set (en_faults e1) \<subseteq> set (en_faults e)"
    "r = Inr st \<Longrightarrow> \<exists>f. dk_name (en_disk e) = Some f \<and> from_json j f = Some st"
    "honest (en_faults e) \<Longrightarrow> r = Inl (Not_enrolled q) \<Longrightarrow> dk_name (en_disk e) = None"
proof -
  obtain r2 e2 where c: "io_call id e = (r2, e2)" by (cases "io_call id e")
  note d = io_call_cases [OF c]
  show "en_disk e1 = en_disk e" "set (en_faults e1) \<subseteq> set (en_faults e)"
    "r = Inr st \<Longrightarrow> \<exists>f. dk_name (en_disk e) = Some f \<and> from_json j f = Some st"
    "honest (en_faults e) \<Longrightarrow> r = Inl (Not_enrolled q) \<Longrightarrow> dk_name (en_disk e) = None"
    using assms c d
    by (auto simp: read_node_state_def honest_def split: sum.splits option.splits io_error.splits)
qed

lemma safe_locked [simp]: "safe j n (d\<lparr>dk_locked := b\<rparr>) = safe j n d"
  by (simp add: safe_def candidates_def)

text \<open>A start that fails without having written, or goes on from the state it read.\<close>

lemma started_failed:
  "en_disk e' = (en_disk e)\<lparr>dk_locked := False\<rparr> \<Longrightarrow> started j e (Inl err) e'"
  by (simp add: started_def)

lemma started_from:
  assumes "started j e1 r e'" "\<And>n. Suc n \<le> unat MAX_SEQ \<Longrightarrow> safe j (Suc n) (en_disk e) \<Longrightarrow> safe j (Suc n) (en_disk e1)"
  shows "started j e r e'"
  using assms by (auto simp: started_def)

lemma finish_read:
  assumes "finish_acquire j p st e2 = (r, e')" "json_laws j" "dk_locked (en_disk e2)"
    and "dk_name (en_disk e2) = Some f" "from_json j f = Some st"
  shows "started j e2 r e'"
proof (rule finish_started [OF assms(1,2) _ assms(3)])
  show "wf_state st" using assms(2,5) by (auto simp: json_laws_def)
  show "Suc n \<le> unat (ns_seq_reservation st)" if "safe j (Suc n) (en_disk e2)" for n
  proof -
    have "reserves j (Suc n) (Some f)" using that assms(4) by (simp add: safe_def candidates_def)
    then show ?thesis using assms(5) by (auto simp: reserves_def)
  qed
qed

lemma acquire_busy:
  assumes "dk_locked (en_disk e)"
  shows "acquire j p e = (r, e') \<Longrightarrow> (\<exists>err. r = Inl err) \<and> en_disk e' = en_disk e"
    and "acquire_or_create j p seed e = (r, e') \<Longrightarrow> (\<exists>err. r = Inl err) \<and> en_disk e' = en_disk e"
proof -
  obtain r1 e1 where l: "lock_node_dir p e = (r1, e1)" by (cases "lock_node_dir p e")
  then obtain err where "r1 = Inl err" "en_disk e1 = en_disk e"
    using lock_cases(1) [OF l] assms by blast
  then show "acquire j p e = (r, e') \<Longrightarrow> (\<exists>err. r = Inl err) \<and> en_disk e' = en_disk e"
    and "acquire_or_create j p seed e = (r, e') \<Longrightarrow> (\<exists>err. r = Inl err) \<and> en_disk e' = en_disk e"
    using l by (auto simp: acquire_def acquire_or_create_def)
qed

lemma acquire_started:
  assumes "acquire j p e = (r, e')" "json_laws j" "\<not> dk_locked (en_disk e)"
  shows "started j e r e'"
proof -
  obtain r1 e1 where l: "lock_node_dir p e = (r1, e1)" by (cases "lock_node_dir p e")
  obtain r2 e2 where rd: "read_node_state j p e1 = (r2, e2)" by (cases "read_node_state j p e1")
  from lock_cases(1) [OF l] show ?thesis
  proof (elim disjE exE conjE)
    fix err assume "r1 = Inl err" "en_disk e1 = en_disk e"
    then show ?thesis using assms l by (auto simp: acquire_def intro!: started_failed)
  next
    assume lock: "r1 = Inr ()" "en_disk e1 = (en_disk e)\<lparr>dk_locked := True\<rparr>"
    show ?thesis
    proof (cases r2)
      case (Inl err)
      then show ?thesis
        using assms l rd lock read_cases(1) [OF rd]
        by (auto simp: acquire_def unlock_def intro!: started_failed)
    next
      case (Inr st)
      then have fin: "finish_acquire j p st e2 = (r, e')" using assms(1) l rd lock by (simp add: acquire_def)
      obtain f where f: "dk_name (en_disk e1) = Some f" "from_json j f = Some st"
        using read_cases(3) [OF rd Inr] by blast
      show ?thesis
        by (rule started_from [OF finish_read [OF fin assms(2) _ _ f(2)]])
          (use lock f(1) read_cases(1) [OF rd] in auto)
    qed
  qed
qed

lemma acquire_or_create_started:
  assumes "acquire_or_create j p seed e = (r, e')" "json_laws j" "\<not> dk_locked (en_disk e)"
    and "wf_state seed" "honest (en_faults e)"
  shows "started j e r e'"
proof -
  obtain r1 e1 where l: "lock_node_dir p e = (r1, e1)" by (cases "lock_node_dir p e")
  obtain r2 e2 where rd: "read_node_state j p e1 = (r2, e2)" by (cases "read_node_state j p e1")
  obtain r3 e3 where wr: "write_node_state j seed e2 = (r3, e3)" by (cases "write_node_state j seed e2")
  from lock_cases(1) [OF l] show ?thesis
  proof (elim disjE exE conjE)
    fix err assume "r1 = Inl err" "en_disk e1 = en_disk e"
    then show ?thesis using assms l by (auto simp: acquire_or_create_def intro!: started_failed)
  next
    assume lock: "r1 = Inr ()" "en_disk e1 = (en_disk e)\<lparr>dk_locked := True\<rparr>"
    have same: "en_disk e2 = en_disk e1" by (rule read_cases(1) [OF rd])
    consider (ok) st where "r2 = Inr st" | (fresh) q where "r2 = Inl (Not_enrolled q)"
      | (other) err where "r2 = Inl err" "\<forall>q. err \<noteq> Not_enrolled q"
      by (cases r2) blast+
    then show ?thesis
    proof cases
      case ok
      then have fin: "finish_acquire j p st e2 = (r, e')"
        using assms(1) l rd lock by (simp add: acquire_or_create_def)
      obtain f where f: "dk_name (en_disk e1) = Some f" "from_json j f = Some st"
        using read_cases(3) [OF rd ok] by blast
      show ?thesis
        by (rule started_from [OF finish_read [OF fin assms(2) _ _ f(2)]]) (use lock f(1) same in auto)
    next
      case other
      then have "r = Inl err" "e' = unlock e2"
        using assms(1) l rd lock by (cases err; simp add: acquire_or_create_def)+
      then show ?thesis using lock same by (auto simp: unlock_def assms(3) intro!: started_failed)
    next
      case fresh
      have "honest (en_faults e1)" using assms(5) lock_cases(2) [OF l] by (auto simp: honest_def)
      then have "dk_name (en_disk e1) = None" using read_cases(4) [OF rd _ fresh] by blast
      then have never: "\<not> safe j (Suc n) (en_disk e)" for n
        using lock(2) by (auto simp: safe_def candidates_def reserves_def)
      note w = write_node_state_disk [OF wr assms(2,4)]
      have locked: "dk_locked (en_disk e3)" using w(2) same lock(2) by simp
      show ?thesis
      proof (cases r3)
        case (Inl err)
        then have "r = Inl err" "e' = unlock e3"
          using assms(1) l rd lock fresh wr by (simp_all add: acquire_or_create_def)
        then show ?thesis using never by (simp add: started_def)
      next
        case (Inr u)
        then have fin: "finish_acquire j p seed e3 = (r, e')"
          using assms(1) l rd lock fresh wr by (simp add: acquire_or_create_def)
        obtain f where f: "from_json j f = Some seed" "candidates (en_disk e3) = {Some f}"
          using w(1) Inr by auto
        have "started j e3 r e'"
          by (rule finish_started [OF fin assms(2,4) locked])
            (use f in \<open>auto simp: safe_def reserves_def\<close>)
        then show ?thesis by (rule started_from) (use never in blast)
      qed
    qed
  qed
qed

section \<open>The processes of one node\<close>

record 'f node_world =
  nw_disk :: "'f disk"
  nw_procs :: "nat \<Rightarrow> reserved_seq option"
  nw_issued :: "u64 list"

text \<open>The issued sequences, in the order they were handed out by whichever process.\<close>

inductive node_step :: "'f json \<Rightarrow> path \<Rightarrow> 'f node_world \<Rightarrow> 'f node_world \<Rightarrow> bool" for j p where
  start: "\<lbrakk>nw_procs w i = None; honest fs;
    acquire j p \<lparr>en_disk = nw_disk w, en_faults = fs\<rparr> = (r, e) \<or>
    (wf_state seed \<and> acquire_or_create j p seed \<lparr>en_disk = nw_disk w, en_faults = fs\<rparr> = (r, e))\<rbrakk> \<Longrightarrow>
    node_step j p w (w\<lparr>nw_disk := en_disk e,
      nw_procs := (case r of Inl _ \<Rightarrow> nw_procs w | Inr a \<Rightarrow> (nw_procs w)(i \<mapsto> an_seq a))\<rparr>)"
| draw: "\<lbrakk>nw_procs w i = Some rs; honest fs;
    reserved_next_seq j (rs, \<lparr>en_disk = nw_disk w, en_faults = fs\<rparr>) = (r, rs', e)\<rbrakk> \<Longrightarrow>
    node_step j p w (w\<lparr>nw_disk := en_disk e, nw_procs := (nw_procs w)(i \<mapsto> rs'),
      nw_issued := (case r of Inl _ \<Rightarrow> nw_issued w | Inr n \<Rightarrow> nw_issued w @ [n])\<rparr>)"
| stop: "nw_procs w i = Some rs \<Longrightarrow>
    node_step j p w (w\<lparr>nw_disk := (nw_disk w)\<lparr>dk_temp := t, dk_locked := False\<rparr>,
      nw_procs := (nw_procs w)(i := None)\<rparr>)"
| power_cut: "f \<in> candidates (nw_disk w) \<Longrightarrow>
    node_step j p w (w\<lparr>nw_disk := \<lparr>dk_name = f, dk_cut = [f], dk_temp = t, dk_locked = False\<rparr>,
      nw_procs := Map.empty\<rparr>)"

definition node_init :: "'f option \<Rightarrow> 'f node_world" where
  "node_init f =
     \<lparr>nw_disk = \<lparr>dk_name = f, dk_cut = [f], dk_temp = None, dk_locked = False\<rparr>,
      nw_procs = Map.empty, nw_issued = []\<rparr>"

definition node_inv :: "'f json \<Rightarrow> 'f node_world \<Rightarrow> bool" where
  "node_inv j w \<longleftrightarrow>
     sorted_wrt (<) (nw_issued w) \<and>
     (\<forall>n \<in> set (nw_issued w). n < MAX_SEQ \<and> safe j (Suc (unat n)) (nw_disk w)) \<and>
     (nw_procs w \<noteq> Map.empty \<longrightarrow> dk_locked (nw_disk w)) \<and>
     (\<forall>i k. nw_procs w i \<noteq> None \<and> nw_procs w k \<noteq> None \<longrightarrow> i = k) \<and>
     (\<forall>i rs. nw_procs w i = Some rs \<longrightarrow>
        rs_ok j rs (nw_disk w) \<and> (\<forall>n \<in> set (nw_issued w). n < rs_next rs))"

lemma node_inv_init: "node_inv j (node_init f)"
  by (simp add: node_inv_def node_init_def)

lemma node_invI:
  assumes "sorted_wrt (<) (nw_issued w)"
    and "\<And>n. n \<in> set (nw_issued w) \<Longrightarrow> n < MAX_SEQ \<and> safe j (Suc (unat n)) (nw_disk w) \<and> n < rs_next rs"
    and "dk_locked (nw_disk w)" "nw_procs w = [i \<mapsto> rs]" "rs_ok j rs (nw_disk w)"
  shows "node_inv j w"
  using assms by (simp add: node_inv_def)

lemma issued_Suc: "n < MAX_SEQ \<Longrightarrow> Suc (unat n) \<le> unat MAX_SEQ"
  by (simp add: word_less_nat_alt)

lemma node_inv_step:
  assumes "node_step j p w w'" "json_laws j" "node_inv j w"
  shows "node_inv j w'"
  using assms(1)
proof cases
  case (start i fs r e seed)
  let ?e = "\<lparr>en_disk = nw_disk w, en_faults = fs\<rparr>"
  show ?thesis
  proof (cases "dk_locked (nw_disk w)")
    case True
    then have "(\<exists>err. r = Inl err) \<and> en_disk e = nw_disk w"
      using start(4) acquire_busy(1) [of ?e j p r e] acquire_busy(2) [of ?e j p seed r e] by auto
    then show ?thesis using start(1) assms(3) by (auto simp: node_inv_def)
  next
    case False
    then have st: "started j ?e r e"
      using start(3,4) acquire_started [of j p ?e r e] acquire_or_create_started [of j p seed ?e r e] assms(2)
      by auto
    have empty: "nw_procs w = Map.empty" using False assms(3) by (auto simp: node_inv_def)
    have issued: "safe j (Suc (unat n)) (en_disk e) \<and> (\<forall>a. r = Inr a \<longrightarrow> n < rs_next (an_seq a))"
      if "n \<in> set (nw_issued w)" for n
      using that assms(3) st issued_Suc [of n] by (auto simp: node_inv_def started_def word_less_nat_alt)
    show ?thesis
    proof (cases r)
      case (Inl err)
      then show ?thesis using start(1) assms(3) empty issued by (auto simp: node_inv_def)
    next
      case (Inr a)
      then have "rs_ok j (an_seq a) (en_disk e)" "dk_locked (en_disk e)"
        using st by (auto simp: started_def)
      then show ?thesis using start(1) assms(3) empty issued Inr by (auto simp: node_inv_def)
    qed
  qed
next
  case (draw i rs fs r rs' e)
  have inv: "rs_ok j rs (nw_disk w)" "\<And>n. n \<in> set (nw_issued w) \<Longrightarrow> n < rs_next rs"
    "\<And>k. nw_procs w k \<noteq> None \<Longrightarrow> k = i" "dk_locked (nw_disk w)"
    using draw(2) assms(3) by (auto simp: node_inv_def)
  have ok: "rs_ok j rs (en_disk \<lparr>en_disk = nw_disk w, en_faults = fs\<rparr>)" using inv(1) by simp
  note d = reserved_next_seq_disk [OF draw(4) assms(2) ok]
  have old: "n < MAX_SEQ \<and> safe j (Suc (unat n)) (en_disk e) \<and> n < rs_next rs'"
    if "n \<in> set (nw_issued w)" for n
  proof -
    have "n < MAX_SEQ" "safe j (Suc (unat n)) (nw_disk w)" "n < rs_next rs"
      using that assms(3) inv(2) by (auto simp: node_inv_def)
    moreover from this have "n < rs_next rs'" using d by (meson less_le_trans)
    ultimately show ?thesis using d issued_Suc [of n] by (auto simp: word_less_nat_alt)
  qed
  show ?thesis
  proof (cases r)
    case (Inl err)
    then show ?thesis using draw(1) assms(3) d old inv(3,4) by (auto simp: node_inv_def)
  next
    case (Inr n)
    then have n: "n = rs_next rs" "n < MAX_SEQ" "rs_next rs' = n + 1" "safe j (Suc (unat n)) (en_disk e)"
      using d by auto
    have "n < - 1" using n(2) by (simp add: word_less_nat_alt unat_MAX_SEQ unat_u64_max)
    then have "n < rs_next rs'" using n(3) word_Suc_less by simp
    have w': "nw_disk w' = en_disk e" "nw_procs w' = (nw_procs w)(i \<mapsto> rs')"
      "nw_issued w' = nw_issued w @ [n]" using draw(1) Inr by simp_all
    have only: "(nw_procs w)(i \<mapsto> rs') = [i \<mapsto> rs']"
    proof
      fix k show "((nw_procs w)(i \<mapsto> rs')) k = [i \<mapsto> rs'] k" using inv(3) [of k] by (cases "nw_procs w k") auto
    qed
    have "sorted_wrt (<) (nw_issued w)" using assms(3) by (simp add: node_inv_def)
    then have "sorted_wrt (<) (nw_issued w')" using inv(2) n(1) by (simp add: w' sorted_wrt_append)
    moreover have "m < MAX_SEQ \<and> safe j (Suc (unat m)) (nw_disk w') \<and> m < rs_next rs'" if "m \<in> set (nw_issued w')" for m
      using that old n(2,4) \<open>n < rs_next rs'\<close> by (auto simp: w')
    moreover have "rs_ok j rs' (nw_disk w')" "dk_locked (nw_disk w')" using d inv(4) by (simp_all add: w')
    ultimately show ?thesis using only by (intro node_invI [of w' j rs' i]) (simp_all add: w')
  qed
next
  case (stop i rs t)
  have "\<forall>k. nw_procs w i \<noteq> None \<and> nw_procs w k \<noteq> None \<longrightarrow> i = k"
    using assms(3) by (simp add: node_inv_def)
  then have "nw_procs w k = None" if "k \<noteq> i" for k using that stop(2) by blast
  then have "(nw_procs w)(i := None) = Map.empty" by auto
  then show ?thesis
    using stop(1) assms(3) by (simp add: node_inv_def safe_def candidates_def)
next
  case (power_cut f t)
  then show ?thesis using assms(3) by (auto simp: node_inv_def safe_def candidates_def)
qed

lemma node_inv_run:
  "(node_step j p)\<^sup>*\<^sup>* (node_init f) w \<Longrightarrow> json_laws j \<Longrightarrow> node_inv j w"
  by (induction rule: rtranclp_induct) (auto intro: node_inv_init node_inv_step)

section \<open>A malformed identity is kept\<close>

lemma malformed_kept:
  assumes "dk_name (en_disk e) = Some f" "from_json j f = None" "honest (en_faults e)"
    and "acquire j p e = (r, e') \<or> acquire_or_create j p seed e = (r, e')"
  shows "(\<exists>err. r = Inl err) \<and> dk_name (en_disk e') = Some f \<and> dk_cut (en_disk e') = dk_cut (en_disk e)"
proof -
  obtain r1 e1 where l: "lock_node_dir p e = (r1, e1)" by (cases "lock_node_dir p e")
  obtain r2 e2 where rd: "read_node_state j p e1 = (r2, e2)" by (cases "read_node_state j p e1")
  from lock_cases(1) [OF l] show ?thesis
  proof (elim disjE exE conjE)
    fix err assume "r1 = Inl err" "en_disk e1 = en_disk e"
    then show ?thesis using assms(1,4) l by (auto simp: acquire_def acquire_or_create_def)
  next
    assume lock: "r1 = Inr ()" "en_disk e1 = (en_disk e)\<lparr>dk_locked := True\<rparr>"
    have h: "honest (en_faults e1)" using assms(3) lock_cases(2) [OF l] by (auto simp: honest_def)
    obtain err where err: "r2 = Inl err"
      using read_cases(3) [OF rd] lock(2) assms(1,2) by (cases r2) auto
    have "err \<noteq> Not_enrolled q" for q
      using read_cases(4) [OF rd h] err lock(2) assms(1) by auto
    then have "r = Inl err" "e' = unlock e2"
      using assms(4) l rd lock err by (cases err; auto simp: acquire_def acquire_or_create_def)+
    then show ?thesis using read_cases(1) [OF rd] lock(2) assms(1) by (simp add: unlock_def)
  qed
qed

section \<open>A concrete store\<close>

text \<open>File contents that are the states themselves: the laws of \<open>json\<close> can hold.\<close>

definition toy_json :: "node_state json" where
  "toy_json =
     \<lparr>to_json = (\<lambda>st. Inr st), push_newline = id,
      from_json = (\<lambda>st. if wf_state st then Some st else None)\<rparr>"

lemma toy_json_laws: "json_laws toy_json"
  by (auto simp: json_laws_def toy_json_def split: if_splits)

definition toy_state :: node_state where
  "toy_state =
     \<lparr>ns_version = 2, ns_node_id = NodeId (replicate 16 1), ns_role = Host,
      ns_pair_key = PairKey (replicate 16 2), ns_forwarder_key = ForwarderKey (replicate 32 3),
      ns_forwarder_endpoint = [], ns_peer_node_id = NodeId (replicate 16 4), ns_peers = [],
      ns_seq_reservation = 1\<rparr>"

lemma toy_state_wf: "wf_state toy_state"
  by (simp add: wf_state_def wf_id_def wf_key_def toy_state_def)

text \<open>A first start that works, and the first sequence it hands out.\<close>

definition toy_env :: "node_state env" where
  "toy_env = \<lparr>en_disk = nw_disk (node_init (Some toy_state)), en_faults = []\<rparr>"

lemma toy_draw:
  "\<exists>a e q. acquire toy_json [] toy_env = (Inr a, e) \<and> en_faults e = [] \<and>
     reserved_next_seq toy_json (an_seq a, e) = (Inr 1, q)"
  by (simp add: acquire_def lock_node_dir_def io_call_def toy_env_def create_dir_all_def node_init_def
      read_node_state_def toy_json_def toy_state_wf finish_acquire_def reserved_open_def reserve_def
      Let_def write_node_state_def write_steps_def replace_file_def sync_parent_def toy_state_def
      wf_state_def wf_id_def wf_key_def sat_add_def MAX_SEQ_def RESERVATION_BLOCK_def
      reserved_next_seq_def word_le_nat_alt)

lemma toy_run: "\<exists>w. (node_step toy_json [])\<^sup>*\<^sup>* (node_init (Some toy_state)) w \<and> nw_issued w = [1]"
proof -
  obtain a e rs' e' where a: "acquire toy_json [] toy_env = (Inr a, e)" "en_faults e = []"
    and d: "reserved_next_seq toy_json (an_seq a, e) = (Inr 1, rs', e')" using toy_draw by auto
  let ?w0 = "node_init (Some toy_state)"
  define w1 where "w1 = ?w0\<lparr>nw_disk := en_disk e, nw_procs := (nw_procs ?w0)(0 \<mapsto> an_seq a)\<rparr>"
  define w2 where "w2 = w1\<lparr>nw_disk := en_disk e', nw_procs := (nw_procs w1)(0 \<mapsto> rs'),
    nw_issued := nw_issued w1 @ [1]\<rparr>"
  have "nw_procs ?w0 0 = None" "honest []" by (simp_all add: node_init_def honest_def)
  from node_step.start [OF this disjI1 [OF a(1) [unfolded toy_env_def]]]
  have s1: "node_step toy_json [] ?w0 w1" by (simp add: w1_def)
  have w1: "nw_disk w1 = en_disk e" "nw_procs w1 0 = Some (an_seq a)" "nw_issued w1 = []"
    by (simp_all add: w1_def node_init_def)
  have e: "\<lparr>en_disk = nw_disk w1, en_faults = []\<rparr> = e" unfolding w1(1) using a(2) by (cases e) simp
  have "reserved_next_seq toy_json (an_seq a, \<lparr>en_disk = nw_disk w1, en_faults = []\<rparr>) = (Inr 1, rs', e')"
    unfolding e by (rule d)
  from node_step.draw [OF w1(2) \<open>honest []\<close> this, where p = "[]"]
  have s2: "node_step toy_json [] w1 w2" by (simp add: w2_def)
  have "(node_step toy_json [])\<^sup>*\<^sup>* ?w0 w2" using s1 s2 by (meson rtranclp.simps)
  then show ?thesis using w1(3) by (intro exI [of _ w2]) (simp add: w2_def)
qed

end
