(* ===== verification/KeySession.thy ===== *)
theory KeySession
  imports KeyNonce SessionFacts
begin

text \<open>
  What a session relies on of its sequence source (\<open>trait SeqSource\<close> of \<open>keys/seq.rs\<close>) is the
  locale \<open>seq_source\<close>: the numbers it hands out grow.  Inside it: the sequences, and so the
  nonces, of the datagrams any sessions of one node draw from one source grow too.  The reserved
  source is an interpretation; the in-memory one is not (it saturates and repeats).
\<close>

section \<open>Sequences on the wire\<close>

definition datagram_seq :: "bytes \<Rightarrow> u64" where
  "datagram_seq d = (case oh_decode d of Inl _ \<Rightarrow> 0 | Inr h \<Rightarrow> oh_seq h)"

text \<open>\<open>ds\<close> carry growing sequences from \<open>a\<close> to below \<open>b\<close>, with the direction bit of \<open>r\<close>.\<close>

definition growing :: "role \<Rightarrow> nat \<Rightarrow> nat \<Rightarrow> bytes list \<Rightarrow> bool" where
  "growing r a b ds \<longleftrightarrow> a \<le> b \<and>
     (\<exists>ns. map datagram_seq ds = map (\<lambda>n. n OR direction_bit r) ns \<and> sorted_wrt (<) ns \<and>
        (\<forall>n \<in> set ns. a \<le> unat n \<and> unat n < b \<and> n < MAX_SEQ))"

lemma growing_Nil [simp]: "growing r a b [] \<longleftrightarrow> a \<le> b"
  by (auto simp: growing_def)

lemma growing_one:
  "datagram_seq d = n OR direction_bit r \<Longrightarrow> a \<le> unat n \<Longrightarrow> unat n < b \<Longrightarrow> n < MAX_SEQ \<Longrightarrow> growing r a b [d]"
  unfolding growing_def by (intro conjI exI [of _ "[n]"]) auto

lemma growing_append:
  assumes "growing r a b ds" "growing r b c es"
  shows "growing r a c (ds @ es)"
proof -
  obtain ns where ns: "map datagram_seq ds = map (\<lambda>n. n OR direction_bit r) ns" "sorted_wrt (<) ns"
    "\<forall>n \<in> set ns. a \<le> unat n \<and> unat n < b \<and> n < MAX_SEQ" and ab: "a \<le> b"
    using assms(1) by (auto simp: growing_def)
  obtain ms where ms: "map datagram_seq es = map (\<lambda>n. n OR direction_bit r) ms" "sorted_wrt (<) ms"
    "\<forall>n \<in> set ms. b \<le> unat n \<and> unat n < c \<and> n < MAX_SEQ" and bc: "b \<le> c"
    using assms(2) by (auto simp: growing_def)
  have "sorted_wrt (<) (ns @ ms)"
    using ns(2,3) ms(2,3) by (fastforce simp: sorted_wrt_append word_less_nat_alt)
  then show ?thesis
    unfolding growing_def using ab bc ns ms
    by (intro conjI exI [of _ "ns @ ms"]) (auto dest: bspec intro: order_trans less_le_trans)
qed

lemma direction_bit_free: "n < MAX_SEQ \<Longrightarrow> \<not> bit n 63"
proof -
  assume "n < MAX_SEQ"
  then have "unat n < 2 ^ 63" by (simp add: word_less_nat_alt unat_MAX_SEQ)
  then have "take_bit 63 (unat n) = unat n" by (simp add: take_bit_nat_eq_self)
  then have "\<not> bit (unat n) 63" by (metis bit_take_bit_iff less_irrefl)
  then show ?thesis by (simp add: bit_unsigned_iff)
qed

lemma bit_direction: "bit (direction_bit r) q \<longleftrightarrow> r = Owner \<and> q = 63"
proof -
  have "bit DIRECTION_MASK q \<longleftrightarrow> q = 63"
    by (simp only: DIRECTION_MASK_def bit_push_bit_iff bit_1_iff) auto
  then show ?thesis by (cases r) auto
qed

lemma seq_role_inject:
  assumes "m < MAX_SEQ" "n < MAX_SEQ" "m OR direction_bit r = n OR direction_bit r'"
  shows "m = n \<and> r = r'"
proof -
  have b: "bit m q \<or> (r = Owner \<and> q = 63) \<longleftrightarrow> bit n q \<or> (r' = Owner \<and> q = 63)" for q
    using assms(3) by (metis bit_or_iff bit_direction)
  note f = direction_bit_free [OF assms(1)] direction_bit_free [OF assms(2)]
  have "r = r'" using b [of 63] f by (cases r; cases r') auto
  moreover have "m = n" by (rule bit_eqI) (use b f in metis)
  ultimately show ?thesis by blast
qed

lemma growing_distinct: "growing r a b ds \<Longrightarrow> distinct (map datagram_seq ds)"
  unfolding growing_def
proof (elim conjE exE)
  fix ns assume ns: "map datagram_seq ds = map (\<lambda>n. n OR direction_bit r) ns" "sorted_wrt (<) ns"
    "\<forall>n \<in> set ns. a \<le> unat n \<and> unat n < b \<and> n < MAX_SEQ"
  then have "inj_on (\<lambda>n. n OR direction_bit r) (set ns)"
    using seq_role_inject by (fastforce intro: inj_onI)
  moreover have "distinct ns" using ns(2) by (simp add: strict_sorted_iff)
  ultimately show ?thesis unfolding ns(1) by (simp add: distinct_map)
qed

lemma growing_roles:
  assumes "growing r a b ds" "growing r' a' b' es" "r \<noteq> r'"
  shows "set (map datagram_seq ds) \<inter> set (map datagram_seq es) = {}"
proof -
  obtain ns ms where "map datagram_seq ds = map (\<lambda>n. n OR direction_bit r) ns"
    "map datagram_seq es = map (\<lambda>n. n OR direction_bit r') ms"
    "\<forall>n \<in> set ns. n < MAX_SEQ" "\<forall>n \<in> set ms. n < MAX_SEQ"
    using assms(1,2) unfolding growing_def by blast
  then show ?thesis using seq_role_inject assms(3) by (simp only: set_map) blast
qed

section \<open>The interface\<close>

locale seq_source =
  fixes nxt :: "'q \<Rightarrow> (key_error + u64) \<times> 'q" and ok :: "'q \<Rightarrow> bool" and lowest :: "'q \<Rightarrow> nat"
  assumes issued: "ok q \<Longrightarrow> nxt q = (Inr n, q') \<Longrightarrow>
      ok q' \<and> lowest q \<le> unat n \<and> unat n < lowest q' \<and> n < MAX_SEQ"
    and failed: "ok q \<Longrightarrow> nxt q = (Inl e, q') \<Longrightarrow> ok q' \<and> lowest q \<le> lowest q'"
begin

lemma build_growing:
  assumes "build c nxt i now hb s q = Ret (r, s', q')" "ok q" "digest_laws c" "session_ok s"
  shows "ok q' \<and> sc_role (se_config s') = sc_role (se_config s) \<and>
    growing (sc_role (se_config s)) (lowest q) (lowest q') (case r of Inl _ \<Rightarrow> [] | Inr d \<Rightarrow> [d])"
  using assms(1)
proof (cases rule: build_cases)
  case (no_instruction e)
  then show ?thesis using assms(2) by simp
next
  case (no_sequence ins e)
  then show ?thesis using failed [OF assms(2)] by simp
next
  case (built ins n reply pt)
  let ?h = "datagram_header s (n OR direction_bit (sc_role (se_config s))) hb"
  have "wf_header ?h" using assms(4) by (intro datagram_header_wf) (simp add: session_ok_def)
  then have "oh_decode (datagram_bytes c (se_config s) ?h pt) = Inr ?h"
    using oh_decode_signed length_tag_for [OF assms(3)]
    by (simp add: datagram_bytes_def oh_encode_def)
  then have "growing (sc_role (se_config s)) (lowest q) (lowest q') [datagram_bytes c (se_config s) ?h pt]"
    using issued [OF assms(2) built(2)] by (intro growing_one) (auto simp: datagram_seq_def)
  moreover have "se_config s' = se_config s"
    unfolding built(6) by (simp add: session_note_sent_def Let_def)
  ultimately show ?thesis using built(5) issued [OF assms(2) built(2)] by simp
qed

lemma build_all_growing:
  assumes "digest_laws c"
  shows "build_all c nxt due now out s q = Ret (r, s', q') \<Longrightarrow> ok q \<Longrightarrow> session_ok s \<Longrightarrow>
    ok q' \<and> sc_role (se_config s') = sc_role (se_config s) \<and> session_ok s' \<and> lowest q \<le> lowest q' \<and>
    (\<forall>ds. r = Inr ds \<longrightarrow>
       (\<exists>es. ds = out @ es \<and> growing (sc_role (se_config s)) (lowest q) (lowest q') es))"
proof (induction due arbitrary: out s q)
  case Nil
  then show ?case by auto
next
  case (Cons i due)
  obtain x s1 q1 where x: "build c nxt i now False s q = Ret (x, s1, q1)"
    using Cons.prems(1) by (cases "build c nxt i now False s q") auto
  note b = build_growing [OF x Cons.prems(2) assms Cons.prems(3)]
  have ok1: "session_ok s1" by (rule build_ok [OF x Cons.prems(3)])
  show ?case
  proof (cases x)
    case (Inl e)
    then show ?thesis using Cons.prems x b ok1 by auto
  next
    case (Inr d)
    have rest: "build_all c nxt due now (out @ [d]) s1 q1 = Ret (r, s', q')"
      using Cons.prems(1) x Inr by simp
    have d: "growing (sc_role (se_config s)) (lowest q) (lowest q1) [d]" using b Inr by simp
    have "lowest q \<le> lowest q1" using d by (simp add: growing_def)
    moreover note Cons.IH [OF rest _ ok1]
    ultimately show ?thesis using b growing_append [OF d] by fastforce
  qed
qed

lemma build_idle_growing:
  assumes "build_idle c nxt now s q = Ret (r, s', q')" "digest_laws c" "ok q" "session_ok s"
  shows "ok q' \<and> growing (sc_role (se_config s)) (lowest q) (lowest q') (case r of Inl _ \<Rightarrow> [] | Inr ds \<Rightarrow> ds)"
proof -
  have one: "ok q' \<and> growing (sc_role (se_config s)) (lowest q) (lowest q')
      (case map_sum id (\<lambda>d. [d]) x of Inl _ \<Rightarrow> [] | Inr ds \<Rightarrow> ds)"
    if "build c nxt i now hb s q = Ret (x, s', q')" for i hb x
    using build_growing [OF that assms(3,2,4)] by (cases x) auto
  show ?thesis
    using assms(1,3) one by (auto simp: build_idle_def split: option.splits if_splits)
qed

lemma outgoing_growing:
  assumes "outgoing c nxt now s q = Ret (r, s', q')" "digest_laws c" "ok q" "session_ok s"
  shows "ok q' \<and> growing (sc_role (se_config s)) (lowest q) (lowest q') (case r of Inl _ \<Rightarrow> [] | Inr ds \<Rightarrow> ds)"
proof (cases "floor_elapsed s now")
  case False
  then show ?thesis using assms(1,3) by (auto simp: outgoing_def)
next
  case True
  let ?due = "filter (\<lambda>i. channel_due s i now) (send_order s)"
  obtain x s1 q1 where x: "build_all c nxt ?due now [] s q = Ret (x, s1, q1)"
    using assms(1) True by (auto simp: outgoing_def Let_def)
  note b = build_all_growing [OF assms(2) x assms(3,4)]
  show ?thesis
  proof (cases x)
    case (Inl e)
    then show ?thesis using assms(1) True x b by (auto simp: outgoing_def Let_def)
  next
    case (Inr ds)
    then have ds: "growing (sc_role (se_config s)) (lowest q) (lowest q1) ds" using b by auto
    let ?s2 = "s1\<lparr>se_rotate := \<not> se_rotate s1\<rparr>"
    show ?thesis
    proof (cases "ds = []")
      case False
      then have "r = Inr ds" "q' = q1" using assms(1) True x Inr by (auto simp: outgoing_def Let_def)
      then show ?thesis using ds b by simp
    next
      case True
      then have idle: "build_idle c nxt now ?s2 q1 = Ret (r, s', q')"
        using assms(1) \<open>floor_elapsed s now\<close> x Inr by (auto simp: outgoing_def Let_def)
      have "session_ok ?s2" using b by (simp add: session_ok_def)
      from build_idle_growing [OF idle assms(2) _ this] b
      have "ok q' \<and> growing (sc_role (se_config s)) (lowest q1) (lowest q') (case r of Inl _ \<Rightarrow> [] | Inr ds \<Rightarrow> ds)"
        by auto
      then show ?thesis using ds True growing_append [OF ds] by simp
    qed
  qed
qed

end

text \<open>Everything the sessions of one node hand out, in order: each call of \<open>outgoing\<close> is of any
  session in any state, and all draw from the one source.\<close>

inductive node_sends ::
  "crypto \<Rightarrow> ('q \<Rightarrow> (key_error + u64) \<times> 'q) \<Rightarrow> role \<Rightarrow> 'q \<Rightarrow> bytes list \<Rightarrow> 'q \<Rightarrow> bool"
  for c nxt r q where
  none: "node_sends c nxt r q [] q"
| more: "\<lbrakk>node_sends c nxt r q ds q1; session_ok s; sc_role (se_config s) = r;
    outgoing c nxt now s q1 = Ret (res, s', q2)\<rbrakk> \<Longrightarrow>
    node_sends c nxt r q (ds @ (case res of Inl _ \<Rightarrow> [] | Inr es \<Rightarrow> es)) q2"

context seq_source
begin

lemma sends_growing:
  "node_sends c nxt r q ds q' \<Longrightarrow> digest_laws c \<Longrightarrow> ok q \<Longrightarrow> ok q' \<and> growing r (lowest q) (lowest q') ds"
proof (induction rule: node_sends.induct)
  case none
  then show ?case by simp
next
  case (more ds q1 s now res s' q2)
  then show ?case using outgoing_growing [of c now s q1 res s' q2] growing_append by fastforce
qed

end

section \<open>The reserved source\<close>

text \<open>An open reservation with a disk that says so: the state \<open>reserved_open\<close> leaves.\<close>

definition reserved_ok :: "'f json \<Rightarrow> reserved_seq \<times> 'f env \<Rightarrow> bool" where
  "reserved_ok j q \<longleftrightarrow> json_laws j \<and> rs_ok j (fst q) (en_disk (snd q))"

interpretation reserved: seq_source "reserved_next_seq j" "reserved_ok j" "\<lambda>q. unat (rs_next (fst q))" for j
proof
  fix q q' :: "reserved_seq \<times> 'a env" and n e
  assume ok: "reserved_ok j q"
  obtain rs env rs' env' where q: "q = (rs, env)" "q' = (rs', env')" by (cases q; cases q')
  {
    assume "reserved_next_seq j q = (Inr n, q')"
    then have "reserved_next_seq j (rs, env) = (Inr n, rs', env')" using q by simp
    note d = reserved_next_seq_disk [OF this]
    have n: "rs_ok j rs' (en_disk env')" "n = rs_next rs" "n < MAX_SEQ" "rs_next rs' = n + 1"
      using d ok q by (auto simp: reserved_ok_def)
    have "n < - 1" using n(3) by (simp add: word_less_nat_alt unat_MAX_SEQ unat_u64_max)
    then have "unat (rs_next rs') = Suc (unat n)" using n(4) unat_Suc by simp
    then show "reserved_ok j q' \<and> unat (rs_next (fst q)) \<le> unat n \<and> unat n < unat (rs_next (fst q')) \<and> n < MAX_SEQ"
      using n ok q by (simp add: reserved_ok_def)
  next
    assume "reserved_next_seq j q = (Inl e, q')"
    then have "reserved_next_seq j (rs, env) = (Inl e, rs', env')" using q by simp
    from reserved_next_seq_disk [OF this] ok q
    show "reserved_ok j q' \<and> unat (rs_next (fst q)) \<le> unat (rs_next (fst q'))"
      by (auto simp: reserved_ok_def word_le_nat_alt)
  }
qed

lemma acquired_ok:
  assumes "json_laws j" "acquire j p e = (Inr n, e')"
  shows "reserved_ok j (an_seq n, e')"
proof -
  have "\<not> dk_locked (en_disk e)" using acquire_busy(1) [OF _ assms(2)] by auto
  from acquire_started [OF assms(2,1) this] show ?thesis
    using assms(1) by (simp add: reserved_ok_def started_def)
qed

lemma growing_nonces:
  assumes "growing Owner a b ds" "growing Host a' b' es"
  shows "distinct (map (\<lambda>d. nonce_for (datagram_seq d)) (ds @ es))"
proof -
  have "distinct (map datagram_seq (ds @ es))"
    using growing_distinct [OF assms(1)] growing_distinct [OF assms(2)] growing_roles [OF assms] by auto
  then have "distinct (map nonce_for (map datagram_seq (ds @ es)))"
    by (subst distinct_map) (auto intro: inj_onI)
  then show ?thesis by (simp add: comp_def)
qed

text \<open>The in-memory source: within the 63-bit space it hands out one number after the other; at
  the top of \<open>u64\<close> it does not fail but repeats.\<close>

lemma memory_seq_grows: "ms_next m < - 1 \<Longrightarrow> memory_next_seq m = (Inr n, m') \<Longrightarrow> ms_next m' = n + 1 \<and> n < ms_next m'"
  using word_Suc_less [of "ms_next m"]
  by (auto simp: memory_next_seq_def sat_add_def word_less_nat_alt unat_u64_max)

lemma memory_seq_repeats:
  "memory_next_seq \<lparr>ms_next = - 1\<rparr> = (Inr (- 1), \<lparr>ms_next = - 1\<rparr>)"
  by (simp add: memory_next_seq_def sat_add_def unat_u64_max)

end
