(* ===== verification/LinkDriver.thy ===== *)
theory LinkDriver
  imports Session KeyStore
begin

text \<open>
  The driver of a running link (\<open>src/src/link/src/link\<close>): the configuration and its errors
  (\<open>types.rs\<close>), the direct route and its address learning (\<open>direct.rs\<close>), and the task that owns
  the sessions, the sequence source and the queue to the application (\<open>mod.rs\<close>).

  Each \<open>await\<close> of the task is a point between two of the operations below; no other task touches
  its state, so a run is a sequence of them.  The clock is an argument.  A \<open>HashMap\<close> is a partial
  function, and the order it iterates in, which the standard library leaves open, is an argument
  \<open>order\<close> of the operations that iterate.  The bounded channel to the application is the list of
  what was accepted and not yet received; name resolution is a function \<open>lookup\<close>.
\<close>

section \<open>Addresses and routes\<close>

datatype socket_addr = V4 bytes u16 | V6 bytes u16

fun is_ipv4 :: "socket_addr \<Rightarrow> bool" where
  "is_ipv4 (V4 _ _) = True"
| "is_ipv4 (V6 _ _) = False"

datatype route = Forwarder_route socket_addr | Direct_route socket_addr

fun route_accepts :: "route \<Rightarrow> socket_addr \<Rightarrow> bool" where
  "route_accepts (Forwarder_route address) from_addr = (address = from_addr)"
| "route_accepts (Direct_route _) from_addr = True"

fun route_destination :: "route \<Rightarrow> socket_addr" where
  "route_destination (Forwarder_route address) = address"
| "route_destination (Direct_route address) = address"

definition path_key :: "crypto \<Rightarrow> pair_key \<Rightarrow> forwarder_key" where
  "path_key c key = ForwarderKey (sha256 c (ascii ''medulla-link/1 direct-path'' @ key_bytes key))"

fun learn :: "route \<Rightarrow> session \<Rightarrow> socket_addr \<Rightarrow> route" where
  "learn (Forwarder_route address) s from_addr = Forwarder_route address"
| "learn (Direct_route address) s from_addr =
     (if address = from_addr \<or> \<not> se_advanced s then Direct_route address else Direct_route from_addr)"

section \<open>Configuration\<close>

record peer_config =
  pc_node_id :: node_id
  pc_pair_key :: pair_key

datatype link_path = Forwarder_path "rstr option" | Direct_path rstr

record link_config =
  lc_bind :: socket_addr
  lc_path :: link_path
  lc_peers :: "peer_config list"
  lc_queue_limits :: queue_limits
  lc_max_sent_states :: nat

definition link_config_new :: link_config where
  "link_config_new =
     \<lparr>lc_bind = V4 [0, 0, 0, 0] 0, lc_path = Forwarder_path None, lc_peers = [],
      lc_queue_limits = default_queue_limits, lc_max_sent_states = MAX_SENT_STATES\<rparr>"

datatype link_error =
    Link_key key_error | Link_io io_error | Link_endpoint rstr | Link_transport transport_error
  | Unknown_peer node_id | Direct_peer_count nat | Link_closed

fun link_is_retryable :: "link_error \<Rightarrow> bool" where
  "link_is_retryable (Link_transport e) = is_retryable e"
| "link_is_retryable _ = False"

fun resolve_loop :: "bool \<Rightarrow> socket_addr list \<Rightarrow> socket_addr option \<Rightarrow> socket_addr option" where
  "resolve_loop ipv4 [] mapped = mapped"
| "resolve_loop ipv4 (address # rest) mapped =
     (if is_ipv4 address = ipv4 then Some address
      else resolve_loop ipv4 rest
        (case (ipv4, address) of
           (False, V4 ip port) \<Rightarrow>
             (case mapped of None \<Rightarrow> Some (V6 (replicate 10 0 @ [255, 255] @ ip) port) | Some m \<Rightarrow> Some m)
         | _ \<Rightarrow> mapped))"

definition resolve :: "(rstr \<Rightarrow> socket_addr list option) \<Rightarrow> rstr \<Rightarrow> bool \<Rightarrow> link_error + socket_addr" where
  "resolve lookup endpoint ipv4 =
     (case lookup endpoint of
        None \<Rightarrow> Inl (Link_endpoint endpoint)
      | Some candidates \<Rightarrow>
          (case resolve_loop ipv4 candidates None of
             None \<Rightarrow> Inl (Link_endpoint endpoint)
           | Some address \<Rightarrow> Inr address))"

definition session_config_for ::
  "crypto \<Rightarrow> node_state \<Rightarrow> peer_config \<Rightarrow> queue_limits \<Rightarrow> nat \<Rightarrow> bool \<Rightarrow> session_config" where
  "session_config_for c node peer limits max_sent direct =
     \<lparr>sc_node_id = ns_node_id node, sc_peer_node_id = pc_node_id peer, sc_role = ns_role node,
      sc_pair_key = pc_pair_key peer,
      sc_forwarder_key = (if direct then path_key c (pc_pair_key peer) else ns_forwarder_key node),
      sc_queue_limits = limits, sc_max_sent_states = max_sent\<rparr>"

section \<open>Screen frames\<close>

definition SCREEN_FRAME_MAGIC :: bytes where "SCREEN_FRAME_MAGIC = ascii ''MSF1''"
definition SCREEN_FRAME_HEADER :: nat where "SCREEN_FRAME_HEADER = 12"

fun frame_body_loop :: "nat \<Rightarrow> nat \<Rightarrow> bytes list \<Rightarrow> bytes \<Rightarrow> bytes option" where
  "frame_body_loop count index [] body = Some body"
| "frame_body_loop count index (row # rest) body =
     (if length row < SCREEN_FRAME_HEADER \<or> take 4 row \<noteq> SCREEN_FRAME_MAGIC then None
      else if unat (be_u32 (slice 4 8 row)) \<noteq> count \<or> unat (be_u32 (slice 8 12 row)) \<noteq> index then None
      else frame_body_loop count (index + 1) rest (body @ drop SCREEN_FRAME_HEADER row))"

definition complete_screen_frame :: "bytes list \<Rightarrow> bytes option" where
  "complete_screen_frame rows =
     (if rows = [] then None else frame_body_loop (length rows) 0 rows [])"

fun chunks :: "nat \<Rightarrow> 'a list \<Rightarrow> 'a list list" where
  "chunks n [] = []"
| "chunks n (x # xs) = (if n = 0 then [] else take n (x # xs) # chunks n (drop n (x # xs)))"

definition FRAME_CAPACITY :: nat where
  "FRAME_CAPACITY = MAX_MESSAGE_BYTES - 20"

definition frame_row :: "nat \<Rightarrow> nat \<Rightarrow> bytes \<Rightarrow> bytes" where
  "frame_row count index chunk =
     SCREEN_FRAME_MAGIC @ u32_be (word_of_nat count) @ u32_be (word_of_nat index) @ chunk"

text \<open>\<open>send\<close> is one \<open>Command::Screen\<close> and its reply.\<close>

fun send_frame_loop ::
  "(bytes list \<Rightarrow> 'st \<Rightarrow> (link_error + unit) \<times> 'st) \<Rightarrow> nat \<Rightarrow> (nat \<times> bytes) list \<Rightarrow> bytes list \<Rightarrow> 'st \<Rightarrow>
   (link_error + unit) \<times> 'st" where
  "send_frame_loop send count [] rows st = (Inr (), st)"
| "send_frame_loop send count ((index, chunk) # rest) rows st =
     (case send (rows @ [frame_row count index chunk]) st of
        (Inl e, st1) \<Rightarrow> (Inl e, st1)
      | (Inr _, st1) \<Rightarrow> send_frame_loop send count rest (rows @ [frame_row count index chunk]) st1)"

definition send_screen_frame ::
  "(bytes list \<Rightarrow> 'st \<Rightarrow> (link_error + unit) \<times> 'st) \<Rightarrow> bytes \<Rightarrow> 'st \<Rightarrow> (link_error + unit) \<times> 'st" where
  "send_screen_frame send body st =
     (let count = max ((length body + FRAME_CAPACITY - 1) div FRAME_CAPACITY) 1
      in case send_frame_loop send count (enumerate 0 (chunks FRAME_CAPACITY body)) [] st of
           (Inl e, st1) \<Rightarrow> (Inl e, st1)
         | (Inr _, st1) \<Rightarrow> if body = [] then send [frame_row 1 0 []] st1 else (Inr (), st1))"

section \<open>The driver\<close>

definition INBOUND_CAPACITY :: nat where "INBOUND_CAPACITY = 1024"

record 'q driver =
  dr_route :: route
  dr_sessions :: "node_id \<Rightarrow> session option"
  dr_seq :: 'q
  dr_inbound :: "(node_id \<times> u64 \<times> bytes) list"
  dr_inbound_open :: bool
  dr_pending :: "node_id \<Rightarrow> (u64 \<times> bytes) list option"
  dr_cursor :: nat
  dr_last_screens :: "node_id \<Rightarrow> bytes list option"
  dr_status :: "node_id \<Rightarrow> session_status option"

definition configured_peers :: "link_config \<Rightarrow> node_state \<Rightarrow> peer_config list" where
  "configured_peers config node =
     (if lc_peers config = []
      then map (\<lambda>p. \<lparr>pc_node_id = ep_node_id p, pc_pair_key = ep_pair_key p\<rparr>) (enrolled_peers node)
      else lc_peers config)"

text \<open>\<open>collect\<close> into a map: of two peers with one node id the later one stays.  The random epoch of
  every session is drawn from \<open>epoch\<close>.\<close>

definition driver_new ::
  "crypto \<Rightarrow> link_config \<Rightarrow> node_state \<Rightarrow> 'q \<Rightarrow> route \<Rightarrow> (node_id \<Rightarrow> u64) \<Rightarrow> 'q driver" where
  "driver_new c config node seq rt epoch =
     (let direct = (case lc_path config of Direct_path _ \<Rightarrow> True | _ \<Rightarrow> False);
          mk = (\<lambda>p. (pc_node_id p,
                 session_new (session_config_for c node p (lc_queue_limits config) (lc_max_sent_states config) direct)
                   0 (epoch (pc_node_id p))))
      in \<lparr>dr_route = rt, dr_sessions = map_of (rev (map mk (configured_peers config node))), dr_seq = seq,
          dr_inbound = [], dr_inbound_open = True, dr_pending = Map.empty, dr_cursor = 0,
          dr_last_screens = Map.empty, dr_status = Map.empty\<rparr>)"

text \<open>The routing part of \<open>Link::connect\<close>, after the identity was acquired and the socket bound.\<close>

definition connect_route ::
  "(rstr \<Rightarrow> socket_addr list option) \<Rightarrow> link_config \<Rightarrow> node_state \<Rightarrow> link_error + route" where
  "connect_route lookup config node =
     (case lc_path config of
        Forwarder_path endpoint \<Rightarrow>
          map_sum id Forwarder_route
            (resolve lookup (case endpoint of None \<Rightarrow> ns_forwarder_endpoint node | Some e \<Rightarrow> e)
              (is_ipv4 (lc_bind config)))
      | Direct_path endpoint \<Rightarrow>
          (let peers = (if lc_peers config = [] then length (enrolled_peers node) else length (lc_peers config))
           in if peers \<noteq> 1 then Inl (Direct_peer_count peers)
              else map_sum id Direct_route (resolve lookup endpoint (is_ipv4 (lc_bind config)))))"

datatype command = Send node_id bytes | Screen node_id "bytes list"

fun handle_command :: "command \<Rightarrow> 'q driver \<Rightarrow> (link_error + unit) \<times> 'q driver" where
  "handle_command (Send peer body) d =
     (case dr_sessions d peer of
        None \<Rightarrow> (Inl (Unknown_peer peer), d)
      | Some s \<Rightarrow>
          (case queue_message body s of
             (r, s1) \<Rightarrow> (map_sum Link_transport id r, d\<lparr>dr_sessions := (dr_sessions d)(peer \<mapsto> s1)\<rparr>)))"
| "handle_command (Screen peer rows) d =
     (case dr_sessions d peer of
        None \<Rightarrow> (Inl (Unknown_peer peer), d)
      | Some s \<Rightarrow>
          (case set_screen rows s of
             (r, s1) \<Rightarrow> (map_sum Link_transport id r, d\<lparr>dr_sessions := (dr_sessions d)(peer \<mapsto> s1)\<rparr>)))"

text \<open>What an accepted datagram leaves for the application: the messages taken, and the frame of a
  screen that changed and is complete.\<close>

definition deliver :: "node_id \<Rightarrow> session \<Rightarrow> 'q driver \<Rightarrow> 'q driver outcome" where
  "deliver peer s d =
     (case take_messages s of (messages, s1) \<Rightarrow>
        (case se_peer_epoch s1 of
           None \<Rightarrow> Panic
         | Some epoch \<Rightarrow>
             (let screen = rg_rows (session_screen s1);
                  d1 = d\<lparr>dr_sessions := (dr_sessions d)(peer \<mapsto> s1),
                         dr_pending := (dr_pending d)(peer \<mapsto> map (Pair epoch) messages)\<rparr>
              in if dr_last_screens d1 peer = Some screen then Ret d1
                 else
                   let d2 = d1\<lparr>dr_last_screens := (dr_last_screens d1)(peer \<mapsto> screen)\<rparr>
                   in case complete_screen_frame screen of
                        None \<Rightarrow> Ret d2
                      | Some body \<Rightarrow>
                          Ret (d2\<lparr>dr_pending := (dr_pending d2)(peer \<mapsto> map (Pair epoch) messages @ [(epoch, body)])\<rparr>))))"

definition driver_datagram ::
  "crypto \<Rightarrow> u64 \<Rightarrow> bytes \<Rightarrow> socket_addr \<Rightarrow> 'q driver \<Rightarrow> 'q driver outcome" where
  "driver_datagram c now datagram from_addr d =
     (case oh_decode datagram of
        Inl _ \<Rightarrow> Ret d
      | Inr header \<Rightarrow>
          (case dr_sessions d (oh_src header) of
             None \<Rightarrow> Ret d
           | Some s \<Rightarrow>
               if (case dr_route d of Direct_route _ \<Rightarrow> True | _ \<Rightarrow> False) \<and>
                  \<not> verify_tag c datagram (path_key c (sc_pair_key (se_config s)))
               then Ret d
               else
                 let peer = oh_src header;
                     pending = (case dr_pending d peer of None \<Rightarrow> [] | Some p \<Rightarrow> p);
                     d1 = d\<lparr>dr_pending := (dr_pending d)(peer \<mapsto> pending)\<rparr>
                 in if pending \<noteq> [] then Ret d1
                    else
                      bind_outcome (handle_datagram c datagram now s) (\<lambda>(r, s1). case r of
                          Inl _ \<Rightarrow> Ret (d1\<lparr>dr_sessions := (dr_sessions d1)(peer \<mapsto> s1)\<rparr>)
                        | Inr _ \<Rightarrow> deliver peer s1 (d1\<lparr>dr_route := learn (dr_route d1) s1 from_addr\<rparr>))))"

text \<open>The loop of \<open>flush_inbound\<close> over the peers from \<open>start\<close> on; \<open>try_send\<close> is full at 1024.\<close>

fun flush_inbound_loop :: "node_id list \<Rightarrow> nat \<Rightarrow> nat list \<Rightarrow> 'q driver \<Rightarrow> 'q driver" where
  "flush_inbound_loop peers start [] d = d\<lparr>dr_cursor := (start + 1) mod length peers\<rparr>"
| "flush_inbound_loop peers start (offset # rest) d =
     (let index = (start + offset) mod length peers; peer = peers ! index
      in case dr_pending d peer of
           None \<Rightarrow> flush_inbound_loop peers start rest d
         | Some [] \<Rightarrow> flush_inbound_loop peers start rest d
         | Some ((epoch, message) # later) \<Rightarrow>
             if \<not> dr_inbound_open d then d\<lparr>dr_pending := (dr_pending d)(peer \<mapsto> later)\<rparr>
             else if length (dr_inbound d) \<ge> INBOUND_CAPACITY
             then d\<lparr>dr_cursor := (index + 1) mod length peers\<rparr>
             else flush_inbound_loop peers start rest
                    (d\<lparr>dr_pending := (dr_pending d)(peer \<mapsto> later),
                       dr_inbound := dr_inbound d @ [(peer, epoch, message)]\<rparr>))"

definition flush_inbound :: "node_id list \<Rightarrow> 'q driver \<Rightarrow> 'q driver" where
  "flush_inbound order d =
     (if order = [] then d
      else flush_inbound_loop order (dr_cursor d mod length order) [0..<length order] d)"

text \<open>\<open>flush\<close>: what every session says is due, and where it goes.\<close>

fun flush_loop ::
  "crypto \<Rightarrow> ('q \<Rightarrow> (key_error + u64) \<times> 'q) \<Rightarrow> u64 \<Rightarrow> node_id list \<Rightarrow> (socket_addr \<times> bytes) list \<Rightarrow>
   'q driver \<Rightarrow> ((socket_addr \<times> bytes) list \<times> 'q driver) outcome" where
  "flush_loop c nxt now [] sent d = Ret (sent, d)"
| "flush_loop c nxt now (peer # rest) sent d =
     (case dr_sessions d peer of
        None \<Rightarrow> flush_loop c nxt now rest sent d
      | Some s \<Rightarrow>
          bind_outcome (outgoing c nxt now s (dr_seq d)) (\<lambda>(r, s1, q1).
            let d1 = d\<lparr>dr_sessions := (dr_sessions d)(peer \<mapsto> s1), dr_seq := q1\<rparr>
            in case r of
                 Inl _ \<Rightarrow> flush_loop c nxt now rest sent d1
               | Inr datagrams \<Rightarrow>
                   flush_loop c nxt now rest
                     (sent @ map (Pair (route_destination (dr_route d))) datagrams) d1))"

definition flush ::
  "crypto \<Rightarrow> ('q \<Rightarrow> (key_error + u64) \<times> 'q) \<Rightarrow> u64 \<Rightarrow> node_id list \<Rightarrow> 'q driver \<Rightarrow>
   ((socket_addr \<times> bytes) list \<times> 'q driver) outcome" where
  "flush c nxt now order d = flush_loop c nxt now order [] d"

definition publish_status :: "u64 \<Rightarrow> 'q driver \<Rightarrow> 'q driver" where
  "publish_status now d = d\<lparr>dr_status := (\<lambda>p. map_option (\<lambda>s. session_status_of s now) (dr_sessions d p))\<rparr>"

text \<open>How long \<open>run\<close> sleeps when nothing arrives.\<close>

definition wake_delay :: "u64 \<Rightarrow> node_id list \<Rightarrow> 'q driver \<Rightarrow> u64" where
  "wake_delay now order d =
     (let times = map (\<lambda>s. next_send_ms s now) (List.map_filter (dr_sessions d) order);
          wake = (case times of [] \<Rightarrow> now + 1000 | t # ts \<Rightarrow> fold min ts t)
      in max (sat_sub wake now) 1)"

end
