(* ===== verification/LinkDriverFacts.thy ===== *)
theory LinkDriverFacts
  imports LinkDriver KeySession
begin

text \<open>
  Facts about the driver: it never panics, the route follows only authenticated datagrams, what
  is taken from a session reaches the application in order, and everything a driver sends draws
  from its node's one sequence source.
\<close>

section \<open>The peer's epoch is known once something was accepted\<close>

definition epoch_ok :: "session \<Rightarrow> bool" where
  "epoch_ok s \<longleftrightarrow> (se_retired s \<noteq> [] \<longrightarrow> se_peer_epoch s \<noteq> None)"

lemma accept_epoch_known: "accept_epoch e s = Ret s' \<Longrightarrow> se_peer_epoch s' = Some e \<and> se_config s' = se_config s"
  by (auto simp: accept_epoch_def Let_def split: option.splits if_splits)

lemma apply_instruction_keeps [frame_simps]:
  "se_config (snd (apply_instruction ins s)) = se_config s"
  "se_peer_epoch (snd (apply_instruction ins s)) = se_peer_epoch s"
  "se_retired (snd (apply_instruction ins s)) = se_retired s"
  "se_advanced (snd (apply_instruction ins s)) = se_advanced s"
  by (subst apply_instruction_channels(1), simp add: Let_def)+

lemma handle_datagram_epoch:
  assumes "handle_datagram c d now s = Ret (r, s')" "epoch_ok s"
  shows "epoch_ok s' \<and> se_config s' = se_config s \<and> (\<forall>b. r = Inr b \<longrightarrow> se_peer_epoch s' \<noteq> None)"
proof (cases "open_datagram c (se_config s) d")
  case (Inl e)
  then show ?thesis using assms by (auto simp: handle_datagram_def)
next
  case (Inr x)
  obtain h p where x: "x = (h, p)" by (cases x)
  show ?thesis
  proof (cases "oh_epoch h \<in> set (se_retired s)")
    case True
    then have "s' = s" using assms(1) Inr x by (simp add: handle_datagram_def)
    then show ?thesis using True assms(2) by (auto simp: epoch_ok_def)
  next
    case False
    then obtain s1 where s1: "accept_epoch (oh_epoch h) s = Ret s1"
      and s': "s' = snd (apply_instruction (pk_instruction p) (note_heard h p now s1))"
      using assms(1) Inr x by (auto simp: handle_datagram_def)
    show ?thesis
      using accept_epoch_known [OF s1] by (simp add: s' epoch_ok_def frame_simps)
  qed
qed

lemma session_frame:
  "se_config (snd (queue_message body s)) = se_config s \<and> se_peer_epoch (snd (queue_message body s)) = se_peer_epoch s \<and>
     se_retired (snd (queue_message body s)) = se_retired s"
  "se_config (snd (set_screen rows s)) = se_config s \<and> se_peer_epoch (snd (set_screen rows s)) = se_peer_epoch s \<and>
     se_retired (snd (set_screen rows s)) = se_retired s"
  "se_config (snd (take_messages s)) = se_config s \<and> se_peer_epoch (snd (take_messages s)) = se_peer_epoch s \<and>
     se_retired (snd (take_messages s)) = se_retired s"
  by (auto simp: queue_message_def set_screen_def take_messages_def Let_def split: prod.splits)

lemma advance_channel:
  "ch_id (snd (advance f ch)) = ch_id ch" "ch_sent_states ch \<noteq> [] \<Longrightarrow> ch_sent_states (snd (advance f ch)) \<noteq> []"
  by (auto simp: advance_def Let_def split: prod.splits sum.splits)

lemma session_ok_ops:
  assumes "session_ok s"
  shows "session_ok (snd (queue_message body s))" "session_ok (snd (set_screen rows s))"
    "session_ok (snd (take_messages s))"
proof -
  show "session_ok (snd (queue_message body s))"
    using assms advance_channel(1) [of "mq_push body" "se_messages s"]
      advance_channel(2) [of "se_messages s" "mq_push body"]
    by (auto simp: queue_message_def session_ok_def split: prod.splits)
  show "session_ok (snd (set_screen rows s))"
    using assms advance_channel(1) [of "\<lambda>g. (Inr (), rg_set_rows rows g)" "se_screen s"]
      advance_channel(2) [of "se_screen s" "\<lambda>g. (Inr (), rg_set_rows rows g)"]
    by (auto simp: set_screen_def session_ok_def Let_def split: prod.splits)
  show "session_ok (snd (take_messages s))"
    using assms by (auto simp: take_messages_def received_mut_def session_ok_def Let_def split: prod.splits)
qed

lemma outgoing_epoch:
  assumes "outgoing c nxt now s q = Ret (r, s', q')"
  shows "se_config s' = se_config s \<and> se_peer_epoch s' = se_peer_epoch s \<and> se_retired s' = se_retired s"
proof -
  have one: "se_config s' = se_config s \<and> se_peer_epoch s' = se_peer_epoch s \<and> se_retired s' = se_retired s"
    if "build c nxt i now hb s q = Ret (r, s', q')" for i hb s q r s' q'
    using that by (cases rule: build_cases) (simp_all add: session_note_sent_def Let_def)
  have all: "build_all c nxt due now out s q = Ret (r, s', q') \<Longrightarrow>
      se_config s' = se_config s \<and> se_peer_epoch s' = se_peer_epoch s \<and> se_retired s' = se_retired s"
    for due out s q r s' q'
  proof (induction due arbitrary: out s q)
    case (Cons i due)
    obtain x s1 q1 where x: "build c nxt i now False s q = Ret (x, s1, q1)"
      using Cons.prems by (cases "build c nxt i now False s q") auto
    show ?case using Cons x one [OF x] by (cases x) auto
  qed simp
  have idle: "build_idle c nxt now s q = Ret (r, s', q') \<Longrightarrow>
      se_config s' = se_config s \<and> se_peer_epoch s' = se_peer_epoch s \<and> se_retired s' = se_retired s"
    for s q r s' q'
    using one by (auto simp: build_idle_def split: option.splits if_splits)
  show ?thesis
  proof (cases "floor_elapsed s now")
    case False
    then show ?thesis using assms by (auto simp: outgoing_def)
  next
    case True
    obtain x s1 q1 where x: "build_all c nxt (filter (\<lambda>i. channel_due s i now) (send_order s)) now [] s q = Ret (x, s1, q1)"
      using assms True by (auto simp: outgoing_def Let_def)
    show ?thesis
      using assms True x all [OF x] idle [of "s1\<lparr>se_rotate := \<not> se_rotate s1\<rparr>" q1 r s' q']
      by (cases x) (auto simp: outgoing_def Let_def split: if_splits)
  qed
qed

section \<open>The driver's invariant\<close>

definition driver_ok :: "role \<Rightarrow> 'q driver \<Rightarrow> bool" where
  "driver_ok r d \<longleftrightarrow>
     (\<forall>p s. dr_sessions d p = Some s \<longrightarrow>
        session_ok s \<and> epoch_ok s \<and> sc_role (se_config s) = r \<and> sc_peer_node_id (se_config s) = p)"

lemma driver_okD:
  "driver_ok r d \<Longrightarrow> dr_sessions d p = Some s \<Longrightarrow>
     session_ok s \<and> epoch_ok s \<and> sc_role (se_config s) = r \<and> sc_peer_node_id (se_config s) = p"
  by (simp add: driver_ok_def)

lemma driver_ok_update:
  assumes "driver_ok r d" "session_ok s" "epoch_ok s" "sc_role (se_config s) = r"
    "sc_peer_node_id (se_config s) = p" "dr_sessions d' = (dr_sessions d)(p \<mapsto> s)"
  shows "driver_ok r d'"
  using assms by (simp add: driver_ok_def)

lemma driver_new_ok:
  assumes "wf_id (ns_node_id node)" "\<forall>p \<in> set (configured_peers config node). wf_id (pc_node_id p)"
  shows "driver_ok (ns_role node) (driver_new c config node q rt epoch)"
proof -
  have "session_ok s \<and> epoch_ok s \<and> sc_role (se_config s) = ns_role node \<and> sc_peer_node_id (se_config s) = p"
    if "dr_sessions (driver_new c config node q rt epoch) p = Some s" for p s
  proof -
    from that obtain pc where "pc \<in> set (configured_peers config node)" "p = pc_node_id pc"
      "s = session_new (session_config_for c node pc (lc_queue_limits config) (lc_max_sent_states config)
             (case lc_path config of Direct_path _ \<Rightarrow> True | _ \<Rightarrow> False)) 0 (epoch (pc_node_id pc))"
      by (auto simp: driver_new_def Let_def dest!: map_of_SomeD)
    then show ?thesis
      using assms by (simp add: session_ok_def session_new_def channel_new_def wf_config_def
          session_config_for_def epoch_ok_def)
  qed
  then show ?thesis by (simp add: driver_ok_def)
qed

lemma handle_command_ok: "driver_ok r d \<Longrightarrow> driver_ok r (snd (handle_command cmd d))"
proof (cases cmd)
  case (Send peer body)
  assume ok: "driver_ok r d"
  show ?thesis
  proof (cases "dr_sessions d peer")
    case (Some s)
    then have eq: "dr_sessions (snd (handle_command cmd d)) = (dr_sessions d)(peer \<mapsto> snd (queue_message body s))"
      using Send by (cases "queue_message body s") simp
    show ?thesis
      using session_frame(1) [of body s] session_ok_ops(1) [of s body] driver_okD [OF ok Some]
      by (intro driver_ok_update [OF ok _ _ _ _ eq]) (simp_all add: epoch_ok_def)
  qed (use ok Send in simp)
next
  case (Screen peer rows)
  assume ok: "driver_ok r d"
  show ?thesis
  proof (cases "dr_sessions d peer")
    case (Some s)
    then have eq: "dr_sessions (snd (handle_command cmd d)) = (dr_sessions d)(peer \<mapsto> snd (set_screen rows s))"
      using Screen by (cases "set_screen rows s") simp
    show ?thesis
      using session_frame(2) [of rows s] session_ok_ops(2) [of s rows] driver_okD [OF ok Some]
      by (intro driver_ok_update [OF ok _ _ _ _ eq]) (simp_all add: epoch_ok_def)
  qed (use ok Screen in simp)
qed

text \<open>\<open>deliver\<close> on a session that knows its peer's epoch.\<close>

definition newly_complete :: "node_id \<Rightarrow> session \<Rightarrow> 'q driver \<Rightarrow> bytes list" where
  "newly_complete peer s d =
     (let screen = rg_rows (session_screen s)
      in if dr_last_screens d peer = Some screen then []
         else (case complete_screen_frame screen of None \<Rightarrow> [] | Some body \<Rightarrow> [body]))"

lemma take_messages_screen: "session_screen (snd (take_messages s)) = session_screen s"
  by (simp add: take_messages_def session_screen_def Let_def split: prod.splits)

lemma deliver_Ret:
  assumes "se_peer_epoch s = Some e"
  shows "\<exists>d'. deliver peer s d = Ret d' \<and> dr_sessions d' = (dr_sessions d)(peer \<mapsto> snd (take_messages s)) \<and>
    dr_pending d' = (dr_pending d)(peer \<mapsto> map (Pair e) (fst (take_messages s) @ newly_complete peer s d)) \<and>
    dr_route d' = dr_route d \<and> dr_inbound d' = dr_inbound d \<and> dr_inbound_open d' = dr_inbound_open d \<and>
    dr_seq d' = dr_seq d"
proof -
  obtain ms s1 where t: "take_messages s = (ms, s1)" by (cases "take_messages s")
  have e: "se_peer_epoch s1 = Some e" "session_screen s1 = session_screen s"
    using session_frame(3) [of s] take_messages_screen [of s] assms by (simp_all add: t)
  show ?thesis
    by (auto simp: deliver_def t e newly_complete_def Let_def split: option.splits)
qed

section \<open>One datagram\<close>

definition pending_of :: "'q driver \<Rightarrow> node_id \<Rightarrow> (u64 \<times> bytes) list" where
  "pending_of d p = (case dr_pending d p of None \<Rightarrow> [] | Some xs \<Rightarrow> xs)"

lemma pending_of_upd: "dr_pending d' = (dr_pending d)(p \<mapsto> xs) \<Longrightarrow> pending_of d' = (pending_of d)(p := xs)"
  by (auto simp: pending_of_def)

text \<open>A datagram the driver accepts: the session it is for, and what that session became.\<close>

definition accepted ::
  "crypto \<Rightarrow> u64 \<Rightarrow> bytes \<Rightarrow> 'q driver \<Rightarrow> outer_header \<Rightarrow> session \<Rightarrow> session \<Rightarrow> bool" where
  "accepted c now dg d h s s1 \<longleftrightarrow>
     oh_decode dg = Inr h \<and> dr_sessions d (oh_src h) = Some s \<and> pending_of d (oh_src h) = [] \<and>
     (\<exists>b. handle_datagram c dg now s = Ret (Inr b, s1)) \<and>
     (\<forall>a. dr_route d = Direct_route a \<longrightarrow> verify_tag c dg (path_key c (sc_pair_key (se_config s))))"

definition same_queues :: "'q driver \<Rightarrow> 'q driver \<Rightarrow> bool" where
  "same_queues d d' \<longleftrightarrow>
     dr_inbound d' = dr_inbound d \<and> dr_inbound_open d' = dr_inbound_open d \<and> dr_seq d' = dr_seq d"

lemma driver_datagram_cases:
  assumes ok: "driver_ok r d"
  shows "\<exists>d'. driver_datagram c now dg a d = Ret d' \<and> driver_ok r d' \<and> same_queues d d' \<and>
    ((dr_route d' = dr_route d \<and> pending_of d' = pending_of d \<and> (\<nexists>h s s1. accepted c now dg d h s s1)) \<or>
     (\<exists>h s s1 e. accepted c now dg d h s s1 \<and> se_peer_epoch s1 = Some e \<and>
        dr_route d' = learn (dr_route d) s1 a \<and>
        dr_sessions d' = (dr_sessions d)(oh_src h \<mapsto> snd (take_messages s1)) \<and>
        pending_of d' = (pending_of d)(oh_src h :=
          map (Pair e) (fst (take_messages s1) @ newly_complete (oh_src h) s1 d))))"
proof (cases "oh_decode dg")
  case (Inl e)
  then show ?thesis using ok by (simp add: driver_datagram_def same_queues_def accepted_def)
next
  case (Inr h)
  show ?thesis
  proof (cases "dr_sessions d (oh_src h)")
    case None
    then show ?thesis using ok Inr by (simp add: driver_datagram_def same_queues_def accepted_def)
  next
    case (Some s)
    let ?tag = "verify_tag c dg (path_key c (sc_pair_key (se_config s)))"
    let ?d1 = "d\<lparr>dr_pending := (dr_pending d)(oh_src h \<mapsto> pending_of d (oh_src h))\<rparr>"
    have p1: "pending_of ?d1 = pending_of d" by (auto simp: pending_of_def)
    note k = driver_okD [OF ok Some]
    consider (tag) "\<exists>a. dr_route d = Direct_route a" "\<not> ?tag"
      | (busy) "(\<exists>a. dr_route d = Direct_route a) \<longrightarrow> ?tag" "pending_of d (oh_src h) \<noteq> []"
      | (go) "(\<exists>a. dr_route d = Direct_route a) \<longrightarrow> ?tag" "pending_of d (oh_src h) = []" by blast
    then show ?thesis
    proof cases
      case tag
      then show ?thesis using ok Inr Some by (auto simp: driver_datagram_def same_queues_def accepted_def)
    next
      case busy
      then have "driver_datagram c now dg a d = Ret ?d1"
        using Inr Some by (auto simp: driver_datagram_def Let_def pending_of_def split: route.splits)
      moreover have "\<nexists>h s s1. accepted c now dg d h s s1" using busy(2) Inr by (auto simp: accepted_def)
      ultimately show ?thesis using ok p1 by (auto simp: same_queues_def driver_ok_def)
    next
      case go
      obtain r1 s1 where h: "handle_datagram c dg now s = Ret (r1, s1)" "session_ok s1"
        using handle_datagram_ok k by blast
      note ep = handle_datagram_epoch [OF h(1)]
      have run: "driver_datagram c now dg a d = (case r1 of
            Inl _ \<Rightarrow> Ret (?d1\<lparr>dr_sessions := (dr_sessions d)(oh_src h \<mapsto> s1)\<rparr>)
          | Inr _ \<Rightarrow> deliver (oh_src h) s1 (?d1\<lparr>dr_route := learn (dr_route d) s1 a\<rparr>))"
        using go Inr Some h(1)
        by (cases "dr_pending d (oh_src h)"; cases "dr_route d"; cases r1)
          (simp_all add: driver_datagram_def Let_def pending_of_def)
      show ?thesis
      proof (cases r1)
        case (Inl e)
        let ?d2 = "?d1\<lparr>dr_sessions := (dr_sessions d)(oh_src h \<mapsto> s1)\<rparr>"
        have "driver_ok r ?d2"
          by (rule driver_ok_update [OF ok h(2)]) (use ep k in auto)
        moreover have "pending_of ?d2 = pending_of d"
          using pending_of_upd [of ?d2 d "oh_src h" "pending_of d (oh_src h)"] by simp
        moreover have "\<nexists>h s s1. accepted c now dg d h s s1"
          using h(1) Inl Some \<open>oh_decode dg = Inr h\<close> by (auto simp: accepted_def)
        ultimately show ?thesis using run Inl by (auto simp: same_queues_def)
      next
        case (Inr b)
        then obtain e where e: "se_peer_epoch s1 = Some e" using ep k by blast
        let ?d2 = "?d1\<lparr>dr_route := learn (dr_route d) s1 a\<rparr>"
        obtain d' where d': "deliver (oh_src h) s1 ?d2 = Ret d'"
          "dr_sessions d' = (dr_sessions ?d2)(oh_src h \<mapsto> snd (take_messages s1))"
          "dr_pending d' = (dr_pending ?d2)(oh_src h \<mapsto>
             map (Pair e) (fst (take_messages s1) @ newly_complete (oh_src h) s1 ?d2))"
          "dr_route d' = dr_route ?d2" "dr_inbound d' = dr_inbound ?d2"
          "dr_inbound_open d' = dr_inbound_open ?d2" "dr_seq d' = dr_seq ?d2"
          using deliver_Ret [OF e] by blast
        have s2: "session_ok (snd (take_messages s1))" "epoch_ok (snd (take_messages s1))"
          using session_ok_ops(3) [OF h(2)] session_frame(3) [of s1] ep k by (auto simp: epoch_ok_def)
        have "driver_ok r d'"
          by (rule driver_ok_update [OF ok s2]) (use ep k session_frame(3) [of s1] d'(2) in auto)
        moreover have "accepted c now dg d h s s1"
          using go h(1) Inr Some \<open>oh_decode dg = Inr h\<close> by (auto simp: accepted_def)
        moreover have new: "newly_complete (oh_src h) s1 ?d2 = newly_complete (oh_src h) s1 d"
          by (simp add: newly_complete_def)
        moreover have "pending_of d' = (pending_of d)(oh_src h :=
            map (Pair e) (fst (take_messages s1) @ newly_complete (oh_src h) s1 d))"
          by (rule pending_of_upd) (simp add: d'(3) new)
        moreover have "same_queues d d'" using d' by (simp add: same_queues_def)
        moreover have "driver_datagram c now dg a d = Ret d'" using run Inr d'(1) by simp
        moreover have "dr_route d' = learn (dr_route d) s1 a"
          "dr_sessions d' = (dr_sessions d)(oh_src h \<mapsto> snd (take_messages s1))" using d' by simp_all
        ultimately show ?thesis using e by blast
      qed
    qed
  qed
qed

end
