(* ===== verification/LinkRun.thy ===== *)
theory LinkRun
  imports LinkDriverFacts
begin

text \<open>
  Runs of one driver: any interleaving of datagrams, application commands, flushes of the sessions,
  moves to the application's queue and receipts by the application, with what each of them leaves
  on the wire and with the application.
\<close>

section \<open>The queue to the application\<close>

text \<open>What is on its way to the application from one peer, oldest first.\<close>

definition stream_of :: "'q driver \<Rightarrow> node_id \<Rightarrow> (u64 \<times> bytes) list" where
  "stream_of d p = map snd (filter (\<lambda>x. fst x = p) (dr_inbound d)) @ pending_of d p"

definition same_sessions :: "'q driver \<Rightarrow> 'q driver \<Rightarrow> bool" where
  "same_sessions d d' \<longleftrightarrow> dr_sessions d' = dr_sessions d \<and> dr_route d' = dr_route d \<and> dr_seq d' = dr_seq d"

lemma driver_ok_same: "driver_ok r d \<Longrightarrow> same_sessions d d' \<Longrightarrow> driver_ok r d'"
  by (simp add: driver_ok_def same_sessions_def)

lemma flush_inbound_loop_keeps:
  "length (dr_inbound d) \<le> INBOUND_CAPACITY \<Longrightarrow> dr_inbound_open d \<Longrightarrow>
   (let d' = flush_inbound_loop peers start offs d in
     same_sessions d d' \<and> dr_inbound_open d' \<and> length (dr_inbound d') \<le> INBOUND_CAPACITY \<and>
     stream_of d' = stream_of d)"
proof (induction offs arbitrary: d)
  case Nil
  then show ?case by (simp add: Let_def same_sessions_def stream_of_def [abs_def] pending_of_def)
next
  case (Cons off offs)
  let ?i = "(start + off) mod length peers"
  let ?p = "peers ! ?i"
  consider (skip) "pending_of d ?p = []"
    | (full) x xs where "dr_pending d ?p = Some (x # xs)" "length (dr_inbound d) \<ge> INBOUND_CAPACITY"
    | (move) x xs where "dr_pending d ?p = Some (x # xs)" "length (dr_inbound d) < INBOUND_CAPACITY"
    by (cases "dr_pending d ?p"; cases "the (dr_pending d ?p)";
      cases "length (dr_inbound d) < INBOUND_CAPACITY") (auto simp: pending_of_def not_less)
  then show ?case
  proof cases
    case skip
    then have "flush_inbound_loop peers start (off # offs) d = flush_inbound_loop peers start offs d"
      by (auto simp: pending_of_def Let_def split: option.splits)
    then show ?thesis using Cons by simp
  next
    case full
    then show ?thesis using Cons.prems
      by (cases x) (simp add: Let_def same_sessions_def stream_of_def [abs_def] pending_of_def)
  next
    case move
    obtain e m where x: "x = (e, m)" by (cases x)
    let ?d1 = "d\<lparr>dr_pending := (dr_pending d)(?p \<mapsto> xs), dr_inbound := dr_inbound d @ [(?p, e, m)]\<rparr>"
    have run: "flush_inbound_loop peers start (off # offs) d = flush_inbound_loop peers start offs ?d1"
      using move x Cons.prems by (simp add: Let_def)
    have "stream_of ?d1 = stream_of d"
      using move x by (auto simp: stream_of_def pending_of_def)
    moreover have "same_sessions d ?d1" by (simp add: same_sessions_def)
    moreover have "length (dr_inbound ?d1) \<le> INBOUND_CAPACITY" using move by simp
    ultimately show ?thesis
      using Cons.IH [of ?d1] Cons.prems(2) unfolding run by (simp add: Let_def same_sessions_def)
  qed
qed

lemma flush_inbound_keeps:
  assumes "length (dr_inbound d) \<le> INBOUND_CAPACITY" "dr_inbound_open d"
  shows "same_sessions d (flush_inbound order d)" "dr_inbound_open (flush_inbound order d)"
    "length (dr_inbound (flush_inbound order d)) \<le> INBOUND_CAPACITY"
    "stream_of (flush_inbound order d) = stream_of d"
  using flush_inbound_loop_keeps [OF assms] assms
  by (auto simp: flush_inbound_def Let_def same_sessions_def)

text \<open>With room for one message of every peer, the oldest of each moves.\<close>

lemma flush_inbound_loop_moves:
  assumes "distinct peers" "start < length peers"
  shows "distinct (map (\<lambda>k. (start + k) mod length peers) offs) \<Longrightarrow> dr_inbound_open d \<Longrightarrow>
    length (dr_inbound d) + length offs \<le> INBOUND_CAPACITY \<Longrightarrow>
    pending_of (flush_inbound_loop peers start offs d) p =
      (if p \<in> set (map (\<lambda>k. peers ! ((start + k) mod length peers)) offs)
       then tl (pending_of d p) else pending_of d p)"
proof (induction offs arbitrary: d)
  case Nil
  then show ?case by (simp add: pending_of_def)
next
  case (Cons off offs)
  let ?i = "(start + off) mod length peers"
  let ?p = "peers ! ?i"
  let ?rest = "set (map (\<lambda>k. peers ! ((start + k) mod length peers)) offs)"
  have bound: "(start + k) mod length peers < length peers" for k
    by (rule mod_less_divisor [OF order_le_less_trans [OF le0 assms(2)]])
  have fresh: "?p \<notin> ?rest"
  proof
    assume "?p \<in> ?rest"
    then obtain k' where o: "k' \<in> set offs" "?p = peers ! ((start + k') mod length peers)" by auto
    then have "?i = (start + k') mod length peers"
      using assms(1) bound by (simp add: nth_eq_iff_index_eq)
    then show False using Cons.prems(1) o(1) by auto
  qed
  have cap: "length (dr_inbound d) < INBOUND_CAPACITY" using Cons.prems(3) by simp
  consider (skip) "pending_of d ?p = []" | (move) e m xs where "dr_pending d ?p = Some ((e, m) # xs)"
    by (cases "dr_pending d ?p"; cases "the (dr_pending d ?p)") (auto simp: pending_of_def)
  then show ?case
  proof cases
    case skip
    then have run: "flush_inbound_loop peers start (off # offs) d = flush_inbound_loop peers start offs d"
      by (auto simp: pending_of_def Let_def split: option.splits)
    have "pending_of (flush_inbound_loop peers start offs d) p =
        (if p \<in> ?rest then tl (pending_of d p) else pending_of d p)"
      using Cons.IH [of d] Cons.prems by simp
    then show ?thesis unfolding run using skip by auto
  next
    case move
    let ?d1 = "d\<lparr>dr_pending := (dr_pending d)(?p \<mapsto> xs), dr_inbound := dr_inbound d @ [(?p, e, m)]\<rparr>"
    have run: "flush_inbound_loop peers start (off # offs) d = flush_inbound_loop peers start offs ?d1"
      using move cap Cons.prems(2) by (simp add: Let_def)
    have p1: "pending_of ?d1 p = (if p = ?p then tl (pending_of d p) else pending_of d p)"
      using move by (auto simp: pending_of_def)
    have "pending_of (flush_inbound_loop peers start offs ?d1) p =
        (if p \<in> ?rest then tl (pending_of ?d1 p) else pending_of ?d1 p)"
      using Cons.IH [of ?d1] Cons.prems by simp
    then show ?thesis unfolding run p1 using fresh by auto
  qed
qed

lemma rotation:
  assumes "(start :: nat) < n"
  shows "(\<lambda>k. (start + k) mod n) ` {..<n} = {..<n}" "distinct (map (\<lambda>k. (start + k) mod n) [0..<n])"
proof -
  have inj: "inj_on (\<lambda>k. (start + k) mod n) {..<n}"
  proof (rule inj_onI)
    fix a b assume ab: "a \<in> {..<n}" "b \<in> {..<n}" "(start + a) mod n = (start + b) mod n"
    have w: "(start + k) mod n = (if start + k < n then start + k else start + k - n)" if "k < n" for k
      using that assms by (simp add: mod_if)
    show "a = b" using ab w [of a] w [of b] assms by (auto split: if_splits)
  qed
  have sub: "(\<lambda>k. (start + k) mod n) ` {..<n} \<subseteq> {..<n}" using assms by auto
  show "(\<lambda>k. (start + k) mod n) ` {..<n} = {..<n}"
    by (rule endo_inj_surj [OF finite_lessThan sub inj])
  show "distinct (map (\<lambda>k. (start + k) mod n) [0..<n])"
    using inj by (simp add: distinct_map atLeast_upt [symmetric] lessThan_atLeast0)
qed

lemma flush_inbound_moves:
  assumes "distinct order" "dr_inbound_open d" "length (dr_inbound d) + length order \<le> INBOUND_CAPACITY"
    "p \<in> set order"
  shows "pending_of (flush_inbound order d) p = tl (pending_of d p)"
proof -
  let ?n = "length order" and ?s = "dr_cursor d mod length order"
  have n0: "order \<noteq> []" using assms(4) by auto
  have n: "order \<noteq> []" "?s < ?n" by (rule n0, rule mod_less_divisor) (use n0 in simp)
  have "set (map (\<lambda>k. order ! ((?s + k) mod ?n)) [0..<?n]) = (!) order ` ((\<lambda>k. (?s + k) mod ?n) ` {..<?n})"
    by (simp add: image_image lessThan_atLeast0)
  also have "\<dots> = set order" using rotation(1) [OF n(2)] by (auto simp: set_conv_nth)
  finally show ?thesis
    using flush_inbound_loop_moves [OF assms(1) n(2) rotation(2) [OF n(2)] assms(2)] assms(3,4) n(1)
    by (simp add: flush_inbound_def)
qed

section \<open>Flushing\<close>

lemma node_sends_trans:
  "node_sends c nxt r q1 es q2 \<Longrightarrow> node_sends c nxt r q ds q1 \<Longrightarrow> node_sends c nxt r q (ds @ es) q2"
proof (induction rule: node_sends.induct)
  case none
  then show ?case by simp
next
  case (more es q2 s now res s' q3)
  from node_sends.more [OF more.IH [OF more.prems] more.hyps(2-4)] show ?case by simp
qed

text \<open>A flush never panics, sends only what the sessions handed out, all of it to the route's
  address, and touches neither the route nor the queues.\<close>

lemma flush_loop_facts:
  assumes "aead_laws c" "digest_laws c"
  shows "driver_ok r d \<Longrightarrow> \<exists>out d' ds. flush_loop c nxt now order sent d = Ret (out, d') \<and> driver_ok r d' \<and>
     out = sent @ map (Pair (route_destination (dr_route d))) ds \<and>
     node_sends c nxt r (dr_seq d) ds (dr_seq d') \<and> dr_route d' = dr_route d \<and> stream_of d' = stream_of d \<and>
     dr_inbound d' = dr_inbound d \<and> dr_inbound_open d' = dr_inbound_open d"
proof (induction order arbitrary: sent d)
  case Nil
  then show ?case by (auto intro: node_sends.none)
next
  case (Cons p order)
  show ?case
  proof (cases "dr_sessions d p")
    case None
    then show ?thesis using Cons by simp
  next
    case (Some s)
    note k = driver_okD [OF Cons.prems Some]
    obtain x s1 q1 where out: "outgoing c nxt now s (dr_seq d) = Ret (x, s1, q1)"
      using outgoing_ok(1) [OF assms, of s nxt now "dr_seq d"] k
      by (cases "outgoing c nxt now s (dr_seq d)") auto
    let ?ds = "case x of Inl _ \<Rightarrow> [] | Inr es \<Rightarrow> es"
    let ?d1 = "d\<lparr>dr_sessions := (dr_sessions d)(p \<mapsto> s1), dr_seq := q1\<rparr>"
    let ?sent = "sent @ map (Pair (route_destination (dr_route d))) ?ds"
    have step: "flush_loop c nxt now (p # order) sent d = flush_loop c nxt now order ?sent ?d1"
      using Some out by (cases x) (simp_all add: Let_def)
    have "driver_ok r ?d1"
      by (rule driver_ok_update [OF Cons.prems outgoing_ok(2) [OF assms _ out]])
        (use k outgoing_epoch [OF out] in \<open>simp_all add: epoch_ok_def\<close>)
    from Cons.IH [OF this, of ?sent] obtain o' d' ds where IH:
      "flush_loop c nxt now order ?sent ?d1 = Ret (o', d')" "driver_ok r d'"
      "o' = ?sent @ map (Pair (route_destination (dr_route d))) ds"
      "node_sends c nxt r q1 ds (dr_seq d')" "dr_route d' = dr_route d" "stream_of d' = stream_of ?d1"
      "dr_inbound d' = dr_inbound d" "dr_inbound_open d' = dr_inbound_open d"
      by auto
    have "node_sends c nxt r (dr_seq d) ?ds q1"
      using node_sends.more [OF node_sends.none, of s r c nxt now "dr_seq d" x s1 q1] k out by simp
    from node_sends_trans [OF IH(4) this] have "node_sends c nxt r (dr_seq d) (?ds @ ds) (dr_seq d')" .
    moreover have "stream_of ?d1 = stream_of d" by (simp add: stream_of_def [abs_def] pending_of_def)
    ultimately show ?thesis using step IH by (intro exI [of _ o'] exI [of _ d'] exI [of _ "?ds @ ds"]) simp
  qed
qed

section \<open>Runs\<close>

text \<open>A run from \<open>d\<close>: the datagrams sent, what the sessions yielded for the application with its
  peer, what the application received, and the driver reached.  \<open>seal\<close> closes the application's
  end, after which nothing more is received.\<close>

type_synonym delivery = "node_id \<times> u64 \<times> bytes"

inductive driver_run ::
  "crypto \<Rightarrow> ('q \<Rightarrow> (key_error + u64) \<times> 'q) \<Rightarrow> 'q driver \<Rightarrow>
   (socket_addr \<times> bytes) list \<Rightarrow> delivery list \<Rightarrow> delivery list \<Rightarrow> 'q driver \<Rightarrow> bool"
  for c nxt d0 where
  start: "driver_run c nxt d0 [] [] [] d0"
| command: "driver_run c nxt d0 out made got d \<Longrightarrow>
    driver_run c nxt d0 out made got (snd (handle_command cmd d))"
| ignored: "driver_run c nxt d0 out made got d \<Longrightarrow> route_accepts (dr_route d) a \<Longrightarrow>
    driver_datagram c now dg a d = Ret d' \<Longrightarrow> (\<nexists>h s s1. accepted c now dg d h s s1) \<Longrightarrow>
    driver_run c nxt d0 out made got d'"
| heard: "driver_run c nxt d0 out made got d \<Longrightarrow> route_accepts (dr_route d) a \<Longrightarrow>
    driver_datagram c now dg a d = Ret d' \<Longrightarrow> accepted c now dg d h s s1 \<Longrightarrow> se_peer_epoch s1 = Some e \<Longrightarrow>
    driver_run c nxt d0 out
      (made @ map (\<lambda>m. (oh_src h, e, m)) (fst (take_messages s1) @ newly_complete (oh_src h) s1 d)) got d'"
| drained: "driver_run c nxt d0 out made got d \<Longrightarrow> driver_run c nxt d0 out made got (flush_inbound order d)"
| flushed: "driver_run c nxt d0 out made got d \<Longrightarrow> flush c nxt now order d = Ret (sent, d') \<Longrightarrow>
    driver_run c nxt d0 (out @ sent) made got d'"
| received: "driver_run c nxt d0 out made got d \<Longrightarrow> dr_inbound d = x # xs \<Longrightarrow>
    driver_run c nxt d0 out made (got @ [x]) (d\<lparr>dr_inbound := xs\<rparr>)"
| published: "driver_run c nxt d0 out made got d \<Longrightarrow> driver_run c nxt d0 out made got (publish_status now d)"

definition of_peer :: "node_id \<Rightarrow> delivery list \<Rightarrow> (u64 \<times> bytes) list" where
  "of_peer p xs = map snd (filter (\<lambda>x. fst x = p) xs)"

lemma of_peer_simps [simp]:
  "of_peer p [] = []" "of_peer p (xs @ ys) = of_peer p xs @ of_peer p ys"
  "of_peer p [x] = (if fst x = p then [snd x] else [])"
  "of_peer p (map (\<lambda>m. (q, e, m)) ms) = (if q = p then map (Pair e) ms else [])"
  by (auto simp: of_peer_def filter_map comp_def)

lemma stream_of_peer: "stream_of d p = of_peer p (dr_inbound d) @ pending_of d p"
  by (simp add: stream_of_def of_peer_def)

definition run_ok :: "role \<Rightarrow> 'q driver \<Rightarrow> delivery list \<Rightarrow> delivery list \<Rightarrow> bool" where
  "run_ok r d made got \<longleftrightarrow> driver_ok r d \<and> dr_inbound_open d \<and> length (dr_inbound d) \<le> INBOUND_CAPACITY \<and>
     (\<forall>p. of_peer p made = of_peer p got @ stream_of d p)"

lemma accepted_unique:
  "accepted c now dg d h s s1 \<Longrightarrow> accepted c now dg d h' s' s1' \<Longrightarrow> h' = h \<and> s' = s \<and> s1' = s1"
  by (auto simp: accepted_def)

lemma stream_of_cong:
  "same_queues d d' \<Longrightarrow> pending_of d' = pending_of d \<Longrightarrow> stream_of d' = stream_of d"
  by (simp add: stream_of_def [abs_def] same_queues_def)

lemma handle_command_queues:
  "same_queues d (snd (handle_command cmd d)) \<and> pending_of (snd (handle_command cmd d)) = pending_of d \<and>
   dr_route (snd (handle_command cmd d)) = dr_route d"
  by (cases cmd) (auto simp: same_queues_def pending_of_def split: option.splits prod.splits)

lemma driver_datagram_stream:
  assumes "driver_ok r d" "driver_datagram c now dg a d = Ret d'"
  shows "driver_ok r d' \<and> same_queues d d' \<and>
    ((\<nexists>h s s1. accepted c now dg d h s s1) \<longrightarrow> stream_of d' = stream_of d) \<and>
    (\<forall>h s s1 e. accepted c now dg d h s s1 \<and> se_peer_epoch s1 = Some e \<longrightarrow>
       (\<forall>p. stream_of d' p = stream_of d p @
          (if p = oh_src h then map (Pair e) (fst (take_messages s1) @ newly_complete p s1 d) else [])))"
proof -
  from driver_datagram_cases [OF assms(1), of c now dg a] assms(2)
  have ok: "driver_ok r d'" "same_queues d d'" and
    alt: "(dr_route d' = dr_route d \<and> pending_of d' = pending_of d \<and> (\<nexists>h s s1. accepted c now dg d h s s1)) \<or>
     (\<exists>h s s1 e. accepted c now dg d h s s1 \<and> se_peer_epoch s1 = Some e \<and>
        pending_of d' = (pending_of d)(oh_src h :=
          map (Pair e) (fst (take_messages s1) @ newly_complete (oh_src h) s1 d)))"
    by auto
  from alt show ?thesis
  proof (elim disjE exE conjE)
    assume "pending_of d' = pending_of d" "\<nexists>h s s1. accepted c now dg d h s s1"
    then show ?thesis using ok stream_of_cong [OF ok(2)] by simp
  next
    fix h s s1 e
    assume acc: "accepted c now dg d h s s1" and e: "se_peer_epoch s1 = Some e"
      and pend: "pending_of d' = (pending_of d)(oh_src h :=
          map (Pair e) (fst (take_messages s1) @ newly_complete (oh_src h) s1 d))"
    have "stream_of d' p = stream_of d p @
        (if p = oh_src h then map (Pair e) (fst (take_messages s1) @ newly_complete p s1 d) else [])" for p
      using acc ok(2) pend by (auto simp: stream_of_def same_queues_def accepted_def)
    then show ?thesis using ok acc e accepted_unique [OF acc] by (metis option.inject)
  qed
qed

lemma run_okI:
  assumes "run_ok r d made got" "driver_ok r d'" "same_queues d d'" "stream_of d' = stream_of d"
  shows "run_ok r d' made got"
  using assms by (simp add: run_ok_def same_queues_def)

lemma driver_run_ok:
  assumes laws: "aead_laws c" "digest_laws c" and ok: "run_ok r d0 [] []"
  shows "driver_run c nxt d0 out made got d \<Longrightarrow>
    run_ok r d made got \<and> node_sends c nxt r (dr_seq d0) (map snd out) (dr_seq d)"
proof (induction rule: driver_run.induct)
  case start
  then show ?case using ok node_sends.none by simp
next
  case (command out made got d cmd)
  note q = handle_command_queues [of d cmd]
  have "driver_ok r (snd (handle_command cmd d))"
    using command.IH handle_command_ok by (auto simp: run_ok_def)
  then show ?case
    using command.IH q run_okI [of r d made got "snd (handle_command cmd d)"] stream_of_cong
    by (auto simp: same_queues_def)
next
  case (ignored out made got d a now dg d')
  have "driver_ok r d" using ignored.IH by (simp add: run_ok_def)
  from driver_datagram_stream [OF this ignored.hyps(3)] ignored.hyps(4)
  show ?case using ignored.IH run_okI [of r d made got d'] by (auto simp: same_queues_def)
next
  case (heard out made got d a now dg d' h s s1 e)
  have "driver_ok r d" using heard.IH by (simp add: run_ok_def)
  note x = driver_datagram_stream [OF this heard.hyps(3)]
  have "stream_of d' p = stream_of d p @
      (if p = oh_src h then map (Pair e) (fst (take_messages s1) @ newly_complete p s1 d) else [])" for p
    using x heard.hyps(4,5) by blast
  then have "run_ok r d' (made @ map (\<lambda>m. (oh_src h, e, m)) (fst (take_messages s1) @ newly_complete (oh_src h) s1 d)) got"
    using heard.IH x by (auto simp: run_ok_def same_queues_def simp del: map_append)
  then show ?case using heard.IH x by (simp add: same_queues_def)
next
  case (drained out made got d order)
  then have "dr_inbound_open d" "length (dr_inbound d) \<le> INBOUND_CAPACITY" "driver_ok r d"
    by (simp_all add: run_ok_def)
  with flush_inbound_keeps [of d order] drained.IH driver_ok_same [of r d]
  show ?case by (auto simp: run_ok_def same_sessions_def)
next
  case (flushed out made got d now order sent d')
  have "driver_ok r d" using flushed.IH by (simp add: run_ok_def)
  from flush_loop_facts [OF laws this, of nxt now order "[]"] flushed.hyps(2)
  obtain ds where ds: "driver_ok r d'" "sent = map (Pair (route_destination (dr_route d))) ds"
    "node_sends c nxt r (dr_seq d) ds (dr_seq d')" "stream_of d' = stream_of d"
    "dr_inbound d' = dr_inbound d" "dr_inbound_open d' = dr_inbound_open d"
    by (auto simp: flush_def)
  have "node_sends c nxt r (dr_seq d0) (map snd out @ ds) (dr_seq d')"
    using node_sends_trans [OF ds(3)] flushed.IH by blast
  then show ?case using flushed.IH ds by (auto simp: run_ok_def comp_def)
next
  case (received out made got d x xs)
  let ?d' = "d\<lparr>dr_inbound := xs\<rparr>"
  have "of_peer p (x # xs) = of_peer p [x] @ of_peer p xs" for p by (simp add: of_peer_def)
  moreover have "pending_of ?d' = pending_of d" by (auto simp: pending_of_def)
  ultimately have "of_peer p made = of_peer p (got @ [x]) @ stream_of ?d' p" for p
    using received by (simp add: run_ok_def stream_of_peer)
  moreover have "driver_ok r ?d'" using received.IH by (simp add: run_ok_def driver_ok_def)
  ultimately show ?case using received by (simp add: run_ok_def)
next
  case (published out made got d now)
  have "driver_ok r (publish_status now d)" "same_queues d (publish_status now d)"
    "stream_of (publish_status now d) = stream_of d" "dr_seq (publish_status now d) = dr_seq d"
    using published.IH
    by (simp_all add: run_ok_def driver_ok_def publish_status_def same_queues_def stream_of_def [abs_def]
        pending_of_def)
  then show ?case using published.IH run_okI [of r d made got "publish_status now d"] by simp
qed

lemma driver_new_run_ok:
  assumes "wf_id (ns_node_id node)" "\<forall>p \<in> set (configured_peers config node). wf_id (pc_node_id p)"
  shows "run_ok (ns_role node) (driver_new c config node q rt epoch) [] []"
  using driver_new_ok [OF assms]
  by (simp add: run_ok_def stream_of_def pending_of_def driver_new_def Let_def)

section \<open>The route\<close>

lemma accept_epoch_highest: "accept_epoch e s = Ret s' \<Longrightarrow> se_highest s' = se_highest s"
  by (auto simp: accept_epoch_def Let_def split: option.splits if_splits outcome.splits)

text \<open>Whether a datagram with this header counts as news in this session.\<close>

definition fresh_in :: "session \<Rightarrow> outer_header \<Rightarrow> bool" where
  "fresh_in s h \<longleftrightarrow> (case se_highest s of None \<Rightarrow> True | Some seen \<Rightarrow> seen < oh_seq h)"

lemma handle_datagram_advanced:
  assumes "handle_datagram c dg now s = Ret (Inr b, s1)"
  obtains h p where "open_datagram c (se_config s) dg = Inr (h, p)"
    "if oh_epoch h \<in> set (se_retired s) then s1 = s \<and> b = False else se_advanced s1 = fresh_in s h"
proof -
  obtain h p where o: "open_datagram c (se_config s) dg = Inr (h, p)"
    using assms by (auto simp: handle_datagram_def split: sum.splits)
  show ?thesis
  proof (cases "oh_epoch h \<in> set (se_retired s)")
    case True
    then show ?thesis using that [OF o] assms o by (simp add: handle_datagram_def)
  next
    case False
    then obtain s2 where s2: "accept_epoch (oh_epoch h) s = Ret s2"
      and s1: "s1 = snd (apply_instruction (pk_instruction p) (note_heard h p now s2))"
      using assms o by (auto simp: handle_datagram_def)
    have "se_advanced (note_heard h p now s2) = fresh_in s h"
      using accept_epoch_highest [OF s2] by (simp add: note_heard_def Let_def fresh_in_def)
    then show ?thesis using that [OF o] False by (simp add: s1 frame_simps)
  qed
qed

lemma route_changes:
  assumes "driver_ok r d" "driver_datagram c now dg a d = Ret d'" "dr_route d' \<noteq> dr_route d"
  obtains b s h p where "dr_route d = Direct_route b" "dr_route d' = Direct_route a"
    "dr_sessions d (oh_src h) = Some s" "verify_tag c dg (path_key c (sc_pair_key (se_config s)))"
    "open_datagram c (se_config s) dg = Inr (h, p)"
    "if oh_epoch h \<in> set (se_retired s) then se_advanced s else fresh_in s h"
proof -
  from driver_datagram_cases [OF assms(1), of c now dg a] assms(2,3)
  obtain h s s1 where acc: "accepted c now dg d h s s1" and l: "dr_route d' = learn (dr_route d) s1 a"
    by auto
  then obtain b where hd: "handle_datagram c dg now s = Ret (Inr b, s1)" by (auto simp: accepted_def)
  obtain h' p where o: "open_datagram c (se_config s) dg = Inr (h', p)"
    and adv: "if oh_epoch h' \<in> set (se_retired s) then s1 = s \<and> b = False else se_advanced s1 = fresh_in s h'"
    by (rule handle_datagram_advanced [OF hd])
  have "h' = h" using o acc by (auto simp: open_datagram_def accepted_def split: if_splits sum.splits)
  moreover obtain x where "dr_route d = Direct_route x" "dr_route d' = Direct_route a" "se_advanced s1"
    using l assms(3) by (cases "dr_route d") (auto split: if_splits)
  ultimately show ?thesis using that [of x h s p] acc o adv by (auto simp: accepted_def split: if_splits)
qed

end
