(* ===== verification/LinkFrames.thy ===== *)
theory LinkFrames
  imports LinkDriver
begin

text \<open>
  Screen frames: a body sent as a growing grid of headed rows.  Every step of the growth fits one
  datagram, the finished grid reads back as the body, and no unfinished one reads as a frame.
\<close>

section \<open>Chunks\<close>

lemma chunks_facts:
  "0 < n \<Longrightarrow> concat (chunks n xs) = xs \<and> length (chunks n xs) = (length xs + n - 1) div n \<and>
     (\<forall>c \<in> set (chunks n xs). length c \<le> n)"
proof (induction n xs rule: chunks.induct)
  case (1 n)
  then show ?case by simp
next
  case (2 n x xs)
  let ?xs = "x # xs"
  have IH: "concat (chunks n (drop n ?xs)) = drop n ?xs"
    "length (chunks n (drop n ?xs)) = (length (drop n ?xs) + n - 1) div n"
    "\<forall>c \<in> set (chunks n (drop n ?xs)). length c \<le> n" using 2 by simp_all
  have eq: "chunks n ?xs = take n ?xs # chunks n (drop n ?xs)" using 2 by simp
  have n: "0 < n" using 2 by simp
  define m where "m = length ?xs"
  have m: "0 < m" by (simp add: m_def)
  have "Suc ((m - n + n - 1) div n) = (m + n - 1) div n"
  proof (cases "n \<le> m")
    case True
    then obtain k where k: "m = n + k" using le_Suc_ex by blast
    have "(k + n - 1 + n) div n = Suc ((k + n - 1) div n)" using n by (simp only: div_add_self2)
    moreover have "m + n - 1 = k + n - 1 + n" "m - n + n - 1 = k + n - 1" using n by (simp_all add: k)
    ultimately show ?thesis by (simp only:)
  next
    case False
    then have e: "m - n + n - 1 = n - 1" "m + n - 1 = m - 1 + n" using m by simp_all
    have "(m - 1) div n = 0" "(n - 1) div n = 0" using False n by simp_all
    moreover have "(m - 1 + n) div n = Suc ((m - 1) div n)" using n by (simp only: div_add_self2)
    ultimately show ?thesis by (simp only: e)
  qed
  then show ?case unfolding eq using IH by (simp add: m_def)
qed

lemmas FRAME_CAPACITY_eq = FRAME_CAPACITY_def [unfolded MAX_MESSAGE_BYTES_def MAX_DIFF_LEN_eq, simplified]

definition frame_chunks :: "bytes \<Rightarrow> bytes list" where
  "frame_chunks body = (if body = [] then [[]] else chunks FRAME_CAPACITY body)"

definition frame_count :: "bytes \<Rightarrow> nat" where
  "frame_count body = max ((length body + FRAME_CAPACITY - 1) div FRAME_CAPACITY) 1"

lemma frame_chunks_facts:
  "concat (frame_chunks body) = body" "length (frame_chunks body) = frame_count body"
  "\<forall>c \<in> set (frame_chunks body). length c \<le> FRAME_CAPACITY" "0 < frame_count body"
proof -
  have pos: "0 < FRAME_CAPACITY" by (simp add: FRAME_CAPACITY_eq)
  note f = chunks_facts [OF pos, of body]
  show "concat (frame_chunks body) = body" "\<forall>c \<in> set (frame_chunks body). length c \<le> FRAME_CAPACITY"
    "0 < frame_count body"
    using f by (auto simp: frame_chunks_def frame_count_def)
  have "1 \<le> (length body + FRAME_CAPACITY - 1) div FRAME_CAPACITY" if "body \<noteq> []"
    using that pos by (cases body) (auto simp: Suc_le_eq div_greater_zero_iff)
  then show "length (frame_chunks body) = frame_count body"
    using f by (auto simp: frame_chunks_def frame_count_def FRAME_CAPACITY_eq)
qed

section \<open>Rows\<close>

definition frame_rows_from :: "nat \<Rightarrow> nat \<Rightarrow> bytes list \<Rightarrow> bytes list" where
  "frame_rows_from count i cs = map (\<lambda>(j, c). frame_row count j c) (enumerate i cs)"

lemma frame_rows_from_simps [simp]:
  "frame_rows_from count i [] = []"
  "frame_rows_from count i (c # cs) = frame_row count i c # frame_rows_from count (Suc i) cs"
  "length (frame_rows_from count i cs) = length cs"
  by (simp_all add: frame_rows_from_def)

lemma take_frame_rows: "take k (frame_rows_from count i cs) = frame_rows_from count i (take k cs)"
  proof (induction cs arbitrary: k i)
  case (Cons c cs)
  then show ?case by (cases k) simp_all
qed simp

lemma frame_row_facts:
  "take 4 (frame_row n i c) = SCREEN_FRAME_MAGIC"
  "drop 12 (frame_row n i c) = c" "length (frame_row n i c) = 12 + length c"
  "n < 2 ^ 32 \<Longrightarrow> unat (be_u32 (slice 4 8 (frame_row n i c))) = n"
  "i < 2 ^ 32 \<Longrightarrow> unat (be_u32 (slice 8 12 (frame_row n i c))) = i"
proof -
  have m: "length SCREEN_FRAME_MAGIC = 4" by (simp add: SCREEN_FRAME_MAGIC_def ascii_def)
  show "take 4 (frame_row n i c) = SCREEN_FRAME_MAGIC"
   "drop 12 (frame_row n i c) = c" "length (frame_row n i c) = 12 + length c"
    using m by (simp_all add: frame_row_def)
  have "slice 4 8 (frame_row n i c) = u32_be (word_of_nat n)"
    "slice 8 12 (frame_row n i c) = u32_be (word_of_nat i)"
    using m by (simp_all add: frame_row_def slice_def)
  then show "n < 2 ^ 32 \<Longrightarrow> unat (be_u32 (slice 4 8 (frame_row n i c))) = n"
    "i < 2 ^ 32 \<Longrightarrow> unat (be_u32 (slice 8 12 (frame_row n i c))) = i"
    by (simp_all add: unat_of_nat take_bit_nat_eq_self)
qed

lemma frame_body_loop_rows:
  "n < 2 ^ 32 \<Longrightarrow> i + length cs \<le> 2 ^ 32 \<Longrightarrow>
   frame_body_loop n i (frame_rows_from n i cs) b = Some (b @ concat cs)"
proof (induction cs arbitrary: i b)
  case Nil
  then show ?case by simp
next
  case (Cons c cs)
  then have "i < 2 ^ 32" by simp
  with Cons show ?case by (simp add: frame_row_facts SCREEN_FRAME_HEADER_def)
qed

lemma complete_frame:
  assumes "length cs = n" "0 < n" "n < 2 ^ 32"
  shows "complete_screen_frame (frame_rows_from n 0 cs) = Some (concat cs)"
    "k < n \<Longrightarrow> complete_screen_frame (take k (frame_rows_from n 0 cs)) = None"
proof -
  have "frame_rows_from n 0 cs \<noteq> []" using assms by (cases cs) auto
  then show "complete_screen_frame (frame_rows_from n 0 cs) = Some (concat cs)"
    using frame_body_loop_rows [of n 0 cs "[]"] assms by (simp add: complete_screen_frame_def)
  assume k: "k < n"
  show "complete_screen_frame (take k (frame_rows_from n 0 cs)) = None"
  proof (cases k)
    case (Suc j)
    obtain c cs' where cs: "cs = c # cs'" using assms by (cases cs) auto
    show ?thesis
      using k assms Suc by (simp add: complete_screen_frame_def cs frame_row_facts SCREEN_FRAME_HEADER_def min_def)
  qed (simp add: complete_screen_frame_def)
qed

section \<open>Every step fits\<close>

lemma frame_step_fits:
  assumes "length c \<le> FRAME_CAPACITY" "rows = [] \<or> rg_rows g = rows"
  shows "length (rg_diff_from (rg_set_rows (rows @ [frame_row n i c]) g) g) \<le> MAX_DIFF_LEN"
proof -
  let ?r = "frame_row n i c"
  have len: "length ?r \<le> 1261" using assms(1) by (simp add: frame_row_facts FRAME_CAPACITY_eq)
  consider "rg_changed (rows @ [?r]) (rg_rows g) = []"
    | j where "rg_changed (rows @ [?r]) (rg_rows g) = [(j, ?r)]"
  proof (cases "rows = []")
    case True
    then show ?thesis using that by (cases "rg_rows g \<noteq> [] \<and> rg_rows g ! 0 = ?r") (auto simp: rg_changed_def)
  next
    case False
    then show ?thesis using that assms(2) rg_changed_grown [of rows ?r] by simp
  qed
  then show ?thesis
    using len by cases (simp_all add: rg_diff_from_def rg_set_rows_def length_encode_rows MAX_DIFF_LEN_eq)
qed

lemma set_screen_room:
  assumes "length (ch_sent_states (se_screen s)) < ch_max_sent (se_screen s)"
    "length c \<le> FRAME_CAPACITY" "rows = [] \<or> rg_rows (ch_current (se_screen s)) = rows"
  obtains s' where "set_screen (rows @ [frame_row n i c]) s = (Inr (), s')"
    "rg_rows (ch_current (se_screen s')) = rows @ [frame_row n i c]"
    "length (ch_sent_states (se_screen s')) = Suc (length (ch_sent_states (se_screen s)))"
    "ch_max_sent (se_screen s') = ch_max_sent (se_screen s)"
  using frame_step_fits [OF assms(2,3), of n i] assms(1)
  by (simp add: set_screen_def Let_def advance_def rg_set_rows_def)

lemma send_frame_loop_ok:
  fixes d :: "'q driver"
  shows "dr_sessions d peer = Some s \<Longrightarrow>
    length (ch_sent_states (se_screen s)) + length cs \<le> ch_max_sent (se_screen s) \<Longrightarrow>
    \<forall>c \<in> set cs. length c \<le> FRAME_CAPACITY \<Longrightarrow> rows = [] \<or> rg_rows (ch_current (se_screen s)) = rows \<Longrightarrow>
    \<exists>d' s'. send_frame_loop (\<lambda>r. handle_command (Screen peer r)) n (enumerate i cs) rows d = (Inr (), d') \<and>
      dr_sessions d' = (dr_sessions d)(peer \<mapsto> s') \<and>
      (cs \<noteq> [] \<longrightarrow> rg_rows (ch_current (se_screen s')) = rows @ frame_rows_from n i cs) \<and> (cs = [] \<longrightarrow> s' = s) \<and>
      length (ch_sent_states (se_screen s')) = length (ch_sent_states (se_screen s)) + length cs"
proof (induction cs arbitrary: d s i rows)
  case Nil
  then show ?case by (auto simp: fun_upd_idem_iff)
next
  case (Cons c cs)
  obtain s1 where s1: "set_screen (rows @ [frame_row n i c]) s = (Inr (), s1)"
    "rg_rows (ch_current (se_screen s1)) = rows @ [frame_row n i c]"
    "length (ch_sent_states (se_screen s1)) = Suc (length (ch_sent_states (se_screen s)))"
    "ch_max_sent (se_screen s1) = ch_max_sent (se_screen s)"
    using set_screen_room [of s c rows n i] Cons.prems by auto
  let ?d1 = "d\<lparr>dr_sessions := (dr_sessions d)(peer \<mapsto> s1)\<rparr>"
  obtain d' s' where IH: "send_frame_loop (\<lambda>r. handle_command (Screen peer r)) n (enumerate (Suc i) cs)
        (rows @ [frame_row n i c]) ?d1 = (Inr (), d')"
    "dr_sessions d' = (dr_sessions ?d1)(peer \<mapsto> s')"
    "cs \<noteq> [] \<longrightarrow> rg_rows (ch_current (se_screen s')) = (rows @ [frame_row n i c]) @ frame_rows_from n (Suc i) cs"
    "cs = [] \<longrightarrow> s' = s1"
    "length (ch_sent_states (se_screen s')) = length (ch_sent_states (se_screen s1)) + length cs"
  proof -
    have "dr_sessions ?d1 peer = Some s1" by simp
    moreover have "length (ch_sent_states (se_screen s1)) + length cs \<le> ch_max_sent (se_screen s1)"
      using Cons.prems(2) s1(3,4) by simp
    moreover have "\<forall>c \<in> set cs. length c \<le> FRAME_CAPACITY" using Cons.prems(3) by simp
    ultimately show ?thesis
      using that Cons.IH [of ?d1 s1 "rows @ [frame_row n i c]" "Suc i", OF _ _ _ disjI2 [OF s1(2)]] by blast
  qed
  have "send_frame_loop (\<lambda>r. handle_command (Screen peer r)) n (enumerate i (c # cs)) rows d = (Inr (), d')"
    using IH(1) by (simp add: Cons.prems(1) s1(1) del: fun_upd_apply)
  moreover have "rg_rows (ch_current (se_screen s')) = rows @ frame_rows_from n i (c # cs)"
    using IH(3,4) s1(2) by (cases "cs = []") simp_all
  moreover have "dr_sessions d' = (dr_sessions d)(peer \<mapsto> s')" using IH(2) by simp
  moreover have "length (ch_sent_states (se_screen s')) = length (ch_sent_states (se_screen s)) + length (c # cs)"
    using IH(5) s1(3) by simp
  ultimately show ?case by blast
qed

lemma send_screen_frame_ok:
  fixes d :: "'q driver"
  assumes "dr_sessions d peer = Some s"
    "length (ch_sent_states (se_screen s)) + frame_count body \<le> ch_max_sent (se_screen s)"
  shows "\<exists>d' s'. send_screen_frame (\<lambda>r. handle_command (Screen peer r)) body d = (Inr (), d') \<and>
      dr_sessions d' = (dr_sessions d)(peer \<mapsto> s') \<and>
      rg_rows (ch_current (se_screen s')) = frame_rows_from (frame_count body) 0 (frame_chunks body) \<and>
      length (ch_sent_states (se_screen s')) = length (ch_sent_states (se_screen s)) + frame_count body"
proof -
  note f = frame_chunks_facts [of body]
  have ne: "frame_chunks body \<noteq> []" using f(2,4) by auto
  from send_frame_loop_ok [OF assms(1) _ f(3), of "[]" "frame_count body" 0] assms(2) f(2) ne
  obtain d' s' where run: "send_frame_loop (\<lambda>r. handle_command (Screen peer r)) (frame_count body)
      (enumerate 0 (frame_chunks body)) [] d = (Inr (), d')"
    "dr_sessions d' = (dr_sessions d)(peer \<mapsto> s')"
    "rg_rows (ch_current (se_screen s')) = frame_rows_from (frame_count body) 0 (frame_chunks body)"
    "length (ch_sent_states (se_screen s')) = length (ch_sent_states (se_screen s)) + frame_count body"
    by (auto simp del: handle_command.simps)
  have "send_screen_frame (\<lambda>r. handle_command (Screen peer r)) body d = (Inr (), d')"
  proof (cases "body = []")
    case True
    then show ?thesis using run(1)
      by (auto simp: send_screen_frame_def frame_count_def frame_chunks_def FRAME_CAPACITY_eq Let_def
          simp del: handle_command.simps split: prod.splits sum.splits)
  next
    case False
    then show ?thesis using run(1)
      by (simp add: send_screen_frame_def frame_count_def frame_chunks_def Let_def
          del: handle_command.simps)
  qed
  then show ?thesis using run by blast
qed

end
