(* ===== verification/LinkReplay.thy ===== *)
theory LinkReplay
  imports LinkRun LinkFrames SessionExample
begin

text \<open>
  The direct route and old datagrams: which datagrams move it, and the one kind that should not.
  Then the concrete drivers the closed examples use.
\<close>

section \<open>A datagram of a retired epoch\<close>

lemma handle_retired:
  "open_datagram c (se_config s) dg = Inr (h, p) \<Longrightarrow> oh_epoch h \<in> set (se_retired s) \<Longrightarrow>
   handle_datagram c dg now s = Ret (Inr False, s)"
  by (simp add: handle_datagram_def)

lemma open_datagram_header:
  "open_datagram c config dg = Inr (h, p) \<Longrightarrow>
   oh_decode dg = Inr h \<and> oh_src h = sc_peer_node_id config \<and> oh_dst h = sc_node_id config"
  by (auto simp: open_datagram_def split: sum.splits if_splits)

lemma accepted_moves:
  assumes "driver_ok r d" "accepted c now dg d h s s1" "se_advanced s1" "dr_route d = Direct_route b"
  obtains d' where "driver_datagram c now dg a d = Ret d'" "driver_ok r d'" "dr_route d' = Direct_route a"
    "dr_sessions d' = (dr_sessions d)(oh_src h \<mapsto> snd (take_messages s1))"
proof -
  obtain d' where d': "driver_datagram c now dg a d = Ret d'" "driver_ok r d'"
    "\<exists>h s s1 e. accepted c now dg d h s s1 \<and> dr_route d' = learn (dr_route d) s1 a \<and>
       dr_sessions d' = (dr_sessions d)(oh_src h \<mapsto> snd (take_messages s1))"
    using driver_datagram_cases [OF assms(1), of c now dg a] assms(2) by blast
  then have "dr_route d' = learn (dr_route d) s1 a"
    "dr_sessions d' = (dr_sessions d)(oh_src h \<mapsto> snd (take_messages s1))"
    using accepted_unique [OF assms(2)] by blast+
  then show ?thesis using that [OF d'(1,2)] assms(3,4) by auto
qed

lemma retired_moves:
  assumes "driver_ok r d" "dr_sessions d p = Some s" "pending_of d p = []" "dr_route d = Direct_route b"
    and "open_datagram c (se_config s) dg = Inr (h, pk)" "oh_epoch h \<in> set (se_retired s)" "se_advanced s"
    and "verify_tag c dg (path_key c (sc_pair_key (se_config s)))"
  shows "\<exists>d'. driver_datagram c now dg a d = Ret d' \<and> dr_route d' = Direct_route a"
proof -
  have "oh_decode dg = Inr h" "oh_src h = p"
    using open_datagram_header [OF assms(5)] driver_okD [OF assms(1,2)] by simp_all
  then have "accepted c now dg d h s s"
    using assms handle_retired [OF assms(5,6)] by (auto simp: accepted_def intro: exI [of Not False])
  then show ?thesis using accepted_moves [OF assms(1) _ assms(7,4)] by metis
qed

text \<open>A restart of the peer heard by the session: the old epoch is retired and the datagram is news.\<close>

lemma take_messages_frame:
  "se_retired (snd (take_messages s)) = se_retired s" "se_advanced (snd (take_messages s)) = se_advanced s"
  by (simp_all add: take_messages_def Let_def split: prod.splits)

lemma restart_heard:
  assumes "handle_datagram c dg now s = Ret (Inr b, s1)" "open_datagram c (se_config s) dg = Inr (h, p)"
    and "se_peer_epoch s = Some e" "oh_epoch h \<noteq> e" "oh_epoch h \<notin> set (se_retired s)" "fresh_in s h"
  shows "e \<in> set (se_retired s1)" "se_advanced s1" "se_config s1 = se_config s"
proof -
  show "se_advanced s1"
    by (rule handle_datagram_advanced [OF assms(1)]) (use assms in auto)
  obtain s2 where s2: "accept_epoch (oh_epoch h) s = Ret s2"
    and s1: "s1 = snd (apply_instruction (pk_instruction p) (note_heard h p now s2))"
    using assms by (auto simp: handle_datagram_def)
  have "e \<in> set (se_retired s2)"
    using s2 assms(3,4)
    by (cases "se_retired s") (auto simp: accept_epoch_def Let_def split: if_splits)
  then show "e \<in> set (se_retired s1)" by (simp add: s1 frame_simps)
  show "se_config s1 = se_config s" using accept_epoch_known [OF s2] by (simp add: s1 frame_simps)
qed

section \<open>Example drivers\<close>

definition ex_node :: node_state where
  "ex_node = toy_state\<lparr>ns_node_id := NodeId (replicate 16 2), ns_role := Host,
     ns_forwarder_key := ForwarderKey (replicate 16 9)\<rparr>"

definition ex_peer :: peer_config where
  "ex_peer = \<lparr>pc_node_id = NodeId (replicate 16 1), pc_pair_key = PairKey (replicate 16 7)\<rparr>"

definition ex_addr :: "u16 \<Rightarrow> socket_addr" where
  "ex_addr port = V4 [127, 0, 0, 1] port"

definition ex_driver :: "link_path \<Rightarrow> route \<Rightarrow> u64 driver" where
  "ex_driver path rt = driver_new toy_crypto (link_config_new\<lparr>lc_peers := [ex_peer], lc_path := path\<rparr>)
     ex_node 1 rt (\<lambda>_. 22)"

lemma ex_driver_ok: "run_ok Host (ex_driver path rt) [] []"
proof -
  have "run_ok (ns_role ex_node) (ex_driver path rt) [] []"
    unfolding ex_driver_def
    by (rule driver_new_run_ok)
      (simp_all add: ex_node_def toy_state_def ex_peer_def configured_peers_def wf_id_def)
  then show ?thesis by (simp add: ex_node_def)
qed

lemma ex_driver_session:
  "dr_sessions (ex_driver (Forwarder_path e) rt) = [NodeId (replicate 16 1) \<mapsto> session_new ex_host 0 22]"
  by (simp add: ex_driver_def driver_new_def configured_peers_def session_config_for_def ex_peer_def ex_node_def
      ex_host_def session_config_new_def link_config_new_def Let_def)

lemma ex_driver_fields [simp]:
  "dr_route (ex_driver path rt) = rt" "dr_pending (ex_driver path rt) = Map.empty"
  "dr_inbound (ex_driver path rt) = []" "dr_inbound_open (ex_driver path rt)"
  "dr_last_screens (ex_driver path rt) = Map.empty" "dr_cursor (ex_driver path rt) = 0"
  by (simp_all add: ex_driver_def driver_new_def Let_def)

text \<open>The host hears the owner's message through the forwarder and the application receives it.\<close>

lemma ex_driver_run:
  "\<exists>d. driver_run toy_crypto ex_seq (ex_driver (Forwarder_path None) (Forwarder_route (ex_addr 1)))
     [] [(NodeId (replicate 16 1), 11, ex_message)] [(NodeId (replicate 16 1), 11, ex_message)] d"
proof -
  let ?d0 = "ex_driver (Forwarder_path None) (Forwarder_route (ex_addr 1))"
  let ?p = "NodeId (replicate 16 1)"
  let ?s = "session_new ex_host 0 22"
  obtain dg a3 pk where op: "open_datagram toy_crypto ex_host dg = Inr (datagram_header ex_a1 (1 OR DIRECTION_MASK) False, pk)"
    and ins: "pk_instruction pk = ex_instruction" using ex_sends by blast
  let ?h = "datagram_header ex_a1 (1 OR DIRECTION_MASK) False"
  have h: "oh_decode dg = Inr ?h" "oh_src ?h = ?p"
    using open_datagram_header [OF op] by (simp_all add: ex_host_def session_config_new_def)
  obtain b1 b2 where b: "handle_datagram toy_crypto dg 150 ?s = Ret (Inr True, b1)"
    "take_messages b1 = ([ex_message], b2)" "se_peer_epoch b1 = Some 11" "session_screen b1 = rg_new"
    using ex_hears [OF op ins] by blast
  have acc: "accepted toy_crypto 150 dg ?d0 ?h ?s b1"
    using h b by (auto simp: accepted_def ex_driver_session pending_of_def)
  have new: "newly_complete ?p b1 ?d0 = []"
    using b(4) by (simp add: newly_complete_def rg_new_def complete_screen_frame_def)
  obtain d1 where d1: "driver_datagram toy_crypto 150 dg (ex_addr 1) ?d0 = Ret d1"
    using driver_datagram_cases [of Host ?d0 toy_crypto 150 dg "ex_addr 1"]
      ex_driver_ok [of "Forwarder_path None" "Forwarder_route (ex_addr 1)"] by (auto simp: run_ok_def)
  have r1: "driver_run toy_crypto ex_seq ?d0 [] [(?p, 11, ex_message)] [] d1"
    using driver_run.heard [OF driver_run.start _ d1 acc b(3)] h(2) b(2) new by simp
  have ok0: "driver_ok Host ?d0" using ex_driver_ok by (simp add: run_ok_def)
  note st = driver_datagram_stream [OF ok0 d1]
  have "\<forall>p. stream_of d1 p = stream_of ?d0 p @
      (if p = oh_src ?h then map (Pair 11) (fst (take_messages b1) @ newly_complete p b1 ?d0) else [])"
    using st acc b(3) by blast
  moreover have "stream_of ?d0 ?p = []" by (simp add: stream_of_def pending_of_def)
  ultimately have "stream_of d1 ?p = [(11, ex_message)]" using h(2) b(2) new by simp
  moreover have "dr_inbound d1 = []" "dr_inbound_open d1" using st by (simp_all add: same_queues_def)
  ultimately have "stream_of d1 ?p = [(11, ex_message)]" "dr_inbound d1 = []" "dr_inbound_open d1" by blast+
  then have p1: "dr_pending d1 ?p = Some [(11, ex_message)]"
    by (auto simp: stream_of_def pending_of_def split: option.splits)
  have i2: "dr_inbound (flush_inbound [?p] d1) = [(?p, 11, ex_message)]"
    using p1 \<open>dr_inbound d1 = []\<close> \<open>dr_inbound_open d1\<close>
    by (simp add: flush_inbound_def INBOUND_CAPACITY_def Let_def)
  have "driver_run toy_crypto ex_seq ?d0 [] [(?p, 11, ex_message)] ([] @ [(?p, 11, ex_message)])
      ((flush_inbound [?p] d1)\<lparr>dr_inbound := []\<rparr>)"
    by (rule driver_run.received [OF driver_run.drained [OF r1] i2])
  then show ?thesis by auto
qed

section \<open>An example of the replay\<close>

definition ex_direct_owner :: session_config where
  "ex_direct_owner = ex_owner\<lparr>sc_forwarder_key := path_key toy_crypto (PairKey (replicate 16 7))\<rparr>"

definition ex_idle :: packet where
  "ex_idle = \<lparr>pk_send_ts = 0, pk_reply_ts = 0,
     pk_instruction = \<lparr>in_channel = 2, in_old = 0, in_new = 0, in_ack = 0, in_throwaway = 0, in_diff = []\<rparr>\<rparr>"

definition ex_header :: "u64 \<Rightarrow> u64 \<Rightarrow> outer_header" where
  "ex_header epoch n = datagram_header ((session_new ex_owner 0 epoch)) n False"

definition ex_idle_datagram :: "u64 \<Rightarrow> u64 \<Rightarrow> bytes" where
  "ex_idle_datagram epoch n = datagram_bytes toy_crypto ex_direct_owner (ex_header epoch n)
     (u16_be 0 @ u16_be 0 @ instruction_body (pk_instruction ex_idle))"

lemma ex_idle_datagram_facts:
  assumes "sc_node_id config = sc_node_id ex_host" "sc_peer_node_id config = sc_peer_node_id ex_host"
    "sc_pair_key config = sc_pair_key ex_host"
  shows "open_datagram toy_crypto config (ex_idle_datagram epoch n) = Inr (ex_header epoch n, ex_idle)"
    "verify_tag toy_crypto (ex_idle_datagram epoch n) (path_key toy_crypto (sc_pair_key config))"
    "oh_epoch (ex_header epoch n) = epoch" "oh_seq (ex_header epoch n) = n"
    "oh_src (ex_header epoch n) = NodeId (replicate 16 1)"
proof -
  have wf: "wf_header (ex_header epoch n)"
    unfolding ex_header_def by (rule datagram_header_wf) (use ex_mirrored(3) in \<open>simp add: session_new_def\<close>)
  have e: "packet_encode ex_idle = Inr (u16_be 0 @ u16_be 0 @ instruction_body (pk_instruction ex_idle))"
    by (simp add: packet_encode_Inr ex_idle_def)
  show "oh_epoch (ex_header epoch n) = epoch" "oh_seq (ex_header epoch n) = n"
    "oh_src (ex_header epoch n) = NodeId (replicate 16 1)"
    by (simp_all add: ex_header_def datagram_header_def oh_with_epoch_def oh_new_def session_new_def
        ex_owner_def session_config_new_def Let_def)
  have "oh_dst (ex_header epoch n) = sc_node_id config" "oh_src (ex_header epoch n) = sc_peer_node_id config"
    using assms by (simp_all add: ex_header_def datagram_header_def oh_with_epoch_def oh_new_def session_new_def
        ex_owner_def ex_host_def session_config_new_def Let_def)
  then show "open_datagram toy_crypto config (ex_idle_datagram epoch n) = Inr (ex_header epoch n, ex_idle)"
    unfolding ex_idle_datagram_def using assms(3)
    by (intro open_datagram_bytes [OF toy_aead_laws toy_digest_laws wf e])
      (simp_all add: ex_direct_owner_def ex_owner_def ex_host_def session_config_new_def)
  show "verify_tag toy_crypto (ex_idle_datagram epoch n) (path_key toy_crypto (sc_pair_key config))"
    using verify_tag_encode [OF wf toy_digest_laws] assms(3)
    by (simp add: ex_idle_datagram_def datagram_bytes_def ex_direct_owner_def ex_host_def session_config_new_def)
qed

lemma ex_idle_heard:
  assumes "sc_node_id (se_config s) = sc_node_id ex_host" "sc_peer_node_id (se_config s) = sc_peer_node_id ex_host"
    "sc_pair_key (se_config s) = sc_pair_key ex_host"
    "epoch \<notin> set (se_retired s)" "accept_epoch epoch s = Ret s1"
  shows "handle_datagram toy_crypto (ex_idle_datagram epoch n) now s =
     Ret (Inr False, note_heard (ex_header epoch n) ex_idle now s1)"
  using ex_idle_datagram_facts [OF assms(1-3)] assms(4,5)
  by (simp add: handle_datagram_def apply_instruction_def ex_idle_def CHANNEL_MESSAGES_def CHANNEL_SCREEN_def
      CHANNEL_COUNT_def Let_def)

text \<open>The owner's driver queues the message and flushes it, with any sequence source.\<close>

definition ex_owner_driver :: "'q \<Rightarrow> 'q driver" where
  "ex_owner_driver q = driver_new toy_crypto
     (link_config_new\<lparr>lc_peers := [\<lparr>pc_node_id = NodeId (replicate 16 2), pc_pair_key = PairKey (replicate 16 7)\<rparr>]\<rparr>)
     (toy_state\<lparr>ns_node_id := NodeId (replicate 16 1), ns_role := Owner,
        ns_forwarder_key := ForwarderKey (replicate 16 8)\<rparr>) q (Forwarder_route (ex_addr 1)) (\<lambda>_. 11)"

lemma ex_owner_driver_facts:
  "dr_sessions (ex_owner_driver q) = [NodeId (replicate 16 2) \<mapsto> session_new ex_owner 0 11]"
  "dr_seq (ex_owner_driver q) = q" "dr_route (ex_owner_driver q) = Forwarder_route (ex_addr 1)"
  by (simp_all add: ex_owner_driver_def driver_new_def configured_peers_def session_config_for_def
      ex_owner_def session_config_new_def link_config_new_def Let_def)

lemma ex_owner_driver_ok: "run_ok Owner (ex_owner_driver q) [] []"
proof -
  let ?node = "toy_state\<lparr>ns_node_id := NodeId (replicate 16 1), ns_role := Owner,
     ns_forwarder_key := ForwarderKey (replicate 16 8)\<rparr>"
  have "run_ok (ns_role ?node) (ex_owner_driver q) [] []"
    unfolding ex_owner_driver_def
    by (rule driver_new_run_ok) (simp_all add: configured_peers_def wf_id_def)
  then show ?thesis by simp
qed

lemma ex_owner_run:
  assumes "nxt q = (Inr n, q')"
  shows "\<exists>dg d. driver_run toy_crypto nxt (ex_owner_driver q) [(ex_addr 1, dg)] [] [] d"
proof -
  let ?p = "NodeId (replicate 16 2)"
  let ?d1 = "snd (handle_command (Send ?p ex_message) (ex_owner_driver q))"
  obtain dg a3 where o: "outgoing toy_crypto nxt 100 ex_a1 q = Ret (Inr [dg], a3, q')"
    using ex_sends_from [of nxt q n q', OF assms] by blast
  have d1: "dr_sessions ?d1 = [?p \<mapsto> ex_a1]" "dr_seq ?d1 = q" "dr_route ?d1 = Forwarder_route (ex_addr 1)"
    using ex_queue(1) by (simp_all add: ex_owner_driver_facts)
  obtain d2 where "flush toy_crypto nxt 100 [?p] ?d1 = Ret ([(ex_addr 1, dg)], d2)"
    unfolding flush_def by (simp only: flush_loop.simps d1 fun_upd_same option.case o) (simp add: d1)
  from driver_run.flushed [OF driver_run.command [OF driver_run.start] this] show ?thesis by auto
qed

end
