(* ===== verification/LinkSpec.thy ===== *)
theory LinkSpec
  imports LinkReplay
begin

text \<open>
  The properties of the running link: what reaches the application, what is sent, where it is sent
  to, and what a screen frame carries.
\<close>

text \<open>C30.  What the application receives from a peer is, in order and with nothing lost, doubled or
  taken from another peer, what that peer's session yielded: the rest is in the bounded queue or
  pending behind it.  The queue never holds more than 1024, and while it has room for one message
  of every peer, moving takes the oldest pending message of each.\<close>

theorem application_stream:
  assumes "aead_laws c" "digest_laws c"
    and "wf_id (ns_node_id node)" "\<forall>p \<in> set (configured_peers config node). wf_id (pc_node_id p)"
    and "driver_run c nxt (driver_new c config node q rt epoch) out made got d"
  shows "(\<forall>p. of_peer p made = of_peer p got @ stream_of d p) \<and> length (dr_inbound d) \<le> INBOUND_CAPACITY \<and>
    (\<forall>order. stream_of (flush_inbound order d) = stream_of d) \<and>
    (\<forall>order p. distinct order \<and> length (dr_inbound d) + length order \<le> INBOUND_CAPACITY \<and> p \<in> set order \<longrightarrow>
       pending_of (flush_inbound order d) p = tl (pending_of d p))"
proof -
  have ok: "run_ok (ns_role node) d made got"
    using driver_run_ok [OF assms(1,2) driver_new_run_ok [OF assms(3,4)] assms(5)] by blast
  then have o: "dr_inbound_open d" "length (dr_inbound d) \<le> INBOUND_CAPACITY" by (simp_all add: run_ok_def)
  show ?thesis
    using ok flush_inbound_keeps(4) [OF o(2,1)] flush_inbound_moves [OF _ o(1)] by (auto simp: run_ok_def)
qed

lemma application_stream_witness:
  "\<exists>d. driver_run toy_crypto ex_seq (ex_driver (Forwarder_path None) (Forwarder_route (ex_addr 1)))
      [] [(NodeId (replicate 16 1), 11, ex_message)] [(NodeId (replicate 16 1), 11, ex_message)] d \<and>
    stream_of d (NodeId (replicate 16 1)) = []"
proof -
  let ?p = "NodeId (replicate 16 1)"
  obtain d where d: "driver_run toy_crypto ex_seq (ex_driver (Forwarder_path None) (Forwarder_route (ex_addr 1)))
      [] [(?p, 11, ex_message)] [(?p, 11, ex_message)] d" using ex_driver_run by blast
  have "of_peer ?p [(?p, 11, ex_message)] = of_peer ?p [(?p, 11, ex_message)] @ stream_of d ?p"
    using application_stream [OF toy_aead_laws toy_digest_laws _ _ d [unfolded ex_driver_def]]
    by (simp add: ex_node_def ex_peer_def configured_peers_def wf_id_def)
  then show ?thesis using d by auto
qed

text \<open>C31.  The driver never panics: after any run, whatever datagram arrives is handled and whatever
  is due is sent, all of it to the route's one address.\<close>

theorem driver_is_total:
  assumes "aead_laws c" "digest_laws c"
    and "wf_id (ns_node_id node)" "\<forall>p \<in> set (configured_peers config node). wf_id (pc_node_id p)"
    and "driver_run c nxt (driver_new c config node q rt epoch) out made got d"
  shows "(\<exists>d'. driver_datagram c now dg a d = Ret d') \<and>
    (\<exists>sent d'. flush c nxt now order d = Ret (sent, d') \<and>
       fst ` set sent \<subseteq> {route_destination (dr_route d)} \<and> dr_route d' = dr_route d)"
proof -
  have "driver_ok (ns_role node) d"
    using driver_run_ok [OF assms(1,2) driver_new_run_ok [OF assms(3,4)] assms(5)] by (simp add: run_ok_def)
  from driver_datagram_cases [OF this, of c now dg a] flush_loop_facts [OF assms(1,2) this, of nxt now order "[]"]
  show ?thesis by (force simp: flush_def)
qed

lemma driver_is_total_witness:
  "\<exists>d'. driver_datagram toy_crypto 0 [] (ex_addr 1) (ex_driver (Forwarder_path None) (Forwarder_route (ex_addr 1))) = Ret d'"
  using driver_is_total [where node = ex_node and config = "link_config_new\<lparr>lc_peers := [ex_peer], lc_path := Forwarder_path None\<rparr>"
      and q = 1 and rt = "Forwarder_route (ex_addr 1)" and epoch = "\<lambda>_. 22" and nxt = ex_seq and now = 0
      and dg = "[]" and a = "ex_addr 1" and order = "[]",
      OF toy_aead_laws toy_digest_laws _ _ driver_run.start]
  by (simp add: ex_driver_def ex_node_def ex_peer_def configured_peers_def wf_id_def)

text \<open>C32.  Over whole runs of the two nodes' drivers, each started on the reservation its own
  identity acquired, no two datagrams sent carry the same nonce.\<close>

theorem runs_reuse_no_nonce:
  assumes "json_laws j" "aead_laws c" "digest_laws c"
    and "acquire j pa ea = (Inr a, ea')" "acquire j pb eb = (Inr b, eb')"
    and "run_ok Owner da [] []" "dr_seq da = (an_seq a, ea')" "driver_run c (reserved_next_seq j) da outa ma ga da'"
    and "run_ok Host db [] []" "dr_seq db = (an_seq b, eb')" "driver_run c (reserved_next_seq j) db outb mb gb db'"
  shows "distinct (map (\<lambda>x. nonce_for (datagram_seq (snd x))) (outa @ outb))"
proof -
  have a: "growing Owner (unat (rs_next (an_seq a))) (unat (rs_next (fst (dr_seq da')))) (map snd outa)"
    using reserved.sends_growing [OF _ assms(3) acquired_ok [OF assms(1,4)]]
      driver_run_ok [OF assms(2,3,6,8)] assms(7) by simp
  have b: "growing Host (unat (rs_next (an_seq b))) (unat (rs_next (fst (dr_seq db')))) (map snd outb)"
    using reserved.sends_growing [OF _ assms(3) acquired_ok [OF assms(1,5)]]
      driver_run_ok [OF assms(2,3,9,11)] assms(10) by simp
  from growing_nonces [OF a b] show ?thesis by (simp add: comp_def)
qed

lemma runs_reuse_no_nonce_witness:
  "\<exists>a e dg d. acquire toy_json [] toy_env = (Inr a, e) \<and>
     driver_run toy_crypto (reserved_next_seq toy_json) (ex_owner_driver (an_seq a, e)) [(ex_addr 1, dg)] [] [] d \<and>
     distinct (map (\<lambda>x. nonce_for (datagram_seq (snd x))) ([(ex_addr 1, dg)] @ []))"
proof -
  obtain a e q where a: "acquire toy_json [] toy_env = (Inr a, e)"
    and d: "reserved_next_seq toy_json (an_seq a, e) = (Inr 1, q)" using toy_draw by blast
  obtain dg d' where run: "driver_run toy_crypto (reserved_next_seq toy_json) (ex_owner_driver (an_seq a, e))
      [(ex_addr 1, dg)] [] [] d'" using ex_owner_run [of "reserved_next_seq toy_json", OF d] by blast
  let ?db = "driver_new toy_crypto (link_config_new\<lparr>lc_peers := [ex_peer]\<rparr>) ex_node (an_seq a, e)
    (Forwarder_route (ex_addr 1)) (\<lambda>_. 22)"
  have "run_ok (ns_role ex_node) ?db [] []"
    by (rule driver_new_run_ok) (simp_all add: ex_node_def toy_state_def ex_peer_def configured_peers_def wf_id_def)
  then have ok: "run_ok Host ?db [] []" by (simp add: ex_node_def)
  have q: "dr_seq ?db = (an_seq a, e)" by (simp add: driver_new_def Let_def)
  from runs_reuse_no_nonce [OF toy_json_laws toy_aead_laws toy_digest_laws a a ex_owner_driver_ok
      ex_owner_driver_facts(2) run ok q driver_run.start]
  show ?thesis using a run by blast
qed

definition ex_replay_session :: session where
  "ex_replay_session = (session_new ex_host 0 5)\<lparr>se_peer_epoch := Some 11, se_highest := Some 1\<rparr>"

definition ex_replay_driver :: "u64 driver" where
  "ex_replay_driver = (ex_driver (Forwarder_path None) (Direct_route (ex_addr 1)))\<lparr>
     dr_sessions := [NodeId (replicate 16 1) \<mapsto> ex_replay_session]\<rparr>"

lemma ex_replay_ok: "driver_ok Host ex_replay_driver"
proof -
  have "driver_ok Host (ex_driver (Forwarder_path None) (Direct_route (ex_addr 1)))"
    using ex_driver_ok by (simp add: run_ok_def)
  from driver_okD [OF this, of "NodeId (replicate 16 1)" "session_new ex_host 0 22"]
  have "session_ok (session_new ex_host 0 22)" by (simp add: ex_driver_session)
  then show ?thesis
    by (simp add: driver_ok_def ex_replay_driver_def ex_replay_session_def session_ok_def epoch_ok_def
        session_new_def ex_host_def session_config_new_def)
qed

lemma ex_restart:
  "\<exists>s1. accept_epoch 22 ex_replay_session = Ret s1 \<and> mq_messages (ch_received (se_messages s1)) = [] \<and>
     rg_rows (ch_received (se_screen s1)) = []"
  by (simp add: accept_epoch_def ex_replay_session_def session_new_def reset_peer_def channel_new_def
      mq_prune_through_def mq_reset_origin_def mq_num_def mq_new_def rg_new_def Let_def
      CHANNEL_SCREEN_def CHANNEL_MESSAGES_def)

lemma ex_replay_heard:
  obtains s2 where "accepted toy_crypto 200 (ex_idle_datagram 22 2) ex_replay_driver (ex_header 22 2) ex_replay_session s2"
    "se_peer_epoch s2 = Some 22" "fst (take_messages s2) = []"
    "newly_complete (NodeId (replicate 16 1)) s2 ex_replay_driver = []" "se_advanced s2"
proof -
  let ?s = ex_replay_session
  have c: "se_config ?s = ex_host" by (simp add: ex_replay_session_def session_new_def)
  note f = ex_idle_datagram_facts [of "se_config ?s", unfolded c, OF refl refl refl]
  obtain s1 where s1: "accept_epoch 22 ?s = Ret s1" "mq_messages (ch_received (se_messages s1)) = []"
    "rg_rows (ch_received (se_screen s1)) = []" using ex_restart by blast
  let ?s2 = "note_heard (ex_header 22 2) ex_idle 200 s1"
  have h: "handle_datagram toy_crypto (ex_idle_datagram 22 2) 200 ?s = Ret (Inr False, ?s2)"
    by (rule ex_idle_heard) (simp_all add: c s1, simp add: ex_replay_session_def session_new_def)
  have "se_highest s1 = Some 1" using accept_epoch_highest [OF s1(1)] by (simp add: ex_replay_session_def)
  then have "se_advanced ?s2" using f(4) [of 22 2] by (simp add: note_heard_def Let_def)
  moreover have "accepted toy_crypto 200 (ex_idle_datagram 22 2) ex_replay_driver (ex_header 22 2) ?s ?s2"
    using h f(2,5) open_datagram_header [OF f(1)]
    by (auto simp: accepted_def ex_replay_driver_def c pending_of_def)
  moreover have "fst (take_messages ?s2) = []" "newly_complete (NodeId (replicate 16 1)) ?s2 ex_replay_driver = []"
    using s1(2,3)
    by (simp_all add: take_messages_def received_mut_def mq_drain_def newly_complete_def session_screen_def
        complete_screen_frame_def frame_simps Let_def split: prod.splits)
  moreover have "se_peer_epoch ?s2 = Some 22" using accept_epoch_known [OF s1(1)] by (simp add: frame_simps)
  ultimately show ?thesis using that by blast
qed

text \<open>C33.  The address a link sends to moves only on a direct link, only to where an authenticated
  datagram of its peer came from (outer tag under the path key, payload under the pair key), and only
  when the datagram is news or belongs to a retired epoch.\<close>

theorem route_is_authenticated:
  assumes "driver_ok r d" "driver_datagram c now dg a d = Ret d'"
  shows "dr_route d' = dr_route d \<or>
    (\<exists>b s h p. dr_route d = Direct_route b \<and> dr_route d' = Direct_route a \<and>
       dr_sessions d (oh_src h) = Some s \<and> verify_tag c dg (path_key c (sc_pair_key (se_config s))) \<and>
       open_datagram c (se_config s) dg = Inr (h, p) \<and>
       (fresh_in s h \<or> oh_epoch h \<in> set (se_retired s) \<and> se_advanced s))"
proof (cases "dr_route d' = dr_route d")
  case False
  from route_changes [OF assms False] show ?thesis by (metis (full_types))
qed simp

lemma route_is_authenticated_witness:
  "\<exists>d'. driver_datagram toy_crypto 200 (ex_idle_datagram 22 2) (ex_addr 7) ex_replay_driver = Ret d' \<and>
     dr_route d' = Direct_route (ex_addr 7) \<and> dr_route ex_replay_driver = Direct_route (ex_addr 1) \<and>
     (\<exists>(s :: session) h p. open_datagram toy_crypto (se_config s) (ex_idle_datagram 22 2) = Inr (h, p))"
proof -
  have r: "dr_route ex_replay_driver = Direct_route (ex_addr 1)" by (simp add: ex_replay_driver_def)
  obtain s2 where s2: "accepted toy_crypto 200 (ex_idle_datagram 22 2) ex_replay_driver (ex_header 22 2) ex_replay_session s2"
    "se_advanced s2" using ex_replay_heard by blast
  obtain d' where d': "driver_datagram toy_crypto 200 (ex_idle_datagram 22 2) (ex_addr 7) ex_replay_driver = Ret d'"
    "dr_route d' = Direct_route (ex_addr 7)"
    by (rule accepted_moves [OF ex_replay_ok s2 r, of "ex_addr 7"])
  have "ex_addr 7 \<noteq> ex_addr 1" by (simp add: ex_addr_def)
  then have "dr_route d' \<noteq> dr_route ex_replay_driver" using d'(2) r by simp
  then have "\<exists>(s :: session) h p. open_datagram toy_crypto (se_config s) (ex_idle_datagram 22 2) = Inr (h, p)"
    using route_is_authenticated [OF ex_replay_ok d'(1)] by blast
  then show ?thesis using d' r by blast
qed

text \<open>C34.  After a direct peer restarted (a datagram of a new epoch was accepted as news), any datagram
  of its previous epoch, replayed from any address, moves the link's address there: it is not
  applied, but it leaves the session's note that the last datagram was news as it stood.\<close>

theorem replay_moves_route:
  assumes "driver_ok r d" "accepted c now dg2 d h2 s s1" "dr_route d = Direct_route b"
    and "open_datagram c (se_config s) dg2 = Inr (h2, p2)" "fresh_in s h2" "oh_epoch h2 \<notin> set (se_retired s)"
    and "driver_datagram c now dg2 home d = Ret d1" "pending_of d1 (oh_src h2) = []"
    and "open_datagram c (se_config s) dg1 = Inr (h1, p1)"
    and "verify_tag c dg1 (path_key c (sc_pair_key (se_config s)))"
    and "se_peer_epoch s = Some (oh_epoch h1)" "oh_epoch h2 \<noteq> oh_epoch h1"
  shows "dr_route d1 = Direct_route home \<and>
    (\<exists>d2. driver_datagram c later dg1 stranger d1 = Ret d2 \<and> dr_route d2 = Direct_route stranger)"
proof -
  obtain bb where hd: "handle_datagram c dg2 now s = Ret (Inr bb, s1)" using assms(2) by (auto simp: accepted_def)
  note re = restart_heard [OF hd assms(4,11,12,6,5)]
  obtain d' where d': "driver_datagram c now dg2 home d = Ret d'" "driver_ok r d'" "dr_route d' = Direct_route home"
    "dr_sessions d' = (dr_sessions d)(oh_src h2 \<mapsto> snd (take_messages s1))"
    by (rule accepted_moves [OF assms(1,2) re(2) assms(3)])
  have eq: "d' = d1" using d'(1) assms(7) by simp
  let ?s2 = "snd (take_messages s1)"
  have s2: "se_config ?s2 = se_config s" "oh_epoch h1 \<in> set (se_retired ?s2)" "se_advanced ?s2"
    using re session_frame(3) [of s1] by (simp_all add: take_messages_frame)
  have "\<exists>d2. driver_datagram c later dg1 stranger d1 = Ret d2 \<and> dr_route d2 = Direct_route stranger"
    using d'(2-4) assms(8-10) s2 unfolding eq
    by (intro retired_moves [where s = ?s2 and p = "oh_src h2" and b = home and h = h1 and pk = p1]) auto
  then show ?thesis using d'(3) eq by simp
qed

lemma replay_moves_route_witness:
  "\<exists>d1 d2. driver_datagram toy_crypto 200 (ex_idle_datagram 22 2) (ex_addr 1) ex_replay_driver = Ret d1 \<and>
     dr_route d1 = Direct_route (ex_addr 1) \<and>
     driver_datagram toy_crypto 300 (ex_idle_datagram 11 1) (ex_addr 666) d1 = Ret d2 \<and>
     dr_route d2 = Direct_route (ex_addr 666)"
proof -
  let ?s = ex_replay_session and ?p = "NodeId (replicate 16 1)"
  have c: "se_config ?s = ex_host" by (simp add: ex_replay_session_def session_new_def)
  note f = ex_idle_datagram_facts [of "se_config ?s", unfolded c, OF refl refl refl]
  obtain s2 where s2: "accepted toy_crypto 200 (ex_idle_datagram 22 2) ex_replay_driver (ex_header 22 2) ?s s2"
    "se_peer_epoch s2 = Some 22" "fst (take_messages s2) = []" "newly_complete ?p s2 ex_replay_driver = []"
    using ex_replay_heard by blast
  obtain d1 where d1: "driver_datagram toy_crypto 200 (ex_idle_datagram 22 2) (ex_addr 1) ex_replay_driver = Ret d1"
    using driver_datagram_cases [OF ex_replay_ok, of toy_crypto 200 "ex_idle_datagram 22 2" "ex_addr 1"] by blast
  have "\<forall>p. stream_of d1 p = stream_of ex_replay_driver p @ (if p = oh_src (ex_header 22 2)
      then map (Pair 22) (fst (take_messages s2) @ newly_complete p s2 ex_replay_driver) else [])"
    using driver_datagram_stream [OF ex_replay_ok d1] s2(1,2) by blast
  then have "stream_of d1 ?p = stream_of ex_replay_driver ?p" using s2(3,4) f(5) by simp
  moreover have "stream_of ex_replay_driver ?p = []"
    by (simp add: stream_of_def pending_of_def ex_replay_driver_def)
  ultimately have p1: "pending_of d1 (oh_src (ex_header 22 2)) = []" by (simp add: stream_of_def f(5))
  have h2: "dr_route ex_replay_driver = Direct_route (ex_addr 1)" "fresh_in ?s (ex_header 22 2)"
    "oh_epoch (ex_header 22 2) \<notin> set (se_retired ?s)" "se_peer_epoch ?s = Some (oh_epoch (ex_header 11 1))"
    "oh_epoch (ex_header 22 2) \<noteq> oh_epoch (ex_header 11 1)"
    by (simp_all add: f fresh_in_def ex_replay_driver_def ex_replay_session_def session_new_def)
  have o: "open_datagram toy_crypto (se_config ?s) (ex_idle_datagram epoch n) = Inr (ex_header epoch n, ex_idle)"
    "verify_tag toy_crypto (ex_idle_datagram epoch n) (path_key toy_crypto (sc_pair_key (se_config ?s)))" for epoch n
    using f by (simp_all add: c)
  from replay_moves_route [OF ex_replay_ok s2(1) h2(1) o(1) h2(2,3) d1 p1 o h2(4,5), of 300 "ex_addr 666"] d1
  show ?thesis by blast
qed

text \<open>C35.  A screen frame, whatever its length, is sent as a grid that grows by one row per update,
  each update fitting a datagram, as long as the history has room for its rows; the finished grid
  reads back as the body, and no proper prefix of it reads as a frame.\<close>

theorem screen_frame_sent:
  fixes d :: "'q driver"
  assumes "dr_sessions d peer = Some s" "length body < 2 ^ 32"
    "length (ch_sent_states (se_screen s)) + frame_count body \<le> ch_max_sent (se_screen s)"
  shows "\<exists>d' s'. send_screen_frame (\<lambda>rows. handle_command (Screen peer rows)) body d = (Inr (), d') \<and>
    dr_sessions d' = (dr_sessions d)(peer \<mapsto> s') \<and>
    complete_screen_frame (rg_rows (ch_current (se_screen s'))) = Some body \<and>
    length (rg_rows (ch_current (se_screen s'))) = frame_count body \<and>
    (\<forall>k < frame_count body. complete_screen_frame (take k (rg_rows (ch_current (se_screen s')))) = None)"
proof -
  note f = frame_chunks_facts [of body]
  have "frame_count body < 2 ^ 32" using assms(2) by (simp add: frame_count_def FRAME_CAPACITY_eq)
  note complete = complete_frame [OF f(2,4) this]
  obtain d' s' where "send_screen_frame (\<lambda>rows. handle_command (Screen peer rows)) body d = (Inr (), d')"
    "dr_sessions d' = (dr_sessions d)(peer \<mapsto> s')"
    "rg_rows (ch_current (se_screen s')) = frame_rows_from (frame_count body) 0 (frame_chunks body)"
    using send_screen_frame_ok [OF assms(1,3)] by blast
  then show ?thesis using complete f(1,2) by (intro exI [of _ d'] exI [of _ s']) simp
qed

lemma screen_frame_sent_witness:
  "\<exists>d' s'. send_screen_frame (\<lambda>rows. handle_command (Screen (NodeId (replicate 16 1)) rows)) (replicate 3000 7)
      (ex_driver (Forwarder_path None) (Forwarder_route (ex_addr 1))) = (Inr (), d') \<and>
    dr_sessions d' (NodeId (replicate 16 1)) = Some s' \<and>
    complete_screen_frame (rg_rows (ch_current (se_screen s'))) = Some (replicate 3000 7) \<and>
    length (rg_rows (ch_current (se_screen s'))) = 3"
proof -
  let ?d = "ex_driver (Forwarder_path None) (Forwarder_route (ex_addr 1))" and ?p = "NodeId (replicate 16 1)"
  let ?s = "session_new ex_host 0 22"
  have n: "frame_count (replicate 3000 7) = 3" by (simp add: frame_count_def FRAME_CAPACITY_eq)
  have "length (ch_sent_states (se_screen ?s)) + 3 \<le> ch_max_sent (se_screen ?s)"
    by (simp add: session_new_def channel_new_def ex_host_def session_config_new_def MAX_SENT_STATES_def)
  with screen_frame_sent [of ?d ?p ?s "replicate 3000 7"] n
  show ?thesis by (auto simp: ex_driver_session simp del: handle_command.simps)
qed

end
