(* ===== verification/ScreenProto.thy ===== *)
theory ScreenProto
  imports Prelude
begin

text \<open>
  The terminal-screen protocol \<open>medulla.screen.v1\<close> (\<open>src/src/sdk/src/protocol/screen\<close>): the data
  model (\<open>types.rs\<close>), the sender's run coalescing and row diff (\<open>diff.rs\<close>) and the viewer's fold
  (\<open>apply.rs\<close>), with the lemmas that a frame carries exactly the screen it was built from.
\<close>

section \<open>Data model\<close>

definition ATTR_BOLD :: u8 where "ATTR_BOLD = push_bit 0 1"
definition ATTR_ITALIC :: u8 where "ATTR_ITALIC = push_bit 1 1"
definition ATTR_UNDERLINE :: u8 where "ATTR_UNDERLINE = push_bit 2 1"
definition ATTR_INVERSE :: u8 where "ATTR_INVERSE = push_bit 3 1"

datatype color = Default_color | Idx u8 | Rgb u8 u8 u8

record run_style =
  rs_fg :: color
  rs_bg :: color
  rs_attrs :: u8

definition default_style :: run_style where
  "default_style = \<lparr>rs_fg = Default_color, rs_bg = Default_color, rs_attrs = 0\<rparr>"

definition style_has :: "run_style \<Rightarrow> u8 \<Rightarrow> bool" where
  "style_has s flag \<longleftrightarrow> rs_attrs s AND flag \<noteq> 0"

record screen_run =
  sr_text :: rstr
  sr_style :: run_style

record row_update =
  ru_y :: u16
  ru_runs :: "screen_run list"

record screen_grid =
  sg_cols :: u16
  sg_rows :: u16
  sg_lines :: "screen_run list list"
  sg_cursor :: "u16 \<times> u16"
  sg_hide_cursor :: bool

definition same_size :: "screen_grid \<Rightarrow> screen_grid \<Rightarrow> bool" where
  "same_size g other \<longleftrightarrow> sg_cols g = sg_cols other \<and> sg_rows g = sg_rows other"

record screen_frame =
  sf_task_id :: rstr
  sf_seq :: i64
  sf_base_seq :: i64
  sf_full :: bool
  sf_cols :: u16
  sf_rows :: u16
  sf_cursor :: "u16 \<times> u16"
  sf_hide_cursor :: bool
  sf_rows_changed :: "row_update list"

record screen_view =
  sv_grid :: screen_grid
  sv_seq :: i64

datatype frame_decision = Unchanged | Send_frame screen_frame

datatype apply_outcome = Applied | NeedsResync

section \<open>Sender\<close>

text \<open>\<open>str::trim_end\<close>.\<close>

definition trim_end :: "rstr \<Rightarrow> rstr" where
  "trim_end s = rev (dropWhile is_whitespace (rev s))"

fun push_cell :: "screen_run list \<Rightarrow> rstr \<times> run_style \<Rightarrow> screen_run list" where
  "push_cell runs (cell, style) =
     (if runs \<noteq> [] \<and> sr_style (last runs) = style
      then butlast runs @ [(last runs)\<lparr>sr_text := sr_text (last runs) @ cell\<rparr>]
      else runs @ [\<lparr>sr_text = cell, sr_style = style\<rparr>])"

definition trim_last :: "screen_run list \<Rightarrow> screen_run list" where
  "trim_last runs =
     (if runs \<noteq> [] \<and> sr_style (last runs) = default_style
      then (let trimmed = trim_end (sr_text (last runs))
            in if trimmed = [] then butlast runs
               else butlast runs @ [(last runs)\<lparr>sr_text := trimmed\<rparr>])
      else runs)"

definition coalesce_runs :: "(rstr \<times> run_style) list \<Rightarrow> screen_run list" where
  "coalesce_runs cells = trim_last (foldl push_cell [] cells)"

definition changed_rows :: "screen_grid \<Rightarrow> screen_grid \<Rightarrow> row_update list option" where
  "changed_rows previous nxt =
     (if \<not> same_size previous nxt then None
      else Some (map (\<lambda>(y, runs). \<lparr>ru_y = word_of_nat y, ru_runs = runs\<rparr>)
             (filter (\<lambda>(y, runs). \<not> (y < length (sg_lines previous) \<and> sg_lines previous ! y = runs))
               (enumerate 0 (sg_lines nxt)))))"

definition all_rows :: "screen_grid \<Rightarrow> row_update list" where
  "all_rows g = map (\<lambda>(y, runs). \<lparr>ru_y = word_of_nat y, ru_runs = runs\<rparr>) (enumerate 0 (sg_lines g))"

definition frame_of :: "screen_grid \<Rightarrow> rstr \<Rightarrow> i64 \<Rightarrow> i64 \<Rightarrow> bool \<Rightarrow> row_update list \<Rightarrow> screen_frame" where
  "frame_of nxt task_id seq base_seq full rows_changed =
     \<lparr>sf_task_id = task_id, sf_seq = seq, sf_base_seq = base_seq, sf_full = full,
      sf_cols = sg_cols nxt, sf_rows = sg_rows nxt, sf_cursor = sg_cursor nxt,
      sf_hide_cursor = sg_hide_cursor nxt, sf_rows_changed = rows_changed\<rparr>"

definition build_frame ::
  "screen_grid option \<Rightarrow> screen_grid \<Rightarrow> rstr \<Rightarrow> i64 \<Rightarrow> i64 \<Rightarrow> frame_decision" where
  "build_frame previous nxt task_id seq base_seq =
     (case Option.bind previous (\<lambda>p. map_option (Pair p) (changed_rows p nxt)) of
        Some (p, rows) \<Rightarrow>
          if rows = [] \<and> sg_cursor p = sg_cursor nxt \<and> sg_hide_cursor p = sg_hide_cursor nxt
          then Unchanged
          else Send_frame (frame_of nxt task_id seq base_seq False rows)
      | None \<Rightarrow> Send_frame (frame_of nxt task_id seq base_seq True (all_rows nxt)))"

section \<open>Viewer\<close>

fun put_row :: "screen_run list list \<Rightarrow> row_update \<Rightarrow> screen_run list list" where
  "put_row ls r =
     (if unat (ru_y r) < length ls then ls[unat (ru_y r) := ru_runs r] else ls)"

definition grid_from_full :: "screen_frame \<Rightarrow> screen_grid" where
  "grid_from_full f =
     \<lparr>sg_cols = sf_cols f, sg_rows = sf_rows f,
      sg_lines = foldl put_row (replicate (unat (sf_rows f)) []) (sf_rows_changed f),
      sg_cursor = sf_cursor f, sg_hide_cursor = sf_hide_cursor f\<rparr>"

definition apply_frame ::
  "screen_view option \<Rightarrow> screen_frame \<Rightarrow> apply_outcome \<times> screen_view option" where
  "apply_frame view f =
     (if sf_full f then (Applied, Some \<lparr>sv_grid = grid_from_full f, sv_seq = sf_seq f\<rparr>)
      else case view of
        None \<Rightarrow> (NeedsResync, view)
      | Some current \<Rightarrow>
          if sv_seq current \<noteq> sf_base_seq f then (NeedsResync, view)
          else if sg_cols (sv_grid current) \<noteq> sf_cols f \<or> sg_rows (sv_grid current) \<noteq> sf_rows f
          then (NeedsResync, view)
          else if \<exists>r \<in> set (sf_rows_changed f). unat (ru_y r) \<ge> length (sg_lines (sv_grid current))
          then (NeedsResync, view)
          else (Applied, Some \<lparr>
            sv_grid = (sv_grid current)\<lparr>
              sg_lines := foldl (\<lambda>ls r. ls[unat (ru_y r) := ru_runs r]) (sg_lines (sv_grid current)) (sf_rows_changed f),
              sg_cursor := sf_cursor f, sg_hide_cursor := sf_hide_cursor f\<rparr>,
            sv_seq = sf_seq f\<rparr>))"

section \<open>A frame carries its screen\<close>

text \<open>A well-formed grid has as many lines as it says.\<close>

definition wf_grid :: "screen_grid \<Rightarrow> bool" where
  "wf_grid g \<longleftrightarrow> length (sg_lines g) = unat (sg_rows g)"

lemma wf_grid_small: "wf_grid g \<Longrightarrow> length (sg_lines g) < 65536"
  using unat_bound16 [of "sg_rows g"] by (simp add: wf_grid_def)

text \<open>Writing numbered rows over a list.\<close>

lemma length_put_rows [simp]: "length (foldl (\<lambda>ls r. ls[unat (ru_y r) := ru_runs r]) ls rs) = length ls"
  by (induction rs arbitrary: ls) auto

lemma put_row_update: "put_row ls r = ls[unat (ru_y r) := ru_runs r]"
  by (simp add: list_update_beyond)

definition numbered :: "(nat \<times> screen_run list) list \<Rightarrow> row_update list" where
  "numbered ups = map (\<lambda>(y, runs). \<lparr>ru_y = word_of_nat y, ru_runs = runs\<rparr>) ups"

lemma in_numbered: "r \<in> set (numbered ups) \<Longrightarrow> \<exists>y runs. (y, runs) \<in> set ups \<and> ru_y r = word_of_nat y"
  by (auto simp: numbered_def)

lemma put_numbered:
  assumes "\<forall>(y, r) \<in> set ups. y < 65536 \<and> y < length new \<and> r = new ! y" "length ls = length new"
    and "\<forall>i < length new. ls ! i = new ! i \<or> i \<in> fst ` set ups"
  shows "foldl (\<lambda>ls r. ls[unat (ru_y r) := ru_runs r]) ls (numbered ups) = new"
  using assms
proof (induction ups arbitrary: ls)
  case Nil
  then show ?case by (auto simp: numbered_def intro: nth_equalityI)
next
  case (Cons u ups)
  obtain y r where u: "u = (y, r)" by (cases u)
  have y: "y < 65536" "y < length new" "r = new ! y" using Cons.prems(1) u by auto
  then have "unat (word_of_nat y :: u16) = y" by (simp add: unat_of_nat take_bit_nat_eq_self)
  moreover have "foldl (\<lambda>ls r. ls[unat (ru_y r) := ru_runs r]) (ls[y := r]) (numbered ups) = new"
    by (rule Cons.IH) (use Cons.prems u y in \<open>auto simp: nth_list_update\<close>)
  ultimately show ?case by (simp add: numbered_def u)
qed

lemma all_rows_numbered: "all_rows g = numbered (enumerate 0 (sg_lines g))"
  by (simp add: all_rows_def numbered_def)

lemma changed_rows_numbered:
  "same_size p n \<Longrightarrow> changed_rows p n = Some (numbered
     (filter (\<lambda>(y, runs). \<not> (y < length (sg_lines p) \<and> sg_lines p ! y = runs)) (enumerate 0 (sg_lines n))))"
  by (simp add: changed_rows_def numbered_def)

lemma in_enumerate0: "(y, r) \<in> set (enumerate 0 xs) \<longleftrightarrow> y < length xs \<and> r = xs ! y"
  by (auto simp: in_set_enumerate_eq)

lemma full_frame_grid:
  assumes "wf_grid g"
  shows "grid_from_full (frame_of g t n b True (all_rows g)) = g"
proof -
  have "foldl put_row (replicate (unat (sg_rows g)) []) (all_rows g) = sg_lines g"
    unfolding all_rows_numbered put_row_update [abs_def]
    by (rule put_numbered) (use assms wf_grid_small [OF assms] in
        \<open>auto simp: in_enumerate0 wf_grid_def image_iff Bex_def\<close>)
  then show ?thesis by (simp add: grid_from_full_def frame_of_def)
qed

lemma delta_applies:
  assumes "wf_grid p" "wf_grid g" "changed_rows p g = Some rows"
  shows "apply_frame (Some \<lparr>sv_grid = p, sv_seq = b\<rparr>) (frame_of g t n b False rows)
     = (Applied, Some \<lparr>sv_grid = g, sv_seq = n\<rparr>)"
proof -
  let ?ups = "filter (\<lambda>(y, runs). \<not> (y < length (sg_lines p) \<and> sg_lines p ! y = runs)) (enumerate 0 (sg_lines g))"
  have size: "same_size p g" using assms(3) by (simp add: changed_rows_def split: if_splits)
  then have rows: "rows = numbered ?ups" using changed_rows_numbered assms(3) by simp
  have len: "length (sg_lines p) = length (sg_lines g)"
    using assms(1,2) size by (simp add: wf_grid_def same_size_def)
  note small = wf_grid_small [OF assms(2)]
  have "foldl (\<lambda>ls r. ls[unat (ru_y r) := ru_runs r]) (sg_lines p) rows = sg_lines g"
    unfolding rows
    by (rule put_numbered) (use len small in \<open>auto simp: in_enumerate0 image_iff Bex_def\<close>)
  moreover have "unat (ru_y r) < length (sg_lines p)" if r: "r \<in> set rows" for r
  proof -
    obtain y where "y < length (sg_lines g)" "ru_y r = word_of_nat y"
      using in_numbered [OF r [unfolded rows]] by (auto simp: in_enumerate0)
    then show ?thesis using len small by (simp add: unat_of_nat take_bit_nat_eq_self)
  qed
  ultimately show ?thesis
    using size by (auto simp: apply_frame_def frame_of_def same_size_def not_le [symmetric])
qed

lemma build_frame_carries:
  assumes "wf_grid g" "\<forall>p. previous = Some p \<longrightarrow> wf_grid p"
  shows "(case build_frame previous g t n b of
      Unchanged \<Rightarrow> previous = Some g
    | Send_frame f \<Rightarrow> sf_task_id f = t \<and> sf_seq f = n \<and> sf_base_seq f = b \<and>
        (sf_full f \<longrightarrow> grid_from_full f = g) \<and>
        (\<not> sf_full f \<longrightarrow> (\<exists>p. previous = Some p \<and> same_size p g \<and>
           apply_frame (Some \<lparr>sv_grid = p, sv_seq = b\<rparr>) f = (Applied, Some \<lparr>sv_grid = g, sv_seq = n\<rparr>))))"
proof (cases "\<exists>p. previous = Some p \<and> same_size p g")
  case False
  then have "build_frame previous g t n b = Send_frame (frame_of g t n b True (all_rows g))"
    by (cases previous) (auto simp: build_frame_def changed_rows_def)
  then show ?thesis using full_frame_grid [OF assms(1)] by (simp add: frame_of_def)
next
  case True
  then obtain p where p: "previous = Some p" "same_size p g" by blast
  obtain rows where rows: "changed_rows p g = Some rows" using p(2) changed_rows_numbered by blast
  note delta = delta_applies [of p g rows b t n, OF _ assms(1) rows]
  show ?thesis
  proof (cases "rows = [] \<and> sg_cursor p = sg_cursor g \<and> sg_hide_cursor p = sg_hide_cursor g")
    case True
    then have "p\<lparr>sg_cursor := sg_cursor p, sg_hide_cursor := sg_hide_cursor p\<rparr> = g"
      using delta assms(2) p(1) by (auto simp: apply_frame_def frame_of_def split: if_splits)
    then have "p = g" by simp
    then show ?thesis using True p rows by (simp add: build_frame_def)
  next
    case False
    then have "build_frame previous g t n b = Send_frame (frame_of g t n b False rows)"
      using p rows by (auto simp: build_frame_def)
    moreover have "sf_task_id (frame_of g t n b False rows) = t \<and> sf_seq (frame_of g t n b False rows) = n \<and>
        sf_base_seq (frame_of g t n b False rows) = b \<and> \<not> sf_full (frame_of g t n b False rows)"
      by (simp add: frame_of_def)
    ultimately show ?thesis using delta assms(2) p by simp
  qed
qed

text \<open>A delta takes effect only on the sequence, the size and the rows it was built for, and a
  refused frame changes nothing.\<close>

lemma apply_frame_refused: "apply_frame view f = (NeedsResync, view') \<Longrightarrow> view' = view"
  by (auto simp: apply_frame_def split: if_splits option.splits)

lemma apply_frame_applied:
  "apply_frame view f = (Applied, view') \<Longrightarrow> \<exists>v. view' = Some v \<and> sv_seq v = sf_seq f \<and>
     (sf_full f \<and> sv_grid v = grid_from_full f \<or>
      \<not> sf_full f \<and> (\<exists>u. view = Some u \<and> sv_seq u = sf_base_seq f \<and> sg_cols (sv_grid u) = sf_cols f \<and>
        sg_rows (sv_grid u) = sf_rows f))"
  by (auto simp: apply_frame_def split: if_splits option.splits)

end
