(* ===== verification/ScreenConvert.thy ===== *)
theory ScreenConvert
  imports ScreenProto "HOL-Library.Sublist"
begin

text \<open>
  The boundary between the emulator's cells and the wire (\<open>src/src/tui/src/worker/stream/convert.rs\<close>
  and the snapshot types of \<open>worker/pty/manager/screen/types.rs\<close>).  The colour of the \<open>vt100\<close> crate
  is its public enum; splitting a text into grapheme clusters (the \<open>unicode-segmentation\<close> crate)
  is a parameter \<open>graphemes\<close>.
\<close>

section \<open>Cells\<close>

datatype vt_color = Vt_default | Vt_idx u8 | Vt_rgb u8 u8 u8

record screen_cell =
  ct_text :: rstr
  ct_fg :: vt_color
  ct_bg :: vt_color
  ct_bold :: bool
  ct_italic :: bool
  ct_underline :: bool
  ct_inverse :: bool

record screen_snapshot =
  sn_cells :: "screen_cell list list"
  sn_cursor :: "u16 \<times> u16"
  sn_hide_cursor :: bool

fun wire_color :: "vt_color \<Rightarrow> color" where
  "wire_color Vt_default = Default_color"
| "wire_color (Vt_idx i) = Idx i"
| "wire_color (Vt_rgb r g b) = Rgb r g b"

definition wire_style :: "screen_cell \<Rightarrow> run_style" where
  "wire_style cell =
     (let a0 = 0;
          a1 = (if ct_bold cell then a0 OR ATTR_BOLD else a0);
          a2 = (if ct_italic cell then a1 OR ATTR_ITALIC else a1);
          a3 = (if ct_underline cell then a2 OR ATTR_UNDERLINE else a2);
          a4 = (if ct_inverse cell then a3 OR ATTR_INVERSE else a3)
      in \<lparr>rs_fg = wire_color (ct_fg cell), rs_bg = wire_color (ct_bg cell), rs_attrs = a4\<rparr>)"

definition wire_row :: "screen_cell list \<Rightarrow> screen_run list" where
  "wire_row cells = coalesce_runs (map (\<lambda>cell. (ct_text cell, wire_style cell)) cells)"

definition wire_grid :: "screen_snapshot \<Rightarrow> screen_grid" where
  "wire_grid s =
     \<lparr>sg_cols = word_of_nat (case sn_cells s of [] \<Rightarrow> 0 | row # _ \<Rightarrow> length row),
      sg_rows = word_of_nat (length (sn_cells s)),
      sg_lines = map wire_row (sn_cells s),
      sg_cursor = sn_cursor s, sg_hide_cursor = sn_hide_cursor s\<rparr>"

fun cell_color :: "color \<Rightarrow> vt_color" where
  "cell_color Default_color = Vt_default"
| "cell_color (Idx i) = Vt_idx i"
| "cell_color (Rgb r g b) = Vt_rgb r g b"

definition cells_of_run :: "(rstr \<Rightarrow> rstr list) \<Rightarrow> screen_run \<Rightarrow> screen_cell list" where
  "cells_of_run graphemes run =
     map (\<lambda>cluster.
       \<lparr>ct_text = cluster, ct_fg = cell_color (rs_fg (sr_style run)), ct_bg = cell_color (rs_bg (sr_style run)),
        ct_bold = style_has (sr_style run) ATTR_BOLD, ct_italic = style_has (sr_style run) ATTR_ITALIC,
        ct_underline = style_has (sr_style run) ATTR_UNDERLINE,
        ct_inverse = style_has (sr_style run) ATTR_INVERSE\<rparr>)
     (graphemes (sr_text run))"

text \<open>\<open>Vec::resize\<close>.\<close>

definition resize_to :: "nat \<Rightarrow> 'a \<Rightarrow> 'a list \<Rightarrow> 'a list" where
  "resize_to n x xs = take n xs @ replicate (n - length xs) x"

definition blank_cell :: screen_cell where
  "blank_cell = \<lparr>ct_text = [32], ct_fg = Vt_default, ct_bg = Vt_default, ct_bold = False,
     ct_italic = False, ct_underline = False, ct_inverse = False\<rparr>"

definition snapshot_from_grid :: "(rstr \<Rightarrow> rstr list) \<Rightarrow> screen_grid \<Rightarrow> screen_snapshot" where
  "snapshot_from_grid graphemes g =
     (let width = unat (sg_cols g);
          cells = map (\<lambda>runs. resize_to width blank_cell (concat (map (cells_of_run graphemes) runs))) (sg_lines g)
      in \<lparr>sn_cells = resize_to (unat (sg_rows g)) (replicate width blank_cell) cells,
          sn_cursor = sg_cursor g, sn_hide_cursor = sg_hide_cursor g\<rparr>)"

section \<open>Styles survive the wire\<close>

lemma cell_color_wire [simp]: "cell_color (wire_color c) = c"
  by (cases c) simp_all

lemma bit_attrs:
  "bit ATTR_BOLD n = (n = 0)" "bit ATTR_ITALIC n = (n = 1)"
  "bit ATTR_UNDERLINE n = (n = 2)" "bit ATTR_INVERSE n = (n = 3)"
  by (simp_all only: ATTR_BOLD_def ATTR_ITALIC_def ATTR_UNDERLINE_def ATTR_INVERSE_def bit_push_bit_iff bit_1_iff)
    auto

lemma and_single:
  assumes "\<And>n. bit (w :: u8) n \<longleftrightarrow> n = k"
  shows "v AND w \<noteq> 0 \<longleftrightarrow> bit v k"
proof
  assume "v AND w \<noteq> 0"
  then obtain n where "bit (v AND w) n" by (metis bit_eq_iff bit_0_eq bot_apply bot_bool_def)
  then show "bit v k" using assms by (metis bit_and_iff)
next
  assume "bit v k"
  then have "bit (v AND w) k" using assms by (simp add: bit_and_iff)
  then show "v AND w \<noteq> 0" by auto
qed

lemma style_has_wire [simp]:
  "style_has (wire_style c) ATTR_BOLD = ct_bold c" "style_has (wire_style c) ATTR_ITALIC = ct_italic c"
  "style_has (wire_style c) ATTR_UNDERLINE = ct_underline c" "style_has (wire_style c) ATTR_INVERSE = ct_inverse c"
  by (simp_all add: style_has_def and_single [OF bit_attrs(1)] and_single [OF bit_attrs(2)]
      and_single [OF bit_attrs(3)] and_single [OF bit_attrs(4)] wire_style_def Let_def bit_or_iff bit_attrs)

lemma wire_style_colors [simp]: "rs_fg (wire_style c) = wire_color (ct_fg c)" "rs_bg (wire_style c) = wire_color (ct_bg c)"
  by (simp_all add: wire_style_def Let_def)

definition of_style :: "run_style \<Rightarrow> screen_cell list \<Rightarrow> bool" where
  "of_style style cs \<longleftrightarrow> (\<forall>c \<in> set cs. wire_style c = style)"

lemma of_style_simps [simp]:
  "of_style style []" "of_style style (c # cs) \<longleftrightarrow> wire_style c = style \<and> of_style style cs"
  "of_style style (cs @ ds) \<longleftrightarrow> of_style style cs \<and> of_style style ds"
  by (auto simp: of_style_def)

lemma of_styleD: "of_style style cs \<Longrightarrow> c \<in> set cs \<Longrightarrow> wire_style c = style"
  by (simp add: of_style_def)

lemma of_style_last: "of_style style cs \<Longrightarrow> cs \<noteq> [] \<Longrightarrow> wire_style (last cs) = style"
  by (rule of_styleD) auto

text \<open>A cell rebuilt from its text and the wire style of any cell that looks like it.\<close>

lemma cells_of_run_styled:
  assumes "graphemes t = map ct_text cs" "of_style style cs"
  shows "cells_of_run graphemes \<lparr>sr_text = t, sr_style = style\<rparr> = cs"
proof -
  have "\<lparr>ct_text = ct_text c, ct_fg = cell_color (rs_fg style), ct_bg = cell_color (rs_bg style),
      ct_bold = style_has style ATTR_BOLD, ct_italic = style_has style ATTR_ITALIC,
      ct_underline = style_has style ATTR_UNDERLINE, ct_inverse = style_has style ATTR_INVERSE\<rparr> = c"
    if "c \<in> set cs" for c
  proof -
    have "style = wire_style c" using of_styleD [OF assms(2) that] by simp
    then show ?thesis by simp
  qed
  then show ?thesis by (simp add: cells_of_run_def assms(1) comp_def map_idI)
qed

section \<open>Rows survive the wire\<close>

text \<open>Adjacent cells of one style, as a run.\<close>

definition run_of :: "screen_cell list \<Rightarrow> screen_run" where
  "run_of cs = \<lparr>sr_text = concat (map ct_text cs), sr_style = wire_style (hd cs)\<rparr>"

definition uniform :: "screen_cell list \<Rightarrow> bool" where
  "uniform cs \<longleftrightarrow> cs \<noteq> [] \<and> of_style (wire_style (hd cs)) cs"

definition cell_pairs :: "screen_cell list \<Rightarrow> (rstr \<times> run_style) list" where
  "cell_pairs row = map (\<lambda>cell. (ct_text cell, wire_style cell)) row"

definition apart :: "screen_cell list \<Rightarrow> screen_cell list \<Rightarrow> bool" where
  "apart g h \<longleftrightarrow> wire_style (hd g) \<noteq> wire_style (hd h)"

definition groups :: "screen_cell list \<Rightarrow> screen_cell list list \<Rightarrow> bool" where
  "groups row gss \<longleftrightarrow> concat gss = row \<and> (\<forall>g \<in> set gss. uniform g) \<and> successively apart gss"

lemma uniform_snoc: "uniform g \<Longrightarrow> wire_style (hd g) = wire_style c \<Longrightarrow> uniform (g @ [c])"
  by (simp add: uniform_def)

lemma run_of_snoc: "g \<noteq> [] \<Longrightarrow> run_of (g @ [c]) = (run_of g)\<lparr>sr_text := sr_text (run_of g) @ ct_text c\<rparr>"
  by (simp add: run_of_def)

lemma groups_extend:
  assumes "groups row (init @ [g])" "wire_style (hd g) = wire_style c"
  shows "groups (row @ [c]) (init @ [g @ [c]])"
proof -
  have u: "uniform g" using assms(1) by (simp add: groups_def)
  then have "hd (g @ [c]) = hd g" by (simp add: uniform_def)
  then have "apart h (g @ [c]) = apart h g" for h by (simp add: apart_def)
  then show ?thesis
    using assms(1) uniform_snoc [OF u assms(2)] by (auto simp: groups_def successively_append_iff)
qed

lemma groups_new:
  assumes "groups row gss" "gss \<noteq> [] \<Longrightarrow> wire_style (hd (last gss)) \<noteq> wire_style c"
  shows "groups (row @ [c]) (gss @ [[c]])"
  using assms by (auto simp: groups_def successively_append_iff apart_def uniform_def)

lemma coalesced_groups:
  "\<exists>gss. groups row gss \<and> foldl push_cell [] (cell_pairs row) = map run_of gss"
proof (induction row rule: rev_induct)
  case Nil
  then show ?case by (intro exI [of _ "[]"]) (simp add: cell_pairs_def groups_def)
next
  case (snoc c row)
  then obtain gss where g: "groups row gss" "foldl push_cell [] (cell_pairs row) = map run_of gss" by blast
  have step: "foldl push_cell [] (cell_pairs (row @ [c])) = push_cell (map run_of gss) (ct_text c, wire_style c)"
    using g(2) by (simp add: cell_pairs_def)
  show ?case
  proof (cases "gss \<noteq> [] \<and> wire_style (hd (last gss)) = wire_style c")
    case True
    then obtain init g0 where gss: "gss = init @ [g0]" by (cases gss rule: rev_cases) auto
    then have e: "wire_style (hd g0) = wire_style c" "g0 \<noteq> []"
      using True g(1) by (auto simp: groups_def uniform_def)
    then have "sr_style (run_of g0) = wire_style c" by (simp add: run_of_def)
    then have "push_cell (map run_of gss) (ct_text c, wire_style c) = map run_of (init @ [g0 @ [c]])"
      using run_of_snoc [OF e(2), of c] by (simp add: gss)
    then show ?thesis using groups_extend [OF g(1) [unfolded gss] e(1)] step by metis
  next
    case False
    then have "push_cell (map run_of gss) (ct_text c, wire_style c) = map run_of (gss @ [[c]])"
      by (auto simp: run_of_def last_map)
    then show ?thesis using groups_new [OF g(1), of c] False step by metis
  qed
qed

definition blank_like :: "screen_cell \<Rightarrow> bool" where
  "blank_like c \<longleftrightarrow> wire_style c = default_style \<and> list_all is_whitespace (ct_text c)"

definition content :: "screen_cell list \<Rightarrow> screen_cell list" where
  "content row = rev (dropWhile blank_like (rev row))"

text \<open>What a cell holds: one cluster that does not end in white space unless it is white space.\<close>

definition whole :: "screen_cell \<Rightarrow> bool" where
  "whole c \<longleftrightarrow> ct_text c \<noteq> [] \<and> (list_all is_whitespace (ct_text c) \<or> \<not> is_whitespace (last (ct_text c)))"

lemma content_snoc: "content (row @ [c]) = (if blank_like c then content row else row @ [c])"
  by (simp add: content_def)

lemma content_append:
  "content (xs @ ys) = (if content ys = [] then content xs else xs @ content ys)"
  by (induction ys arbitrary: xs rule: rev_induct)
    (auto simp: content_snoc content_def [of "[]"] simp flip: append_assoc)

lemma content_prefix: "\<exists>zs. row = content row @ zs"
  unfolding content_def by (metis rev_append rev_rev_ident takeWhile_dropWhile_id)

lemma content_hd: "content g \<noteq> [] \<Longrightarrow> hd (content g) = hd g"
  using content_prefix [of g] by (metis hd_append2)

lemma trim_end_append_ws: "list_all is_whitespace t \<Longrightarrow> trim_end (s @ t) = trim_end s"
  by (simp add: trim_end_def dropWhile_append list_all_iff)

lemma trim_end_solid: "s \<noteq> [] \<Longrightarrow> \<not> is_whitespace (last s) \<Longrightarrow> trim_end s = s"
  by (cases s rule: rev_cases) (simp_all add: trim_end_def)

lemma trim_end_content:
  "of_style default_style g \<Longrightarrow> \<forall>c \<in> set g. whole c \<Longrightarrow>
   trim_end (concat (map ct_text g)) = concat (map ct_text (content g))"
proof (induction g rule: rev_induct)
  case Nil
  then show ?case by (simp add: trim_end_def content_def)
next
  case (snoc c g)
  show ?case
  proof (cases "list_all is_whitespace (ct_text c)")
    case True
    then show ?thesis using snoc by (simp add: content_snoc blank_like_def trim_end_append_ws)
  next
    case False
    then have "ct_text c \<noteq> []" "\<not> is_whitespace (last (ct_text c))" using snoc.prems(2) by (auto simp: whole_def)
    then have "trim_end (concat (map ct_text g) @ ct_text c) = concat (map ct_text g) @ ct_text c"
      by (intro trim_end_solid) auto
    then show ?thesis using False by (simp add: content_snoc blank_like_def)
  qed
qed

lemma concat_texts_empty: "\<forall>c \<in> set g. whole c \<Longrightarrow> concat (map ct_text g) = [] \<longleftrightarrow> g = []"
  by (cases g) (auto simp: whole_def)

text \<open>Clusters that stay apart when written one after the other.\<close>

definition splits_row :: "(rstr \<Rightarrow> rstr list) \<Rightarrow> screen_cell list \<Rightarrow> bool" where
  "splits_row graphemes row \<longleftrightarrow>
     (\<forall>cs. sublist cs row \<longrightarrow> graphemes (concat (map ct_text cs)) = map ct_text cs)"

lemma expand_groups:
  assumes "splits_row graphemes (concat gss)" "\<forall>g \<in> set gss. uniform g"
  shows "concat (map (cells_of_run graphemes) (map run_of gss)) = concat gss"
proof -
  have "cells_of_run graphemes (run_of g) = g" if "g \<in> set gss" for g
  proof -
    from that have "sublist g (concat gss)"
      by (metis concat.simps(2) concat_append split_list sublist_appendI append_assoc)
    then have "graphemes (concat (map ct_text g)) = map ct_text g" using assms(1) by (simp add: splits_row_def)
    moreover have "of_style (wire_style (hd g)) g" using that assms(2) by (simp add: uniform_def)
    ultimately show ?thesis unfolding run_of_def by (rule cells_of_run_styled)
  qed
  then have "map (cells_of_run graphemes) (map run_of gss) = gss" by (simp add: map_idI)
  then show ?thesis by simp
qed

lemma splits_prefix: "splits_row gr (xs @ ys) \<Longrightarrow> splits_row gr xs"
  unfolding splits_row_def by (meson prefixI prefix_imp_sublist sublist_order.order_trans)

lemma content_solid: "row \<noteq> [] \<Longrightarrow> \<not> blank_like (last row) \<Longrightarrow> content row = row"
  by (cases row rule: rev_cases) (simp_all add: content_snoc)

lemma uniform_last: "uniform g \<Longrightarrow> wire_style (last g) = wire_style (hd g)"
  unfolding uniform_def by (metis of_style_last)

text \<open>The runs left after the trim stand for the row's content.\<close>

lemma trimmed_groups:
  assumes "groups row gss" "\<forall>c \<in> set row. whole c"
  shows "\<exists>hss. concat hss = content row \<and> (\<forall>g \<in> set hss. uniform g) \<and> trim_last (map run_of gss) = map run_of hss"
proof (cases gss rule: rev_cases)
  case Nil
  then show ?thesis using assms(1)
    by (intro exI [of _ "[]"]) (simp add: trim_last_def content_def groups_def)
next
  case (snoc init g0)
  have u: "uniform g0" "\<forall>g \<in> set init. uniform g" and row: "row = concat init @ g0"
    and ap: "init \<noteq> [] \<Longrightarrow> apart (last init) g0"
    using assms(1) snoc by (auto simp: groups_def successively_append_iff)
  then have ne: "g0 \<noteq> []" by (simp add: uniform_def)
  show ?thesis
  proof (cases "wire_style (hd g0) = default_style")
    case False
    then have "\<not> blank_like (last row)" using uniform_last [OF u(1)] ne by (simp add: blank_like_def row)
    then have "content row = row" using ne by (intro content_solid) (simp_all add: row)
    moreover have "trim_last (map run_of gss) = map run_of gss"
      using False snoc by (simp add: trim_last_def run_of_def)
    ultimately show ?thesis using assms(1) by (auto simp: groups_def)
  next
    case True
    let ?g = "content g0"
    have d: "of_style default_style g0" "\<forall>c \<in> set g0. whole c"
      using True u(1) assms(2) by (auto simp: uniform_def row)
    obtain zs where zs: "g0 = ?g @ zs" using content_prefix by blast
    have sub: "set ?g \<subseteq> set g0" using arg_cong [OF zs, of set] by auto
    have whole: "\<forall>c \<in> set ?g. whole c" using d(2) sub by blast
    have trim: "trim_end (sr_text (run_of g0)) = concat (map ct_text ?g)"
      using trim_end_content [OF d] by (simp add: run_of_def)
    have style: "sr_style (run_of g0) = default_style" using True by (simp add: run_of_def)
    show ?thesis
    proof (cases "?g = []")
      case True
      then have "trim_last (map run_of gss) = map run_of init"
        using trim style by (simp add: trim_last_def snoc)
      moreover have "content row = concat init"
      proof (cases init rule: rev_cases)
        case Nil
        then show ?thesis using True by (simp add: row)
      next
        case (snoc init' g1)
        then have "uniform g1" "wire_style (hd g1) \<noteq> default_style"
          using u(2) ap style by (auto simp: apart_def run_of_def)
        then have "content (concat init) = concat init"
          using uniform_last [of g1]
          by (intro content_solid) (simp_all add: snoc blank_like_def uniform_def)
        then show ?thesis using True by (simp add: row content_append)
      qed
      ultimately show ?thesis using u(2) by metis
    next
      case False
      then have "concat (map ct_text ?g) \<noteq> []" using concat_texts_empty [OF whole] by simp
      moreover have "(run_of g0)\<lparr>sr_text := concat (map ct_text ?g)\<rparr> = run_of ?g"
        using content_hd [OF False] by (simp add: run_of_def)
      ultimately have "trim_last (map run_of gss) = map run_of (init @ [?g])"
        using trim style by (simp add: trim_last_def snoc)
      moreover have "uniform ?g"
        using d(1) arg_cong [OF zs, of "of_style default_style"] content_hd [OF False] False True
        by (simp add: uniform_def)
      moreover have "content row = concat (init @ [?g])" using False by (simp add: row content_append)
      ultimately show ?thesis using u(2) by (intro exI [of _ "init @ [?g]"]) auto
    qed
  qed
qed

lemma row_round_trip:
  assumes "splits_row graphemes row" "\<forall>c \<in> set row. whole c"
  shows "concat (map (cells_of_run graphemes) (wire_row row)) = content row"
proof -
  obtain gss where g: "groups row gss" "foldl push_cell [] (cell_pairs row) = map run_of gss"
    using coalesced_groups by blast
  obtain hss where h: "concat hss = content row" "\<forall>g \<in> set hss. uniform g"
    "trim_last (map run_of gss) = map run_of hss" using trimmed_groups [OF g(1) assms(2)] by blast
  have "wire_row row = map run_of hss"
    using g(2) h(3) by (simp add: wire_row_def coalesce_runs_def cell_pairs_def)
  moreover have "splits_row graphemes (concat hss)"
    using assms(1) content_prefix [of row] splits_prefix h(1) by metis
  ultimately show ?thesis using expand_groups [OF _ h(2)] h(1) by simp
qed

text \<open>The whole snapshot: each row's content, padded back to the width.\<close>

definition padded :: "nat \<Rightarrow> screen_cell list \<Rightarrow> screen_cell list" where
  "padded width row = content row @ replicate (width - length (content row)) blank_cell"

definition rectangle :: "nat \<Rightarrow> screen_snapshot \<Rightarrow> bool" where
  "rectangle width s \<longleftrightarrow> sn_cells s \<noteq> [] \<and> (\<forall>row \<in> set (sn_cells s). length row = width) \<and>
     width < 65536 \<and> length (sn_cells s) < 65536"

lemma rectangle_sizes:
  assumes "rectangle width s"
  shows "unat (sg_cols (wire_grid s)) = width" "unat (sg_rows (wire_grid s)) = length (sn_cells s)"
  using assms by (auto simp: rectangle_def wire_grid_def unat_of_nat take_bit_nat_eq_self split: list.split)

lemma wire_grid_wf: "length (sn_cells s) < 65536 \<Longrightarrow> wf_grid (wire_grid s)"
  by (simp add: wf_grid_def wire_grid_def unat_of_nat take_bit_nat_eq_self)

lemma snapshot_round_trip:
  assumes "rectangle width s" "\<forall>row \<in> set (sn_cells s). splits_row graphemes row \<and> (\<forall>c \<in> set row. whole c)"
  shows "snapshot_from_grid graphemes (wire_grid s) = s\<lparr>sn_cells := map (padded width) (sn_cells s)\<rparr>"
proof -
  have "resize_to width blank_cell (concat (map (cells_of_run graphemes) (wire_row row))) = padded width row"
    if "row \<in> set (sn_cells s)" for row
  proof -
    have "length (content row) \<le> width"
      using that assms(1) content_prefix [of row] by (metis length_append le_add1 rectangle_def)
    then show ?thesis using that assms(2) by (simp add: row_round_trip resize_to_def padded_def)
  qed
  then show ?thesis
    using rectangle_sizes [OF assms(1)]
    by (simp add: snapshot_from_grid_def Let_def wire_grid_def resize_to_def)
qed

end
