(* ===== verification/ScreenStream.thy ===== *)
theory ScreenStream
  imports ScreenConvert
begin

text \<open>
  The sampler of a worker's screen and the registry of its streams
  (\<open>src/src/tui/src/worker/stream/sampler.rs\<close>), and what a viewer that follows one stream shows when
  the mailbox between them loses, repeats and reorders frames.

  The asynchronous task of a stream is its \<open>tick\<close>s in sequence; its handle is a number, and whether
  the task behind a handle has finished is the argument \<open>finished\<close>.
\<close>

section \<open>The sampler\<close>

definition MIN_FPS :: u8 where "MIN_FPS = 1"
definition MAX_FPS :: u8 where "MAX_FPS = 10"

definition sample_interval :: "u8 \<Rightarrow> u64" where
  "sample_interval max_fps = (let fps = min (max max_fps MIN_FPS) MAX_FPS in 1000 div ucast fps)"

record session_stream =
  st_task_id :: rstr
  st_seq :: i64
  st_last_sent :: "screen_grid option"
  st_owes_full :: bool

definition stream_new :: "rstr \<Rightarrow> session_stream" where
  "stream_new task_id = \<lparr>st_task_id = task_id, st_seq = 0, st_last_sent = None, st_owes_full = True\<rparr>"

definition request_resync :: "session_stream \<Rightarrow> session_stream" where
  "request_resync s = s\<lparr>st_owes_full := True\<rparr>"

definition tick :: "screen_snapshot \<Rightarrow> session_stream \<Rightarrow> screen_frame option \<times> session_stream" where
  "tick snapshot s =
     (let grid = wire_grid snapshot;
          previous = (if st_owes_full s then None else st_last_sent s);
          base_seq = (if st_owes_full s then 0 else st_seq s)
      in case build_frame previous grid (st_task_id s) (st_seq s + 1) base_seq of
           Unchanged \<Rightarrow> (None, s)
         | Send_frame f \<Rightarrow> (Some f, s\<lparr>st_seq := st_seq s + 1, st_last_sent := Some grid, st_owes_full := False\<rparr>))"

section \<open>The registry\<close>

type_synonym registry = "rstr \<Rightarrow> (rstr \<times> nat) option"

text \<open>\<open>subscribe\<close> spawns the stream under a fresh handle; the second component is the handle to abort.\<close>

definition unsubscribe :: "rstr \<Rightarrow> registry \<Rightarrow> nat option \<times> registry" where
  "unsubscribe task_id r =
     (case r task_id of None \<Rightarrow> (None, r) | Some (_, handle) \<Rightarrow> (Some handle, r(task_id := None)))"

definition subscribe :: "rstr \<Rightarrow> rstr \<Rightarrow> nat \<Rightarrow> registry \<Rightarrow> nat option \<times> registry" where
  "subscribe task_id subscriber handle r =
     (case unsubscribe task_id r of (aborted, r1) \<Rightarrow> (aborted, r1(task_id \<mapsto> (subscriber, handle))))"

definition unsubscribe_for :: "rstr \<Rightarrow> rstr \<Rightarrow> registry \<Rightarrow> bool \<times> nat option \<times> registry" where
  "unsubscribe_for subscriber task_id r =
     (if (case r task_id of None \<Rightarrow> False | Some (owner, _) \<Rightarrow> owner = subscriber)
      then (True, unsubscribe task_id r) else (False, None, r))"

definition registry_contains :: "(nat \<Rightarrow> bool) \<Rightarrow> rstr \<Rightarrow> registry \<Rightarrow> bool" where
  "registry_contains finished task_id r =
     (case r task_id of None \<Rightarrow> False | Some (_, handle) \<Rightarrow> \<not> finished handle)"

definition prune :: "(nat \<Rightarrow> bool) \<Rightarrow> registry \<Rightarrow> registry" where
  "prune finished r =
     (\<lambda>task. case r task of None \<Rightarrow> None | Some (owner, handle) \<Rightarrow> if finished handle then None else Some (owner, handle))"

section \<open>One stream and its viewer\<close>

text \<open>What a frame may be built from and what it brings: the stream's \<open>n\<close>-th frame shows the \<open>n\<close>-th
  screen sent.\<close>

definition shown :: "screen_grid list \<Rightarrow> i64 \<Rightarrow> screen_grid \<Rightarrow> bool" where
  "shown gs n g \<longleftrightarrow> 0 < unat n \<and> unat n \<le> length gs \<and> gs ! (unat n - 1) = g"

definition frame_ok :: "screen_grid list \<Rightarrow> screen_frame \<Rightarrow> bool" where
  "frame_ok gs f \<longleftrightarrow> (\<exists>g. shown gs (sf_seq f) g \<and>
     (if sf_full f then grid_from_full f = g
      else \<exists>p. shown gs (sf_base_seq f) p \<and>
        apply_frame (Some \<lparr>sv_grid = p, sv_seq = sf_base_seq f\<rparr>) f
          = (Applied, Some \<lparr>sv_grid = g, sv_seq = sf_seq f\<rparr>)))"

definition stream_ok :: "screen_grid list \<Rightarrow> session_stream \<Rightarrow> bool" where
  "stream_ok gs s \<longleftrightarrow> st_seq s = word_of_nat (length gs) \<and>
     (st_owes_full s \<or> gs \<noteq> [] \<and> st_last_sent s = Some (last gs)) \<and> (\<forall>g \<in> set gs. wf_grid g)"

definition view_ok :: "screen_grid list \<Rightarrow> screen_view option \<Rightarrow> bool" where
  "view_ok gs view \<longleftrightarrow> (\<forall>v. view = Some v \<longrightarrow> shown gs (sv_seq v) (sv_grid v))"

lemma shown_unique: "shown gs n g \<Longrightarrow> shown gs n h \<Longrightarrow> g = h"
  by (simp add: shown_def)

lemma shown_mono: "shown gs n g \<Longrightarrow> shown (gs @ hs) n g"
  by (auto simp: shown_def nth_append)

lemma frame_ok_mono: "frame_ok gs f \<Longrightarrow> frame_ok (gs @ hs) f"
  unfolding frame_ok_def by (metis shown_mono)

lemma view_ok_mono: "view_ok gs v \<Longrightarrow> view_ok (gs @ hs) v"
  by (simp add: view_ok_def shown_mono)

lemma unat_length: "length gs < 2 ^ 63 \<Longrightarrow> unat (word_of_nat (length gs) :: i64) = length gs"
  by (simp add: unat_of_nat take_bit_nat_eq_self)

lemma shown_last: "gs \<noteq> [] \<Longrightarrow> length gs < 2 ^ 63 \<Longrightarrow> shown gs (word_of_nat (length gs)) (last gs)"
  by (simp add: shown_def unat_length last_conv_nth)

lemma shown_new:
  "length gs + 1 < 2 ^ 63 \<Longrightarrow> shown (gs @ [g]) (word_of_nat (length gs) + 1) g"
  using shown_last [of "gs @ [g]"] by (simp add: add.commute)

text \<open>One tick: either the screen is the one last sent, or a frame goes out that the run allows.\<close>

lemma tick_cases:
  assumes "stream_ok gs s" "wf_grid (wire_grid sn)" "length gs + 1 < 2 ^ 63"
  shows "(tick sn s = (None, s) \<and> \<not> st_owes_full s \<and> st_last_sent s = Some (wire_grid sn)) \<or>
    (\<exists>f s'. tick sn s = (Some f, s') \<and> stream_ok (gs @ [wire_grid sn]) s' \<and> \<not> st_owes_full s' \<and>
       frame_ok (gs @ [wire_grid sn]) f \<and> st_seq s' = sf_seq f \<and> sf_task_id f = st_task_id s \<and>
       st_task_id s' = st_task_id s \<and> sf_seq f = st_seq s + 1 \<and>
       (st_owes_full s \<longrightarrow> sf_full f) \<and> (\<not> sf_full f \<longrightarrow> sf_base_seq f = st_seq s \<and> \<not> st_owes_full s))"
proof -
  let ?g = "wire_grid sn"
  let ?prev = "if st_owes_full s then None else st_last_sent s"
  let ?base = "if st_owes_full s then 0 else st_seq s"
  have prev: "\<forall>p. ?prev = Some p \<longrightarrow> wf_grid p \<and> p = last gs \<and> gs \<noteq> []"
    using assms(1) by (auto simp: stream_ok_def)
  note c = build_frame_carries [OF assms(2), of ?prev "st_task_id s" "st_seq s + 1" ?base]
  show ?thesis
  proof (cases "build_frame ?prev ?g (st_task_id s) (st_seq s + 1) ?base")
    case Unchanged
    then have "?prev = Some ?g" using c prev by simp
    then show ?thesis using Unchanged by (auto simp: tick_def Let_def split: if_splits)
  next
    case (Send_frame f)
    let ?s' = "s\<lparr>st_seq := st_seq s + 1, st_last_sent := Some ?g, st_owes_full := False\<rparr>"
    have t: "tick sn s = (Some f, ?s')" using Send_frame by (simp add: tick_def Let_def)
    have f: "sf_task_id f = st_task_id s" "sf_seq f = st_seq s + 1" "sf_base_seq f = ?base"
      "sf_full f \<Longrightarrow> grid_from_full f = ?g"
      "\<not> sf_full f \<Longrightarrow> \<exists>p. ?prev = Some p \<and>
         apply_frame (Some \<lparr>sv_grid = p, sv_seq = ?base\<rparr>) f = (Applied, Some \<lparr>sv_grid = ?g, sv_seq = st_seq s + 1\<rparr>)"
      using c prev Send_frame by auto
    have seq: "st_seq s = word_of_nat (length gs)" using assms(1) by (simp add: stream_ok_def)
    have new: "shown (gs @ [?g]) (sf_seq f) ?g" using shown_new [OF assms(3)] f(2) seq by simp
    have "frame_ok (gs @ [?g]) f"
    proof (cases "sf_full f")
      case True
      then show ?thesis using new f(4) by (auto simp: frame_ok_def)
    next
      case False
      then obtain p where p: "?prev = Some p" and
        ap: "apply_frame (Some \<lparr>sv_grid = p, sv_seq = ?base\<rparr>) f = (Applied, Some \<lparr>sv_grid = ?g, sv_seq = st_seq s + 1\<rparr>)"
        using f(5) by blast
      have base: "?base = st_seq s" using p by (auto split: if_splits)
      have "shown (gs @ [?g]) (st_seq s) p"
        using shown_mono [OF shown_last [of gs]] prev p assms(3) seq by auto
      then show ?thesis using False new ap f(2,3) base by (auto simp: frame_ok_def)
    qed
    moreover have "stream_ok (gs @ [?g]) ?s'"
      using assms(1,2) by (auto simp: stream_ok_def add.commute)
    moreover have "\<not> sf_full f \<Longrightarrow> \<not> st_owes_full s" using f(5) by (auto split: if_splits)
    ultimately show ?thesis using t f by (intro disjI2 exI [of _ f] exI [of _ ?s']) auto
  qed
qed

text \<open>A viewer given any frame the stream sent shows a screen the stream sent.\<close>

lemma apply_view_ok:
  assumes "frame_ok gs f" "view_ok gs view" "apply_frame view f = (r, view')"
  shows "view_ok gs view'"
proof (cases r)
  case NeedsResync
  then show ?thesis using assms apply_frame_refused by metis
next
  case Applied
  from assms(1) obtain g where g: "shown gs (sf_seq f) g" and
    d: "if sf_full f then grid_from_full f = g
      else \<exists>p. shown gs (sf_base_seq f) p \<and>
        apply_frame (Some \<lparr>sv_grid = p, sv_seq = sf_base_seq f\<rparr>) f = (Applied, Some \<lparr>sv_grid = g, sv_seq = sf_seq f\<rparr>)"
    by (auto simp: frame_ok_def)
  show ?thesis
  proof (cases "sf_full f")
    case True
    then show ?thesis using g d assms(3) by (auto simp: apply_frame_def view_ok_def)
  next
    case False
    then obtain p where p: "shown gs (sf_base_seq f) p"
      "apply_frame (Some \<lparr>sv_grid = p, sv_seq = sf_base_seq f\<rparr>) f = (Applied, Some \<lparr>sv_grid = g, sv_seq = sf_seq f\<rparr>)"
      using d by auto
    from apply_frame_applied assms(3) Applied False obtain u where u: "view = Some u" "sv_seq u = sf_base_seq f"
      by blast
    then have "shown gs (sf_base_seq f) (sv_grid u)" using assms(2) by (auto simp: view_ok_def)
    then have "sv_grid u = p" using shown_unique p(1) by blast
    then have "view = Some \<lparr>sv_grid = p, sv_seq = sf_base_seq f\<rparr>" using u by simp
    then show ?thesis using p(2) g assms(3) by (auto simp: view_ok_def)
  qed
qed

text \<open>A run: the stream ticks and is asked to resync at will; any frame it ever sent may reach the
  viewer, at any time and any number of times.\<close>

inductive watch_run ::
  "rstr \<Rightarrow> session_stream \<Rightarrow> screen_grid list \<Rightarrow> screen_frame set \<Rightarrow> screen_view option \<Rightarrow> bool" for task where
  start: "watch_run task (stream_new task) [] {} None"
| silent: "watch_run task s gs net view \<Longrightarrow> tick sn s = (None, s') \<Longrightarrow> length (sn_cells sn) < 65536 \<Longrightarrow>
    watch_run task s' gs net view"
| sent: "watch_run task s gs net view \<Longrightarrow> tick sn s = (Some f, s') \<Longrightarrow> length (sn_cells sn) < 65536 \<Longrightarrow>
    watch_run task s' (gs @ [wire_grid sn]) (insert f net) view"
| resync: "watch_run task s gs net view \<Longrightarrow> watch_run task (request_resync s) gs net view"
| arrived: "watch_run task s gs net view \<Longrightarrow> f \<in> net \<Longrightarrow> apply_frame view f = (r, view') \<Longrightarrow>
    watch_run task s gs net view'"

lemma watch_run_inv:
  "watch_run task s gs net view \<Longrightarrow> length gs < 2 ^ 63 \<Longrightarrow>
   stream_ok gs s \<and> view_ok gs view \<and> (\<forall>f \<in> net. frame_ok gs f) \<and> st_task_id s = task"
proof (induction rule: watch_run.induct)
  case start
  then show ?case by (simp add: stream_ok_def stream_new_def view_ok_def)
next
  case (silent s gs net view sn s')
  then have "s' = s" by (auto simp: tick_def Let_def split: frame_decision.splits)
  then show ?case using silent by simp
next
  case (sent s gs net view sn f s')
  then have len: "length gs + 1 < 2 ^ 63" "length gs < 2 ^ 63" by simp_all
  have ok: "stream_ok gs s" using sent.IH len(2) by blast
  from tick_cases [OF ok wire_grid_wf [OF sent.hyps(3)] len(1)] sent.hyps(2)
  have "stream_ok (gs @ [wire_grid sn]) s' \<and> frame_ok (gs @ [wire_grid sn]) f \<and> st_task_id s' = st_task_id s"
    by auto
  then show ?case using sent.IH len(2) frame_ok_mono view_ok_mono by blast
next
  case (resync s gs net view)
  then show ?case by (simp add: request_resync_def stream_ok_def)
next
  case (arrived s gs net view f r view')
  then show ?case using apply_view_ok by blast
qed

end
