(* ===== verification/ScreenStore.thy ===== *)
theory ScreenStore
  imports ScreenProto "HOL-Library.AList"
begin

text \<open>
  What a hub holds of its workers' screens (\<open>src/src/sdk/src/hub/screens/mod.rs\<close>), and its answer to an
  inbound screen message (\<open>route_screen\<close> of \<open>hub/runner/pump/mod.rs\<close>).

  The map of screens is an association list with distinct keys; its order stands for the order in
  which the map iterates, which decides only between screens of equal age.
\<close>

section \<open>Messages\<close>

datatype screen_message =
    Subscribe rstr u8 bool | Unsubscribe rstr | Kill rstr rstr | Ack rstr i64
  | Input rstr rstr | Resize rstr u16 u16 | Frame screen_frame

section \<open>The store\<close>

definition CAPACITY :: nat where "CAPACITY = 8"

type_synonym screen_key = "rstr \<times> rstr"

record watched_screen =
  wa_worker :: rstr
  wa_task_id :: rstr
  wa_grid :: screen_grid
  wa_seq :: i64
  wa_updated_at :: i64

record screen_store =
  sc_screens :: "(screen_key \<times> watched_screen) list"
  sc_watching :: "screen_key set"

definition store_new :: screen_store where
  "store_new = \<lparr>sc_screens = [], sc_watching = {}\<rparr>"

text \<open>\<open>min_by_key\<close> keeps the first of equal minima.\<close>

definition stalest :: "(screen_key \<times> watched_screen) list \<Rightarrow> screen_key option" where
  "stalest screens =
     (case screens of [] \<Rightarrow> None
      | x # xs \<Rightarrow> Some (fst (foldl (\<lambda>best y.
          if sint (wa_updated_at (snd y)) < sint (wa_updated_at (snd best)) then y else best) x xs)))"

function evict_stalest :: "(screen_key \<times> watched_screen) list \<Rightarrow> (screen_key \<times> watched_screen) list" where
  "evict_stalest screens =
     (if length screens > CAPACITY
      then (case stalest screens of
              Some key \<Rightarrow>
                (if key \<in> fst ` set screens then evict_stalest (AList.delete key screens) else screens)
            | None \<Rightarrow> screens)
      else screens)"
  by pat_completeness auto

lemma delete_shorter: "key \<in> fst ` set xs \<Longrightarrow> length (AList.delete key xs) < length xs"
  by (auto simp: AList.delete_eq intro: length_filter_less)

termination evict_stalest
  by (relation "measure length") (simp_all add: delete_shorter)

declare evict_stalest.simps [simp del]

definition store_apply ::
  "rstr \<Rightarrow> screen_frame \<Rightarrow> i64 \<Rightarrow> screen_store \<Rightarrow> apply_outcome \<times> screen_store" where
  "store_apply worker f now s =
     (let key = (worker, sf_task_id f);
          view = map_option (\<lambda>held. \<lparr>sv_grid = wa_grid held, sv_seq = wa_seq held\<rparr>) (map_of (sc_screens s) key)
      in case apply_frame view f of
           (Applied, Some v) \<Rightarrow>
             (Applied, s\<lparr>sc_screens := evict_stalest (AList.update key
                \<lparr>wa_worker = worker, wa_task_id = sf_task_id f, wa_grid = sv_grid v, wa_seq = sv_seq v,
                 wa_updated_at = now\<rparr> (sc_screens s))\<rparr>)
         | (r, _) \<Rightarrow> (r, s))"

definition store_get :: "rstr \<Rightarrow> rstr \<Rightarrow> screen_store \<Rightarrow> watched_screen option" where
  "store_get worker task_id s = map_of (sc_screens s) (worker, task_id)"

definition for_worker :: "rstr \<Rightarrow> screen_store \<Rightarrow> watched_screen list" where
  "for_worker worker s =
     sort_key (\<lambda>held. - sint (wa_updated_at held)) (filter (\<lambda>held. wa_worker held = worker) (map snd (sc_screens s)))"

definition store_snapshot :: "screen_store \<Rightarrow> watched_screen list" where
  "store_snapshot s = sort_key (\<lambda>held. - sint (wa_updated_at held)) (map snd (sc_screens s))"

definition arm :: "rstr \<Rightarrow> rstr \<Rightarrow> screen_store \<Rightarrow> screen_store" where
  "arm worker task_id s = s\<lparr>sc_watching := insert (worker, task_id) (sc_watching s)\<rparr>"

definition is_watching :: "rstr \<Rightarrow> rstr \<Rightarrow> screen_store \<Rightarrow> bool" where
  "is_watching worker task_id s \<longleftrightarrow> (worker, task_id) \<in> sc_watching s"

definition disarm :: "rstr \<Rightarrow> rstr \<Rightarrow> screen_store \<Rightarrow> screen_store" where
  "disarm worker task_id s = s\<lparr>sc_watching := sc_watching s - {(worker, task_id)}\<rparr>"

definition forget :: "rstr \<Rightarrow> rstr \<Rightarrow> screen_store \<Rightarrow> screen_store" where
  "forget worker task_id s =
     s\<lparr>sc_watching := sc_watching s - {(worker, task_id)},
       sc_screens := AList.delete (worker, task_id) (sc_screens s)\<rparr>"

section \<open>Routing\<close>

definition DEFAULT_SCREEN_FPS :: u8 where "DEFAULT_SCREEN_FPS = 1"

text \<open>The message to send back, if any.\<close>

definition route_screen ::
  "rstr \<Rightarrow> screen_message \<Rightarrow> i64 \<Rightarrow> screen_store \<Rightarrow> screen_message option \<times> screen_store" where
  "route_screen peer message now s =
     (case message of
        Frame f \<Rightarrow>
          (let watching = is_watching peer (sf_task_id f) s
           in case store_apply peer f now s of
                (NeedsResync, s1) \<Rightarrow>
                  if \<not> watching then (None, s1)
                  else (Some (Subscribe (sf_task_id f) DEFAULT_SCREEN_FPS True), s1)
              | (Applied, s1) \<Rightarrow> (None, s1))
      | _ \<Rightarrow> (None, s))"

end
