(* ===== verification/ScreenSpec.thy ===== *)
theory ScreenSpec
  imports ScreenStream ScreenStore
begin

text \<open>
  What a watched screen promises: the store a hub keeps, the round trip of a screen through the wire,
  and what a viewer shows while its mailbox loses, repeats and reorders frames.
\<close>

section \<open>The hub's store\<close>

lemma stalest_oldest:
  assumes "xs \<noteq> []"
  shows "\<exists>k w. stalest xs = Some k \<and> (k, w) \<in> set xs \<and>
    (\<forall>(k', w') \<in> set xs. sint (wa_updated_at w) \<le> sint (wa_updated_at w'))"
proof -
  let ?pick = "\<lambda>best y. if sint (wa_updated_at (snd y)) < sint (wa_updated_at (snd best)) then y else best"
  have pick: "foldl ?pick b ys \<in> insert b (set ys) \<and>
      (\<forall>y \<in> insert b (set ys). sint (wa_updated_at (snd (foldl ?pick b ys))) \<le> sint (wa_updated_at (snd y)))"
    for b :: "screen_key \<times> watched_screen" and ys
  proof (induction ys arbitrary: b)
    case (Cons y ys)
    then show ?case using Cons.IH [of "?pick b y"] by fastforce
  qed simp
  obtain x ys where xs: "xs = x # ys" using assms by (cases xs) auto
  let ?best = "foldl ?pick x ys"
  obtain k w where b: "?best = (k, w)" by (cases ?best)
  then have "stalest xs = Some k" by (simp add: xs stalest_def)
  moreover have "(k, w) \<in> set xs \<and> (\<forall>(k', w') \<in> set xs. sint (wa_updated_at w) \<le> sint (wa_updated_at w'))"
    using pick [of x ys] unfolding b xs by (simp add: case_prod_beta)
  ultimately show ?thesis by blast
qed

lemma evict_keeps: "length xs \<le> CAPACITY \<Longrightarrow> evict_stalest xs = xs"
  by (simp add: evict_stalest.simps)

lemma length_delete_key:
  "distinct (map fst xs) \<Longrightarrow> k \<in> fst ` set xs \<Longrightarrow> Suc (length (AList.delete k xs)) = length xs"
proof (induction xs)
  case (Cons x xs)
  show ?case
  proof (cases "fst x = k")
    case True
    then have "k \<notin> fst ` set xs" using Cons.prems(1) by auto
    then have "AList.delete k xs = xs" by (force simp: AList.delete_eq filter_id_conv)
    then show ?thesis using True by (cases x) simp
  next
    case False
    then show ?thesis using Cons by (cases x) auto
  qed
qed simp

lemma evict_one:
  assumes "distinct (map fst xs)" "length xs = Suc CAPACITY"
  shows "\<exists>k w. evict_stalest xs = AList.delete k xs \<and> (k, w) \<in> set xs \<and>
    (\<forall>(k', w') \<in> set xs. sint (wa_updated_at w) \<le> sint (wa_updated_at w'))"
proof -
  obtain k w where k: "stalest xs = Some k" "(k, w) \<in> set xs"
    "\<forall>(k', w') \<in> set xs. sint (wa_updated_at w) \<le> sint (wa_updated_at w')"
    using stalest_oldest [of xs] assms(2) by force
  then have "k \<in> fst ` set xs" by force
  moreover from this have "length (AList.delete k xs) \<le> CAPACITY"
    using length_delete_key [OF assms(1), of k] assms(2) by simp
  ultimately have "evict_stalest xs = AList.delete k xs"
    using k(1) assms(2) evict_keeps by (subst evict_stalest.simps) simp
  then show ?thesis using k by blast
qed

text \<open>The invariant: distinct keys, each its entry's worker and task, and no more than the capacity.\<close>

definition store_ok :: "screen_store \<Rightarrow> bool" where
  "store_ok s \<longleftrightarrow> distinct (map fst (sc_screens s)) \<and> length (sc_screens s) \<le> CAPACITY \<and>
     (\<forall>(k, w) \<in> set (sc_screens s). k = (wa_worker w, wa_task_id w))"

lemma length_update_key:
  "length (AList.update k v xs) = (if k \<in> fst ` set xs then length xs else Suc (length xs))"
  by (induction xs) auto

lemma length_update_le: "length (AList.update k v xs) \<le> Suc (length xs)"
  by (simp add: length_update_key)

lemma set_update_subset: "set (AList.update k v xs) \<subseteq> insert (k, v) (set xs)"
  by (induction xs) auto

lemma set_delete_subset: "set (AList.delete k xs) \<subseteq> set xs"
  by (auto simp: AList.delete_eq)

lemma store_ok_delete:
  "store_ok s \<Longrightarrow> store_ok (s\<lparr>sc_watching := ks, sc_screens := AList.delete k (sc_screens s)\<rparr>)"
  using set_delete_subset [of k "sc_screens s"] length_delete_le [of k "sc_screens s"]
  by (auto simp: store_ok_def distinct_delete)

lemma update_room:
  assumes "store_ok s"
  shows "distinct (map fst (AList.update k v (sc_screens s)))"
    and "length (AList.update k v (sc_screens s)) \<le> CAPACITY \<or>
      length (AList.update k v (sc_screens s)) = Suc CAPACITY"
  using assms length_update_le [of k v "sc_screens s"] distinct_update [of "sc_screens s" k v]
  by (auto simp: store_ok_def)

lemma evict_cases:
  assumes "distinct (map fst xs)" "length xs \<le> CAPACITY \<or> length xs = Suc CAPACITY"
  obtains "length xs \<le> CAPACITY" "evict_stalest xs = xs"
  | k w where "length xs = Suc CAPACITY" "evict_stalest xs = AList.delete k xs" "(k, w) \<in> set xs"
      "\<forall>(k', w') \<in> set xs. sint (wa_updated_at w) \<le> sint (wa_updated_at w')"
  using evict_keeps [of xs] evict_one [OF assms(1)] assms(2) by blast

lemma store_ok_put:
  assumes "store_ok s" "k = (wa_worker v, wa_task_id v)"
  shows "store_ok (s\<lparr>sc_screens := evict_stalest (AList.update k v (sc_screens s))\<rparr>)"
proof -
  let ?xs = "AList.update k v (sc_screens s)"
  have keys: "\<forall>(k', w) \<in> set ?xs. k' = (wa_worker w, wa_task_id w)"
    using assms set_update_subset [of k v "sc_screens s"] by (auto simp: store_ok_def)
  note u = update_room [OF assms(1), of k v]
  show ?thesis
  proof (rule evict_cases [OF u])
    assume "length ?xs \<le> CAPACITY" "evict_stalest ?xs = ?xs"
    then show ?thesis using keys u by (simp add: store_ok_def)
  next
    fix k0 w0
    assume e: "length ?xs = Suc CAPACITY" "evict_stalest ?xs = AList.delete k0 ?xs" "(k0, w0) \<in> set ?xs"
    then have "Suc (length (AList.delete k0 ?xs)) = Suc CAPACITY"
      using length_delete_key [OF u(1), of k0] by force
    then show ?thesis
      using e(2) keys u(1) set_delete_subset [of k0 ?xs] by (auto simp: store_ok_def distinct_delete)
  qed
qed

text \<open>What an inbound frame does to the store.\<close>

definition held_view :: "rstr \<Rightarrow> rstr \<Rightarrow> screen_store \<Rightarrow> screen_view option" where
  "held_view worker task_id s =
     map_option (\<lambda>held. \<lparr>sv_grid = wa_grid held, sv_seq = wa_seq held\<rparr>) (store_get worker task_id s)"

lemma route_frame_refused:
  "apply_frame (held_view peer (sf_task_id f) s) f = (NeedsResync, v) \<Longrightarrow>
   route_screen peer (Frame f) now s =
     (if is_watching peer (sf_task_id f) s then Some (Subscribe (sf_task_id f) DEFAULT_SCREEN_FPS True) else None, s)"
  by (simp add: route_screen_def store_apply_def held_view_def store_get_def Let_def)

lemma apply_frame_some: "apply_frame view f = (Applied, v) \<Longrightarrow> \<exists>u. v = Some u"
  by (auto simp: apply_frame_def split: if_splits option.splits)

abbreviation screen_of :: "rstr \<Rightarrow> screen_frame \<Rightarrow> screen_view \<Rightarrow> i64 \<Rightarrow> watched_screen" where
  "screen_of peer f u now \<equiv> \<lparr>wa_worker = peer, wa_task_id = sf_task_id f, wa_grid = sv_grid u,
     wa_seq = sv_seq u, wa_updated_at = now\<rparr>"

lemma route_frame_applied:
  "apply_frame (held_view peer (sf_task_id f) s) f = (Applied, Some u) \<Longrightarrow>
   route_screen peer (Frame f) now s =
     (None, s\<lparr>sc_screens := evict_stalest (AList.update (peer, sf_task_id f) (screen_of peer f u now) (sc_screens s))\<rparr>)"
  by (simp add: route_screen_def store_apply_def held_view_def store_get_def Let_def)

inductive hub_run :: "screen_store \<Rightarrow> bool" where
  fresh: "hub_run store_new"
| armed: "hub_run s \<Longrightarrow> hub_run (arm worker task_id s)"
| disarmed: "hub_run s \<Longrightarrow> hub_run (disarm worker task_id s)"
| forgotten: "hub_run s \<Longrightarrow> hub_run (forget worker task_id s)"
| routed: "hub_run s \<Longrightarrow> route_screen peer msg now s = (reply, s') \<Longrightarrow> hub_run s'"

lemma hub_run_ok: "hub_run s \<Longrightarrow> store_ok s"
proof (induction rule: hub_run.induct)
  case fresh
  then show ?case by (simp add: store_ok_def store_new_def)
next
  case (forgotten s worker task_id)
  then show ?case using store_ok_delete by (simp add: forget_def)
next
  case (routed s peer msg now reply s')
  show ?case
  proof (cases "\<exists>f. msg = Frame f")
    case True
    then obtain f where f: "msg = Frame f" by blast
    obtain r v where r: "apply_frame (held_view peer (sf_task_id f) s) f = (r, v)" by fastforce
    show ?thesis
    proof (cases r)
      case Applied
      then obtain u where "v = Some u" using apply_frame_some r by blast
      then have "s' = s\<lparr>sc_screens := evict_stalest
          (AList.update (peer, sf_task_id f) (screen_of peer f u now) (sc_screens s))\<rparr>"
        using route_frame_applied [of peer f s u now] r Applied routed.hyps(2) f by simp
      then show ?thesis using store_ok_put [OF routed.IH, of "(peer, sf_task_id f)" "screen_of peer f u now"] by simp
    next
      case NeedsResync
      then show ?thesis using route_frame_refused [of peer f s v now] r routed f by simp
    qed
  next
    case False
    then have "s' = s" using routed.hyps(2) by (cases msg) (auto simp: route_screen_def)
    then show ?thesis using routed.IH by simp
  qed
qed (simp_all add: store_ok_def arm_def disarm_def)

text \<open>What a put leaves: everything, or all but one entry that no other is older than.\<close>

lemma put_map:
  assumes "store_ok s" "m = (map_of (sc_screens s))(k \<mapsto> v)"
  shows "map_of (evict_stalest (AList.update k v (sc_screens s))) = m \<or>
    (\<exists>k0 w0. length (sc_screens s) = CAPACITY \<and> map_of (sc_screens s) k = None \<and> m k0 = Some w0 \<and>
       map_of (evict_stalest (AList.update k v (sc_screens s))) = m(k0 := None) \<and>
       (\<forall>k' w'. m k' = Some w' \<longrightarrow> sint (wa_updated_at w0) \<le> sint (wa_updated_at w')))"
proof -
  let ?xs = "AList.update k v (sc_screens s)"
  have u: "distinct (map fst ?xs)" "length ?xs \<le> CAPACITY \<or> length ?xs = Suc CAPACITY"
    using update_room [OF assms(1), of k v] by simp_all
  have m: "map_of ?xs = m" by (simp add: assms(2) update_conv')
  have in_map: "m k' = Some w' \<longleftrightarrow> (k', w') \<in> set ?xs" for k' w'
    using map_of_eq_Some_iff [OF u(1)] m by simp
  show ?thesis
  proof (rule evict_cases [OF u])
    assume "length ?xs \<le> CAPACITY" "evict_stalest ?xs = ?xs"
    then show ?thesis using m by simp
  next
    fix k0 w0
    assume e: "length ?xs = Suc CAPACITY" "evict_stalest ?xs = AList.delete k0 ?xs" "(k0, w0) \<in> set ?xs"
      "\<forall>(k', w') \<in> set ?xs. sint (wa_updated_at w0) \<le> sint (wa_updated_at w')"
    then have "map_of (evict_stalest ?xs) = m(k0 := None)" by (simp add: delete_conv' m)
    moreover have "m k0 = Some w0" using in_map e(3) by simp
    moreover have "\<forall>k' w'. m k' = Some w' \<longrightarrow> sint (wa_updated_at w0) \<le> sint (wa_updated_at w')"
      using e(4) in_map by blast
    moreover have "length (sc_screens s) = CAPACITY" "map_of (sc_screens s) k = None"
      using e(1) assms(1) by (auto simp: length_update_key store_ok_def map_of_eq_None_iff split: if_splits)
    ultimately show ?thesis by blast
  qed
qed

section \<open>What a viewer shows\<close>

text \<open>A frame ticked on a stream in step with the viewer brings it to the screen ticked.\<close>

lemma tick_in_step:
  assumes "stream_ok gs s" "view_ok gs view" "length (sn_cells sn) < 65536" "length gs + 1 < 2 ^ 63"
    and t: "tick sn s = (Some f, s')" and step: "st_owes_full s \<or> map_option sv_seq view = Some (st_seq s)"
  shows "apply_frame view f = (Applied, Some \<lparr>sv_grid = wire_grid sn, sv_seq = st_seq s'\<rparr>)"
proof -
  let ?gs = "gs @ [wire_grid sn]"
  from tick_cases [OF assms(1) wire_grid_wf [OF assms(3)] assms(4)] t
  have f: "frame_ok ?gs f" "st_seq s' = sf_seq f" "sf_seq f = st_seq s + 1" "st_owes_full s \<longrightarrow> sf_full f"
    "\<not> sf_full f \<longrightarrow> sf_base_seq f = st_seq s \<and> \<not> st_owes_full s" by auto
  have "st_seq s = word_of_nat (length gs)" using assms(1) by (simp add: stream_ok_def)
  then have new: "shown ?gs (sf_seq f) (wire_grid sn)" using shown_new [OF assms(4)] f(3) by simp
  from f(1) obtain g where g: "shown ?gs (sf_seq f) g" and
    d: "if sf_full f then grid_from_full f = g
      else \<exists>p. shown ?gs (sf_base_seq f) p \<and>
        apply_frame (Some \<lparr>sv_grid = p, sv_seq = sf_base_seq f\<rparr>) f = (Applied, Some \<lparr>sv_grid = g, sv_seq = sf_seq f\<rparr>)"
    by (auto simp: frame_ok_def)
  have gsn: "g = wire_grid sn" using shown_unique g new by blast
  show ?thesis
  proof (cases "sf_full f")
    case True
    then show ?thesis using d gsn f(2) by (simp add: apply_frame_def)
  next
    case False
    then obtain p where p: "shown ?gs (sf_base_seq f) p"
      "apply_frame (Some \<lparr>sv_grid = p, sv_seq = sf_base_seq f\<rparr>) f = (Applied, Some \<lparr>sv_grid = g, sv_seq = sf_seq f\<rparr>)"
      using d by auto
    obtain u where u: "view = Some u" "sv_seq u = sf_base_seq f" using step f(5) False by auto
    then have "shown ?gs (sf_base_seq f) (sv_grid u)" using assms(2) shown_mono by (auto simp: view_ok_def)
    then have "sv_grid u = p" using shown_unique p(1) by blast
    then have "view = Some \<lparr>sv_grid = p, sv_seq = sf_base_seq f\<rparr>" using u by simp
    then show ?thesis using p(2) gsn f(2) by simp
  qed
qed

lemma tick_resync_sends:
  assumes "stream_ok gs s" "length (sn_cells sn) < 65536" "length gs + 1 < 2 ^ 63"
  obtains f s' where "tick sn (request_resync s) = (Some f, s')" "sf_full f" "st_seq s' = st_seq s + 1"
proof -
  have ok: "stream_ok gs (request_resync s)" using assms(1) by (simp add: request_resync_def stream_ok_def)
  have o: "st_owes_full (request_resync s)" "st_seq (request_resync s) = st_seq s"
    by (simp_all add: request_resync_def)
  from tick_cases [OF ok wire_grid_wf [OF assms(2)] assms(3)] o show ?thesis using that by auto
qed

text \<open>A delta built from one screen and applied to another of its size mixes the two.\<close>

lemma delta_mixes:
  assumes "wf_grid p" "wf_grid g" "wf_grid h" "same_size p g" "same_size p h" "changed_rows p g = Some rows"
  shows "\<exists>v. apply_frame (Some \<lparr>sv_grid = h, sv_seq = b\<rparr>) (frame_of g t n b False rows) = (Applied, Some v) \<and>
     sv_seq v = n \<and> length (sg_lines (sv_grid v)) = length (sg_lines g) \<and>
     (\<forall>y < length (sg_lines g). sg_lines (sv_grid v) ! y =
        (if sg_lines p ! y = sg_lines g ! y then sg_lines h ! y else sg_lines g ! y))"
proof -
  let ?ups = "filter (\<lambda>(y, runs). \<not> (y < length (sg_lines p) \<and> sg_lines p ! y = runs)) (enumerate 0 (sg_lines g))"
  let ?mix = "map (\<lambda>y. if sg_lines p ! y = sg_lines g ! y then sg_lines h ! y else sg_lines g ! y)
    [0..<length (sg_lines g)]"
  have rows: "rows = numbered ?ups" using changed_rows_numbered assms(4,6) by simp
  have len: "length (sg_lines p) = length (sg_lines g)" "length (sg_lines h) = length (sg_lines g)"
    using assms(1-5) by (simp_all add: wf_grid_def same_size_def)
  note small = wf_grid_small [OF assms(2)]
  have put: "foldl (\<lambda>ls r. ls[unat (ru_y r) := ru_runs r]) (sg_lines h) rows = ?mix"
    unfolding rows
    by (rule put_numbered) (use len small in \<open>auto simp: in_enumerate0 image_iff Bex_def\<close>)
  have "unat (ru_y r) < length (sg_lines h)" if r: "r \<in> set rows" for r
  proof -
    obtain y where "y < length (sg_lines g)" "ru_y r = word_of_nat y"
      using in_numbered [OF r [unfolded rows]] by (auto simp: in_enumerate0)
    then show ?thesis using len small by (simp add: unat_of_nat take_bit_nat_eq_self)
  qed
  then show ?thesis
    using assms(4,5) put by (auto simp: apply_frame_def frame_of_def same_size_def not_le [symmetric])
qed

end
