(* ===== verification/ScreenWatch.thy ===== *)
theory ScreenWatch
  imports ScreenSpec
begin

text \<open>The properties of watched screens, each with its witness.\<close>

definition ex_cell :: "nat \<Rightarrow> screen_cell" where
  "ex_cell c = blank_cell\<lparr>ct_text := [c]\<rparr>"

definition ex_screen :: "nat list \<Rightarrow> screen_snapshot" where
  "ex_screen cs = \<lparr>sn_cells = map (\<lambda>c. [ex_cell c]) cs, sn_cursor = (0, 0), sn_hide_cursor = False\<rparr>"

lemma ex_row: "\<not> is_whitespace c \<Longrightarrow> wire_row [ex_cell c] = [\<lparr>sr_text = [c], sr_style = default_style\<rparr>]"
  by (simp add: wire_row_def coalesce_runs_def trim_last_def trim_end_def ex_cell_def blank_cell_def
      wire_style_def default_style_def Let_def)

lemma ex_visible: "\<not> is_whitespace 65" "\<not> is_whitespace 66" "\<not> is_whitespace 67"
  by (simp_all add: is_whitespace_def)

lemma ex_grid:
  "\<forall>c \<in> set cs. \<not> is_whitespace c \<Longrightarrow> wire_grid (ex_screen cs) =
    \<lparr>sg_cols = (if cs = [] then 0 else 1), sg_rows = word_of_nat (length cs),
     sg_lines = map (\<lambda>c. [\<lparr>sr_text = [c], sr_style = default_style\<rparr>]) cs, sg_cursor = (0, 0), sg_hide_cursor = False\<rparr>"
  by (cases cs) (simp_all add: wire_grid_def ex_screen_def ex_row)

text \<open>C36.  Whatever the mailbox loses, repeats or reorders, a viewer following one stream shows a screen
  the stream sent, under the number it was sent with; a viewer in step is brought to each screen ticked,
  and one that asked for a resync is brought to the next screen whatever it holds.\<close>

theorem watched_screen_true:
  assumes "watch_run task s gs net view" "length gs + 1 < 2 ^ 63" "length (sn_cells sn) < 65536"
  shows "(\<forall>v. view = Some v \<longrightarrow> 0 < unat (sv_seq v) \<and> unat (sv_seq v) \<le> length gs \<and>
       sv_grid v = gs ! (unat (sv_seq v) - 1)) \<and>
     (\<forall>f s'. tick sn s = (Some f, s') \<and> map_option sv_seq view = Some (st_seq s) \<longrightarrow>
       apply_frame view f = (Applied, Some \<lparr>sv_grid = wire_grid sn, sv_seq = st_seq s'\<rparr>)) \<and>
     (\<exists>f s'. tick sn (request_resync s) = (Some f, s') \<and> sf_full f \<and>
       apply_frame view f = (Applied, Some \<lparr>sv_grid = wire_grid sn, sv_seq = st_seq s + 1\<rparr>))"
proof -
  have ok: "stream_ok gs s" "view_ok gs view" using watch_run_inv [OF assms(1)] assms(2) by simp_all
  have ok': "stream_ok gs (request_resync s)" using ok(1) by (simp add: request_resync_def stream_ok_def)
  obtain f s' where f: "tick sn (request_resync s) = (Some f, s')" "sf_full f" "st_seq s' = st_seq s + 1"
    using tick_resync_sends [OF ok(1) assms(3,2)] .
  have "apply_frame view f = (Applied, Some \<lparr>sv_grid = wire_grid sn, sv_seq = st_seq s + 1\<rparr>)"
    using tick_in_step [OF ok' ok(2) assms(3,2) f(1)] f(3) by (simp add: request_resync_def)
  then show ?thesis
    using f(1,2) tick_in_step [OF ok assms(3,2)] ok(2) by (fastforce simp: view_ok_def shown_def)
qed

lemma watched_screen_true_witness:
  "\<exists>f s'. tick (ex_screen [65]) (request_resync (stream_new [116])) = (Some f, s') \<and> sf_full f \<and>
     apply_frame None f = (Applied, Some \<lparr>sv_grid = wire_grid (ex_screen [65]), sv_seq = 1\<rparr>)"
  using watched_screen_true [OF watch_run.start, of "ex_screen [65]" "[116]"]
  by (simp add: ex_screen_def stream_new_def)

text \<open>C37.  A resync is served by a new stream, whose numbers start again: when the delta the old stream
  sent last arrives after the new stream's first screen, the viewer accepts it and shows a mixture of two
  screens, whose rows are the old stream's where it changed and the new one's elsewhere.\<close>

theorem restart_mixes_screens:
  assumes "tick sn1 (stream_new task) = (Some f1, s1)" "tick sn2 s1 = (Some f2, s2)"
    and "tick sn3 (stream_new task) = (Some f3, t1)"
    and "same_size (wire_grid sn1) (wire_grid sn2)" "same_size (wire_grid sn1) (wire_grid sn3)"
    and "\<forall>sn \<in> {sn1, sn2, sn3}. length (sn_cells sn) < 65536"
  shows "\<exists>v. apply_frame (snd (apply_frame view f3)) f2 = (Applied, Some v) \<and>
    length (sg_lines (sv_grid v)) = length (sn_cells sn2) \<and>
    (\<forall>y < length (sn_cells sn2). sg_lines (sv_grid v) ! y =
       (if wire_row (sn_cells sn1 ! y) = wire_row (sn_cells sn2 ! y)
        then wire_row (sn_cells sn3 ! y) else wire_row (sn_cells sn2 ! y)))"
proof -
  let ?g1 = "wire_grid sn1" and ?g2 = "wire_grid sn2" and ?g3 = "wire_grid sn3"
  have wf: "wf_grid ?g1" "wf_grid ?g2" "wf_grid ?g3" using assms(6) wire_grid_wf by simp_all
  have len: "length (sn_cells sn1) = length (sn_cells sn2)" "length (sn_cells sn3) = length (sn_cells sn2)"
    using wf assms(4,5) by (simp_all add: wf_grid_def same_size_def wire_grid_def)
  obtain rows where rows: "changed_rows ?g1 ?g2 = Some rows" using changed_rows_numbered [OF assms(4)] by blast
  have s1: "st_owes_full s1 = False" "st_seq s1 = 1" "st_last_sent s1 = Some ?g1" "st_task_id s1 = task"
    using assms(1) by (auto simp: tick_def stream_new_def build_frame_def Let_def)
  have f2: "f2 = frame_of ?g2 task 2 1 False rows"
    using assms(2) rows by (auto simp: tick_def s1 build_frame_def Let_def split: if_splits)
  have f3: "f3 = frame_of ?g3 task 1 0 True (all_rows ?g3)"
    using assms(3) by (auto simp: tick_def stream_new_def build_frame_def Let_def)
  have "snd (apply_frame view f3) = Some \<lparr>sv_grid = ?g3, sv_seq = 1\<rparr>"
    using full_frame_grid [OF wf(3), of task 1 0] by (simp add: f3 apply_frame_def) (simp add: frame_of_def)
  moreover obtain v where v: "apply_frame (Some \<lparr>sv_grid = ?g3, sv_seq = 1\<rparr>) f2 = (Applied, Some v)"
    "length (sg_lines (sv_grid v)) = length (sg_lines ?g2)"
    "\<forall>y < length (sg_lines ?g2). sg_lines (sv_grid v) ! y =
        (if sg_lines ?g1 ! y = sg_lines ?g2 ! y then sg_lines ?g3 ! y else sg_lines ?g2 ! y)"
    using delta_mixes [OF wf assms(4,5) rows, of 1 task 2] unfolding f2 by blast
  ultimately show ?thesis using len by (intro exI [of _ v]) (simp add: wire_grid_def)
qed

lemma restart_mixes_screens_witness:
  "\<exists>f1 s1 f2 s2 f3 t1 v.
     tick (ex_screen [65, 65]) (stream_new [116]) = (Some f1, s1) \<and> tick (ex_screen [66, 65]) s1 = (Some f2, s2) \<and>
     tick (ex_screen [67, 67]) (stream_new [116]) = (Some f3, t1) \<and>
     apply_frame (snd (apply_frame None f3)) f2 = (Applied, Some v) \<and>
     sg_lines (sv_grid v) = map (\<lambda>c. [\<lparr>sr_text = [c], sr_style = default_style\<rparr>]) [66, 67]"
proof -
  let ?a = "ex_screen [65, 65]" and ?b = "ex_screen [66, 65]" and ?c = "ex_screen [67, 67]"
  have g: "wire_grid ?a \<noteq> wire_grid ?b" "same_size (wire_grid ?a) (wire_grid ?b)" "same_size (wire_grid ?a) (wire_grid ?c)"
    by (simp_all add: ex_grid ex_visible same_size_def)
  obtain f1 s1 where 1: "tick ?a (stream_new [116]) = (Some f1, s1)"
    and s1: "st_owes_full s1 = False" "st_last_sent s1 = Some (wire_grid ?a)"
    by (auto simp: tick_def stream_new_def build_frame_def Let_def)
  obtain f3 t1 where 3: "tick ?c (stream_new [116]) = (Some f3, t1)"
    by (auto simp: tick_def stream_new_def build_frame_def Let_def)
  have "\<exists>f2 s2. tick ?b s1 = (Some f2, s2)"
    by (auto simp: tick_def s1 build_frame_def changed_rows_def g(2) Let_def ex_grid ex_visible)
  then obtain f2 s2 where 2: "tick ?b s1 = (Some f2, s2)" by blast
  have small: "\<forall>sn \<in> {?a, ?b, ?c}. length (sn_cells sn) < 65536" by (simp add: ex_screen_def)
  obtain v where v: "apply_frame (snd (apply_frame None f3)) f2 = (Applied, Some v)"
    "length (sg_lines (sv_grid v)) = length (sn_cells ?b)"
    "\<forall>y < length (sn_cells ?b). sg_lines (sv_grid v) ! y =
       (if wire_row (sn_cells ?a ! y) = wire_row (sn_cells ?b ! y)
        then wire_row (sn_cells ?c ! y) else wire_row (sn_cells ?b ! y))"
    using restart_mixes_screens [OF 1 2 3 g(2,3) small, of None] by blast
  have "sg_lines (sv_grid v) = map (\<lambda>c. [\<lparr>sr_text = [c], sr_style = default_style\<rparr>]) [66, 67]"
    using v(2,3) by (auto simp: ex_screen_def ex_row ex_visible less_Suc_eq intro!: nth_equalityI)
  then show ?thesis using 1 2 3 v(1) by blast
qed

text \<open>C38.  What a viewer renders is what the worker's emulator shows: the screen read back from a frame
  that brought the viewer up to date has every cell of each row up to its last visible one, blank cells
  to the width, and the cursor, for any rectangular screen and any segmentation that splits its rows
  into their cells.\<close>

theorem viewer_renders_screen:
  assumes "watch_run task s gs net view" "length gs + 1 < 2 ^ 63" "rectangle width sn"
    and "\<forall>row \<in> set (sn_cells sn). splits_row graphemes row \<and> (\<forall>c \<in> set row. whole c)"
    and "tick sn s = (Some f, s')" "st_owes_full s \<or> map_option sv_seq view = Some (st_seq s)"
  shows "\<exists>v. apply_frame view f = (Applied, Some v) \<and>
    snapshot_from_grid graphemes (sv_grid v) = sn\<lparr>sn_cells := map (padded width) (sn_cells sn)\<rparr>"
proof -
  have "stream_ok gs s" "view_ok gs view" using watch_run_inv [OF assms(1)] assms(2) by simp_all
  moreover have "length (sn_cells sn) < 65536" using assms(3) by (simp add: rectangle_def)
  ultimately have "apply_frame view f = (Applied, Some \<lparr>sv_grid = wire_grid sn, sv_seq = st_seq s'\<rparr>)"
    using tick_in_step assms(2,5,6) by blast
  then show ?thesis using snapshot_round_trip [OF assms(3,4)] by simp
qed

lemma ex_splits: "splits_row (map (\<lambda>c. [c])) (map ex_cell cs)"
proof -
  have "map (\<lambda>c. [c]) (concat (map ct_text xs)) = map ct_text xs" if "set xs \<subseteq> range ex_cell" for xs
    using that by (induction xs) (auto simp: ex_cell_def)
  moreover have "set xs \<subseteq> range ex_cell" if "sublist xs (map ex_cell cs)" for xs
    using set_mono_sublist [OF that] by auto
  ultimately show ?thesis by (simp add: splits_row_def)
qed

lemma viewer_renders_screen_witness:
  "\<exists>f s' v. tick (ex_screen [65, 66]) (stream_new [116]) = (Some f, s') \<and>
     apply_frame None f = (Applied, Some v) \<and>
     sn_cells (snapshot_from_grid (map (\<lambda>c. [c])) (sv_grid v)) = [[ex_cell 65], [ex_cell 66]]"
proof -
  let ?sn = "ex_screen [65, 66]"
  obtain f s' where t: "tick ?sn (stream_new [116]) = (Some f, s')"
    by (auto simp: tick_def stream_new_def build_frame_def Let_def)
  have vis: "padded 1 [ex_cell c] = [ex_cell c]" if "c = 65 \<or> c = 66" for c
    using that ex_visible by (auto simp: padded_def content_def blank_like_def ex_cell_def)
  have rect: "rectangle 1 ?sn" by (simp add: rectangle_def ex_screen_def)
  have rows: "\<forall>row \<in> set (sn_cells ?sn). splits_row (map (\<lambda>c. [c])) row \<and> (\<forall>c \<in> set row. whole c)"
    using ex_splits [of "[65]"] ex_splits [of "[66]"] ex_visible
    by (simp add: ex_screen_def whole_def ex_cell_def)
  have "st_owes_full (stream_new [116])" by (simp add: stream_new_def)
  then obtain v where "apply_frame None f = (Applied, Some v)"
    "snapshot_from_grid (map (\<lambda>c. [c])) (sv_grid v) = ?sn\<lparr>sn_cells := map (padded 1) (sn_cells ?sn)\<rparr>"
    using viewer_renders_screen [OF watch_run.start _ rect rows t] by auto
  then show ?thesis using t vis by (auto simp: ex_screen_def)
qed

text \<open>C39.  A hub never holds more than eight screens, each under its own worker and task.  A frame that
  does not apply changes nothing, and asks for a resync exactly while the task is watched.  One that applies
  updates its screen and, when there is no room for a new one, drops one that no other is older than.\<close>

theorem hub_store_bounded:
  assumes "hub_run s" "route_screen peer (Frame f) now s = (reply, s')"
  shows "distinct (map fst (sc_screens s')) \<and> length (sc_screens s') \<le> 8 \<and>
    (\<forall>(k, w) \<in> set (sc_screens s'). k = (wa_worker w, wa_task_id w)) \<and>
    (case apply_frame (held_view peer (sf_task_id f) s) f of
       (NeedsResync, _) \<Rightarrow> s' = s \<and>
         reply = (if (peer, sf_task_id f) \<in> sc_watching s then Some (Subscribe (sf_task_id f) 1 True) else None)
     | (Applied, None) \<Rightarrow> False
     | (Applied, Some u) \<Rightarrow> reply = None \<and> sc_watching s' = sc_watching s \<and>
         (let m = (map_of (sc_screens s))((peer, sf_task_id f) \<mapsto> screen_of peer f u now)
          in map_of (sc_screens s') = m \<or>
            (\<exists>k w. length (sc_screens s) = 8 \<and> store_get peer (sf_task_id f) s = None \<and>
               m k = Some w \<and> map_of (sc_screens s') = m(k := None) \<and>
               (\<forall>k' w'. m k' = Some w' \<longrightarrow> sint (wa_updated_at w) \<le> sint (wa_updated_at w')))))"
proof -
  have ok: "store_ok s" "store_ok s'" using assms hub_run_ok hub_run.routed by blast+
  obtain r view' where r: "apply_frame (held_view peer (sf_task_id f) s) f = (r, view')" by fastforce
  have "case apply_frame (held_view peer (sf_task_id f) s) f of
       (NeedsResync, _) \<Rightarrow> s' = s \<and>
         reply = (if (peer, sf_task_id f) \<in> sc_watching s then Some (Subscribe (sf_task_id f) 1 True) else None)
     | (Applied, None) \<Rightarrow> False
     | (Applied, Some u) \<Rightarrow> reply = None \<and> sc_watching s' = sc_watching s \<and>
         (let m = (map_of (sc_screens s))((peer, sf_task_id f) \<mapsto> screen_of peer f u now)
          in map_of (sc_screens s') = m \<or>
            (\<exists>k w. length (sc_screens s) = 8 \<and> store_get peer (sf_task_id f) s = None \<and>
               m k = Some w \<and> map_of (sc_screens s') = m(k := None) \<and>
               (\<forall>k' w'. m k' = Some w' \<longrightarrow> sint (wa_updated_at w) \<le> sint (wa_updated_at w'))))"
  proof (cases r)
    case NeedsResync
    then show ?thesis
      using r route_frame_refused [of peer f s view' now] assms(2)
      by (auto simp: is_watching_def DEFAULT_SCREEN_FPS_def)
  next
    case Applied
    then obtain u where u: "view' = Some u" using apply_frame_some r by blast
    let ?k = "(peer, sf_task_id f)" and ?v = "screen_of peer f u now"
    have s': "reply = None" "s' = s\<lparr>sc_screens := evict_stalest (AList.update ?k ?v (sc_screens s))\<rparr>"
      using route_frame_applied [of peer f s u now] r u Applied assms(2) by simp_all
    have upd: "sc_screens s' = evict_stalest (AList.update ?k ?v (sc_screens s))" "sc_watching s' = sc_watching s"
      using s'(2) by simp_all
    show ?thesis
      using put_map [OF ok(1) refl, of ?k ?v]
      by (simp only: r u Applied Let_def prod.case option.case apply_outcome.case upd s'(1) store_get_def
          CAPACITY_def simp_thms)
  qed
  then show ?thesis using ok(2) by (simp add: store_ok_def CAPACITY_def)
qed

lemma hub_store_bounded_witness:
  "\<exists>f s'. route_screen [119] (Frame f) 7 store_new = (None, s') \<and> length (sc_screens s') \<le> 8 \<and> sf_full f \<and>
     map_of (sc_screens s') ([119], [116]) \<noteq> None"
proof -
  obtain f s1 where t: "tick (ex_screen [65]) (stream_new [116]) = (Some f, s1)"
    by (auto simp: tick_def stream_new_def build_frame_def Let_def)
  then have f: "sf_full f" "sf_task_id f = [116]"
    by (auto simp: tick_def stream_new_def build_frame_def frame_of_def Let_def)
  obtain reply s' where s': "route_screen [119] (Frame f) 7 store_new = (reply, s')" by fastforce
  have "apply_frame (held_view [119] (sf_task_id f) store_new) f =
      (Applied, Some \<lparr>sv_grid = grid_from_full f, sv_seq = sf_seq f\<rparr>)"
    using f(1) by (simp add: apply_frame_def)
  with hub_store_bounded [OF hub_run.fresh s'] f
  have "reply = None \<and> length (sc_screens s') \<le> 8 \<and> map_of (sc_screens s') ([119], [116]) \<noteq> None"
    by (auto simp: Let_def store_new_def)
  then show ?thesis using s' f(1) by blast
qed

end
