(* ===== verification/DaemonTypes.thy ===== *)
theory DaemonTypes
  imports Prelude
begin

text \<open>
  The data of the daemon's task handlers and their choice of a provider (\<open>src/src/sdk/src/daemon\<close>:
  \<open>types.rs\<close>, \<open>task_loop/mod.rs\<close> and the head of \<open>task_loop/run.rs\<close>; the enums of
  \<open>protocol/frames/types.rs\<close>).  Frames and configuration have the fields the handlers read.
\<close>


section \<open>Frames and configuration\<close>

datatype provider = Claude | Codex | Opencode | Openhuman | Shell

datatype transport = Cli | App_server

datatype frame_kind =
    Task_frame | Input_frame | Abort_frame | Status_frame | Reply_frame | Error_frame | Ack_frame
  | Capabilities_frame | Capabilities_result_frame | System_info_frame | System_info_result_frame

text \<open>The fields of a frame the handlers read.\<close>

record task_frame =
  tf_task_id :: rstr
  tf_text :: rstr
  tf_correlation_id :: "rstr option"
  tf_provider :: "provider option"
  tf_transport :: "transport option"
  tf_custom_harness :: "rstr option"

record custom_harness =
  cu_id :: rstr
  cu_base_harness :: provider
  cu_default :: bool
  cu_api_key_env :: rstr

record daemon_config =
  dc_providers :: "provider list"
  dc_default_provider :: provider
  dc_concurrency :: nat
  dc_status_throttle_ms :: i64
  dc_max_pending :: nat
  dc_custom_harnesses :: "custom_harness list"
  dc_env :: "rstr \<Rightarrow> rstr option"

text \<open>What the daemon's frames say; the formatted texts carry their arguments.\<close>

datatype reply_text =
    Unknown_custom rstr
  | No_provider "provider option" "provider list"
  | Flavor_refused transport provider
  | At_capacity nat
  | Already_running rstr
  | Task_accepted
  | Aborted_queued
  | Queued_status
  | Still_working
  | Detail rstr
  | Answered rstr
  | Failed_with rstr
  | Task_aborted
  | Nothing_to_abort
  | Input_received
  | Input_unmatched
  | Input_refused
  | No_agent

text \<open>A frame sent: \<open>of_kind\<close> is \<open>None\<close> for raw text, and \<open>of_by\<close> records which handler sent it.\<close>

record out_frame =
  of_by :: "nat option"
  of_to :: rstr
  of_kind :: "frame_kind option"
  of_task_id :: rstr
  of_text :: reply_text
  of_correlation_id :: "rstr option"
  of_harness :: "provider option"

section \<open>Choosing a provider\<close>

definition supports_stdin :: "provider \<Rightarrow> bool" where
  "supports_stdin p \<longleftrightarrow> p = Claude"

fun supported_by :: "transport \<Rightarrow> provider \<Rightarrow> bool" where
  "supported_by Cli p = True"
| "supported_by App_server p = (p = Codex)"

definition key_present :: "(rstr \<Rightarrow> rstr option) \<Rightarrow> custom_harness \<Rightarrow> bool" where
  "key_present env u \<longleftrightarrow> (case env (cu_api_key_env u) of None \<Rightarrow> False | Some v \<Rightarrow> \<not> list_all is_whitespace v)"

definition select_provider :: "daemon_config \<Rightarrow> provider option \<Rightarrow> provider option" where
  "select_provider c requested =
     (case requested of
        Some p \<Rightarrow> if p = Openhuman then Some p else if p \<in> set (dc_providers c) then Some p else None
      | None \<Rightarrow>
          if dc_default_provider c = Openhuman then Some (dc_default_provider c)
          else if dc_default_provider c \<in> set (dc_providers c) then Some (dc_default_provider c)
          else (case dc_providers c of [] \<Rightarrow> None | p # _ \<Rightarrow> Some p))"

definition choose_harness :: "daemon_config \<Rightarrow> task_frame \<Rightarrow> reply_text + custom_harness option" where
  "choose_harness c f =
     (case tf_custom_harness f of
        Some name \<Rightarrow>
          (case find (\<lambda>u. cu_id u = name) (dc_custom_harnesses c) of
             Some u \<Rightarrow> Inr (Some u) | None \<Rightarrow> Inl (Unknown_custom name))
      | None \<Rightarrow>
          Inr (if tf_provider f = None
               then find (\<lambda>u. cu_default u \<and> key_present (dc_env c) u) (dc_custom_harnesses c)
               else None))"

definition resolve_task :: "daemon_config \<Rightarrow> task_frame \<Rightarrow> reply_text + (custom_harness option \<times> provider)" where
  "resolve_task c f =
     (case choose_harness c f of
        Inl e \<Rightarrow> Inl e
      | Inr u \<Rightarrow>
          (let requested = (case u of Some h \<Rightarrow> Some (cu_base_harness h) | None \<Rightarrow> tf_provider f)
           in case select_provider c requested of
                None \<Rightarrow> Inl (No_provider requested (dc_providers c))
              | Some p \<Rightarrow>
                  (let t = (case tf_transport f of None \<Rightarrow> Cli | Some t \<Rightarrow> t)
                   in if \<not> supported_by t p then Inl (Flavor_refused t p) else Inr (u, p))))"

definition ascii_lower :: "nat \<Rightarrow> nat" where
  "ascii_lower ch = (if 65 \<le> ch \<and> ch \<le> 90 then ch + 32 else ch)"

text \<open>\<open>MEDULLA_HARNESS_PROTOCOL\<close>, the variable that selects the agent protocol \<open>acp\<close>.\<close>

definition HARNESS_PROTOCOL_ENV :: rstr where
  "HARNESS_PROTOCOL_ENV = map of_char ''MEDULLA_HARNESS_PROTOCOL''"

definition acp :: rstr where "acp = [97, 99, 112]"

definition accepts_stdin :: "(rstr \<Rightarrow> rstr option) \<Rightarrow> provider \<Rightarrow> task_frame \<Rightarrow> bool" where
  "accepts_stdin env p f \<longleftrightarrow>
     supports_stdin p \<and> (case tf_transport f of None \<Rightarrow> True | Some t \<Rightarrow> t = Cli) \<and>
     \<not> (case env HARNESS_PROTOCOL_ENV of None \<Rightarrow> False | Some v \<Rightarrow> map ascii_lower v = acp)"

definition HEARTBEAT_THROTTLE_WINDOWS :: int where "HEARTBEAT_THROTTLE_WINDOWS = 8"
definition MAX_HEARTBEAT_MS :: int where "MAX_HEARTBEAT_MS = 60000"

text \<open>\<open>saturating_mul\<close> on \<open>i64\<close>.\<close>

definition i64_saturate :: "int \<Rightarrow> int" where
  "i64_saturate n = max (- (2 ^ 63)) (min (2 ^ 63 - 1) n)"

definition heartbeat_interval :: "daemon_config \<Rightarrow> int" where
  "heartbeat_interval c =
     max 1 (min MAX_HEARTBEAT_MS (i64_saturate (sint (dc_status_throttle_ms c) * HEARTBEAT_THROTTLE_WINDOWS)))"

end
