(* ===== verification/WorkflowRuns.thy ===== *)
theory WorkflowRuns
  imports Prelude
begin

text \<open>
  The registry of the workflow runs a process executes (\<open>src/src/sdk/src/workflows/run/registry.rs\<close>).
  It is one per process: every daemon, peer and local caller names a run by its bare id.  The
  signal of a run is shared by its guard and the registry, so signals are kept in a list of
  their flags and named by index; waking the run that waits on one is left to the run.  Nothing
  panics while it holds the lock of the registry, so the lock is never poisoned.
\<close>

record run_registry =
  rr_runs :: "rstr \<Rightarrow> nat option"
  rr_cancelled :: "bool list"

record run_guard =
  rn_id :: rstr
  rn_signal :: nat

definition registry_new :: run_registry where
  "registry_new = \<lparr>rr_runs = (\<lambda>_. None), rr_cancelled = []\<rparr>"

definition run_register :: "rstr \<Rightarrow> run_registry \<Rightarrow> run_guard \<times> run_registry" where
  "run_register i w =
     (let n = length (rr_cancelled w)
      in (\<lparr>rn_id = i, rn_signal = n\<rparr>,
          \<lparr>rr_runs = (rr_runs w)(i \<mapsto> n), rr_cancelled = rr_cancelled w @ [False]\<rparr>))"

definition run_is_running :: "rstr \<Rightarrow> run_registry \<Rightarrow> bool" where
  "run_is_running i w \<longleftrightarrow> rr_runs w i \<noteq> None"

definition run_claim :: "rstr \<Rightarrow> run_registry \<Rightarrow> run_guard option \<times> run_registry" where
  "run_claim i w =
     (if run_is_running i w then (None, w) else (case run_register i w of (g, w1) \<Rightarrow> (Some g, w1)))"

text \<open>A guard removes only its own entry.\<close>

definition run_guard_drop :: "run_guard \<Rightarrow> run_registry \<Rightarrow> run_registry" where
  "run_guard_drop g w =
     (if rr_runs w (rn_id g) = Some (rn_signal g) then w\<lparr>rr_runs := (rr_runs w)(rn_id g := None)\<rparr> else w)"

definition run_cancel :: "rstr \<Rightarrow> run_registry \<Rightarrow> bool \<times> run_registry" where
  "run_cancel i w =
     (case rr_runs w i of
        Some n \<Rightarrow> (True, w\<lparr>rr_cancelled := (rr_cancelled w)[n := True]\<rparr>)
      | None \<Rightarrow> (False, w))"

definition signal_cancelled :: "nat \<Rightarrow> run_registry \<Rightarrow> bool" where
  "signal_cancelled n w \<longleftrightarrow> n < length (rr_cancelled w) \<and> rr_cancelled w ! n"

section \<open>Signals\<close>

text \<open>Registered runs have signals of their own.\<close>

definition registry_ok :: "run_registry \<Rightarrow> bool" where
  "registry_ok w \<longleftrightarrow> (\<forall>i n. rr_runs w i = Some n \<longrightarrow> n < length (rr_cancelled w)) \<and>
     (\<forall>i j n. rr_runs w i = Some n \<and> rr_runs w j = Some n \<longrightarrow> i = j)"

lemma registry_new_ok: "registry_ok registry_new"
  by (simp add: registry_ok_def registry_new_def)

lemma run_register_ok: "registry_ok w \<Longrightarrow> registry_ok (snd (run_register i w))"
  unfolding registry_ok_def run_register_def Let_def
  by (auto simp: less_Suc_eq)

lemma run_claim_ok: "registry_ok w \<Longrightarrow> registry_ok (snd (run_claim i w))"
  using run_register_ok [of w i] by (auto simp: run_claim_def split: prod.split)

lemma run_guard_drop_ok: "registry_ok w \<Longrightarrow> registry_ok (run_guard_drop g w)"
  by (auto simp: registry_ok_def run_guard_drop_def)

lemma run_cancel_ok: "registry_ok w \<Longrightarrow> registry_ok (snd (run_cancel i w))"
  by (auto simp: registry_ok_def run_cancel_def split: option.split)

text \<open>Cancelling sets the signal of the run of that id and no other.\<close>

lemma run_cancel_signals:
  assumes "registry_ok w"
  shows "fst (run_cancel i w) = run_is_running i w"
    and "rr_runs (snd (run_cancel i w)) = rr_runs w"
    and "signal_cancelled n (snd (run_cancel i w)) \<longleftrightarrow> signal_cancelled n w \<or> rr_runs w i = Some n"
  using assms
  by (auto simp: run_cancel_def run_is_running_def signal_cancelled_def registry_ok_def nth_list_update split: option.splits)

text \<open>A claim takes a free id with a fresh signal, and its drop gives the id back.\<close>

lemma run_claim_registers:
  assumes "run_claim i w = (Some g, w')" "registry_ok w"
  shows "rr_runs w' i = Some (rn_signal g)" "\<not> signal_cancelled (rn_signal g) w'"
    "rr_runs (run_guard_drop g w') = rr_runs w"
  using assms
  by (auto simp: run_claim_def run_register_def run_is_running_def signal_cancelled_def run_guard_drop_def Let_def
      split: if_splits)

end
