(* ===== verification/DaemonTasks.thy ===== *)
theory DaemonTasks
  imports DaemonTypes WorkflowRuns
begin

text \<open>
  The daemon's task handlers (\<open>src/src/sdk/src/daemon\<close>: \<open>types.rs\<close>, \<open>runtime.rs\<close> and
  \<open>task_loop/{register,control,run,plain}.rs\<close>).

  Every inbound message is handled by an asynchronous task of its own, so a handler is a state machine
  whose steps are its atomic sections, and the daemon is the shared state together with the list of
  its handlers; the index of a handler is also its abort handle.  The frames that only look at the
  shared state (inputs, aborts, probes and responses) are a second list, \<open>da_controls\<close>.  Every message is
  counted in flight until its asynchronous task ends normally.  The executor (\<open>run_task\<close>) is the
  environment: it opens a session, opens the child's stdin, reports events and ends the turn.  The
  environment variables of a run (\<open>harness_env\<close>, \<open>with_tool_mode_at_depth\<close>, \<open>withhold_workflows\<close>)
  are the argument \<open>run_env\<close>.

  Of \<open>Inner\<close>, the configuration is the argument \<open>c\<close>, the callbacks are the environment, and \<open>capabilities\<close>,
  \<open>screen_kill\<close>, \<open>accessible_dirs\<close> (what the probes advertise) and \<open>sessions\<close> (the binding of conversations)
  are left out, as are the answers to probes and the task frames that name a workflow (which take
  admissions and slots of the same daemon): the runs of workflows appear only as the entries that other
  code of the process makes in the registry \<open>da_runs\<close>, the process-wide static of \<open>workflows/run/registry.rs\<close>.
\<close>

section \<open>State\<close>

text \<open>A child's stdin and an abort handle are numbers.\<close>

record running_task =
  rt_provider :: provider
  rt_accepts_stdin :: bool
  rt_correlation_id :: "rstr option"
  rt_stdin :: "nat option"
  rt_pending_input :: "rstr list"
  rt_session_id :: "rstr option"
  rt_abort :: nat

record admission_guard =
  gu_key :: "rstr option"
  gu_controller :: "u64 option"

datatype job = Task_job task_frame | Plain_job rstr

datatype phase =
    Fresh | Admitted provider bool | Registered provider | Accepted provider | Queued provider
  | Turn provider | Settled provider "rstr + rstr" | Leaving | Done

text \<open>\<open>ha_unwound\<close> records that the handler panicked, \<open>ha_counted\<close> that its message is still counted in flight.\<close>

record handler =
  ha_from :: rstr
  ha_job :: job
  ha_phase :: phase
  ha_guard :: "admission_guard option"
  ha_permit :: bool
  ha_aborted :: bool
  ha_terminated :: bool
  ha_unwound :: bool
  ha_counted :: bool

text \<open>A frame that is no task.  \<open>Looked stopped\<close>: an abort between the records and the workflow runs.\<close>

datatype control_phase = Spawned | Looked bool | Replied | Finished | Panicked

record control =
  cm_from :: rstr
  cm_kind :: frame_kind
  cm_frame :: task_frame
  cm_phase :: control_phase

record daemon =
  da_running :: "rstr \<Rightarrow> running_task option"
  da_controllers :: "u64 \<Rightarrow> nat option"
  da_next_controller_id :: u64
  da_admitted :: nat
  da_free_slots :: nat
  da_inflight :: nat
  da_handlers :: "handler list"
  da_controls :: "control list"
  da_runs :: run_registry
  da_stdin :: "nat \<Rightarrow> rstr list"
  da_outbox :: "out_frame list"

definition daemon_new :: "daemon_config \<Rightarrow> daemon" where
  "daemon_new c = \<lparr>da_running = (\<lambda>_. None), da_controllers = (\<lambda>_. None), da_next_controller_id = 0,
     da_admitted = 0, da_free_slots = max (dc_concurrency c) 1, da_inflight = 0, da_handlers = [],
     da_controls = [], da_runs = registry_new, da_stdin = (\<lambda>_. []), da_outbox = []\<rparr>"

definition handler_new :: "rstr \<Rightarrow> job \<Rightarrow> handler" where
  "handler_new from_addr j = \<lparr>ha_from = from_addr, ha_job = j, ha_phase = Fresh, ha_guard = None,
     ha_permit = False, ha_aborted = False, ha_terminated = False, ha_unwound = False, ha_counted = True\<rparr>"

definition task_key :: "rstr \<Rightarrow> rstr \<Rightarrow> rstr" where
  "task_key from_addr task_id = from_addr @ 32 # task_id"

section \<open>Shared operations\<close>

definition claim :: "daemon_config \<Rightarrow> daemon \<Rightarrow> daemon option" where
  "claim c d =
     (if da_admitted d \<ge> dc_max_pending c then None else Some (d\<lparr>da_admitted := da_admitted d + 1\<rparr>))"

definition register_running :: "rstr \<Rightarrow> running_task \<Rightarrow> daemon \<Rightarrow> bool \<times> daemon" where
  "register_running key task d =
     (case da_running d key of
        Some _ \<Rightarrow> (False, d)
      | None \<Rightarrow> (True, d\<lparr>da_running := (da_running d)(key \<mapsto> task)\<rparr>))"

definition register_controller :: "nat \<Rightarrow> daemon \<Rightarrow> u64 \<times> daemon" where
  "register_controller abort d =
     (da_next_controller_id d,
      d\<lparr>da_next_controller_id := da_next_controller_id d + 1,
        da_controllers := (da_controllers d)(da_next_controller_id d \<mapsto> abort)\<rparr>)"

text \<open>The drop of a guard: the record, then the controller, then the count, one at a time.\<close>

definition release_step :: "admission_guard \<Rightarrow> daemon \<Rightarrow> admission_guard option \<times> daemon" where
  "release_step g d =
     (case gu_key g of
        Some key \<Rightarrow> (Some (g\<lparr>gu_key := None\<rparr>), d\<lparr>da_running := (da_running d)(key := None)\<rparr>)
      | None \<Rightarrow>
          (case gu_controller g of
             Some n \<Rightarrow> (Some (g\<lparr>gu_controller := None\<rparr>), d\<lparr>da_controllers := (da_controllers d)(n := None)\<rparr>)
           | None \<Rightarrow> (None, d\<lparr>da_admitted := da_admitted d - 1\<rparr>)))"

definition session_for_task :: "daemon \<Rightarrow> rstr \<Rightarrow> rstr \<Rightarrow> rstr option" where
  "session_for_task d from_addr task_id =
     Option.bind (da_running d (task_key from_addr task_id)) rt_session_id"

definition record_task_session :: "rstr \<Rightarrow> rstr \<Rightarrow> daemon \<Rightarrow> daemon" where
  "record_task_session key session_id d =
     (case da_running d key of
        None \<Rightarrow> d
      | Some t \<Rightarrow> d\<lparr>da_running := (da_running d)(key \<mapsto> t\<lparr>rt_session_id := Some session_id\<rparr>)\<rparr>)"

abbreviation set_handler :: "nat \<Rightarrow> handler \<Rightarrow> daemon \<Rightarrow> daemon" where
  "set_handler i h d \<equiv> d\<lparr>da_handlers := (da_handlers d)[i := h]\<rparr>"

text \<open>Signalling an abort handle.\<close>

definition abort_handler :: "nat \<Rightarrow> daemon \<Rightarrow> daemon" where
  "abort_handler i d = set_handler i ((da_handlers d ! i)\<lparr>ha_aborted := True\<rparr>) d"

definition terminate_handler :: "nat \<Rightarrow> daemon \<Rightarrow> daemon" where
  "terminate_handler i d =
     set_handler i ((da_handlers d ! i)\<lparr>ha_terminated := True, ha_aborted := True\<rparr>) d"

definition terminate_task :: "rstr \<Rightarrow> rstr \<Rightarrow> rstr \<Rightarrow> daemon \<Rightarrow> bool \<times> daemon" where
  "terminate_task from_addr task_id correlation d =
     (case da_running d (task_key from_addr task_id) of
        None \<Rightarrow> (False, d)
      | Some t \<Rightarrow>
          if rt_correlation_id t \<noteq> Some correlation then (False, d)
          else (True, terminate_handler (rt_abort t) d))"

definition reply ::
  "nat option \<Rightarrow> rstr \<Rightarrow> frame_kind \<Rightarrow> task_frame \<Rightarrow> reply_text \<Rightarrow> provider option \<Rightarrow> daemon \<Rightarrow> daemon" where
  "reply by to kind f txt harness d =
     d\<lparr>da_outbox := da_outbox d @ [\<lparr>of_by = by, of_to = to, of_kind = Some kind, of_task_id = tf_task_id f,
        of_text = txt, of_correlation_id = tf_correlation_id f, of_harness = harness\<rparr>]\<rparr>"

definition send_raw :: "nat option \<Rightarrow> rstr \<Rightarrow> reply_text \<Rightarrow> daemon \<Rightarrow> daemon" where
  "send_raw by to txt d =
     d\<lparr>da_outbox := da_outbox d @ [\<lparr>of_by = by, of_to = to, of_kind = None, of_task_id = [],
        of_text = txt, of_correlation_id = None, of_harness = None\<rparr>]\<rparr>"

text \<open>What a handler says: a task's frames and a message's text.\<close>

definition say :: "nat \<Rightarrow> handler \<Rightarrow> frame_kind \<Rightarrow> reply_text \<Rightarrow> provider option \<Rightarrow> daemon \<Rightarrow> daemon" where
  "say i h kind txt harness d =
     (case ha_job h of
        Task_job f \<Rightarrow> reply (Some i) (ha_from h) kind f txt harness d
      | Plain_job _ \<Rightarrow> send_raw (Some i) (ha_from h) txt d)"

section \<open>Messages in flight\<close>

text \<open>\<open>handle_message_from\<close>: a screen message is ignored; any other one is counted and gets an asynchronous
  task of its own, which \<open>handle_frame\<close> splits by the kind of its frame.\<close>

definition handle_message_from ::
  "(rstr \<Rightarrow> bool) \<Rightarrow> rstr \<Rightarrow> rstr \<Rightarrow> (frame_kind \<times> task_frame) option \<Rightarrow> daemon \<Rightarrow> daemon" where
  "handle_message_from is_screen_message from_addr txt frame d =
     (if is_screen_message txt then d
      else
        let d1 = d\<lparr>da_inflight := da_inflight d + 1\<rparr>;
            spawn = (\<lambda>j. d1\<lparr>da_handlers := da_handlers d @ [handler_new from_addr j]\<rparr>)
        in case frame of
             None \<Rightarrow> spawn (Plain_job txt)
           | Some (kind, f) \<Rightarrow>
               if kind = Task_frame then spawn (Task_job f)
               else d1\<lparr>da_controls := da_controls d @
                 [\<lparr>cm_from = from_addr, cm_kind = kind, cm_frame = f, cm_phase = Spawned\<rparr>]\<rparr>)"

text \<open>The end of the asynchronous task; a panic unwinds past it.\<close>

definition finish_message :: "nat \<Rightarrow> daemon \<Rightarrow> daemon" where
  "finish_message i d =
     set_handler i ((da_handlers d ! i)\<lparr>ha_counted := False\<rparr>) (d\<lparr>da_inflight := da_inflight d - 1\<rparr>)"

definition set_control :: "nat \<Rightarrow> control_phase \<Rightarrow> daemon \<Rightarrow> daemon" where
  "set_control i ph d = d\<lparr>da_controls := (da_controls d)[i := (da_controls d ! i)\<lparr>cm_phase := ph\<rparr>]\<rparr>"

definition finish_control :: "nat \<Rightarrow> daemon \<Rightarrow> daemon" where
  "finish_control i d = set_control i Finished (d\<lparr>da_inflight := da_inflight d - 1\<rparr>)"

text \<open>What \<open>idle\<close> waits for.\<close>

definition daemon_idle :: "daemon \<Rightarrow> bool" where
  "daemon_idle d \<longleftrightarrow> da_inflight d = 0"

section \<open>A handler's steps\<close>

definition resolve_job :: "daemon_config \<Rightarrow> (custom_harness option \<Rightarrow> task_frame \<Rightarrow> rstr \<Rightarrow> rstr option) \<Rightarrow>
    job \<Rightarrow> reply_text + (provider \<times> bool)" where
  "resolve_job c run_env j =
     (case j of
        Task_job f \<Rightarrow>
          (case resolve_task c f of
             Inl e \<Rightarrow> Inl e
           | Inr (u, p) \<Rightarrow> Inr (p, accepts_stdin (run_env u f) p f))
      | Plain_job _ \<Rightarrow>
          if dc_default_provider c \<in> set (dc_providers c) then Inr (dc_default_provider c, False) else Inl No_agent)"

definition begin_job :: "daemon_config \<Rightarrow> (custom_harness option \<Rightarrow> task_frame \<Rightarrow> rstr \<Rightarrow> rstr option) \<Rightarrow>
    nat \<Rightarrow> daemon \<Rightarrow> daemon" where
  "begin_job c run_env i d =
     (let h = da_handlers d ! i
      in case resolve_job c run_env (ha_job h) of
           Inl e \<Rightarrow> say i h Error_frame e None (set_handler i (h\<lparr>ha_phase := Done\<rparr>) d)
         | Inr (p, acc) \<Rightarrow>
             (case claim c d of
                None \<Rightarrow> say i h Error_frame (At_capacity (dc_max_pending c)) (Some p)
                          (set_handler i (h\<lparr>ha_phase := Done\<rparr>) d)
              | Some d1 \<Rightarrow>
                  set_handler i (h\<lparr>ha_phase := Admitted p acc,
                    ha_guard := Some \<lparr>gu_key = None, gu_controller = None\<rparr>\<rparr>) d1))"

text \<open>A task claims its record; a message has none.\<close>

definition register_job :: "nat \<Rightarrow> provider \<Rightarrow> bool \<Rightarrow> admission_guard \<Rightarrow> daemon \<Rightarrow> daemon" where
  "register_job i p acc g d =
     (let h = da_handlers d ! i
      in case ha_job h of
           Plain_job _ \<Rightarrow> set_handler i (h\<lparr>ha_phase := Registered p\<rparr>) d
         | Task_job f \<Rightarrow>
             (let key = task_key (ha_from h) (tf_task_id f)
              in case register_running key
                   \<lparr>rt_provider = p, rt_accepts_stdin = acc, rt_correlation_id = tf_correlation_id f,
                    rt_stdin = None, rt_pending_input = [], rt_session_id = None, rt_abort = i\<rparr> d of
                   (True, d1) \<Rightarrow>
                     set_handler i (h\<lparr>ha_phase := Registered p, ha_guard := Some (g\<lparr>gu_key := Some key\<rparr>)\<rparr>) d1
                 | (False, d1) \<Rightarrow>
                     say i h Error_frame (Already_running (tf_task_id f)) (Some p)
                       (set_handler i (h\<lparr>ha_phase := Leaving\<rparr>) d1)))"

definition attach_controller :: "nat \<Rightarrow> provider \<Rightarrow> admission_guard \<Rightarrow> daemon \<Rightarrow> daemon" where
  "attach_controller i p g d =
     (let h = da_handlers d ! i
      in case register_controller i d of
           (n, d1) \<Rightarrow>
             set_handler i (h\<lparr>ha_phase := (case ha_job h of Task_job _ \<Rightarrow> Accepted p | Plain_job _ \<Rightarrow> Queued p),
               ha_guard := Some (g\<lparr>gu_controller := Some n\<rparr>)\<rparr>) d1)"

definition acknowledge :: "nat \<Rightarrow> provider \<Rightarrow> daemon \<Rightarrow> daemon" where
  "acknowledge i p d =
     (let h = da_handlers d ! i
      in say i h Ack_frame Task_accepted (Some p) (set_handler i (h\<lparr>ha_phase := Queued p\<rparr>) d))"

text \<open>Waiting for a slot: a permit, an abort (tasks only) or a tick.\<close>

definition acquire_slot :: "nat \<Rightarrow> provider \<Rightarrow> daemon \<Rightarrow> daemon" where
  "acquire_slot i p d =
     (let h = da_handlers d ! i
      in set_handler i (h\<lparr>ha_phase := Turn p, ha_permit := True\<rparr>) (d\<lparr>da_free_slots := da_free_slots d - 1\<rparr>))"

definition abandon_queue :: "nat \<Rightarrow> provider \<Rightarrow> daemon \<Rightarrow> daemon" where
  "abandon_queue i p d =
     (let h = da_handlers d ! i
      in say i h Error_frame Aborted_queued (Some p) (set_handler i (h\<lparr>ha_phase := Leaving\<rparr>) d))"

definition queue_tick :: "nat \<Rightarrow> provider \<Rightarrow> daemon \<Rightarrow> daemon" where
  "queue_tick i p d = say i (da_handlers d ! i) Status_frame Queued_status (Some p) d"

text \<open>What the executor calls while the turn runs.\<close>

definition on_session :: "nat \<Rightarrow> task_frame \<Rightarrow> rstr \<Rightarrow> daemon \<Rightarrow> daemon" where
  "on_session i f session_id d =
     record_task_session (task_key (ha_from (da_handlers d ! i)) (tf_task_id f)) session_id d"

definition on_stdin :: "nat \<Rightarrow> task_frame \<Rightarrow> nat \<Rightarrow> daemon \<Rightarrow> daemon" where
  "on_stdin i f tx d =
     (let key = task_key (ha_from (da_handlers d ! i)) (tf_task_id f)
      in case da_running d key of
           None \<Rightarrow> d
         | Some t \<Rightarrow>
             d\<lparr>da_stdin := (da_stdin d)(tx := da_stdin d tx @ rt_pending_input t),
               da_running := (da_running d)(key \<mapsto> t\<lparr>rt_pending_input := [], rt_stdin := Some tx\<rparr>)\<rparr>)"

definition forward_status :: "nat \<Rightarrow> provider \<Rightarrow> reply_text \<Rightarrow> daemon \<Rightarrow> daemon" where
  "forward_status i p txt d = say i (da_handlers d ! i) Status_frame txt (Some p) d"

definition settle :: "nat \<Rightarrow> provider \<Rightarrow> rstr + rstr \<Rightarrow> daemon \<Rightarrow> daemon" where
  "settle i p result d = set_handler i ((da_handlers d ! i)\<lparr>ha_phase := Settled p result\<rparr>) d"

definition answer :: "nat \<Rightarrow> provider \<Rightarrow> rstr + rstr \<Rightarrow> daemon \<Rightarrow> daemon" where
  "answer i p result d =
     (let h = da_handlers d ! i; d1 = set_handler i (h\<lparr>ha_phase := Leaving\<rparr>) d
      in case result of
           Inr txt \<Rightarrow> say i h Reply_frame (Answered txt) (Some p) d1
         | Inl e \<Rightarrow> say i h Error_frame (Failed_with e) (Some p) d1)"

text \<open>Leaving: the permit is dropped, then the guard.\<close>

definition leave_step :: "nat \<Rightarrow> daemon \<Rightarrow> daemon" where
  "leave_step i d =
     (let h = da_handlers d ! i
      in if ha_permit h
         then set_handler i (h\<lparr>ha_permit := False\<rparr>) (d\<lparr>da_free_slots := da_free_slots d + 1\<rparr>)
         else case ha_guard h of
             None \<Rightarrow> set_handler i (h\<lparr>ha_phase := Done\<rparr>) d
           | Some g \<Rightarrow>
               (case release_step g d of (g', d1) \<Rightarrow> set_handler i (h\<lparr>ha_guard := g'\<rparr>) d1))"

text \<open>A panic unwinds to the drops.\<close>

definition unwind :: "nat \<Rightarrow> daemon \<Rightarrow> daemon" where
  "unwind i d = set_handler i ((da_handlers d ! i)\<lparr>ha_phase := Leaving, ha_unwound := True\<rparr>) d"

section \<open>Input and abort\<close>

definition mismatch :: "rstr option \<Rightarrow> rstr option \<Rightarrow> bool" where
  "mismatch a b \<longleftrightarrow> (case (a, b) of (Some x, Some y) \<Rightarrow> x \<noteq> y | _ \<Rightarrow> False)"

text \<open>The two locked sections of an abort: the records of the daemon, then, when they stopped nothing, the
  workflow runs of the process, by the task id alone.\<close>

definition abort_own_task :: "rstr \<Rightarrow> task_frame \<Rightarrow> daemon \<Rightarrow> bool \<times> daemon" where
  "abort_own_task from_addr f d =
     (case da_running d (task_key from_addr (tf_task_id f)) of
        Some t \<Rightarrow>
          if mismatch (tf_correlation_id f) (rt_correlation_id t) then (False, d)
          else (True, abort_handler (rt_abort t) d)
      | None \<Rightarrow> (False, d))"

definition abort_run :: "bool \<Rightarrow> task_frame \<Rightarrow> daemon \<Rightarrow> bool \<times> daemon" where
  "abort_run stopped f d =
     (if stopped then (True, d)
      else (case run_cancel (tf_task_id f) (da_runs d) of (cancelled, w) \<Rightarrow> (cancelled, d\<lparr>da_runs := w\<rparr>)))"

definition acknowledge_abort :: "rstr \<Rightarrow> task_frame \<Rightarrow> bool \<times> daemon \<Rightarrow> daemon" where
  "acknowledge_abort from_addr f r =
     (case r of (stopped, d) \<Rightarrow>
        reply None from_addr Ack_frame f (if stopped then Task_aborted else Nothing_to_abort) None d)"

text \<open>An abort that nothing interrupts.\<close>

definition handle_abort :: "rstr \<Rightarrow> task_frame \<Rightarrow> daemon \<Rightarrow> daemon" where
  "handle_abort from_addr f d =
     (case abort_own_task from_addr f d of
        (stopped, d1) \<Rightarrow> acknowledge_abort from_addr f (abort_run stopped f d1))"

definition handle_input :: "daemon_config \<Rightarrow> rstr \<Rightarrow> task_frame \<Rightarrow> daemon \<Rightarrow> daemon" where
  "handle_input c from_addr f d =
     (let key = task_key from_addr (tf_task_id f);
          no_match = (Ack_frame, Input_unmatched, dc_default_provider c, d)
      in case (case da_running d key of
             Some t \<Rightarrow>
               if mismatch (tf_correlation_id f) (rt_correlation_id t) then no_match
               else if \<not> rt_accepts_stdin t then (Error_frame, Input_refused, rt_provider t, d)
               else (Ack_frame, Input_received, rt_provider t,
                 (case rt_stdin t of
                    Some tx \<Rightarrow> d\<lparr>da_stdin := (da_stdin d)(tx := da_stdin d tx @ [tf_text f])\<rparr>
                  | None \<Rightarrow> d\<lparr>da_running := (da_running d)(key \<mapsto>
                      t\<lparr>rt_pending_input := rt_pending_input t @ [tf_text f]\<rparr>)\<rparr>))
           | None \<Rightarrow> no_match) of
         (kind, txt, harness, d1) \<Rightarrow> reply None from_addr kind f txt (Some harness) d1)"

text \<open>Shutting down signals every registered controller.\<close>

definition shutdown :: "daemon \<Rightarrow> daemon" where
  "shutdown d = d\<lparr>da_handlers := map (\<lambda>(i, h).
     if i \<in> ran (da_controllers d) then h\<lparr>ha_aborted := True\<rparr> else h) (enumerate 0 (da_handlers d))\<rparr>"

section \<open>Frames that are no tasks\<close>

text \<open>The first section of \<open>handle_frame\<close> for them; responses are ignored.\<close>

definition begin_control :: "daemon_config \<Rightarrow> nat \<Rightarrow> daemon \<Rightarrow> daemon" where
  "begin_control c i d =
     (let q = da_controls d ! i
      in case cm_kind q of
           Input_frame \<Rightarrow> set_control i Replied (handle_input c (cm_from q) (cm_frame q) d)
         | Abort_frame \<Rightarrow>
             (case abort_own_task (cm_from q) (cm_frame q) d of (stopped, d1) \<Rightarrow> set_control i (Looked stopped) d1)
         | _ \<Rightarrow> set_control i Replied d)"

definition end_abort :: "nat \<Rightarrow> bool \<Rightarrow> daemon \<Rightarrow> daemon" where
  "end_abort i stopped d =
     (let q = da_controls d ! i
      in set_control i Replied (acknowledge_abort (cm_from q) (cm_frame q) (abort_run stopped (cm_frame q) d)))"

section \<open>Runs\<close>

text \<open>The steps of the handlers, of the executor, of the peers and of the workflow runs, in any order.\<close>

inductive daemon_step :: "daemon_config \<Rightarrow> daemon \<Rightarrow> daemon \<Rightarrow> bool" for c where
  dispatched: "daemon_step c d (handle_message_from is_screen_message from_addr txt frame d)"
| begun: "i < length (da_handlers d) \<Longrightarrow> ha_phase (da_handlers d ! i) = Fresh \<Longrightarrow>
    daemon_step c d (begin_job c run_env i d)"
| registered: "i < length (da_handlers d) \<Longrightarrow> ha_phase (da_handlers d ! i) = Admitted p acc \<Longrightarrow>
    ha_guard (da_handlers d ! i) = Some g \<Longrightarrow> daemon_step c d (register_job i p acc g d)"
| attached: "i < length (da_handlers d) \<Longrightarrow> ha_phase (da_handlers d ! i) = Registered p \<Longrightarrow>
    ha_guard (da_handlers d ! i) = Some g \<Longrightarrow> daemon_step c d (attach_controller i p g d)"
| acknowledged: "i < length (da_handlers d) \<Longrightarrow> ha_phase (da_handlers d ! i) = Accepted p \<Longrightarrow>
    daemon_step c d (acknowledge i p d)"
| acquired: "i < length (da_handlers d) \<Longrightarrow> ha_phase (da_handlers d ! i) = Queued p \<Longrightarrow>
    0 < da_free_slots d \<Longrightarrow> daemon_step c d (acquire_slot i p d)"
| abandoned: "i < length (da_handlers d) \<Longrightarrow> ha_phase (da_handlers d ! i) = Queued p \<Longrightarrow>
    ha_job (da_handlers d ! i) = Task_job f \<Longrightarrow> ha_aborted (da_handlers d ! i) \<Longrightarrow> daemon_step c d (abandon_queue i p d)"
| ticked: "i < length (da_handlers d) \<Longrightarrow> ha_phase (da_handlers d ! i) = Queued p \<Longrightarrow>
    ha_job (da_handlers d ! i) = Task_job f \<Longrightarrow> daemon_step c d (queue_tick i p d)"
| session_opened: "i < length (da_handlers d) \<Longrightarrow> ha_phase (da_handlers d ! i) = Turn p \<Longrightarrow>
    ha_job (da_handlers d ! i) = Task_job f \<Longrightarrow> daemon_step c d (on_session i f session_id d)"
| stdin_opened: "i < length (da_handlers d) \<Longrightarrow> ha_phase (da_handlers d ! i) = Turn p \<Longrightarrow>
    ha_job (da_handlers d ! i) = Task_job f \<Longrightarrow> daemon_step c d (on_stdin i f tx d)"
| forwarded: "i < length (da_handlers d) \<Longrightarrow> ha_phase (da_handlers d ! i) = Turn p \<Longrightarrow>
    ha_job (da_handlers d ! i) = Task_job f \<Longrightarrow> daemon_step c d (forward_status i p txt d)"
| settled: "i < length (da_handlers d) \<Longrightarrow> ha_phase (da_handlers d ! i) = Turn p \<Longrightarrow>
    daemon_step c d (settle i p result d)"
| answered: "i < length (da_handlers d) \<Longrightarrow> ha_phase (da_handlers d ! i) = Settled p result \<Longrightarrow>
    daemon_step c d (answer i p result d)"
| left: "i < length (da_handlers d) \<Longrightarrow> ha_phase (da_handlers d ! i) = Leaving \<Longrightarrow>
    daemon_step c d (leave_step i d)"
| unwound: "i < length (da_handlers d) \<Longrightarrow>
    ha_phase (da_handlers d ! i) \<notin> {Leaving, Done} \<Longrightarrow> daemon_step c d (unwind i d)"
| finished: "i < length (da_handlers d) \<Longrightarrow> ha_phase (da_handlers d ! i) = Done \<Longrightarrow>
    \<not> ha_unwound (da_handlers d ! i) \<Longrightarrow> ha_counted (da_handlers d ! i) \<Longrightarrow> daemon_step c d (finish_message i d)"
| control_begun: "i < length (da_controls d) \<Longrightarrow> cm_phase (da_controls d ! i) = Spawned \<Longrightarrow>
    daemon_step c d (begin_control c i d)"
| abort_ended: "i < length (da_controls d) \<Longrightarrow> cm_phase (da_controls d ! i) = Looked stopped \<Longrightarrow>
    daemon_step c d (end_abort i stopped d)"
| control_finished: "i < length (da_controls d) \<Longrightarrow> cm_phase (da_controls d ! i) = Replied \<Longrightarrow>
    daemon_step c d (finish_control i d)"
| control_unwound: "i < length (da_controls d) \<Longrightarrow> cm_phase (da_controls d ! i) \<notin> {Finished, Panicked} \<Longrightarrow>
    daemon_step c d (set_control i Panicked d)"
| run_claimed: "daemon_step c d (d\<lparr>da_runs := snd (run_claim run_id (da_runs d))\<rparr>)"
| run_dropped: "daemon_step c d (d\<lparr>da_runs := run_guard_drop guard (da_runs d)\<rparr>)"
| run_cancelled: "daemon_step c d (d\<lparr>da_runs := snd (run_cancel run_id (da_runs d))\<rparr>)"
| killed: "daemon_step c d (snd (terminate_task from_addr task_id correlation d))"
| stopped: "daemon_step c d (shutdown d)"

lemma dispatched_job:
  "daemon_step c d (d\<lparr>da_inflight := da_inflight d + 1, da_handlers := da_handlers d @ [handler_new a j]\<rparr>)"
  using daemon_step.dispatched [of c d "\<lambda>_. False" a _ "case j of Task_job f \<Rightarrow> Some (Task_frame, f) | Plain_job _ \<Rightarrow> None"]
  by (cases j) (auto simp: handle_message_from_def Let_def)

inductive daemon_run :: "daemon_config \<Rightarrow> daemon \<Rightarrow> bool" for c where
  started: "daemon_run c (daemon_new c)"
| stepped: "daemon_run c d \<Longrightarrow> daemon_step c d d' \<Longrightarrow> daemon_run c d'"

end
