(* ===== verification/DaemonFacts.thy ===== *)
theory DaemonFacts
  imports DaemonTasks
begin

text \<open>
  The invariant of the daemon's handlers: every count, record and controller is accounted for by the
  guard of exactly one handler, and the frames a handler sent fit its phase.
\<close>

section \<open>The invariant\<close>

definition owns :: "handler \<Rightarrow> rstr \<Rightarrow> bool" where
  "owns h k \<longleftrightarrow> (\<exists>g. ha_guard h = Some g \<and> gu_key g = Some k)"

definition holds_controller :: "handler \<Rightarrow> u64 \<Rightarrow> bool" where
  "holds_controller h n \<longleftrightarrow> (\<exists>g. ha_guard h = Some g \<and> gu_controller g = Some n)"

definition job_key :: "handler \<Rightarrow> rstr option" where
  "job_key h = (case ha_job h of Task_job f \<Rightarrow> Some (task_key (ha_from h) (tf_task_id f)) | Plain_job _ \<Rightarrow> None)"

definition job_correlation :: "handler \<Rightarrow> rstr option" where
  "job_correlation h = (case ha_job h of Task_job f \<Rightarrow> tf_correlation_id f | Plain_job _ \<Rightarrow> None)"

lemma job_update [simp]:
  "job_key (h\<lparr>ha_phase := ph\<rparr>) = job_key h" "job_key (h\<lparr>ha_guard := g\<rparr>) = job_key h"
  "job_key (h\<lparr>ha_permit := b\<rparr>) = job_key h" "job_key (h\<lparr>ha_aborted := b\<rparr>) = job_key h"
  "job_key (h\<lparr>ha_terminated := b\<rparr>) = job_key h" "job_key (h\<lparr>ha_unwound := b\<rparr>) = job_key h"
  "job_key (h\<lparr>ha_counted := b\<rparr>) = job_key h"
  "job_correlation (h\<lparr>ha_phase := ph\<rparr>) = job_correlation h" "job_correlation (h\<lparr>ha_guard := g\<rparr>) = job_correlation h"
  "job_correlation (h\<lparr>ha_permit := b\<rparr>) = job_correlation h"
  by (simp_all add: job_key_def job_correlation_def split: job.split)

definition handler_ok :: "handler \<Rightarrow> bool" where
  "handler_ok h \<longleftrightarrow> (\<forall>k. owns h k \<longrightarrow> job_key h = Some k) \<and>
     (case ha_phase h of
        Fresh \<Rightarrow> ha_guard h = None \<and> \<not> ha_permit h
      | Admitted p acc \<Rightarrow> ha_guard h = Some \<lparr>gu_key = None, gu_controller = None\<rparr> \<and> \<not> ha_permit h
      | Registered p \<Rightarrow> (\<exists>g. ha_guard h = Some g \<and> gu_key g = job_key h \<and> gu_controller g = None) \<and> \<not> ha_permit h
      | Accepted p \<Rightarrow> (\<exists>g. ha_guard h = Some g \<and> gu_key g = job_key h) \<and> \<not> ha_permit h \<and> job_key h \<noteq> None
      | Queued p \<Rightarrow> (\<exists>g. ha_guard h = Some g \<and> gu_key g = job_key h) \<and> \<not> ha_permit h
      | Turn p \<Rightarrow> (\<exists>g. ha_guard h = Some g \<and> gu_key g = job_key h) \<and> ha_permit h
      | Settled p r \<Rightarrow> (\<exists>g. ha_guard h = Some g \<and> gu_key g = job_key h) \<and> ha_permit h
      | Leaving \<Rightarrow> ha_permit h \<longrightarrow> ha_guard h \<noteq> None
      | Done \<Rightarrow> ha_guard h = None \<and> \<not> ha_permit h)"

definition counts_ok :: "daemon_config \<Rightarrow> daemon \<Rightarrow> bool" where
  "counts_ok c d \<longleftrightarrow>
     da_admitted d = length (filter (\<lambda>h. ha_guard h \<noteq> None) (da_handlers d)) \<and> da_admitted d \<le> dc_max_pending c \<and>
     da_free_slots d + length (filter ha_permit (da_handlers d)) = max (dc_concurrency c) 1"

definition records_ok :: "daemon \<Rightarrow> bool" where
  "records_ok d \<longleftrightarrow>
     (\<forall>k t. da_running d k = Some t \<longrightarrow> rt_abort t < length (da_handlers d) \<and> owns (da_handlers d ! rt_abort t) k) \<and>
     (\<forall>i < length (da_handlers d). \<forall>k. owns (da_handlers d ! i) k \<longrightarrow>
        (\<exists>t. da_running d k = Some t \<and> rt_abort t = i \<and> rt_correlation_id t = job_correlation (da_handlers d ! i)))"

definition controllers_ok :: "daemon \<Rightarrow> bool" where
  "controllers_ok d \<longleftrightarrow> (\<forall>n i. da_controllers d n = Some i \<longrightarrow>
     i < length (da_handlers d) \<and> holds_controller (da_handlers d ! i) n)"

definition daemon_ok :: "daemon_config \<Rightarrow> daemon \<Rightarrow> bool" where
  "daemon_ok c d \<longleftrightarrow> counts_ok c d \<and> records_ok d \<and> controllers_ok d \<and> (\<forall>h \<in> set (da_handlers d). handler_ok h)"

lemmas daemon_ok_defs = daemon_ok_def counts_ok_def records_ok_def controllers_ok_def

text \<open>Counting after an update.\<close>

lemma filter_update:
  assumes "i < length xs"
  shows "length (filter P (xs[i := y])) + (if P (xs ! i) then 1 else 0)
     = length (filter P xs) + (if P y then 1 else 0)"
proof -
  have "xs = take i xs @ xs ! i # drop (Suc i) xs" by (rule id_take_nth_drop [OF assms])
  then have "length (filter P xs) = length (filter P (take i xs @ xs ! i # drop (Suc i) xs))" by simp
  moreover have "xs[i := y] = take i xs @ y # drop (Suc i) xs" by (rule upd_conv_take_nth_drop [OF assms])
  ultimately show ?thesis by simp
qed

text \<open>Steps that leave the guards, permits and identities alone.\<close>

definition same_core :: "handler \<Rightarrow> handler \<Rightarrow> bool" where
  "same_core h h' \<longleftrightarrow> ha_guard h' = ha_guard h \<and> ha_permit h' = ha_permit h \<and> ha_from h' = ha_from h \<and> ha_job h' = ha_job h"

definition record_core :: "running_task \<Rightarrow> nat \<times> rstr option" where
  "record_core t = (rt_abort t, rt_correlation_id t)"

definition quiet :: "daemon \<Rightarrow> daemon \<Rightarrow> bool" where
  "quiet d d' \<longleftrightarrow> list_all2 same_core (da_handlers d) (da_handlers d') \<and>
     (\<forall>k. map_option record_core (da_running d' k) = map_option record_core (da_running d k)) \<and>
     da_controllers d' = da_controllers d \<and> da_admitted d' = da_admitted d \<and> da_free_slots d' = da_free_slots d"

lemma same_core_facts:
  assumes "same_core h h'"
  shows "owns h' = owns h" "holds_controller h' = holds_controller h" "job_key h' = job_key h"
    "job_correlation h' = job_correlation h"
  using assms by (simp_all add: same_core_def owns_def [abs_def] holds_controller_def [abs_def] job_key_def
      job_correlation_def split: job.split)

lemma same_core_refl: "same_core h h"
  by (simp add: same_core_def)

lemma filter_same_core:
  "list_all2 same_core hs hs' \<Longrightarrow>
   length (filter (\<lambda>h. ha_guard h \<noteq> None) hs') = length (filter (\<lambda>h. ha_guard h \<noteq> None) hs) \<and>
   length (filter ha_permit hs') = length (filter ha_permit hs)"
  by (induction rule: list_all2_induct) (auto simp: same_core_def)

lemma quiet_ok:
  assumes "daemon_ok c d" "quiet d d'" "\<forall>h \<in> set (da_handlers d'). handler_ok h"
  shows "daemon_ok c d'"
proof -
  have hs: "list_all2 same_core (da_handlers d) (da_handlers d')" using assms(2) by (simp add: quiet_def)
  then have len: "length (da_handlers d') = length (da_handlers d)" by (simp add: list_all2_lengthD)
  have core: "owns (da_handlers d' ! i) = owns (da_handlers d ! i)"
    "holds_controller (da_handlers d' ! i) = holds_controller (da_handlers d ! i)"
    "job_correlation (da_handlers d' ! i) = job_correlation (da_handlers d ! i)" if "i < length (da_handlers d)" for i
    using same_core_facts list_all2_nthD [OF hs that] by auto
  have run: "map_option record_core (da_running d' k) = map_option record_core (da_running d k)" for k
    using assms(2) by (simp add: quiet_def)
  have rec1: "\<exists>t'. da_running d k = Some t' \<and> rt_abort t' = rt_abort t" if "da_running d' k = Some t" for k t
    using run [of k] that by (cases "da_running d k") (auto simp: record_core_def)
  have rec2: "\<exists>t'. da_running d' k = Some t' \<and> rt_abort t' = rt_abort t \<and> rt_correlation_id t' = rt_correlation_id t"
    if "da_running d k = Some t" for k t
    using run [of k] that by (cases "da_running d' k") (auto simp: record_core_def)
  have r: "records_ok d" and k: "controllers_ok d" and n: "counts_ok c d"
    using assms(1) by (simp_all add: daemon_ok_def)
  have "records_ok d'"
    unfolding records_ok_def len
  proof (intro conjI allI impI)
    fix key t assume "da_running d' key = Some t"
    then obtain t' where t': "da_running d key = Some t'" "rt_abort t' = rt_abort t" using rec1 by blast
    then show "rt_abort t < length (da_handlers d)" using r unfolding records_ok_def by metis
    show "owns (da_handlers d' ! rt_abort t) key" using r t' core(1) unfolding records_ok_def by metis
  next
    fix i key assume i: "i < length (da_handlers d)" "owns (da_handlers d' ! i) key"
    then obtain t where "da_running d key = Some t" "rt_abort t = i" "rt_correlation_id t = job_correlation (da_handlers d ! i)"
      using r core(1) unfolding records_ok_def by metis
    then show "\<exists>t. da_running d' key = Some t \<and> rt_abort t = i \<and> rt_correlation_id t = job_correlation (da_handlers d' ! i)"
      using rec2 core(3) i(1) by metis
  qed
  moreover have "controllers_ok d'"
    using k assms(2) core(2) len by (auto simp: controllers_ok_def quiet_def)
  moreover have "counts_ok c d'"
    using n assms(2) filter_same_core [OF hs] by (simp add: counts_ok_def quiet_def)
  ultimately show ?thesis using assms(3) by (simp add: daemon_ok_def)
qed

lemma list_all2_update_core:
  "i < length hs \<Longrightarrow> same_core (hs ! i) h' \<Longrightarrow> list_all2 same_core hs (hs[i := h'])"
  by (auto simp: list_all2_conv_all_nth nth_list_update same_core_refl)

lemma quiet_set_handler:
  assumes "daemon_ok c d" "i < length (da_handlers d)" "same_core (da_handlers d ! i) h'" "handler_ok h'"
  shows "daemon_ok c (set_handler i h' d)"
proof (rule quiet_ok [OF assms(1)])
  show "quiet d (set_handler i h' d)" using assms(2,3) by (simp add: quiet_def list_all2_update_core)
  show "\<forall>h \<in> set (da_handlers (set_handler i h' d)). handler_ok h"
    using assms(1,4) set_update_subset_insert [of "da_handlers d" i h'] by (auto simp: daemon_ok_def)
qed

lemma outbox_ok: "daemon_ok c (d\<lparr>da_outbox := fs\<rparr>) = daemon_ok c d"
  by (simp add: daemon_ok_defs)

lemma say_outbox: "\<exists>fs. say i h kind txt harness d = d\<lparr>da_outbox := fs\<rparr>"
  by (cases "ha_job h") (auto simp: say_def reply_def send_raw_def)

lemma say_ok [simp]: "daemon_ok c (say i h kind txt harness d) = daemon_ok c d"
  by (metis say_outbox outbox_ok)

lemma reply_ok [simp]: "daemon_ok c (reply by to kind f txt harness d) = daemon_ok c d"
  by (simp add: reply_def outbox_ok)

lemma handler_ok_nth: "daemon_ok c d \<Longrightarrow> i < length (da_handlers d) \<Longrightarrow> handler_ok (da_handlers d ! i)"
  by (simp add: daemon_ok_def)

lemmas handler_ok_simps = handler_ok_def owns_def same_core_def

lemma handler_ok_signal [simp]:
  "handler_ok (h\<lparr>ha_aborted := b\<rparr>) = handler_ok h" "handler_ok (h\<lparr>ha_terminated := b\<rparr>) = handler_ok h"
  "handler_ok (h\<lparr>ha_terminated := b', ha_aborted := b\<rparr>) = handler_ok h"
  by (cases "ha_phase h"; simp add: handler_ok_simps)+

text \<open>Steps that change what one handler holds.\<close>

lemma holding_ok:
  assumes ok: "daemon_ok c d" "i < length (da_handlers d)"
    and hs: "da_handlers d' = (da_handlers d)[i := h']" "handler_ok h'"
    and adm: "da_admitted d' + (if ha_guard (da_handlers d ! i) \<noteq> None then 1 else 0)
      = da_admitted d + (if ha_guard h' \<noteq> None then 1 else 0)" "da_admitted d' \<le> dc_max_pending c"
    and free: "da_free_slots d' + (if ha_permit h' then 1 else 0)
      = da_free_slots d + (if ha_permit (da_handlers d ! i) then 1 else 0)"
    and r1: "\<forall>k t. da_running d' k = Some t \<longrightarrow>
      (if rt_abort t = i then owns h' k else da_running d k = Some t)"
    and r2: "\<forall>k. owns h' k \<longrightarrow> (\<exists>t. da_running d' k = Some t \<and> rt_abort t = i \<and> rt_correlation_id t = job_correlation h')"
    and r3: "\<forall>k j. j \<noteq> i \<and> j < length (da_handlers d) \<and> owns (da_handlers d ! j) k \<longrightarrow> da_running d' k = da_running d k"
    and c1: "\<forall>n j. da_controllers d' n = Some j \<longrightarrow>
      (if j = i then holds_controller h' n else da_controllers d n = Some j)"
  shows "daemon_ok c d'"
proof -
  have r: "records_ok d" and k: "controllers_ok d" and n: "counts_ok c d"
    using ok(1) by (simp_all add: daemon_ok_def)
  have "counts_ok c d'"
    using n adm free filter_update [OF ok(2), of "\<lambda>h. ha_guard h \<noteq> None" h'] filter_update [OF ok(2), of ha_permit h']
    unfolding counts_ok_def hs(1) by linarith
  moreover have "records_ok d'"
    unfolding records_ok_def hs(1) length_list_update
  proof (intro conjI allI impI)
    fix key t assume t: "da_running d' key = Some t"
    have "rt_abort t = i \<and> owns h' key \<or> rt_abort t \<noteq> i \<and> da_running d key = Some t"
      using r1 t by (metis (full_types))
    then show "rt_abort t < length (da_handlers d)" "owns ((da_handlers d)[i := h'] ! rt_abort t) key"
      using r ok(2) by (auto simp: records_ok_def)
  next
    fix j key assume j: "j < length (da_handlers d)" "owns ((da_handlers d)[i := h'] ! j) key"
    show "\<exists>t. da_running d' key = Some t \<and> rt_abort t = j \<and>
        rt_correlation_id t = job_correlation ((da_handlers d)[i := h'] ! j)"
    proof (cases "j = i")
      case True
      then show ?thesis using r2 j ok(2) by simp
    next
      case False
      then have o: "owns (da_handlers d ! j) key" using j by simp
      then have "da_running d' key = da_running d key" using r3 False j(1) by blast
      then show ?thesis using r o j(1) False by (auto simp: records_ok_def)
    qed
  qed
  moreover have "controllers_ok d'"
    unfolding controllers_ok_def hs(1) length_list_update
  proof (intro allI impI)
    fix m j assume "da_controllers d' m = Some j"
    then have "j = i \<and> holds_controller h' m \<or> j \<noteq> i \<and> da_controllers d m = Some j"
      using c1 by (metis (full_types))
    then show "j < length (da_handlers d) \<and> holds_controller ((da_handlers d)[i := h'] ! j) m"
      using k ok(2) by (auto simp: controllers_ok_def)
  qed
  moreover have "\<forall>h \<in> set (da_handlers d'). handler_ok h"
    using ok(1) hs set_update_subset_insert [of "da_handlers d" i h'] by (auto simp: daemon_ok_def)
  ultimately show ?thesis by (simp add: daemon_ok_def)
qed

lemma owned_record:
  assumes "daemon_ok c d" "i < length (da_handlers d)" "owns (da_handlers d ! i) k"
  obtains t where "da_running d k = Some t" "rt_abort t = i" "rt_correlation_id t = job_correlation (da_handlers d ! i)"
  using assms unfolding daemon_ok_def records_ok_def by blast

lemma owner_unique:
  assumes "daemon_ok c d" "i < length (da_handlers d)" "j < length (da_handlers d)"
    "owns (da_handlers d ! i) k" "owns (da_handlers d ! j) k"
  shows "i = j"
  using owned_record [OF assms(1,2,4)] owned_record [OF assms(1,3,5)] by (metis option.inject)

lemma record_owned:
  "daemon_ok c d \<Longrightarrow> da_running d k = Some t \<Longrightarrow>
   rt_abort t < length (da_handlers d) \<and> owns (da_handlers d ! rt_abort t) k"
  by (auto simp: daemon_ok_def records_ok_def)

lemma controller_held:
  "daemon_ok c d \<Longrightarrow> da_controllers d n = Some i \<Longrightarrow> i < length (da_handlers d) \<and> holds_controller (da_handlers d ! i) n"
  by (auto simp: daemon_ok_def controllers_ok_def)

lemma unowned_record:
  "daemon_ok c d \<Longrightarrow> da_running d k = Some t \<Longrightarrow> \<not> owns (da_handlers d ! i) k \<Longrightarrow> rt_abort t \<noteq> i"
  using record_owned by blast

lemma unheld_controller:
  "daemon_ok c d \<Longrightarrow> da_controllers d n = Some j \<Longrightarrow> \<not> holds_controller (da_handlers d ! i) n \<Longrightarrow> j \<noteq> i"
  using controller_held by blast

section \<open>Every step keeps it\<close>

lemma daemon_new_ok: "daemon_ok c (daemon_new c)"
  by (simp add: daemon_ok_defs daemon_new_def)

lemma dispatch_ok:
  assumes "daemon_ok c d"
  shows "daemon_ok c (d\<lparr>da_handlers := da_handlers d @ [handler_new a j]\<rparr>)"
proof -
  have "\<not> owns (handler_new a j) k" "\<not> holds_controller (handler_new a j) n" "handler_ok (handler_new a j)" for k n
    by (simp_all add: handler_new_def owns_def holds_controller_def handler_ok_def)
  moreover have "ha_guard (handler_new a j) = None" "\<not> ha_permit (handler_new a j)"
    by (simp_all add: handler_new_def)
  ultimately show ?thesis
    using assms unfolding daemon_ok_defs by (auto simp: nth_append less_Suc_eq)
qed

lemma begin_ok:
  assumes ok: "daemon_ok c d" "i < length (da_handlers d)" "ha_phase (da_handlers d ! i) = Fresh"
  shows "daemon_ok c (begin_job c run_env i d)"
proof -
  let ?h = "da_handlers d ! i"
  have h: "handler_ok ?h" "ha_guard ?h = None" "\<not> ha_permit ?h"
    using handler_ok_nth [OF ok(1,2)] ok(3) by (simp_all add: handler_ok_def)
  have none: "\<not> owns ?h k" "\<not> holds_controller ?h n" for k n
    using h(2) by (simp_all add: owns_def holds_controller_def)
  have "daemon_ok c (set_handler i (?h\<lparr>ha_phase := Done\<rparr>) d)"
    using quiet_set_handler [OF ok(1,2)] h by (simp add: handler_ok_simps)
  moreover have "daemon_ok c (set_handler i (?h\<lparr>ha_phase := Admitted p acc,
      ha_guard := Some \<lparr>gu_key = None, gu_controller = None\<rparr>\<rparr>) d1)" if "claim c d = Some d1" for p acc d1
  proof (rule holding_ok [OF ok(1,2)])
    have d1: "d1 = d\<lparr>da_admitted := da_admitted d + 1\<rparr>" "da_admitted d < dc_max_pending c"
      using that by (auto simp: claim_def split: if_splits)
    let ?h' = "?h\<lparr>ha_phase := Admitted p acc, ha_guard := Some \<lparr>gu_key = None, gu_controller = None\<rparr>\<rparr>"
    show "da_handlers (set_handler i ?h' d1) = (da_handlers d)[i := ?h']" by (simp add: d1)
    show "handler_ok ?h'" using h by (simp add: handler_ok_simps)
    show "\<forall>k t. da_running (set_handler i ?h' d1) k = Some t \<longrightarrow>
        (if rt_abort t = i then owns ?h' k else da_running d k = Some t)"
      using unowned_record [OF ok(1)] none by (auto simp: d1)
    show "\<forall>n j. da_controllers (set_handler i ?h' d1) n = Some j \<longrightarrow>
        (if j = i then holds_controller ?h' n else da_controllers d n = Some j)"
      using unheld_controller [OF ok(1)] none by (auto simp: d1)
  qed (use that h in \<open>auto simp: claim_def owns_def split: if_splits\<close>)
  ultimately show ?thesis by (auto simp: begin_job_def Let_def split: sum.split option.split prod.split)
qed

lemma register_ok:
  assumes ok: "daemon_ok c d" "i < length (da_handlers d)" "ha_phase (da_handlers d ! i) = Admitted p acc"
    and g: "ha_guard (da_handlers d ! i) = Some g"
  shows "daemon_ok c (register_job i p acc g d)"
proof -
  let ?h = "da_handlers d ! i"
  have h: "handler_ok ?h" "g = \<lparr>gu_key = None, gu_controller = None\<rparr>" "\<not> ha_permit ?h"
    using handler_ok_nth [OF ok(1,2)] ok(3) g by (simp_all add: handler_ok_def)
  have none: "\<not> owns ?h k" "\<not> holds_controller ?h n" for k n
    using g h(2) by (simp_all add: owns_def holds_controller_def)
  show ?thesis
  proof (cases "ha_job ?h")
    case (Plain_job x)
    have "daemon_ok c (set_handler i (?h\<lparr>ha_phase := Registered p\<rparr>) d)"
      by (rule quiet_set_handler [OF ok(1,2)]) (use h g Plain_job in \<open>simp_all add: handler_ok_simps job_key_def\<close>)
    then show ?thesis by (simp add: register_job_def Plain_job)
  next
    case (Task_job f)
    let ?k = "task_key (ha_from ?h) (tf_task_id f)"
    let ?t = "\<lparr>rt_provider = p, rt_accepts_stdin = acc, rt_correlation_id = tf_correlation_id f,
      rt_stdin = None, rt_pending_input = [], rt_session_id = None, rt_abort = i\<rparr>"
    show ?thesis
    proof (cases "da_running d ?k")
      case (Some t)
      have "daemon_ok c (set_handler i (?h\<lparr>ha_phase := Leaving\<rparr>) d)"
        by (rule quiet_set_handler [OF ok(1,2)]) (use h g in \<open>simp_all add: handler_ok_simps\<close>)
      then show ?thesis by (simp add: register_job_def Task_job Let_def register_running_def Some)
    next
      case None
      let ?h' = "?h\<lparr>ha_phase := Registered p, ha_guard := Some (g\<lparr>gu_key := Some ?k\<rparr>)\<rparr>"
      let ?d1 = "d\<lparr>da_running := (da_running d)(?k \<mapsto> ?t)\<rparr>"
      have owns': "owns ?h' k \<longleftrightarrow> k = ?k" for k by (auto simp: owns_def)
      have free: "\<not> owns (da_handlers d ! j) ?k" if "j < length (da_handlers d)" for j
        using owned_record [OF ok(1) that, of ?k] None by auto
      have "daemon_ok c (set_handler i ?h' ?d1)"
      proof (rule holding_ok [OF ok(1,2)])
        show "handler_ok ?h'" using h owns' by (simp add: handler_ok_def job_key_def Task_job)
        show "\<forall>k t. da_running (set_handler i ?h' ?d1) k = Some t \<longrightarrow>
            (if rt_abort t = i then owns ?h' k else da_running d k = Some t)"
          using unowned_record [OF ok(1)] none(1) owns' by auto
        show "\<forall>k j. j \<noteq> i \<and> j < length (da_handlers d) \<and> owns (da_handlers d ! j) k \<longrightarrow>
            da_running (set_handler i ?h' ?d1) k = da_running d k"
          using free by auto
        show "\<forall>n j. da_controllers (set_handler i ?h' ?d1) n = Some j \<longrightarrow>
            (if j = i then holds_controller ?h' n else da_controllers d n = Some j)"
          using unheld_controller [OF ok(1)] none by auto
        show "\<forall>k. owns ?h' k \<longrightarrow> (\<exists>t. da_running (set_handler i ?h' ?d1) k = Some t \<and> rt_abort t = i \<and>
            rt_correlation_id t = job_correlation ?h')"
          using owns' by (simp add: job_correlation_def Task_job)
      qed (use g h ok(1) in \<open>simp_all add: daemon_ok_def counts_ok_def\<close>)
      then show ?thesis by (simp add: register_job_def Task_job Let_def register_running_def None)
    qed
  qed
qed

lemma attach_ok:
  assumes ok: "daemon_ok c d" "i < length (da_handlers d)" "ha_phase (da_handlers d ! i) = Registered p"
    and g: "ha_guard (da_handlers d ! i) = Some g"
  shows "daemon_ok c (attach_controller i p g d)"
proof -
  let ?h = "da_handlers d ! i" and ?n = "da_next_controller_id d"
  have h: "handler_ok ?h" "gu_key g = job_key ?h" "gu_controller g = None" "\<not> ha_permit ?h"
    using handler_ok_nth [OF ok(1,2)] ok(3) g by (auto simp: handler_ok_def)
  let ?h' = "?h\<lparr>ha_phase := (case ha_job ?h of Task_job _ \<Rightarrow> Accepted p | Plain_job _ \<Rightarrow> Queued p),
    ha_guard := Some (g\<lparr>gu_controller := Some ?n\<rparr>)\<rparr>"
  let ?d1 = "d\<lparr>da_next_controller_id := ?n + 1, da_controllers := (da_controllers d)(?n \<mapsto> i)\<rparr>"
  have none: "\<not> holds_controller ?h n" for n using g h(3) by (simp add: holds_controller_def)
  have same: "owns ?h' = owns ?h" "job_key ?h' = job_key ?h" "job_correlation ?h' = job_correlation ?h"
    using g by (simp_all add: owns_def [abs_def] job_key_def job_correlation_def split: job.split)
  have own: "\<exists>t. da_running d k = Some t \<and> rt_abort t = i \<and> rt_correlation_id t = job_correlation ?h" if "owns ?h k" for k
    using owned_record [OF ok(1,2) that] by metis
  have "daemon_ok c (set_handler i ?h' ?d1)"
  proof (rule holding_ok [OF ok(1,2)])
    show "handler_ok ?h'"
      using h same by (cases "ha_job ?h") (simp_all add: handler_ok_def job_key_def)
    show "\<forall>k t. da_running (set_handler i ?h' ?d1) k = Some t \<longrightarrow>
        (if rt_abort t = i then owns ?h' k else da_running d k = Some t)"
      using record_owned [OF ok(1)] same by auto
    show "\<forall>k. owns ?h' k \<longrightarrow> (\<exists>t. da_running (set_handler i ?h' ?d1) k = Some t \<and> rt_abort t = i \<and>
        rt_correlation_id t = job_correlation ?h')"
      using own unfolding same by simp
    show "\<forall>n j. da_controllers (set_handler i ?h' ?d1) n = Some j \<longrightarrow>
        (if j = i then holds_controller ?h' n else da_controllers d n = Some j)"
      using unheld_controller [OF ok(1)] none by (auto simp: holds_controller_def)
  qed (use g h ok(1) in \<open>simp_all add: daemon_ok_def counts_ok_def\<close>)
  then show ?thesis by (simp add: attach_controller_def register_controller_def Let_def)
qed

lemma acquire_ok:
  assumes ok: "daemon_ok c d" "i < length (da_handlers d)" "ha_phase (da_handlers d ! i) = Queued p" "0 < da_free_slots d"
  shows "daemon_ok c (acquire_slot i p d)"
proof -
  let ?h = "da_handlers d ! i"
  let ?h' = "?h\<lparr>ha_phase := Turn p, ha_permit := True\<rparr>"
  have h: "handler_ok ?h" "\<not> ha_permit ?h" "ha_guard ?h \<noteq> None"
    using handler_ok_nth [OF ok(1,2)] ok(3) by (auto simp: handler_ok_def)
  have same: "owns ?h' = owns ?h" "holds_controller ?h' = holds_controller ?h" "job_key ?h' = job_key ?h"
    "job_correlation ?h' = job_correlation ?h"
    by (simp_all add: owns_def [abs_def] holds_controller_def [abs_def] job_key_def job_correlation_def split: job.split)
  have own: "\<exists>t. da_running d k = Some t \<and> rt_abort t = i \<and> rt_correlation_id t = job_correlation ?h" if "owns ?h k" for k
    using owned_record [OF ok(1,2) that] by metis
  have "daemon_ok c (set_handler i ?h' (d\<lparr>da_free_slots := da_free_slots d - 1\<rparr>))"
  proof (rule holding_ok [OF ok(1,2)])
    show "handler_ok ?h'" using h ok(3) same by (simp add: handler_ok_def)
  qed (use h ok same own record_owned [OF ok(1)] controller_held [OF ok(1)] in \<open>auto simp: daemon_ok_def counts_ok_def\<close>)
  then show ?thesis by (simp add: acquire_slot_def Let_def)
qed

text \<open>Phase changes that keep everything held.\<close>

lemma phase_ok:
  assumes "daemon_ok c d" "i < length (da_handlers d)" "handler_ok ((da_handlers d ! i)\<lparr>ha_phase := ph\<rparr>)"
  shows "daemon_ok c (set_handler i ((da_handlers d ! i)\<lparr>ha_phase := ph\<rparr>) d)"
  by (rule quiet_set_handler [OF assms(1,2)]) (use assms(3) in \<open>simp_all add: same_core_def\<close>)

lemma leaving_handler_ok:
  "handler_ok h \<Longrightarrow> handler_ok (h\<lparr>ha_phase := Leaving\<rparr>)"
  by (cases "ha_phase h") (auto simp: handler_ok_simps)

lemma unwind_ok:
  assumes "daemon_ok c d" "i < length (da_handlers d)" "ha_phase (da_handlers d ! i) \<notin> {Leaving, Done}"
  shows "daemon_ok c (unwind i d)"
  unfolding unwind_def
  by (rule quiet_set_handler [OF assms(1,2)])
    (use leaving_handler_ok [OF handler_ok_nth [OF assms(1,2)]] assms(3) in \<open>auto simp: handler_ok_simps\<close>)

lemma answer_ok:
  assumes "daemon_ok c d" "i < length (da_handlers d)" "ha_phase (da_handlers d ! i) = Settled p result"
  shows "daemon_ok c (answer i p result d)"
  using phase_ok [OF assms(1,2), of Leaving] leaving_handler_ok [OF handler_ok_nth [OF assms(1,2)]] assms(3)
  by (auto simp: answer_def Let_def split: sum.split)

lemma abandon_ok:
  assumes "daemon_ok c d" "i < length (da_handlers d)" "ha_phase (da_handlers d ! i) = Queued p"
  shows "daemon_ok c (abandon_queue i p d)"
  using phase_ok [OF assms(1,2), of Leaving] leaving_handler_ok [OF handler_ok_nth [OF assms(1,2)]] assms(3)
  by (auto simp: abandon_queue_def Let_def)

lemma acknowledge_ok:
  assumes "daemon_ok c d" "i < length (da_handlers d)" "ha_phase (da_handlers d ! i) = Accepted p"
  shows "daemon_ok c (acknowledge i p d)"
proof -
  have "handler_ok ((da_handlers d ! i)\<lparr>ha_phase := Queued p\<rparr>)"
    using handler_ok_nth [OF assms(1,2)] assms(3) by (auto simp: handler_ok_simps)
  then show ?thesis using phase_ok [OF assms(1,2)] by (simp add: acknowledge_def Let_def)
qed

lemma settle_ok:
  assumes "daemon_ok c d" "i < length (da_handlers d)" "ha_phase (da_handlers d ! i) = Turn p"
  shows "daemon_ok c (settle i p result d)"
proof -
  have "handler_ok ((da_handlers d ! i)\<lparr>ha_phase := Settled p result\<rparr>)"
    using handler_ok_nth [OF assms(1,2)] assms(3) by (auto simp: handler_ok_simps)
  then show ?thesis using phase_ok [OF assms(1,2)] by (simp add: settle_def)
qed

lemma same_handlers_quiet:
  assumes "daemon_ok c d" "da_handlers d' = da_handlers d" "da_controllers d' = da_controllers d"
    "da_admitted d' = da_admitted d" "da_free_slots d' = da_free_slots d"
    "\<forall>k. map_option record_core (da_running d' k) = map_option record_core (da_running d k)"
  shows "daemon_ok c d'"
  by (rule quiet_ok [OF assms(1)])
    (use assms in \<open>simp_all add: quiet_def daemon_ok_def list_all2_conv_all_nth same_core_refl\<close>)

lemma on_session_ok: "daemon_ok c d \<Longrightarrow> daemon_ok c (on_session i f session_id d)"
  by (erule same_handlers_quiet)
    (auto simp: on_session_def record_task_session_def record_core_def split: option.split)

lemma on_stdin_ok: "daemon_ok c d \<Longrightarrow> daemon_ok c (on_stdin i f tx d)"
  by (erule same_handlers_quiet) (auto simp: on_stdin_def Let_def record_core_def split: option.split)

lemma input_ok: "daemon_ok c d \<Longrightarrow> daemon_ok c (handle_input c' from_addr f d)"
  by (erule same_handlers_quiet)
    (auto simp: handle_input_def Let_def record_core_def reply_def split: option.split prod.split if_splits)

lemma signal_ok:
  assumes "daemon_ok c d"
  shows "daemon_ok c (abort_handler i d)" "daemon_ok c (terminate_handler i d)"
proof -
  have "daemon_ok c (set_handler i h' d)" if "handler_ok (da_handlers d ! i) \<Longrightarrow> handler_ok h'"
    "same_core (da_handlers d ! i) h'" for h'
    using quiet_set_handler [OF assms, of i h'] handler_ok_nth [OF assms, of i] that assms
    by (cases "i < length (da_handlers d)") (simp_all add: list_update_beyond)
  then show "daemon_ok c (abort_handler i d)" "daemon_ok c (terminate_handler i d)"
    by (simp_all add: abort_handler_def terminate_handler_def same_core_def)
qed

lemma abort_own_task_ok: "daemon_ok c d \<Longrightarrow> daemon_ok c (snd (abort_own_task from_addr f d))"
  using signal_ok by (auto simp: abort_own_task_def split: option.split)

lemma runs_ok [simp]: "daemon_ok c (d\<lparr>da_runs := w\<rparr>) = daemon_ok c d"
  by (simp add: daemon_ok_defs)

lemma set_control_ok [simp]: "daemon_ok c (set_control i ph d) = daemon_ok c d"
  by (simp add: daemon_ok_defs set_control_def)

lemma inflight_ok [simp]: "daemon_ok c (d\<lparr>da_inflight := n\<rparr>) = daemon_ok c d"
  by (simp add: daemon_ok_defs)

lemma controls_ok [simp]: "daemon_ok c (d\<lparr>da_controls := qs\<rparr>) = daemon_ok c d"
  by (simp add: daemon_ok_defs)

lemma end_abort_ok: "daemon_ok c d \<Longrightarrow> daemon_ok c (end_abort i stopped d)"
  by (simp add: end_abort_def acknowledge_abort_def abort_run_def Let_def split: prod.split)

lemma begin_control_ok: "daemon_ok c d \<Longrightarrow> daemon_ok c (begin_control c' i d)"
  using abort_own_task_ok [of c d "cm_from (da_controls d ! i)" "cm_frame (da_controls d ! i)"]
  by (auto simp: begin_control_def input_ok Let_def split: prod.split frame_kind.split)

lemma message_ok: "daemon_ok c d \<Longrightarrow> daemon_ok c (handle_message_from is_screen_message a txt frame d)"
  using dispatch_ok [of c "d\<lparr>da_inflight := da_inflight d + 1\<rparr>" a]
  by (simp add: handle_message_from_def Let_def split: option.split prod.split)

lemma finish_ok:
  assumes "daemon_ok c d" "i < length (da_handlers d)"
  shows "daemon_ok c (finish_message i d)"
proof -
  have "handler_ok ((da_handlers d ! i)\<lparr>ha_counted := False\<rparr>)"
    using handler_ok_nth [OF assms] by (cases "ha_phase (da_handlers d ! i)") (auto simp: handler_ok_simps)
  then have "daemon_ok c (set_handler i ((da_handlers d ! i)\<lparr>ha_counted := False\<rparr>) d)"
    by (intro quiet_set_handler [OF assms]) (simp_all add: same_core_def)
  then show ?thesis unfolding finish_message_def by (simp add: daemon_ok_defs)
qed

lemma kill_ok: "daemon_ok c d \<Longrightarrow> daemon_ok c (snd (terminate_task from_addr task_id correlation d))"
  using signal_ok by (auto simp: terminate_task_def split: option.split)

lemma shutdown_ok:
  assumes "daemon_ok c d"
  shows "daemon_ok c (shutdown d)"
proof (rule quiet_ok [OF assms])
  show "quiet d (shutdown d)"
    by (auto simp: quiet_def shutdown_def list_all2_conv_all_nth nth_enumerate_eq same_core_def)
  show "\<forall>h \<in> set (da_handlers (shutdown d)). handler_ok h"
    using assms by (auto simp: shutdown_def daemon_ok_def in_set_enumerate_eq split: if_splits)
qed

lemma leave_ok:
  assumes ok: "daemon_ok c d" "i < length (da_handlers d)" "ha_phase (da_handlers d ! i) = Leaving"
  shows "daemon_ok c (leave_step i d)"
proof -
  let ?h = "da_handlers d ! i"
  have h: "handler_ok ?h" by (rule handler_ok_nth [OF ok(1,2)])
  have own: "\<exists>t. da_running d k = Some t \<and> rt_abort t = i \<and> rt_correlation_id t = job_correlation ?h" if "owns ?h k" for k
    using owned_record [OF ok(1,2) that] by metis
  have adm: "ha_guard ?h \<noteq> None \<Longrightarrow> 0 < da_admitted d"
    using ok(1,2) nth_mem [OF ok(2)] by (auto simp: daemon_ok_def counts_ok_def filter_empty_conv)
  have max: "da_admitted d \<le> dc_max_pending c" using ok(1) by (simp add: daemon_ok_def counts_ok_def)
  show ?thesis
  proof (cases "ha_permit ?h")
    case True
    let ?h' = "?h\<lparr>ha_permit := False\<rparr>"
    have same: "owns ?h' = owns ?h" "holds_controller ?h' = holds_controller ?h" "job_key ?h' = job_key ?h"
      "job_correlation ?h' = job_correlation ?h"
      by (simp_all add: owns_def [abs_def] holds_controller_def [abs_def] job_key_def job_correlation_def split: job.split)
    have "daemon_ok c (set_handler i ?h' (d\<lparr>da_free_slots := da_free_slots d + 1\<rparr>))"
    proof (rule holding_ok [OF ok(1,2)])
      show "handler_ok ?h'" using h ok(3) same by (simp add: handler_ok_def)
    qed (use True same own max record_owned [OF ok(1)] controller_held [OF ok(1)] in auto)
    then show ?thesis using True by (simp add: leave_step_def Let_def)
  next
    case False
    show ?thesis
    proof (cases "ha_guard ?h")
      case None
      have "handler_ok (?h\<lparr>ha_phase := Done\<rparr>)" using h None False by (simp add: handler_ok_simps)
      then show ?thesis using phase_ok [OF ok(1,2)] False None by (simp add: leave_step_def Let_def)
    next
      case (Some g)
      obtain g' d1 where g': "release_step g d = (g', d1)" by fastforce
      let ?h' = "?h\<lparr>ha_guard := g'\<rparr>"
      have "daemon_ok c (set_handler i ?h' d1)"
      proof (rule holding_ok [OF ok(1,2)])
        show "da_handlers (set_handler i ?h' d1) = (da_handlers d)[i := ?h']"
          using g' by (auto simp: release_step_def split: option.splits)
        show "handler_ok ?h'" using h g' Some ok(3) False
          by (auto simp: handler_ok_simps release_step_def split: option.splits)
        show "\<forall>k t. da_running (set_handler i ?h' d1) k = Some t \<longrightarrow>
            (if rt_abort t = i then owns ?h' k else da_running d k = Some t)"
          using g' Some record_owned [OF ok(1)] by (fastforce simp: release_step_def owns_def split: option.splits if_splits)
        show "\<forall>k. owns ?h' k \<longrightarrow> (\<exists>t. da_running (set_handler i ?h' d1) k = Some t \<and> rt_abort t = i \<and>
            rt_correlation_id t = job_correlation ?h')"
          using g' Some own by (auto simp: release_step_def owns_def job_correlation_def split: option.splits)
        show "\<forall>k j. j \<noteq> i \<and> j < length (da_handlers d) \<and> owns (da_handlers d ! j) k \<longrightarrow>
            da_running (set_handler i ?h' d1) k = da_running d k"
        proof (intro allI impI)
          fix k j assume j: "j \<noteq> i \<and> j < length (da_handlers d) \<and> owns (da_handlers d ! j) k"
          then have "\<not> owns ?h k" using owner_unique [OF ok(1,2)] by metis
          then show "da_running (set_handler i ?h' d1) k = da_running d k"
            using g' Some by (auto simp: release_step_def owns_def split: option.splits)
        qed
        show "\<forall>n j. da_controllers (set_handler i ?h' d1) n = Some j \<longrightarrow>
            (if j = i then holds_controller ?h' n else da_controllers d n = Some j)"
          using g' Some controller_held [OF ok(1)]
          by (fastforce simp: release_step_def holds_controller_def split: option.splits if_splits)
      qed (use g' Some False max adm in \<open>auto simp: release_step_def split: option.splits\<close>)
      then show ?thesis using g' Some False by (simp add: leave_step_def Let_def)
    qed
  qed
qed

lemma daemon_step_ok: "daemon_step c d d' \<Longrightarrow> daemon_ok c d \<Longrightarrow> daemon_ok c d'"
  by (induction rule: daemon_step.induct)
    (simp_all add: message_ok finish_ok begin_control_ok end_abort_ok finish_control_def begin_ok register_ok attach_ok acknowledge_ok acquire_ok abandon_ok
      queue_tick_def on_session_ok on_stdin_ok forward_status_def settle_ok answer_ok leave_ok unwind_ok kill_ok shutdown_ok)

lemma daemon_run_ok: "daemon_run c d \<Longrightarrow> daemon_ok c d"
  by (induction rule: daemon_run.induct) (auto intro: daemon_new_ok daemon_step_ok)

section \<open>Messages in flight\<close>

text \<open>Every message is counted until its asynchronous task ends; the one of a handler or a frame that panicked
  never does.\<close>

definition unfinished :: "control \<Rightarrow> bool" where
  "unfinished q \<longleftrightarrow> cm_phase q \<noteq> Finished"

definition flight_ok :: "daemon \<Rightarrow> bool" where
  "flight_ok d \<longleftrightarrow>
     da_inflight d = length (filter ha_counted (da_handlers d)) + length (filter unfinished (da_controls d)) \<and>
     (\<forall>h \<in> set (da_handlers d). \<not> ha_counted h \<longrightarrow> ha_phase h = Done \<and> \<not> ha_unwound h)"

definition panicked :: "daemon \<Rightarrow> bool" where
  "panicked d \<longleftrightarrow> (\<exists>h \<in> set (da_handlers d). ha_unwound h) \<or> (\<exists>q \<in> set (da_controls d). cm_phase q = Panicked)"

text \<open>What a step may do to the handlers and the other frames without touching the count.\<close>

definition same_flight :: "handler \<Rightarrow> handler \<Rightarrow> bool" where
  "same_flight h h' \<longleftrightarrow> ha_counted h' = ha_counted h \<and> (ha_unwound h \<longrightarrow> ha_unwound h') \<and>
     (\<not> ha_counted h \<longrightarrow> ha_phase h' = ha_phase h \<and> ha_unwound h' = ha_unwound h)"

definition same_control :: "control \<Rightarrow> control \<Rightarrow> bool" where
  "same_control q q' \<longleftrightarrow> unfinished q' = unfinished q \<and> (cm_phase q = Panicked \<longrightarrow> cm_phase q' = Panicked)"

definition flight_kept :: "daemon \<Rightarrow> daemon \<Rightarrow> bool" where
  "flight_kept d d' \<longleftrightarrow> da_inflight d' = da_inflight d \<and> list_all2 same_flight (da_handlers d) (da_handlers d') \<and>
     list_all2 same_control (da_controls d) (da_controls d')"

lemma same_flight_refl: "list_all2 same_flight hs hs" "list_all2 same_control qs qs"
  by (simp_all add: list_all2_conv_all_nth same_flight_def same_control_def)

lemma same_flight_update:
  "same_flight (hs ! i) h' \<Longrightarrow> list_all2 same_flight hs (hs[i := h'])"
  "same_control (qs ! i) q' \<Longrightarrow> list_all2 same_control qs (qs[i := q'])"
  by (cases "i < length hs", auto simp: list_all2_conv_all_nth nth_list_update list_update_beyond same_flight_def)
    (cases "i < length qs", auto simp: list_all2_conv_all_nth nth_list_update list_update_beyond same_control_def)

lemma filter_list_all2:
  "list_all2 (\<lambda>x y. P y = P x) xs ys \<Longrightarrow> length (filter P ys) = length (filter P xs)"
  by (induction rule: list_all2_induct) auto

lemma flight_kept_ok:
  assumes "flight_ok d" "flight_kept d d'"
  shows "flight_ok d'" "panicked d \<Longrightarrow> panicked d'"
proof -
  have hs: "list_all2 same_flight (da_handlers d) (da_handlers d')" and qs: "list_all2 same_control (da_controls d) (da_controls d')"
    using assms(2) by (simp_all add: flight_kept_def)
  have "length (filter ha_counted (da_handlers d')) = length (filter ha_counted (da_handlers d))"
    by (rule filter_list_all2) (rule list_all2_mono [OF hs], simp add: same_flight_def)
  moreover have "length (filter unfinished (da_controls d')) = length (filter unfinished (da_controls d))"
    by (rule filter_list_all2) (rule list_all2_mono [OF qs], simp add: same_control_def)
  moreover have "ha_phase h = Done \<and> \<not> ha_unwound h" if h: "h \<in> set (da_handlers d')" "\<not> ha_counted h" for h
  proof -
    obtain i where i: "i < length (da_handlers d')" "h = da_handlers d' ! i" using h(1) by (auto simp: in_set_conv_nth)
    then have "same_flight (da_handlers d ! i) h" "i < length (da_handlers d)"
      using hs by (auto simp: list_all2_conv_all_nth)
    then show ?thesis using assms(1) h(2) by (auto simp: flight_ok_def same_flight_def)
  qed
  ultimately show "flight_ok d'" using assms by (simp add: flight_ok_def flight_kept_def)
  assume "panicked d"
  then consider h where "h \<in> set (da_handlers d)" "ha_unwound h" | q where "q \<in> set (da_controls d)" "cm_phase q = Panicked"
    by (auto simp: panicked_def)
  then show "panicked d'"
  proof cases
    case 1
    then obtain i where i: "i < length (da_handlers d)" "ha_unwound (da_handlers d ! i)" by (auto simp: in_set_conv_nth)
    then have "i < length (da_handlers d')" "ha_unwound (da_handlers d' ! i)"
      using hs by (auto simp: list_all2_conv_all_nth same_flight_def)
    then show ?thesis unfolding panicked_def using nth_mem by blast
  next
    case 2
    then obtain i where i: "i < length (da_controls d)" "cm_phase (da_controls d ! i) = Panicked"
      by (auto simp: in_set_conv_nth)
    then have "i < length (da_controls d')" "cm_phase (da_controls d' ! i) = Panicked"
      using qs by (auto simp: list_all2_conv_all_nth same_control_def)
    then show ?thesis unfolding panicked_def using nth_mem by blast
  qed
qed

lemma busy_counted:
  "flight_ok d \<Longrightarrow> i < length (da_handlers d) \<Longrightarrow> ha_phase (da_handlers d ! i) \<noteq> Done \<Longrightarrow> ha_counted (da_handlers d ! i)"
  by (auto simp: flight_ok_def)

text \<open>A step of one busy handler keeps the count.\<close>

lemma busy_flight:
  assumes "flight_ok d" "i < length (da_handlers d)" "ha_phase (da_handlers d ! i) \<noteq> Done"
    and "da_handlers d' = (da_handlers d)[i := h']" "ha_counted h'" "ha_unwound (da_handlers d ! i) \<longrightarrow> ha_unwound h'"
    and "da_inflight d' = da_inflight d" "da_controls d' = da_controls d"
  shows "flight_kept d d'"
  using busy_counted [OF assms(1-3)] assms(4-)
  by (simp add: flight_kept_def same_flight_refl same_flight_update same_flight_def)

lemma still_flight:
  "da_handlers d' = da_handlers d \<Longrightarrow> da_inflight d' = da_inflight d \<Longrightarrow> da_controls d' = da_controls d \<Longrightarrow> flight_kept d d'"
  by (simp add: flight_kept_def same_flight_refl)

lemma flight_kept_trans: "flight_kept d d1 \<Longrightarrow> flight_kept d1 d2 \<Longrightarrow> flight_kept d d2"
  unfolding flight_kept_def same_flight_def same_control_def by (auto simp: list_all2_conv_all_nth)

lemma signal_flight: "flight_kept d (abort_handler i d)" "flight_kept d (terminate_handler i d)"
  by (simp_all add: abort_handler_def terminate_handler_def flight_kept_def same_flight_refl same_flight_update same_flight_def)

lemma say_flight [simp]: "flight_kept d (say i h kind words harness d') = flight_kept d d'"
  using say_outbox [of i h kind words harness d'] by (auto simp: flight_kept_def)

lemma reply_flight [simp]: "flight_kept d (reply by to kind f words harness d') = flight_kept d d'"
  by (simp add: flight_kept_def reply_def)

lemma control_flight:
  assumes "flight_kept d d'" "cm_phase (da_controls d' ! i) \<notin> {Finished, Panicked}" "ph \<noteq> Finished"
  shows "flight_kept d (set_control i ph d')"
proof -
  have "flight_kept d' (set_control i ph d')"
    using assms(2,3) by (simp add: set_control_def flight_kept_def same_flight_refl same_flight_update same_control_def unfinished_def)
  then show ?thesis using assms(1) flight_kept_trans by blast
qed

lemma input_flight: "flight_kept d (handle_input c from_addr f d)"
  by (auto simp: handle_input_def Let_def intro!: still_flight split: option.split)

lemma input_controls: "da_controls (handle_input c from_addr f d) = da_controls d"
  by (simp add: handle_input_def Let_def reply_def split: option.split)

lemma abort_own_task_flight:
  "flight_kept d (snd (abort_own_task from_addr f d))" "da_controls (snd (abort_own_task from_addr f d)) = da_controls d"
  using signal_flight
  by (auto simp: abort_own_task_def abort_handler_def intro: still_flight split: option.split)

lemma begin_control_flight:
  assumes "cm_phase (da_controls d ! i) = Spawned"
  shows "flight_kept d (begin_control c i d)"
proof -
  have "flight_kept d d" by (rule still_flight) simp_all
  then show ?thesis
    using assms abort_own_task_flight [where d = d and from_addr = "cm_from (da_controls d ! i)" and f = "cm_frame (da_controls d ! i)"]
    by (auto simp: begin_control_def Let_def input_flight input_controls intro!: control_flight
        split: frame_kind.split prod.split)
qed

lemma end_abort_flight:
  assumes "cm_phase (da_controls d ! i) = Looked stopped"
  shows "flight_kept d (end_abort i stopped d)"
  unfolding end_abort_def Let_def
proof (rule control_flight)
  show "flight_kept d (acknowledge_abort (cm_from (da_controls d ! i)) (cm_frame (da_controls d ! i))
      (abort_run stopped (cm_frame (da_controls d ! i)) d))"
    by (auto simp: acknowledge_abort_def abort_run_def intro!: still_flight split: prod.split)
  show "cm_phase (da_controls (acknowledge_abort (cm_from (da_controls d ! i)) (cm_frame (da_controls d ! i))
      (abort_run stopped (cm_frame (da_controls d ! i)) d)) ! i) \<notin> {Finished, Panicked}"
    using assms by (auto simp: acknowledge_abort_def abort_run_def reply_def split: prod.split)
qed simp

lemma message_flight:
  "flight_ok d \<Longrightarrow> flight_ok (handle_message_from is_screen_message a txt frame d) \<and>
     (panicked d \<longrightarrow> panicked (handle_message_from is_screen_message a txt frame d))"
  by (auto simp: handle_message_from_def flight_ok_def panicked_def handler_new_def unfinished_def Let_def
      split: option.split)

lemma finish_flight:
  assumes "flight_ok d" "i < length (da_handlers d)" "ha_phase (da_handlers d ! i) = Done"
    "\<not> ha_unwound (da_handlers d ! i)" "ha_counted (da_handlers d ! i)"
  shows "flight_ok (finish_message i d) \<and> (panicked d \<longrightarrow> panicked (finish_message i d))"
proof -
  let ?h = "da_handlers d ! i"
  let ?hs = "(da_handlers d)[i := ?h\<lparr>ha_counted := False\<rparr>]"
  have "length (filter ha_counted ?hs) + 1 = length (filter ha_counted (da_handlers d))"
    using filter_update [OF assms(2), of ha_counted "?h\<lparr>ha_counted := False\<rparr>"] assms(5) by simp
  moreover have "\<forall>h \<in> set ?hs. \<not> ha_counted h \<longrightarrow> ha_phase h = Done \<and> \<not> ha_unwound h"
    using assms set_update_subset_insert [of "da_handlers d" i "?h\<lparr>ha_counted := False\<rparr>"] by (auto simp: flight_ok_def)
  moreover have "panicked (finish_message i d)" if p: "panicked d"
  proof -
    have "\<exists>h \<in> set ?hs. ha_unwound h" if h: "h \<in> set (da_handlers d)" "ha_unwound h" for h
    proof -
      obtain j where j: "j < length (da_handlers d)" "h = da_handlers d ! j" using h(1) by (auto simp: in_set_conv_nth)
      then have "j \<noteq> i" using assms(4) h(2) by auto
      then show ?thesis using j h(2) nth_mem [of j ?hs] by auto
    qed
    then show ?thesis using p by (auto simp: panicked_def finish_message_def)
  qed
  ultimately show ?thesis using assms(1) by (auto simp: flight_ok_def finish_message_def)
qed

lemma finish_control_flight:
  assumes "flight_ok d" "i < length (da_controls d)" "cm_phase (da_controls d ! i) = Replied"
  shows "flight_ok (finish_control i d) \<and> (panicked d \<longrightarrow> panicked (finish_control i d))"
proof -
  let ?q = "da_controls d ! i"
  let ?qs = "(da_controls d)[i := ?q\<lparr>cm_phase := Finished\<rparr>]"
  have "length (filter unfinished ?qs) + 1 = length (filter unfinished (da_controls d))"
    using filter_update [OF assms(2), of unfinished "?q\<lparr>cm_phase := Finished\<rparr>"] assms(3) by (simp add: unfinished_def)
  moreover have "\<exists>q \<in> set ?qs. cm_phase q = Panicked" if q: "q \<in> set (da_controls d)" "cm_phase q = Panicked" for q
  proof -
    obtain j where j: "j < length (da_controls d)" "q = da_controls d ! j" using q(1) by (auto simp: in_set_conv_nth)
    then have "j \<noteq> i" using assms(3) q(2) by auto
    then show ?thesis using j q(2) nth_mem [of j ?qs] by auto
  qed
  ultimately show ?thesis
    using assms(1) by (auto simp: flight_ok_def panicked_def finish_control_def set_control_def)
qed

lemma shutdown_flight: "flight_kept d (shutdown d)"
  by (auto simp: flight_kept_def shutdown_def same_flight_refl(2) list_all2_conv_all_nth nth_enumerate_eq same_flight_def
      same_control_def)

text \<open>The steps of handlers.\<close>

lemma handler_flight:
  assumes "flight_ok d" "i < length (da_handlers d)"
  shows "ha_phase (da_handlers d ! i) = Fresh \<Longrightarrow> flight_kept d (begin_job c run_env i d)"
    "ha_phase (da_handlers d ! i) = Admitted p acc \<Longrightarrow> flight_kept d (register_job i p acc g d)"
    "ha_phase (da_handlers d ! i) = Registered p \<Longrightarrow> flight_kept d (attach_controller i p g d)"
    "ha_phase (da_handlers d ! i) = Accepted p \<Longrightarrow> flight_kept d (acknowledge i p d)"
    "ha_phase (da_handlers d ! i) = Queued p \<Longrightarrow> flight_kept d (acquire_slot i p d)"
    "ha_phase (da_handlers d ! i) = Queued p \<Longrightarrow> flight_kept d (abandon_queue i p d)"
    "ha_phase (da_handlers d ! i) = Turn p \<Longrightarrow> flight_kept d (settle i p result d)"
    "ha_phase (da_handlers d ! i) = Settled p result \<Longrightarrow> flight_kept d (answer i p result d)"
    "ha_phase (da_handlers d ! i) = Leaving \<Longrightarrow> flight_kept d (leave_step i d)"
    "ha_phase (da_handlers d ! i) \<notin> {Leaving, Done} \<Longrightarrow> flight_kept d (unwind i d)"
proof -
  let ?h = "da_handlers d ! i"
  have one: "flight_kept d d'"
    if "ha_phase ?h \<noteq> Done" "da_handlers d' = (da_handlers d)[i := h']" "da_inflight d' = da_inflight d"
      "da_controls d' = da_controls d" "ha_counted h' = ha_counted ?h" "ha_unwound ?h \<longrightarrow> ha_unwound h'" for h' d'
    by (rule busy_flight [OF assms, where h' = h']) (use that busy_counted [OF assms] in simp_all)
  have claimed: "da_handlers d1 = da_handlers d \<and> da_inflight d1 = da_inflight d \<and> da_controls d1 = da_controls d"
    if "claim c d = Some d1" for d1 using that by (auto simp: claim_def split: if_splits)
  show "ha_phase ?h = Fresh \<Longrightarrow> flight_kept d (begin_job c run_env i d)"
    by (auto simp: begin_job_def Let_def dest: claimed intro!: one split: sum.split option.split)
  show "ha_phase ?h = Admitted p acc \<Longrightarrow> flight_kept d (register_job i p acc g d)"
    by (auto simp: register_job_def register_running_def Let_def intro!: one split: job.split option.split)
  show "ha_phase ?h = Registered p \<Longrightarrow> flight_kept d (attach_controller i p g d)"
    by (auto simp: attach_controller_def register_controller_def Let_def intro!: one)
  show "ha_phase ?h = Accepted p \<Longrightarrow> flight_kept d (acknowledge i p d)"
    by (auto simp: acknowledge_def Let_def intro!: one)
  show "ha_phase ?h = Queued p \<Longrightarrow> flight_kept d (acquire_slot i p d)"
    by (auto simp: acquire_slot_def Let_def intro!: one)
  show "ha_phase ?h = Queued p \<Longrightarrow> flight_kept d (abandon_queue i p d)"
    by (auto simp: abandon_queue_def Let_def intro!: one)
  show "ha_phase ?h = Turn p \<Longrightarrow> flight_kept d (settle i p result d)"
    by (auto simp: settle_def intro!: one)
  show "ha_phase ?h = Settled p result \<Longrightarrow> flight_kept d (answer i p result d)"
    by (auto simp: answer_def Let_def intro!: one split: sum.split)
  show "ha_phase ?h = Leaving \<Longrightarrow> flight_kept d (leave_step i d)"
    by (auto simp: leave_step_def release_step_def Let_def intro!: one split: option.split)
  show "ha_phase ?h \<notin> {Leaving, Done} \<Longrightarrow> flight_kept d (unwind i d)"
    by (auto simp: unwind_def intro!: one)
qed

lemma turn_flight:
  "flight_kept d (queue_tick i p d)" "flight_kept d (on_session i f session_id d)" "flight_kept d (on_stdin i f tx d)"
  "flight_kept d (forward_status i p words d)" "flight_kept d (snd (terminate_task from_addr task_id correlation d))"
  "flight_kept d (d\<lparr>da_runs := w\<rparr>)"
proof -
  have refl: "flight_kept d d" by (rule still_flight) simp_all
  show "flight_kept d (queue_tick i p d)" "flight_kept d (forward_status i p words d)"
    using refl by (simp_all add: queue_tick_def forward_status_def)
  show "flight_kept d (on_session i f session_id d)" "flight_kept d (on_stdin i f tx d)" "flight_kept d (d\<lparr>da_runs := w\<rparr>)"
    by (rule still_flight; simp add: on_session_def record_task_session_def on_stdin_def Let_def split: option.split)+
  show "flight_kept d (snd (terminate_task from_addr task_id correlation d))"
    using refl signal_flight(2) by (simp add: terminate_task_def split: option.split)
qed

lemma daemon_step_flight:
  "daemon_step c d d' \<Longrightarrow> flight_ok d \<Longrightarrow> flight_ok d' \<and> (panicked d \<longrightarrow> panicked d')"
proof -
  assume step: "daemon_step c d d'" and ok: "flight_ok d"
  have kept: "flight_ok x" "panicked d \<Longrightarrow> panicked x" if "flight_kept d x" for x
    using flight_kept_ok [OF ok that] by simp_all
  note frames = control_flight [OF still_flight]
  from step show ?thesis
    by (cases rule: daemon_step.cases)
      (simp_all add: kept ok message_flight finish_flight finish_control_flight handler_flight turn_flight
        begin_control_flight end_abort_flight shutdown_flight frames)
qed

lemma daemon_run_flight: "daemon_run c d \<Longrightarrow> flight_ok d"
proof (induction rule: daemon_run.induct)
  case started
  show ?case by (simp add: flight_ok_def daemon_new_def)
next
  case (stepped d d')
  then show ?case using daemon_step_flight by blast
qed

lemma daemon_steps_flight: "(daemon_step c)\<^sup>*\<^sup>* d d' \<Longrightarrow> flight_ok d \<Longrightarrow> flight_ok d' \<and> (panicked d \<longrightarrow> panicked d')"
  by (induction rule: rtranclp_induct) (use daemon_step_flight in blast)+

text \<open>What panicked stays in flight.\<close>

lemma panicked_in_flight:
  assumes "flight_ok d" "panicked d"
  shows "0 < da_inflight d"
proof -
  have "filter ha_counted (da_handlers d) \<noteq> [] \<or> filter unfinished (da_controls d) \<noteq> []"
    using assms by (auto simp: flight_ok_def panicked_def unfinished_def filter_empty_conv)
  then show ?thesis using assms(1) by (auto simp: flight_ok_def)
qed

end
