(* ===== verification/DaemonFrames.thy ===== *)
theory DaemonFrames
  imports DaemonFacts
begin

text \<open>What a handler sends: the history of its frames fits its phase.\<close>

definition frames_of :: "nat \<Rightarrow> daemon \<Rightarrow> out_frame list" where
  "frames_of i d = filter (\<lambda>f. of_by f = Some i) (da_outbox d)"

definition addressed :: "handler \<Rightarrow> out_frame \<Rightarrow> bool" where
  "addressed h f \<longleftrightarrow> of_to f = ha_from h \<and>
     (case ha_job h of
        Task_job t \<Rightarrow> of_task_id f = tf_task_id t \<and> of_correlation_id f = tf_correlation_id t \<and> of_kind f \<noteq> None
      | Plain_job _ \<Rightarrow> of_kind f = None)"

text \<open>The kinds of the frames of a task: an acknowledgement and statuses, then one final frame.\<close>

definition open_kinds :: "frame_kind option list \<Rightarrow> bool" where
  "open_kinds ks \<longleftrightarrow> (\<exists>n. ks = Some Ack_frame # replicate n (Some Status_frame))"

definition closed_kinds :: "frame_kind option list \<Rightarrow> bool" where
  "closed_kinds ks \<longleftrightarrow> ks = [Some Error_frame] \<or>
     (\<exists>ks' k. open_kinds ks' \<and> k \<in> {Reply_frame, Error_frame} \<and> ks = ks' @ [Some k])"

definition task_history :: "handler \<Rightarrow> frame_kind option list \<Rightarrow> bool" where
  "task_history h ks \<longleftrightarrow>
     (case ha_phase h of
        Fresh \<Rightarrow> ks = [] | Admitted p acc \<Rightarrow> ks = [] | Registered p \<Rightarrow> ks = [] | Accepted p \<Rightarrow> ks = []
      | Queued p \<Rightarrow> open_kinds ks | Turn p \<Rightarrow> open_kinds ks | Settled p r \<Rightarrow> open_kinds ks
      | Leaving \<Rightarrow> if ha_unwound h then ks = [] \<or> open_kinds ks else closed_kinds ks
      | Done \<Rightarrow> if ha_unwound h then ks = [] \<or> open_kinds ks else closed_kinds ks)"

definition plain_history :: "handler \<Rightarrow> frame_kind option list \<Rightarrow> bool" where
  "plain_history h ks \<longleftrightarrow>
     ks = (if ha_phase h \<in> {Leaving, Done} \<and> \<not> ha_unwound h then [None] else [])"

definition history_ok :: "handler \<Rightarrow> out_frame list \<Rightarrow> bool" where
  "history_ok h fs \<longleftrightarrow> (\<forall>f \<in> set fs. addressed h f) \<and>
     (case ha_job h of
        Task_job _ \<Rightarrow> task_history h (map of_kind fs)
      | Plain_job _ \<Rightarrow> plain_history h (map of_kind fs)) \<and>
     (ha_unwound h \<longrightarrow> ha_phase h \<in> {Leaving, Done})"

definition histories_ok :: "daemon \<Rightarrow> bool" where
  "histories_ok d \<longleftrightarrow> (\<forall>i < length (da_handlers d). history_ok (da_handlers d ! i) (frames_of i d)) \<and>
     (\<forall>f \<in> set (da_outbox d). \<forall>i. of_by f = Some i \<longrightarrow> i < length (da_handlers d))"

lemma open_kinds_Ack [simp]: "open_kinds [Some Ack_frame]"
  unfolding open_kinds_def by (rule exI [of _ 0]) simp

lemma open_kinds_status: "open_kinds ks \<Longrightarrow> open_kinds (ks @ [Some Status_frame])"
  unfolding open_kinds_def by (auto simp: replicate_append_same intro: exI [of _ "Suc n" for n])

lemma closed_kinds_answer: "open_kinds ks \<Longrightarrow> k = Reply_frame \<or> k = Error_frame \<Longrightarrow> closed_kinds (ks @ [Some k])"
  unfolding closed_kinds_def by auto

lemma closed_kinds_error [simp]: "closed_kinds [Some Error_frame]"
  by (simp add: closed_kinds_def)

text \<open>What \<open>say\<close> adds.\<close>

definition spoken :: "nat \<Rightarrow> handler \<Rightarrow> frame_kind \<Rightarrow> reply_text \<Rightarrow> provider option \<Rightarrow> out_frame" where
  "spoken i h kind words harness =
     (case ha_job h of
        Task_job f \<Rightarrow> \<lparr>of_by = Some i, of_to = ha_from h, of_kind = Some kind, of_task_id = tf_task_id f,
          of_text = words, of_correlation_id = tf_correlation_id f, of_harness = harness\<rparr>
      | Plain_job _ \<Rightarrow> \<lparr>of_by = Some i, of_to = ha_from h, of_kind = None, of_task_id = [],
          of_text = words, of_correlation_id = None, of_harness = None\<rparr>)"

lemma say_spoken: "say i h kind words harness d = d\<lparr>da_outbox := da_outbox d @ [spoken i h kind words harness]\<rparr>"
  by (cases "ha_job h") (simp_all add: say_def spoken_def reply_def send_raw_def)

lemma spoken_facts:
  "of_by (spoken i h kind words harness) = Some i" "addressed h (spoken i h kind words harness)"
  "of_kind (spoken i h kind words harness) = (case ha_job h of Task_job _ \<Rightarrow> Some kind | Plain_job _ \<Rightarrow> None)"
  by (cases "ha_job h"; simp add: spoken_def addressed_def)+

text \<open>One handler's step.\<close>

lemma history_step:
  assumes "histories_ok d" "i < length (da_handlers d)" "da_handlers d' = (da_handlers d)[i := h']"
    and "da_outbox d' = da_outbox d @ fs" "\<forall>f \<in> set fs. of_by f = Some i" "history_ok h' (frames_of i d @ fs)"
  shows "histories_ok d'"
proof -
  have "frames_of j d' = frames_of j d" if "j \<noteq> i" for j
    using assms(4,5) that by (auto simp: frames_of_def filter_empty_conv)
  moreover have "frames_of i d' = frames_of i d @ fs"
    using assms(4,5) by (simp add: frames_of_def)
  ultimately have "history_ok (da_handlers d' ! j) (frames_of j d')" if "j < length (da_handlers d)" for j
    using assms(1-3,6) that by (cases "j = i") (auto simp: histories_ok_def)
  then show ?thesis using assms(1-5) by (auto simp: histories_ok_def)
qed

lemma history_silent:
  assumes "histories_ok d" "da_outbox d' = da_outbox d" "i < length (da_handlers d)"
    "da_handlers d' = (da_handlers d)[i := h']" "history_ok h' (frames_of i d)"
  shows "histories_ok d'"
  using history_step [of d i d' h' "[]"] assms by simp

lemma history_say:
  assumes "histories_ok d" "i < length (da_handlers d)" "da_outbox d' = da_outbox d"
    "da_handlers d' = (da_handlers d)[i := h']" "ha_from h' = ha_from h" "ha_job h' = ha_job h"
    "history_ok h' (frames_of i d @ [spoken i h kind words harness])"
  shows "histories_ok (say i h kind words harness d')"
  by (rule history_step [of d i _ h' "[spoken i h kind words harness]"])
    (use assms spoken_facts(1) in \<open>simp_all add: say_spoken\<close>)

text \<open>Steps that leave every handler's address, job, phase and frames alone.\<close>

definition same_talk :: "handler \<Rightarrow> handler \<Rightarrow> bool" where
  "same_talk h h' \<longleftrightarrow> ha_from h' = ha_from h \<and> ha_job h' = ha_job h \<and> ha_phase h' = ha_phase h \<and> ha_unwound h' = ha_unwound h"

lemma same_talk_history: "same_talk h h' \<Longrightarrow> history_ok h' fs = history_ok h fs"
  by (cases "ha_job h") (simp_all add: same_talk_def history_ok_def addressed_def task_history_def plain_history_def)

lemma histories_quiet:
  assumes "histories_ok d" "list_all2 same_talk (da_handlers d) (da_handlers d')"
    "da_outbox d' = da_outbox d @ fs" "\<forall>f \<in> set fs. of_by f = None"
  shows "histories_ok d'"
proof -
  have "frames_of i d' = frames_of i d" for i
    using assms(3,4) by (auto simp: frames_of_def filter_empty_conv)
  moreover have "length (da_handlers d') = length (da_handlers d)"
    using assms(2) by (simp add: list_all2_lengthD)
  moreover have "same_talk (da_handlers d ! i) (da_handlers d' ! i)" if "i < length (da_handlers d)" for i
    using list_all2_nthD [OF assms(2) that] .
  ultimately have "history_ok (da_handlers d' ! i) (frames_of i d')" if "i < length (da_handlers d)" for i
    using assms(1) same_talk_history that unfolding histories_ok_def by metis
  then show ?thesis
    using assms(1,3,4) list_all2_lengthD [OF assms(2)] by (auto simp: histories_ok_def)
qed

lemma same_talk_refl: "list_all2 same_talk hs hs"
  by (simp add: list_all2_conv_all_nth same_talk_def)

lemma same_talk_update:
  "same_talk (hs ! i) h' \<Longrightarrow> list_all2 same_talk hs (hs[i := h'])"
  by (cases "i < length hs") (auto simp: list_all2_conv_all_nth nth_list_update list_update_beyond same_talk_def)

lemma history_nth: "histories_ok d \<Longrightarrow> i < length (da_handlers d) \<Longrightarrow> history_ok (da_handlers d ! i) (frames_of i d)"
  by (simp add: histories_ok_def)

lemmas history_simps = history_ok_def addressed_def task_history_def plain_history_def spoken_facts(3)

section \<open>Every step keeps the histories\<close>

lemma begin_history:
  assumes h: "histories_ok d" "i < length (da_handlers d)" "ha_phase (da_handlers d ! i) = Fresh"
  shows "histories_ok (begin_job c run_env i d)"
proof -
  let ?h = "da_handlers d ! i"
  have none: "frames_of i d = []" "\<not> ha_unwound ?h"
    using history_nth [OF h(1,2)] h(3) by (auto simp: history_simps split: job.splits)
  have "histories_ok (say i ?h Error_frame words harness (set_handler i (?h\<lparr>ha_phase := Done\<rparr>) d))" for words harness
    by (rule history_say [OF h(1,2), of _ "?h\<lparr>ha_phase := Done\<rparr>"]) (use none spoken_facts(2) in \<open>simp_all add: history_simps split: job.split\<close>)
  moreover have "histories_ok (set_handler i (?h\<lparr>ha_phase := Admitted p acc, ha_guard := g\<rparr>) d1)"
    if "claim c d = Some d1" for p acc g d1
    by (rule history_silent [OF h(1) _ h(2)])
      (use that none in \<open>auto simp: claim_def history_simps split: if_splits job.split\<close>)
  ultimately show ?thesis by (auto simp: begin_job_def Let_def split: sum.split option.split prod.split)
qed

lemma register_history:
  assumes h: "histories_ok d" "i < length (da_handlers d)" "ha_phase (da_handlers d ! i) = Admitted p acc"
  shows "histories_ok (register_job i p acc g d)"
proof -
  let ?h = "da_handlers d ! i"
  have none: "frames_of i d = []" "\<not> ha_unwound ?h"
    using history_nth [OF h(1,2)] h(3) by (auto simp: history_simps split: job.splits)
  have say: "histories_ok (say i ?h Error_frame words harness (set_handler i (?h\<lparr>ha_phase := Leaving\<rparr>) d))" for words harness
    by (rule history_say [OF h(1,2), of _ "?h\<lparr>ha_phase := Leaving\<rparr>"]) (use none spoken_facts(2) in \<open>simp_all add: history_simps split: job.split\<close>)
  have quiet: "histories_ok (set_handler i h' d1)"
    if "da_outbox d1 = da_outbox d" "da_handlers d1 = da_handlers d" "h' = ?h\<lparr>ha_phase := Registered p, ha_guard := g'\<rparr>"
    for h' g' d1
    by (rule history_silent [OF h(1) _ h(2)])
      (use that none in \<open>auto simp: history_simps split: job.split\<close>)
  show ?thesis
  proof (cases "ha_job ?h")
    case (Plain_job x)
    then show ?thesis using quiet [of d _ "ha_guard ?h"] by (simp add: register_job_def)
  next
    case (Task_job f)
    then show ?thesis
      using say quiet by (auto simp: register_job_def register_running_def Let_def split: option.split)
  qed
qed

lemma attach_history:
  assumes h: "histories_ok d" "i < length (da_handlers d)" "ha_phase (da_handlers d ! i) = Registered p"
  shows "histories_ok (attach_controller i p g d)"
  unfolding attach_controller_def Let_def register_controller_def prod.case
  by (rule history_silent [OF h(1) _ h(2)])
    (use history_nth [OF h(1,2)] h(3) in \<open>auto simp: history_simps split: job.splits\<close>)

lemma acknowledge_history:
  assumes h: "histories_ok d" "i < length (da_handlers d)" "ha_phase (da_handlers d ! i) = Accepted p"
    "ha_job (da_handlers d ! i) = Task_job f"
  shows "histories_ok (acknowledge i p d)"
  unfolding acknowledge_def Let_def
  by (rule history_say [OF h(1,2), of _ "(da_handlers d ! i)\<lparr>ha_phase := Queued p\<rparr>"])
    (use history_nth [OF h(1,2)] h(3,4) spoken_facts(2) [of "da_handlers d ! i" i] in \<open>auto simp: history_simps\<close>)

lemma abandon_history:
  assumes h: "histories_ok d" "i < length (da_handlers d)" "ha_phase (da_handlers d ! i) = Queued p"
    "ha_job (da_handlers d ! i) = Task_job f"
  shows "histories_ok (abandon_queue i p d)"
  unfolding abandon_queue_def Let_def
  by (rule history_say [OF h(1,2), of _ "(da_handlers d ! i)\<lparr>ha_phase := Leaving\<rparr>"])
    (use history_nth [OF h(1,2)] h(3,4) spoken_facts(2) [of "da_handlers d ! i" i] in
      \<open>auto simp: history_simps closed_kinds_answer\<close>)

lemma status_history:
  assumes h: "histories_ok d" "i < length (da_handlers d)"
    "ha_phase (da_handlers d ! i) = Queued p \<or> ha_phase (da_handlers d ! i) = Turn p"
    "ha_job (da_handlers d ! i) = Task_job f"
  shows "histories_ok (say i (da_handlers d ! i) Status_frame words harness d)"
  by (rule history_say [OF h(1,2), of _ "da_handlers d ! i"])
    (use history_nth [OF h(1,2)] h(3,4) spoken_facts(2) [of "da_handlers d ! i" i] in
      \<open>auto simp: history_simps open_kinds_status\<close>)

lemma silent_phase_history:
  assumes h: "histories_ok d" "i < length (da_handlers d)" "da_outbox d' = da_outbox d"
    "da_handlers d' = (da_handlers d)[i := (da_handlers d ! i)\<lparr>ha_phase := ph, ha_permit := b\<rparr>]"
    and "(ha_phase (da_handlers d ! i) = Queued p \<and> ph = Turn p) \<or> (ha_phase (da_handlers d ! i) = Turn p \<and> ph = Settled p r)"
  shows "histories_ok d'"
  by (rule history_silent [OF h(1,3,2,4)])
    (use history_nth [OF h(1,2)] assms(5) in \<open>auto simp: history_simps split: job.splits\<close>)

lemma answer_history:
  assumes h: "histories_ok d" "i < length (da_handlers d)" "ha_phase (da_handlers d ! i) = Settled p result"
  shows "histories_ok (answer i p result d)"
proof -
  have "histories_ok (say i (da_handlers d ! i) kind words harness
      (set_handler i ((da_handlers d ! i)\<lparr>ha_phase := Leaving\<rparr>) d))"
    if "kind = Reply_frame \<or> kind = Error_frame" for kind words harness
    by (rule history_say [OF h(1,2), of _ "(da_handlers d ! i)\<lparr>ha_phase := Leaving\<rparr>"])
      (use that history_nth [OF h(1,2)] h(3) spoken_facts(2) [of "da_handlers d ! i" i] in
        \<open>auto simp: history_simps closed_kinds_answer split: job.splits\<close>)
  then show ?thesis by (auto simp: answer_def Let_def split: sum.split)
qed

lemma leave_history:
  assumes h: "histories_ok d" "i < length (da_handlers d)" "ha_phase (da_handlers d ! i) = Leaving"
  shows "histories_ok (leave_step i d)"
proof -
  have quiet: "histories_ok d'" if "da_outbox d' = da_outbox d" "da_handlers d' = (da_handlers d)[i := h']"
    "ha_from h' = ha_from (da_handlers d ! i)" "ha_job h' = ha_job (da_handlers d ! i)"
    "ha_phase h' = Leaving \<or> ha_phase h' = Done" "ha_unwound h' = ha_unwound (da_handlers d ! i)" for d' h'
    by (rule history_silent [OF h(1) that(1) h(2) that(2)])
      (use history_nth [OF h(1,2)] h(3) that(3-6) in \<open>auto simp: history_simps split: job.splits\<close>)
  show ?thesis
    using h(3) by (auto simp: leave_step_def Let_def release_step_def intro!: quiet split: option.split)
qed

lemma unwound_history:
  assumes "history_ok h fs" "ha_phase h \<notin> {Leaving, Done}"
  shows "history_ok (h\<lparr>ha_phase := Leaving, ha_unwound := True\<rparr>) fs"
proof -
  have t: "task_history h ks \<Longrightarrow> ks = [] \<or> open_kinds ks" for ks
    using assms(2) by (cases "ha_phase h") (simp_all add: task_history_def)
  have p: "plain_history h ks \<Longrightarrow> ks = []" for ks
    using assms(2) by (simp add: plain_history_def)
  show ?thesis
    using assms(1) t [of "map of_kind fs"] p [of "map of_kind fs"] unfolding history_ok_def
    by (cases "ha_job h")
      (auto simp: addressed_def task_history_def [of "h\<lparr>ha_phase := Leaving, ha_unwound := True\<rparr>"]
        plain_history_def [of "h\<lparr>ha_phase := Leaving, ha_unwound := True\<rparr>"])
qed

lemma unwind_history:
  assumes h: "histories_ok d" "i < length (da_handlers d)" "ha_phase (da_handlers d ! i) \<notin> {Leaving, Done}"
  shows "histories_ok (unwind i d)"
  unfolding unwind_def
  by (rule history_silent [OF h(1) _ h(2) _ unwound_history [OF history_nth [OF h(1,2)] h(3)]]) simp_all

lemma dispatch_history:
  "histories_ok d \<Longrightarrow> histories_ok (d\<lparr>da_handlers := da_handlers d @ [handler_new a j]\<rparr>)"
  by (auto simp: histories_ok_def frames_of_def nth_append less_Suc_eq filter_empty_conv history_simps handler_new_def
      split: job.split)

lemma signal_history:
  assumes "histories_ok d"
  shows "histories_ok (abort_handler i d)" "histories_ok (terminate_handler i d)"
  by (rule histories_quiet [OF assms, of _ "[]"];
      simp add: abort_handler_def terminate_handler_def same_talk_update same_talk_def)+

lemma quiet_history:
  assumes "histories_ok d" "da_handlers d' = da_handlers d" "da_outbox d' = da_outbox d"
  shows "histories_ok d'"
  using histories_quiet [of d d' "[]"] assms same_talk_refl by simp

lemma reply_history:
  assumes "histories_ok d"
  shows "histories_ok (reply None to kind f words harness d)"
  using histories_quiet [OF assms, of "reply None to kind f words harness d"
    "[\<lparr>of_by = None, of_to = to, of_kind = Some kind, of_task_id = tf_task_id f,
        of_text = words, of_correlation_id = tf_correlation_id f, of_harness = harness\<rparr>]"]
  by (simp add: reply_def same_talk_refl)

lemma input_history: "histories_ok d \<Longrightarrow> histories_ok (handle_input c from_addr f d)"
  by (auto simp: handle_input_def Let_def intro!: reply_history intro: quiet_history split: option.split)

lemma abort_own_task_history: "histories_ok d \<Longrightarrow> histories_ok (snd (abort_own_task from_addr f d))"
  using signal_history by (auto simp: abort_own_task_def split: option.split)

lemma set_control_history: "histories_ok d \<Longrightarrow> histories_ok (set_control i ph d)"
  by (erule quiet_history) (simp_all add: set_control_def)

lemma runs_history: "histories_ok d \<Longrightarrow> histories_ok (d\<lparr>da_runs := w\<rparr>)"
  by (erule quiet_history) simp_all

lemma begin_control_history: "histories_ok d \<Longrightarrow> histories_ok (begin_control c i d)"
  using abort_own_task_history [of d "cm_from (da_controls d ! i)" "cm_frame (da_controls d ! i)"]
  by (auto simp: begin_control_def Let_def input_history intro!: set_control_history split: frame_kind.split prod.split)

lemma end_abort_history: "histories_ok d \<Longrightarrow> histories_ok (end_abort i stopped d)"
  by (auto simp: end_abort_def acknowledge_abort_def abort_run_def Let_def
      intro!: set_control_history reply_history runs_history split: prod.split)

lemma message_history: "histories_ok d \<Longrightarrow> histories_ok (handle_message_from is_screen_message a txt frame d)"
  using dispatch_history [of "d\<lparr>da_inflight := da_inflight d + 1\<rparr>" a]
    quiet_history [of d "d\<lparr>da_inflight := da_inflight d + 1\<rparr>"]
  by (auto simp: handle_message_from_def Let_def intro: quiet_history split: option.split)

lemma finish_history: "histories_ok d \<Longrightarrow> histories_ok (finish_message i d)"
  by (rule histories_quiet [of d _ "[]"]) (simp_all add: finish_message_def same_talk_update same_talk_def)

lemma kill_history: "histories_ok d \<Longrightarrow> histories_ok (snd (terminate_task from_addr task_id correlation d))"
  using signal_history by (auto simp: terminate_task_def split: option.split)

lemma shutdown_history: "histories_ok d \<Longrightarrow> histories_ok (shutdown d)"
  by (erule histories_quiet [of _ _ "[]"])
    (auto simp: shutdown_def list_all2_conv_all_nth nth_enumerate_eq same_talk_def)

text \<open>A message is never in the phase that acknowledges a task, so every run keeps the histories.\<close>

lemma daemon_step_histories: "daemon_step c d d' \<Longrightarrow> daemon_ok c d \<Longrightarrow> histories_ok d \<Longrightarrow> histories_ok d'"
proof (induction rule: daemon_step.induct)
  case (acknowledged i d p)
  have "job_key (da_handlers d ! i) \<noteq> None"
    using handler_ok_nth [OF acknowledged.prems(1) acknowledged.hyps(1)] acknowledged.hyps(2)
    by (simp add: handler_ok_def)
  then obtain f where "ha_job (da_handlers d ! i) = Task_job f" by (auto simp: job_key_def split: job.splits)
  then show ?case using acknowledge_history acknowledged by blast
next
  case (acquired i d p)
  show ?case
    by (rule silent_phase_history [where ph = "Turn p" and b = True and p = p and r = "Inl []", OF acquired.prems(2) acquired.hyps(1)])
      (use acquired.hyps(2) in \<open>auto simp: acquire_slot_def Let_def\<close>)
next
  case (settled i d p result)
  show ?case
    by (rule silent_phase_history [where ph = "Settled p result" and b = "ha_permit (da_handlers d ! i)" and p = p and r = result, OF settled.prems(2) settled.hyps(1)])
      (use settled.hyps(2) in \<open>auto simp: settle_def\<close>)
next
  case (session_opened i d p f session_id)
  then show ?case
    by (intro quiet_history [OF session_opened.prems(2)]) (auto simp: on_session_def record_task_session_def split: option.split)
next
  case (stdin_opened i d p f tx)
  then show ?case
    by (intro quiet_history [OF stdin_opened.prems(2)]) (auto simp: on_stdin_def Let_def split: option.split)
next
  case (ticked i d p f)
  then show ?case using status_history unfolding queue_tick_def by blast
next
  case (forwarded i d p f words)
  then show ?case using status_history unfolding forward_status_def by blast
next
  case (control_finished i d)
  then show ?case by (intro quiet_history [OF control_finished.prems(2)]) (simp_all add: finish_control_def set_control_def)
qed (simp_all add: message_history finish_history begin_control_history end_abort_history set_control_history runs_history
    begin_history register_history attach_history abandon_history answer_history leave_history unwind_history kill_history shutdown_history)

lemma daemon_run_histories: "daemon_run c d \<Longrightarrow> histories_ok d"
proof (induction rule: daemon_run.induct)
  case started
  then show ?case by (simp add: histories_ok_def daemon_new_def)
next
  case (stepped d d')
  then show ?case using daemon_step_histories daemon_run_ok by blast
qed

end
