(* ===== verification/WorkerScreens.thy ===== *)
theory WorkerScreens
  imports ScreenStream ScreenStore DaemonFrames
begin

text \<open>
  The worker's side of the screen protocol (\<open>src/src/tui/src/worker/stream/router.rs\<close>): which peer may
  watch or kill which task.  The router relies on the daemon for two calls, which the locale
  \<open>task_runtime\<close> states; it is interpreted on the daemon's model.  The screens of the worker's own
  terminals are the argument \<open>has_row\<close>, and the task behind a handle is \<open>finished\<close> or not.
\<close>

section \<open>The router\<close>

record stream_spec =
  sp_task_id :: rstr
  sp_session_id :: rstr
  sp_subscriber :: rstr
  sp_max_fps :: u8

text \<open>The handle of a stream is its index among those ever spawned.\<close>

record 'd screen_router =
  ro_runtime :: 'd
  ro_registry :: registry
  ro_spawned :: "stream_spec list"

definition router_new :: "'d \<Rightarrow> 'd screen_router" where
  "router_new d = \<lparr>ro_runtime = d, ro_registry = (\<lambda>_. None), ro_spawned = []\<rparr>"

definition router_subscribe ::
  "('d \<Rightarrow> rstr \<Rightarrow> rstr \<Rightarrow> rstr option) \<Rightarrow> (rstr \<Rightarrow> bool) \<Rightarrow> (nat \<Rightarrow> bool) \<Rightarrow>
   rstr \<Rightarrow> rstr \<Rightarrow> u8 \<Rightarrow> bool \<Rightarrow> 'd screen_router \<Rightarrow> 'd screen_router" where
  "router_subscribe session_for has_row finished from_addr task_id max_fps resync r =
     (case session_for (ro_runtime r) from_addr task_id of
        None \<Rightarrow> r
      | Some session_id \<Rightarrow>
          if \<not> has_row session_id then r
          else if registry_contains finished task_id (ro_registry r) \<and> \<not> resync then r
          else r\<lparr>ro_registry := snd (subscribe task_id from_addr (length (ro_spawned r)) (ro_registry r)),
                 ro_spawned := ro_spawned r @ [\<lparr>sp_task_id = task_id, sp_session_id = session_id,
                   sp_subscriber = from_addr, sp_max_fps = max_fps\<rparr>]\<rparr>)"

definition router_handle ::
  "('d \<Rightarrow> rstr \<Rightarrow> rstr \<Rightarrow> rstr option) \<Rightarrow> (rstr \<Rightarrow> rstr \<Rightarrow> rstr \<Rightarrow> 'd \<Rightarrow> bool \<times> 'd) \<Rightarrow>
   (rstr \<Rightarrow> bool) \<Rightarrow> (nat \<Rightarrow> bool) \<Rightarrow> rstr \<Rightarrow> screen_message \<Rightarrow> 'd screen_router \<Rightarrow> 'd screen_router" where
  "router_handle session_for terminate has_row finished from_addr message r0 =
     (let r = r0\<lparr>ro_registry := prune finished (ro_registry r0)\<rparr>
      in case message of
           Subscribe task_id max_fps resync \<Rightarrow>
             router_subscribe session_for has_row finished from_addr task_id max_fps resync r
         | Unsubscribe task_id \<Rightarrow>
             r\<lparr>ro_registry := snd (snd (unsubscribe_for from_addr task_id (ro_registry r)))\<rparr>
         | Kill task_id correlation_id \<Rightarrow>
             (case terminate from_addr task_id correlation_id (ro_runtime r) of
                (False, d) \<Rightarrow> r\<lparr>ro_runtime := d\<rparr>
              | (True, d) \<Rightarrow> r\<lparr>ro_runtime := d,
                  ro_registry := snd (snd (unsubscribe_for from_addr task_id (ro_registry r)))\<rparr>)
         | _ \<Rightarrow> r)"

section \<open>What the router needs of the daemon\<close>

text \<open>\<open>running_for d a t\<close>: \<open>d\<close> runs a task \<open>t\<close> that \<open>a\<close> dispatched; \<open>known d a t\<close>: \<open>a\<close> dispatched it at some time.\<close>

locale task_runtime =
  fixes ok :: "'d \<Rightarrow> bool"
    and session_for :: "'d \<Rightarrow> rstr \<Rightarrow> rstr \<Rightarrow> rstr option"
    and terminate :: "rstr \<Rightarrow> rstr \<Rightarrow> rstr \<Rightarrow> 'd \<Rightarrow> bool \<times> 'd"
    and known :: "'d \<Rightarrow> rstr \<Rightarrow> rstr \<Rightarrow> bool"
    and plain :: "rstr \<Rightarrow> bool"
  assumes session_known: "ok d \<Longrightarrow> plain a \<Longrightarrow> session_for d a t = Some s \<Longrightarrow> known d a t"
    and terminate_ok: "ok d \<Longrightarrow> terminate a t corr d = (b, d') \<Longrightarrow> ok d'"
    and terminate_keeps: "ok d \<Longrightarrow> terminate a t corr d = (b, d') \<Longrightarrow> known d a' t' \<Longrightarrow> known d' a' t'"
begin

text \<open>Every stream was spawned for its subscriber's own task, and the registry says so.\<close>

definition router_ok :: "'d screen_router \<Rightarrow> bool" where
  "router_ok r \<longleftrightarrow> ok (ro_runtime r) \<and>
     (\<forall>sp \<in> set (ro_spawned r). known (ro_runtime r) (sp_subscriber sp) (sp_task_id sp)) \<and>
     (\<forall>t a n. ro_registry r t = Some (a, n) \<longrightarrow>
        n < length (ro_spawned r) \<and> sp_task_id (ro_spawned r ! n) = t \<and> sp_subscriber (ro_spawned r ! n) = a)"

lemma router_new_ok: "ok d \<Longrightarrow> router_ok (router_new d)"
  by (simp add: router_ok_def router_new_def)

lemma shrink_ok:
  assumes "router_ok r" "\<forall>t e. reg t = Some e \<longrightarrow> ro_registry r t = Some e"
  shows "router_ok (r\<lparr>ro_registry := reg\<rparr>)"
  using assms unfolding router_ok_def by simp blast

lemma unsubscribe_shrinks: "snd (snd (unsubscribe_for a t reg)) t' = Some e \<Longrightarrow> reg t' = Some e"
  by (auto simp: unsubscribe_for_def unsubscribe_def split: option.splits if_splits)

lemma prune_shrinks: "prune finished reg t = Some e \<Longrightarrow> reg t = Some e"
  by (auto simp: prune_def split: option.splits if_splits)

lemma subscribe_ok:
  assumes "router_ok r" "plain a"
  shows "router_ok (router_subscribe session_for has_row finished a t fps resync r)"
proof (cases "session_for (ro_runtime r) a t")
  case None
  then show ?thesis using assms(1) by (simp add: router_subscribe_def)
next
  case (Some s)
  then have "known (ro_runtime r) a t" using session_known assms by (simp add: router_ok_def)
  then show ?thesis using assms(1) Some
    by (auto simp: router_subscribe_def router_ok_def subscribe_def unsubscribe_def nth_append less_SucI
        split: option.splits)
qed

lemma handle_ok:
  assumes "router_ok r" "plain a"
  shows "router_ok (router_handle session_for terminate has_row finished a message r)"
proof -
  let ?r = "r\<lparr>ro_registry := prune finished (ro_registry r)\<rparr>"
  have r: "router_ok ?r" using shrink_ok [OF assms(1)] prune_shrinks by blast
  have un: "router_ok (q\<lparr>ro_registry := snd (snd (unsubscribe_for a t (ro_registry q)))\<rparr>)" if "router_ok q" for q t
    using shrink_ok [OF that] unsubscribe_shrinks by blast
  show ?thesis
  proof (cases message)
    case (Subscribe t fps resync)
    then show ?thesis using subscribe_ok [OF r assms(2)] by (simp add: router_handle_def)
  next
    case (Unsubscribe t)
    then show ?thesis using un [OF r] by (simp add: router_handle_def)
  next
    case (Kill t corr)
    obtain b d' where k: "terminate a t corr (ro_runtime ?r) = (b, d')" by fastforce
    have "ok (ro_runtime ?r)" using r by (simp add: router_ok_def)
    then have "router_ok (?r\<lparr>ro_runtime := d'\<rparr>)"
      using r terminate_ok [OF _ k] terminate_keeps [OF _ k] by (simp add: router_ok_def)
    then show ?thesis using un [of "?r\<lparr>ro_runtime := d'\<rparr>" t] k Kill by (cases b) (simp_all add: router_handle_def)
  qed (use r in \<open>simp_all add: router_handle_def\<close>)
qed

end

section \<open>The daemon provides it\<close>

text \<open>An address has no space in it, so that a key names one sender.\<close>

definition plain_address :: "rstr \<Rightarrow> bool" where
  "plain_address a \<longleftrightarrow> 32 \<notin> set a"

definition dispatched_task :: "daemon \<Rightarrow> rstr \<Rightarrow> rstr \<Rightarrow> bool" where
  "dispatched_task d a t \<longleftrightarrow>
     (\<exists>h \<in> set (da_handlers d). ha_from h = a \<and> (\<exists>f. ha_job h = Task_job f \<and> tf_task_id f = t))"

definition plain_daemon :: "daemon_config \<Rightarrow> daemon \<Rightarrow> bool" where
  "plain_daemon c d \<longleftrightarrow> daemon_ok c d \<and> (\<forall>h \<in> set (da_handlers d). plain_address (ha_from h))"

lemma task_key_plain:
  assumes "plain_address a" "plain_address b" "task_key a t = task_key b u"
  shows "a = b \<and> t = u"
proof -
  have "takeWhile (\<lambda>x. x \<noteq> 32) (task_key c v) = c" if "plain_address c" for c v
    using that unfolding task_key_def plain_address_def by (induction c) auto
  then have "a = b" using assms by metis
  then show ?thesis using assms(3) by (simp add: task_key_def)
qed

text \<open>The record a sender's key leads to belongs to that sender's own dispatch.\<close>

lemma own_record:
  assumes "plain_daemon c d" "plain_address a" "da_running d (task_key a t) = Some r"
  shows "rt_abort r < length (da_handlers d) \<and> ha_from (da_handlers d ! rt_abort r) = a \<and>
    (\<exists>f. ha_job (da_handlers d ! rt_abort r) = Task_job f \<and> tf_task_id f = t \<and> rt_correlation_id r = tf_correlation_id f)"
proof -
  have ok: "daemon_ok c d" using assms(1) by (simp add: plain_daemon_def)
  let ?h = "da_handlers d ! rt_abort r"
  have o: "rt_abort r < length (da_handlers d)" "owns ?h (task_key a t)"
    using record_owned [OF ok assms(3)] by simp_all
  then have "job_key ?h = Some (task_key a t)"
    using handler_ok_nth [OF ok o(1)] by (simp add: handler_ok_def)
  then obtain f where f: "ha_job ?h = Task_job f" "task_key (ha_from ?h) (tf_task_id f) = task_key a t"
    by (auto simp: job_key_def split: job.splits)
  have "plain_address (ha_from ?h)" using assms(1) o(1) by (simp add: plain_daemon_def)
  then have "ha_from ?h = a \<and> tf_task_id f = t" using task_key_plain f(2) assms(2) by blast
  moreover have "rt_correlation_id r = job_correlation ?h"
    using owned_record [OF ok o] assms(3) by force
  ultimately show ?thesis using o(1) f(1) by (simp add: job_correlation_def)
qed

lemma nth_update_any: "j < length xs \<Longrightarrow> xs[i := x] ! j = (if i = j then x else xs ! j)"
  by (cases "i = j") simp_all

lemma terminate_from:
  assumes "terminate_task a t corr d = (b, d')"
  shows "\<forall>i < length (da_handlers d). ha_from (da_handlers d' ! i) = ha_from (da_handlers d ! i) \<and>
      ha_job (da_handlers d' ! i) = ha_job (da_handlers d ! i)" "length (da_handlers d') = length (da_handlers d)"
  using assms
  by (auto simp: terminate_task_def terminate_handler_def nth_update_any split: option.splits if_splits)

lemma terminate_dispatched:
  assumes "terminate_task a t corr d = (b, d')"
  shows "dispatched_task d' a' t' = dispatched_task d a' t'"
    and "(\<forall>h \<in> set (da_handlers d'). plain_address (ha_from h)) = (\<forall>h \<in> set (da_handlers d). plain_address (ha_from h))"
  using terminate_from [OF assms] by (auto simp: dispatched_task_def Bex_def in_set_conv_nth Ball_def)

interpretation worker_tasks: task_runtime "plain_daemon c" session_for_task terminate_task dispatched_task plain_address
proof unfold_locales
  fix d a t s
  assume d: "plain_daemon c d" "plain_address a" "session_for_task d a t = Some s"
  then obtain r where "da_running d (task_key a t) = Some r"
    by (auto simp: session_for_task_def bind_eq_Some_conv)
  then show "dispatched_task d a t"
    using own_record [OF d(1,2)] nth_mem unfolding dispatched_task_def by metis
next
  fix d a t corr b d'
  assume d: "plain_daemon c d" "terminate_task a t corr d = (b, d')"
  then show "plain_daemon c d'"
    using kill_ok [of c d a t corr] terminate_dispatched(2) [OF d(2)] by (simp add: plain_daemon_def)
next
  fix d a t corr b d' a' t'
  assume "plain_daemon c d" "terminate_task a t corr d = (b, d')" "dispatched_task d a' t'"
  then show "dispatched_task d' a' t'" using terminate_dispatched(1) by simp
qed

end
