(* ===== verification/DaemonSpec.thy ===== *)
theory DaemonSpec
  imports WorkerScreens
begin

text \<open>
  The properties of the daemon's tasks and of the screens it serves, with the facts on whole runs of
  a worker they need and their witnesses.
\<close>

section \<open>Handlers keep their identity\<close>

definition identity :: "handler \<Rightarrow> rstr \<times> job" where
  "identity h = (ha_from h, ha_job h)"

lemma identity_fields [simp]:
  "identity (h\<lparr>ha_phase := ph\<rparr>) = identity h" "identity (h\<lparr>ha_guard := g\<rparr>) = identity h"
  "identity (h\<lparr>ha_permit := b\<rparr>) = identity h" "identity (h\<lparr>ha_aborted := b\<rparr>) = identity h"
  "identity (h\<lparr>ha_terminated := b\<rparr>) = identity h" "identity (h\<lparr>ha_unwound := b\<rparr>) = identity h"
  "identity (h\<lparr>ha_counted := b\<rparr>) = identity h"
  by (simp_all add: identity_def)

lemma identity_update: "identity h' = identity (hs ! i) \<Longrightarrow> map identity (hs[i := h']) = map identity hs"
  by (metis list_update_id map_update)

lemma identity_shutdown: "map identity (da_handlers (shutdown d)) = map identity (da_handlers d)"
  by (auto simp: shutdown_def identity_def nth_enumerate_eq intro!: nth_equalityI)

lemma step_identity:
  "daemon_step c d d' \<Longrightarrow> \<exists>new. map identity (da_handlers d') = map identity (da_handlers d) @ new"
proof (induction rule: daemon_step.induct)
  case (dispatched d is_screen_message from_addr words frame)
  then show ?case by (simp add: handle_message_from_def Let_def split: option.split)
next
  case (stopped d)
  then show ?case by (simp add: identity_shutdown)
qed (auto intro!: exI [of _ "[]"]
    simp: identity_update begin_job_def register_job_def attach_controller_def acknowledge_def acquire_slot_def
      abandon_queue_def queue_tick_def on_session_def on_stdin_def forward_status_def settle_def answer_def
      leave_step_def unwind_def begin_control_def end_abort_def finish_message_def finish_control_def set_control_def
      handle_input_def abort_own_task_def abort_run_def acknowledge_abort_def terminate_task_def abort_handler_def
      terminate_handler_def record_task_session_def register_controller_def register_running_def release_step_def
      claim_def say_spoken reply_def Let_def
    split: option.splits sum.splits prod.splits job.splits frame_kind.splits if_splits)

section \<open>Workers\<close>

text \<open>A worker: the daemon steps and the router answers messages, in any order; authenticated addresses
  have no space in them.\<close>

inductive worker_run :: "daemon_config \<Rightarrow> daemon screen_router \<Rightarrow> bool" for c where
  started: "worker_run c (router_new (daemon_new c))"
| served: "worker_run c r \<Longrightarrow> daemon_step c (ro_runtime r) d' \<Longrightarrow>
    \<forall>h \<in> set (da_handlers d'). plain_address (ha_from h) \<Longrightarrow> worker_run c (r\<lparr>ro_runtime := d'\<rparr>)"
| watched: "worker_run c r \<Longrightarrow> plain_address a \<Longrightarrow>
    worker_run c (router_handle session_for_task terminate_task has_row finished a message r)"

lemma step_dispatched:
  assumes "daemon_step c d d'" "dispatched_task d a t"
  shows "dispatched_task d' a t"
proof -
  obtain new where new: "map identity (da_handlers d') = map identity (da_handlers d) @ new"
    using step_identity [OF assms(1)] by blast
  obtain h f where "h \<in> set (da_handlers d)" "identity h = (a, Task_job f)" "tf_task_id f = t"
    using assms(2) by (auto simp: dispatched_task_def identity_def)
  then have "(a, Task_job f) \<in> set (map identity (da_handlers d'))" unfolding new by force
  then obtain h' where "h' \<in> set (da_handlers d')" "identity h' = (a, Task_job f)" by auto
  then show ?thesis
    using \<open>tf_task_id f = t\<close> unfolding dispatched_task_def identity_def by blast
qed

lemma worker_run_ok: "worker_run c r \<Longrightarrow> worker_tasks.router_ok c r"
proof (induction rule: worker_run.induct)
  case started
  show ?case
    by (rule worker_tasks.router_new_ok) (simp add: plain_daemon_def daemon_new_ok, simp add: daemon_new_def)
next
  case (served r d')
  then have "plain_daemon c (ro_runtime r)" by (simp add: worker_tasks.router_ok_def)
  then have "plain_daemon c d'"
    using daemon_step_ok served.hyps by (simp add: plain_daemon_def)
  then show ?case using served step_dispatched by (simp add: worker_tasks.router_ok_def)
next
  case (watched r a has_row finished message)
  then show ?case using worker_tasks.handle_ok by blast
qed

text \<open>The registry of workflow runs stays well formed, and the router leaves it alone.\<close>

lemma step_registry: "daemon_step c d d' \<Longrightarrow> registry_ok (da_runs d) \<Longrightarrow> registry_ok (da_runs d')"
proof (induction rule: daemon_step.induct)
  case (abort_ended i d stopped)
  then show ?case
    using run_cancel_ok [of "da_runs d" "tf_task_id (cm_frame (da_controls d ! i))"]
    by (auto simp: end_abort_def acknowledge_abort_def abort_run_def set_control_def reply_def Let_def split: prod.splits)
qed (auto simp: run_claim_ok run_guard_drop_ok run_cancel_ok handle_message_from_def begin_job_def register_job_def
    attach_controller_def acknowledge_def acquire_slot_def abandon_queue_def queue_tick_def on_session_def on_stdin_def
    forward_status_def settle_def answer_def leave_step_def unwind_def begin_control_def finish_message_def
    finish_control_def set_control_def handle_input_def abort_own_task_def terminate_task_def abort_handler_def
    terminate_handler_def record_task_session_def register_controller_def register_running_def release_step_def
    shutdown_def claim_def say_spoken reply_def Let_def
    split: option.splits sum.splits prod.splits job.splits frame_kind.splits if_splits)

lemma terminate_runs: "terminate_task a t corr d = (b, d') \<Longrightarrow> da_runs d' = da_runs d"
  by (auto simp: terminate_task_def terminate_handler_def split: option.splits if_splits)

lemma worker_run_registry: "worker_run c r \<Longrightarrow> registry_ok (da_runs (ro_runtime r))"
proof (induction rule: worker_run.induct)
  case started
  show ?case by (simp add: router_new_def daemon_new_def registry_new_ok)
next
  case (served r d')
  then show ?case using step_registry by simp
next
  case (watched r a has_row finished message)
  then show ?case
    by (auto simp: router_handle_def router_subscribe_def Let_def dest!: terminate_runs
        split: screen_message.split option.split prod.split bool.split)
qed

text \<open>A peer's message leaves another peer's live stream alone, unless it is a resync of a task of its own.\<close>

lemma stream_kept:
  assumes "ro_registry r t = Some (b, n)" "b \<noteq> a" "\<not> finished n"
  shows "ro_registry (router_handle session_for terminate has_row finished a message r) t = Some (b, n) \<or>
    (\<exists>fps. message = Subscribe t fps True \<and> session_for (ro_runtime r) a t \<noteq> None)"
proof -
  have kept: "prune finished (ro_registry r) t = Some (b, n)" using assms(1,3) by (simp add: prune_def)
  have un: "snd (snd (unsubscribe_for a u (prune finished (ro_registry r)))) t = Some (b, n)" for u
    using kept assms(2) by (auto simp: unsubscribe_for_def unsubscribe_def split: option.splits)
  show ?thesis
    using kept un assms(3)
    by (cases message)
      (auto simp: router_handle_def router_subscribe_def registry_contains_def subscribe_def unsubscribe_def Let_def
        split: option.splits prod.splits bool.splits)
qed

text \<open>A task that finds room is served: its session opens under its key.\<close>

lemma append_update_last: "(xs @ [x])[length xs := y] = xs @ [y]"
  by (induction xs) auto

lemma serve_task:
  assumes run: "daemon_run c d" and room: "da_admitted d < dc_max_pending c" "0 < da_free_slots d"
    and resolved: "resolve_task c f = Inr (u, p)" and free: "da_running d (task_key a (tf_task_id f)) = None"
  obtains d' h t where "daemon_run c d'" "da_handlers d' = da_handlers d @ [h]" "identity h = (a, Task_job f)"
    "ha_phase h = Turn p" "da_running d' = (da_running d)(task_key a (tf_task_id f) \<mapsto> t)" "rt_session_id t = Some s"
    "da_admitted d' = Suc (da_admitted d)" "da_free_slots d' = da_free_slots d - 1"
    "rt_correlation_id t = tf_correlation_id f" "\<not> ha_aborted h" "da_runs d' = da_runs d"
proof -
  let ?i = "length (da_handlers d)" and ?k = "task_key a (tf_task_id f)" and ?env = "\<lambda>_ _ _. None"
  let ?acc = "accepts_stdin (\<lambda>_. None) p f" and ?g = "\<lparr>gu_key = None, gu_controller = None\<rparr>"
  define h0 where "h0 = handler_new a (Task_job f)"
  have h0: "ha_from h0 = a" "ha_job h0 = Task_job f" "ha_phase h0 = Fresh" "ha_permit h0 = False"
    "ha_aborted h0 = False" by (simp_all add: h0_def handler_new_def)
  define d0 where "d0 = d\<lparr>da_inflight := da_inflight d + 1, da_handlers := da_handlers d @ [h0]\<rparr>"
  have r0: "daemon_run c d0"
    unfolding d0_def h0_def by (rule daemon_run.stepped [OF run dispatched_job])
  define d1 where "d1 = begin_job c ?env ?i d0"
  define h1 where "h1 = h0\<lparr>ha_phase := Admitted p ?acc, ha_guard := Some ?g\<rparr>"
  have e1: "d1 = d\<lparr>da_admitted := Suc (da_admitted d), da_inflight := da_inflight d + 1, da_handlers := da_handlers d @ [h1]\<rparr>"
    using room resolved
    by (simp add: d1_def d0_def h1_def h0 begin_job_def resolve_job_def claim_def append_update_last)
  have "daemon_step c d0 d1"
    unfolding d1_def by (rule daemon_step.begun) (simp_all add: d0_def h0)
  then have r1: "daemon_run c d1" by (rule daemon_run.stepped [OF r0])
  define d2 where "d2 = register_job ?i p ?acc ?g d1"
  define t where "t = \<lparr>rt_provider = p, rt_accepts_stdin = ?acc, rt_correlation_id = tf_correlation_id f,
    rt_stdin = None, rt_pending_input = [], rt_session_id = None, rt_abort = ?i\<rparr>"
  define g2 where "g2 = ?g\<lparr>gu_key := Some ?k\<rparr>"
  define h2 where "h2 = h1\<lparr>ha_phase := Registered p, ha_guard := Some g2\<rparr>"
  have e2: "d2 = d1\<lparr>da_running := (da_running d)(?k \<mapsto> t), da_handlers := da_handlers d @ [h2]\<rparr>"
    using free by (simp add: d2_def e1 h2_def h1_def h0 t_def g2_def register_job_def register_running_def Let_def
        append_update_last)
  have "daemon_step c d1 d2"
    unfolding d2_def by (rule daemon_step.registered) (simp_all add: e1 h1_def)
  then have r2: "daemon_run c d2" by (rule daemon_run.stepped [OF r1])
  define d3 where "d3 = attach_controller ?i p g2 d2"
  define h3 where "h3 = h2\<lparr>ha_phase := Accepted p, ha_guard := Some (g2\<lparr>gu_controller := Some (da_next_controller_id d)\<rparr>)\<rparr>"
  have e3: "da_handlers d3 = da_handlers d @ [h3]" "da_running d3 = da_running d2" "da_admitted d3 = da_admitted d2"
    "da_free_slots d3 = da_free_slots d" "da_runs d3 = da_runs d"
    by (simp_all add: d3_def e2 e1 h3_def h2_def h1_def h0 attach_controller_def register_controller_def append_update_last)
  have "daemon_step c d2 d3"
    unfolding d3_def by (rule daemon_step.attached) (simp_all add: e2 h2_def)
  then have r3: "daemon_run c d3" by (rule daemon_run.stepped [OF r2])
  define d4 where "d4 = acknowledge ?i p d3"
  define h4 where "h4 = h3\<lparr>ha_phase := Queued p\<rparr>"
  have e4: "da_handlers d4 = da_handlers d @ [h4]" "da_running d4 = da_running d2" "da_admitted d4 = da_admitted d2"
    "da_free_slots d4 = da_free_slots d" "da_runs d4 = da_runs d"
    by (simp_all add: d4_def e3 h4_def acknowledge_def say_spoken append_update_last)
  have "daemon_step c d3 d4"
    unfolding d4_def by (rule daemon_step.acknowledged) (simp_all add: e3 h3_def)
  then have r4: "daemon_run c d4" by (rule daemon_run.stepped [OF r3])
  define d5 where "d5 = acquire_slot ?i p d4"
  define h5 where "h5 = h4\<lparr>ha_phase := Turn p, ha_permit := True\<rparr>"
  have e5: "da_handlers d5 = da_handlers d @ [h5]" "da_running d5 = da_running d2" "da_admitted d5 = da_admitted d2"
    "da_free_slots d5 = da_free_slots d - 1" "da_runs d5 = da_runs d"
    by (simp_all add: d5_def e4 h5_def acquire_slot_def append_update_last)
  have "daemon_step c d4 d5"
    unfolding d5_def by (rule daemon_step.acquired) (use room in \<open>simp_all add: e4 h4_def\<close>)
  then have r5: "daemon_run c d5" by (rule daemon_run.stepped [OF r4])
  have id5: "ha_from h5 = a" "ha_job h5 = Task_job f" "\<not> ha_aborted h5"
    by (simp_all add: h5_def h4_def h3_def h2_def h1_def h0)
  define d6 where "d6 = on_session ?i f s d5"
  have "daemon_step c d5 d6"
    unfolding d6_def by (rule daemon_step.session_opened) (simp_all add: e5 id5 h5_def [THEN arg_cong [of _ _ ha_phase]])
  then have r6: "daemon_run c d6" by (rule daemon_run.stepped [OF r5])
  have "d6 = d5\<lparr>da_running := (da_running d)(?k \<mapsto> t\<lparr>rt_session_id := Some s\<rparr>)\<rparr>"
    by (simp add: d6_def on_session_def record_task_session_def e5 id5 e2)
  then show ?thesis
    using that [OF r6, of h5 "t\<lparr>rt_session_id := Some s\<rparr>"] e5 id5 e2 e1
    by (simp add: identity_def t_def h5_def [THEN arg_cong [of _ _ ha_phase]])
qed

definition ex_daemon_config :: daemon_config where
  "ex_daemon_config = \<lparr>dc_providers = [Claude], dc_default_provider = Claude, dc_concurrency = 2,
     dc_status_throttle_ms = 4000, dc_max_pending = 16, dc_custom_harnesses = [], dc_env = (\<lambda>_. None)\<rparr>"

definition ex_task :: task_frame where
  "ex_task = \<lparr>tf_task_id = [116, 49], tf_text = [], tf_correlation_id = None, tf_provider = None,
     tf_transport = None, tf_custom_harness = None\<rparr>"

lemma ex_resolves: "resolve_task ex_daemon_config ex_task = Inr (None, Claude)"
  by (simp add: resolve_task_def choose_harness_def select_provider_def ex_daemon_config_def ex_task_def)

lemma ex_one_task:
  obtains d h where "daemon_run ex_daemon_config d" "da_handlers d = [h]" "identity h = ([97], Task_job ex_task)"
    "ha_phase h = Turn Claude"
proof -
  have new: "da_admitted (daemon_new ex_daemon_config) = 0" "da_free_slots (daemon_new ex_daemon_config) = 2"
    "da_running (daemon_new ex_daemon_config) = (\<lambda>_. None)" "da_handlers (daemon_new ex_daemon_config) = []"
    by (simp_all add: daemon_new_def ex_daemon_config_def)
  have max: "dc_max_pending ex_daemon_config = 16" by (simp add: ex_daemon_config_def)
  show ?thesis
    by (rule serve_task [OF daemon_run.started _ _ ex_resolves, of "[97]" "[115]"]) (use that new max in auto)
qed

section \<open>Properties\<close>

text \<open>C12.  In a daemon that serves tasks and messages (no task frames that name a workflow), however the handlers
  interleave, panic and are aborted, what they hold is accounted for: the daemon admits no more than its bound and runs no more than its slots, a
  registered task keeps the record its key leads to until it leaves (a second task of that key never
  takes it), and when every handler is done no admission, record, controller or slot is left behind.
  The count of messages in flight is not given back in the same way: it is the number of messages whose
  asynchronous task has not ended normally, so when everything else is done the daemon is idle exactly if
  nothing has panicked, and once something has, \<open>idle\<close> never resolves again.\<close>

theorem daemon_accounts:
  assumes "daemon_run c d"
  shows "da_admitted d = length (filter (\<lambda>h. ha_guard h \<noteq> None) (da_handlers d)) \<and> da_admitted d \<le> dc_max_pending c \<and>
    length (filter ha_permit (da_handlers d)) \<le> max (dc_concurrency c) 1 \<and>
    (\<forall>i f. i < length (da_handlers d) \<and> ha_job (da_handlers d ! i) = Task_job f \<and>
       (\<exists>p r. ha_phase (da_handlers d ! i) \<in> {Registered p, Accepted p, Queued p, Turn p, Settled p r}) \<longrightarrow>
       (\<exists>t. da_running d (task_key (ha_from (da_handlers d ! i)) (tf_task_id f)) = Some t \<and> rt_abort t = i \<and>
          rt_correlation_id t = tf_correlation_id f)) \<and>
    ((\<forall>h \<in> set (da_handlers d). ha_phase h = Done) \<longrightarrow>
       da_admitted d = 0 \<and> da_running d = (\<lambda>_. None) \<and> da_controllers d = (\<lambda>_. None) \<and>
       da_free_slots d = max (dc_concurrency c) 1) \<and>
    da_inflight d = length (filter ha_counted (da_handlers d)) + length (filter unfinished (da_controls d)) \<and>
    ((\<forall>h \<in> set (da_handlers d). ha_phase h = Done \<and> (ha_counted h \<longrightarrow> ha_unwound h)) \<and>
       (\<forall>q \<in> set (da_controls d). cm_phase q \<in> {Finished, Panicked}) \<longrightarrow> (daemon_idle d \<longleftrightarrow> \<not> panicked d)) \<and>
    (panicked d \<longrightarrow> (\<forall>d'. (daemon_step c)\<^sup>*\<^sup>* d d' \<longrightarrow> \<not> daemon_idle d'))"
proof -
  have ok: "daemon_ok c d" by (rule daemon_run_ok [OF assms])
  have counts: "da_admitted d = length (filter (\<lambda>h. ha_guard h \<noteq> None) (da_handlers d))" "da_admitted d \<le> dc_max_pending c"
    "da_free_slots d + length (filter ha_permit (da_handlers d)) = max (dc_concurrency c) 1"
    using ok by (simp_all add: daemon_ok_def counts_ok_def)
  have records: "\<exists>t. da_running d (task_key (ha_from (da_handlers d ! i)) (tf_task_id f)) = Some t \<and> rt_abort t = i \<and>
      rt_correlation_id t = tf_correlation_id f"
    if "i < length (da_handlers d)" "ha_job (da_handlers d ! i) = Task_job f"
      "ha_phase (da_handlers d ! i) \<in> {Registered p, Accepted p, Queued p, Turn p, Settled p r}" for i f p r
  proof -
    let ?h = "da_handlers d ! i"
    have "owns ?h (task_key (ha_from ?h) (tf_task_id f))"
      using handler_ok_nth [OF ok that(1)] that(2,3) by (auto simp: handler_ok_def owns_def job_key_def)
    then show ?thesis
      using owned_record [OF ok that(1)] that(2) by (metis job.simps(5) job_correlation_def)
  qed
  have "da_admitted d = 0 \<and> da_running d = (\<lambda>_. None) \<and> da_controllers d = (\<lambda>_. None) \<and>
      da_free_slots d = max (dc_concurrency c) 1"
    if all_done: "\<forall>h \<in> set (da_handlers d). ha_phase h = Done"
  proof -
    have none: "ha_guard h = None \<and> \<not> ha_permit h" if "h \<in> set (da_handlers d)" for h
      using ok all_done that by (auto simp: daemon_ok_def handler_ok_def)
    then have "da_running d k = None" for k
      using record_owned [OF ok, of k] by (cases "da_running d k") (auto simp: owns_def)
    moreover have "da_controllers d n = None" for n
      using none controller_held [OF ok, of n] by (cases "da_controllers d n") (auto simp: holds_controller_def)
    ultimately show ?thesis using none counts by (auto simp: filter_empty_conv)
  qed
  moreover have flight: "flight_ok d" by (rule daemon_run_flight [OF assms])
  moreover have "daemon_idle d \<longleftrightarrow> \<not> panicked d"
    if ended: "\<forall>h \<in> set (da_handlers d). ha_phase h = Done \<and> (ha_counted h \<longrightarrow> ha_unwound h)"
      "\<forall>q \<in> set (da_controls d). cm_phase q \<in> {Finished, Panicked}"
  proof -
    have "filter ha_counted (da_handlers d) = [] \<and> filter unfinished (da_controls d) = []" if "\<not> panicked d"
      using that ended by (auto simp: panicked_def unfinished_def filter_empty_conv)
    then show ?thesis using panicked_in_flight [OF flight] flight by (auto simp: daemon_idle_def flight_ok_def)
  qed
  moreover have "\<not> daemon_idle d'" if "panicked d" "(daemon_step c)\<^sup>*\<^sup>* d d'" for d'
    using daemon_steps_flight [OF that(2) flight] panicked_in_flight [of d'] that(1) by (simp add: daemon_idle_def)
  ultimately show ?thesis using counts records by (auto simp: flight_ok_def)
qed

lemma daemon_accounts_witness:
  "\<exists>d t d'. daemon_run ex_daemon_config d \<and> da_running d (task_key [97] [116, 49]) = Some t \<and> rt_abort t = 0 \<and>
     da_admitted d = length (filter (\<lambda>h. ha_guard h \<noteq> None) (da_handlers d)) \<and>
     daemon_run ex_daemon_config d' \<and> (\<forall>e. (daemon_step ex_daemon_config)\<^sup>*\<^sup>* d' e \<longrightarrow> \<not> daemon_idle e)"
proof -
  obtain d h where d: "daemon_run ex_daemon_config d" "da_handlers d = [h]" "identity h = ([97], Task_job ex_task)"
    "ha_phase h = Turn Claude" using ex_one_task by blast
  have "0 < length (da_handlers d) \<and> ha_job (da_handlers d ! 0) = Task_job ex_task \<and>
      (\<exists>p r. ha_phase (da_handlers d ! 0) \<in> {Registered p, Accepted p, Queued p, Turn p, Settled p r})"
    using d by (simp add: identity_def)
  with daemon_accounts [OF d(1)] obtain t where
    t: "da_running d (task_key (ha_from (da_handlers d ! 0)) (tf_task_id ex_task)) = Some t" "rt_abort t = 0" "da_admitted d = length (filter (\<lambda>h. ha_guard h \<noteq> None) (da_handlers d))" by blast
  have "daemon_step ex_daemon_config d (unwind 0 d)" by (rule daemon_step.unwound) (simp_all add: d)
  then have run: "daemon_run ex_daemon_config (unwind 0 d)" by (rule daemon_run.stepped [OF d(1)])
  have "panicked (unwind 0 d)" by (simp add: panicked_def unwind_def d)
  with daemon_accounts [OF run] have "\<forall>e. (daemon_step ex_daemon_config)\<^sup>*\<^sup>* (unwind 0 d) e \<longrightarrow> \<not> daemon_idle e" by blast
  moreover have "da_running d (task_key [97] [116, 49]) = Some t" using t(1) d by (simp add: identity_def ex_task_def)
  ultimately show ?thesis using d(1) t(2,3) run by blast
qed

text \<open>C13.  A task frame is answered in order and once: a task that did not panic is refused with one
  error, or acknowledged, kept informed and then answered with one reply or error, after which
  nothing follows; every frame goes to the sender, with the task's id and correlation.\<close>

theorem task_answered_once:
  assumes "daemon_run c d" "i < length (da_handlers d)" "ha_job (da_handlers d ! i) = Task_job f"
  shows "(\<forall>r \<in> set (frames_of i d). of_to r = ha_from (da_handlers d ! i) \<and> of_task_id r = tf_task_id f \<and>
       of_correlation_id r = tf_correlation_id f) \<and>
    (map of_kind (frames_of i d) = [] \<or> (\<exists>n. map of_kind (frames_of i d) = Some Ack_frame # replicate n (Some Status_frame)) \<or>
     map of_kind (frames_of i d) = [Some Error_frame] \<or>
     (\<exists>n k. (k = Reply_frame \<or> k = Error_frame) \<and>
        map of_kind (frames_of i d) = Some Ack_frame # replicate n (Some Status_frame) @ [Some k])) \<and>
    (ha_phase (da_handlers d ! i) = Done \<and> \<not> ha_unwound (da_handlers d ! i) \<longrightarrow>
       map of_kind (frames_of i d) = [Some Error_frame] \<or>
       (\<exists>n k. (k = Reply_frame \<or> k = Error_frame) \<and>
          map of_kind (frames_of i d) = Some Ack_frame # replicate n (Some Status_frame) @ [Some k]))"
proof -
  have h: "history_ok (da_handlers d ! i) (frames_of i d)"
    using history_nth [OF daemon_run_histories [OF assms(1)] assms(2)] .
  have closed: "closed_kinds ks \<longleftrightarrow> ks = [Some Error_frame] \<or>
      (\<exists>n k. (k = Reply_frame \<or> k = Error_frame) \<and> ks = Some Ack_frame # replicate n (Some Status_frame) @ [Some k])" for ks
    by (auto simp: closed_kinds_def open_kinds_def)
  have t: "task_history (da_handlers d ! i) (map of_kind (frames_of i d))"
    using h assms(3) by (simp add: history_ok_def)
  then have "map of_kind (frames_of i d) = [] \<or> open_kinds (map of_kind (frames_of i d)) \<or>
      closed_kinds (map of_kind (frames_of i d))"
    unfolding task_history_def by (cases "ha_phase (da_handlers d ! i)") (auto split: if_splits)
  moreover have "closed_kinds (map of_kind (frames_of i d))"
    if "ha_phase (da_handlers d ! i) = Done" "\<not> ha_unwound (da_handlers d ! i)"
    using t that by (simp add: task_history_def)
  moreover have "\<forall>r \<in> set (frames_of i d). of_to r = ha_from (da_handlers d ! i) \<and> of_task_id r = tf_task_id f \<and>
      of_correlation_id r = tf_correlation_id f"
    using h assms(3) by (simp add: history_ok_def addressed_def)
  ultimately show ?thesis unfolding closed open_kinds_def by blast
qed

lemma task_answered_once_witness:
  "\<exists>d. daemon_run ex_daemon_config d \<and> map of_kind (frames_of 0 d) = [Some Error_frame]"
proof -
  let ?f = "ex_task\<lparr>tf_provider := Some Codex\<rparr>"
  let ?h = "handler_new [97] (Task_job ?f)"
  let ?start = "(daemon_new ex_daemon_config)\<lparr>da_inflight := 1, da_handlers := [?h]\<rparr>"
  let ?d = "begin_job ex_daemon_config (\<lambda>_ _ _. None) 0 ?start"
  have "da_handlers (daemon_new ex_daemon_config) = []" "da_inflight (daemon_new ex_daemon_config) + 1 = 1"
    by (simp_all add: daemon_new_def)
  then have "daemon_step ex_daemon_config (daemon_new ex_daemon_config) ?start"
    using dispatched_job [of ex_daemon_config "daemon_new ex_daemon_config" "[97]" "Task_job ?f"]
    by (simp only: append_Nil)
  then have "daemon_run ex_daemon_config ?start" by (rule daemon_run.stepped [OF daemon_run.started])
  moreover have "daemon_step ex_daemon_config ?start ?d"
    by (rule daemon_step.begun) (simp_all add: handler_new_def)
  ultimately have run: "daemon_run ex_daemon_config ?d" by (rule daemon_run.stepped)
  have "resolve_task ex_daemon_config ?f = Inl (No_provider (Some Codex) [Claude])"
    by (simp add: resolve_task_def choose_harness_def select_provider_def ex_daemon_config_def ex_task_def)
  then have "resolve_job ex_daemon_config (\<lambda>_ _ _. None) (ha_job ?h) = Inl (No_provider (Some Codex) [Claude])"
    by (simp add: resolve_job_def handler_new_def)
  then have d: "da_handlers ?d = [?h\<lparr>ha_phase := Done\<rparr>]" "length (da_outbox ?d) = 1"
    by (simp_all add: begin_job_def say_spoken Let_def daemon_new_def)
  have "map of_kind (frames_of 0 ?d) = [Some Error_frame] \<or>
      (\<exists>n k. (k = Reply_frame \<or> k = Error_frame) \<and>
        map of_kind (frames_of 0 ?d) = Some Ack_frame # replicate n (Some Status_frame) @ [Some k])"
    using task_answered_once [OF run, of 0 ?f] d by (simp add: handler_new_def)
  moreover have "length (frames_of 0 ?d) \<le> 1"
    using length_filter_le [of "\<lambda>f. of_by f = Some 0" "da_outbox ?d"] d(2) by (simp only: frames_of_def)
  ultimately show ?thesis using run by (auto dest: arg_cong [of _ _ length])
qed

text \<open>C15.  What a peer can stop.  A kill, given the receipt, and the daemon's own half of an abort, given no
  other receipt, stop at most one task, and that one the peer dispatched; every stream ever opened shows its
  subscriber a task the subscriber dispatched; and a peer's message takes another peer's live stream away
  only as the resync of a task of that id which the peer dispatched itself.  But an abort that stopped no task of
  the peer's own cancels the workflow run that the process has registered under the bare task id, whoever
  started it and whatever the receipt says (and no other run), and answers that the task was aborted.\<close>

theorem peers_reach_own_tasks:
  assumes "worker_run c r" "plain_address a"
  shows "(\<forall>t corr b d'. terminate_task a t corr (ro_runtime r) = (b, d') \<longrightarrow>
       (if b then \<exists>i f. i < length (da_handlers (ro_runtime r)) \<and>
          identity (da_handlers (ro_runtime r) ! i) = (a, Task_job f) \<and> tf_task_id f = t \<and>
          tf_correlation_id f = Some corr \<and> d' = terminate_handler i (ro_runtime r)
        else d' = ro_runtime r)) \<and>
    (\<forall>f stopped d'. abort_own_task a f (ro_runtime r) = (stopped, d') \<longrightarrow>
       (if stopped then \<exists>i g. i < length (da_handlers (ro_runtime r)) \<and>
          identity (da_handlers (ro_runtime r) ! i) = (a, Task_job g) \<and> tf_task_id g = tf_task_id f \<and>
          \<not> mismatch (tf_correlation_id f) (tf_correlation_id g) \<and> d' = abort_handler i (ro_runtime r)
        else d' = ro_runtime r)) \<and>
    (\<forall>f stopped found d'. abort_run stopped f (ro_runtime r) = (found, d') \<longrightarrow>
       (\<exists>w. d' = (ro_runtime r)\<lparr>da_runs := w\<rparr> \<and> rr_runs w = rr_runs (da_runs (ro_runtime r)) \<and>
          (\<forall>n. signal_cancelled n w \<longleftrightarrow> signal_cancelled n (da_runs (ro_runtime r)) \<or>
             \<not> stopped \<and> rr_runs (da_runs (ro_runtime r)) (tf_task_id f) = Some n))) \<and>
    (\<forall>f n. \<not> fst (abort_own_task a f (ro_runtime r)) \<and> rr_runs (da_runs (ro_runtime r)) (tf_task_id f) = Some n \<longrightarrow>
       signal_cancelled n (da_runs (handle_abort a f (ro_runtime r))) \<and>
       of_text (last (da_outbox (handle_abort a f (ro_runtime r)))) = Task_aborted) \<and>
    (\<forall>sp \<in> set (ro_spawned r). dispatched_task (ro_runtime r) (sp_subscriber sp) (sp_task_id sp)) \<and>
    (\<forall>t b n. ro_registry r t = Some (b, n) \<longrightarrow>
       n < length (ro_spawned r) \<and> sp_task_id (ro_spawned r ! n) = t \<and> sp_subscriber (ro_spawned r ! n) = b) \<and>
    (\<forall>t b n has_row finished message. ro_registry r t = Some (b, n) \<and> b \<noteq> a \<and> \<not> finished n \<longrightarrow>
       ro_registry (router_handle session_for_task terminate_task has_row finished a message r) t = Some (b, n) \<or>
       (\<exists>fps. message = Subscribe t fps True \<and> dispatched_task (ro_runtime r) a t))"
proof -
  let ?d = "ro_runtime r"
  have ok: "worker_tasks.router_ok c r" by (rule worker_run_ok [OF assms(1)])
  then have d: "plain_daemon c ?d" by (simp add: worker_tasks.router_ok_def)
  have runs: "registry_ok (da_runs ?d)" by (rule worker_run_registry [OF assms(1)])
  have own: "\<exists>f. rt_abort t < length (da_handlers ?d) \<and> identity (da_handlers ?d ! rt_abort t) = (a, Task_job f) \<and>
      tf_task_id f = n \<and> rt_correlation_id t = tf_correlation_id f"
    if "da_running ?d (task_key a n) = Some t" for n t
    using own_record [OF d assms(2) that] by (auto simp: identity_def)
  have kill: "if b then \<exists>i f. i < length (da_handlers ?d) \<and> identity (da_handlers ?d ! i) = (a, Task_job f) \<and>
        tf_task_id f = t \<and> tf_correlation_id f = Some corr \<and> d' = terminate_handler i ?d
      else d' = ?d" if k: "terminate_task a t corr ?d = (b, d')" for t corr b d'
    using k own by (cases "da_running ?d (task_key a t)") (fastforce simp: terminate_task_def split: if_splits)+
  have abort: "if stopped then \<exists>i g. i < length (da_handlers ?d) \<and> identity (da_handlers ?d ! i) = (a, Task_job g) \<and>
        tf_task_id g = tf_task_id f \<and> \<not> mismatch (tf_correlation_id f) (tf_correlation_id g) \<and> d' = abort_handler i ?d
      else d' = ?d" if k: "abort_own_task a f ?d = (stopped, d')" for f stopped d'
    using k own by (cases "da_running ?d (task_key a (tf_task_id f))") (fastforce simp: abort_own_task_def split: if_splits)+
  have run: "\<exists>w. d' = ?d\<lparr>da_runs := w\<rparr> \<and> rr_runs w = rr_runs (da_runs ?d) \<and>
      (\<forall>n. signal_cancelled n w \<longleftrightarrow> signal_cancelled n (da_runs ?d) \<or> \<not> stopped \<and> rr_runs (da_runs ?d) (tf_task_id f) = Some n)"
    if k: "abort_run stopped f ?d = (found, d')" for f stopped found d'
  proof (cases stopped)
    case True
    then show ?thesis using k by (intro exI [of _ "da_runs ?d"]) (simp add: abort_run_def)
  next
    case False
    then show ?thesis using k run_cancel_signals [OF runs]
      by (intro exI [of _ "snd (run_cancel (tf_task_id f) (da_runs ?d))"]) (auto simp: abort_run_def split: prod.splits)
  qed
  have stranger: "signal_cancelled n (da_runs (handle_abort a f ?d)) \<and>
      of_text (last (da_outbox (handle_abort a f ?d))) = Task_aborted"
    if n: "\<not> fst (abort_own_task a f ?d)" "rr_runs (da_runs ?d) (tf_task_id f) = Some n" for f n
  proof -
    have "abort_own_task a f ?d = (False, ?d)" using n(1) abort [of f False] by (cases "abort_own_task a f ?d") auto
    then show ?thesis
      using n(2) run_cancel_signals [OF runs, where i = "tf_task_id f"]
      by (auto simp: handle_abort_def abort_run_def acknowledge_abort_def reply_def run_is_running_def split: prod.splits)
  qed
  have streams: "\<forall>sp \<in> set (ro_spawned r). dispatched_task ?d (sp_subscriber sp) (sp_task_id sp)"
    "\<forall>t b n. ro_registry r t = Some (b, n) \<longrightarrow>
      n < length (ro_spawned r) \<and> sp_task_id (ro_spawned r ! n) = t \<and> sp_subscriber (ro_spawned r ! n) = b"
    using ok by (simp_all add: worker_tasks.router_ok_def)
  have kept: "ro_registry (router_handle session_for_task terminate_task has_row finished a message r) t = Some (b, n) \<or>
      (\<exists>fps. message = Subscribe t fps True \<and> dispatched_task ?d a t)"
    if "ro_registry r t = Some (b, n)" "b \<noteq> a" "\<not> finished n" for t b n has_row finished message
    using stream_kept [OF that(1,2), where finished = finished and message = message and has_row = has_row and
        session_for = session_for_task and terminate = terminate_task] that(3)
      worker_tasks.session_known [OF d assms(2)] by blast
  show ?thesis
    by (intro conjI allI impI; (elim conjE)?;
      ((rule kill abort run kept stranger [THEN conjunct1] stranger [THEN conjunct2]; assumption) | (use streams in blast)))
qed

text \<open>A peer that never dispatched anything stops a run that the process claimed for someone else.\<close>

lemma peers_reach_own_tasks_witness:
  "\<exists>r n. worker_run ex_daemon_config r \<and> da_handlers (ro_runtime r) = [] \<and>
     \<not> signal_cancelled n (da_runs (ro_runtime r)) \<and>
     signal_cancelled n (da_runs (handle_abort [97] ex_task (ro_runtime r)))"
proof -
  let ?d = "daemon_new ex_daemon_config" and ?c = ex_daemon_config
  let ?r = "(router_new ?d)\<lparr>ro_runtime := ?d\<lparr>da_runs := snd (run_claim [116, 49] (da_runs ?d))\<rparr>\<rparr>"
  have runtime: "ro_runtime (router_new ?d) = ?d" "da_handlers ?d = []" "da_running ?d = (\<lambda>_. None)"
    by (simp_all add: router_new_def daemon_new_def)
  have run: "worker_run ?c ?r"
    by (rule worker_run.served [OF worker_run.started]) (simp_all add: runtime daemon_step.run_claimed)
  have n: "rr_runs (da_runs (ro_runtime ?r)) (tf_task_id ex_task) = Some 0" "\<not> signal_cancelled 0 (da_runs (ro_runtime ?r))"
    by (simp_all add: daemon_new_def registry_new_def run_claim_def run_register_def run_is_running_def ex_task_def
        signal_cancelled_def)
  have "\<not> fst (abort_own_task [97] ex_task (ro_runtime ?r))" by (simp add: abort_own_task_def runtime)
  moreover have "plain_address [97]" by (simp add: plain_address_def)
  ultimately have "signal_cancelled 0 (da_runs (handle_abort [97] ex_task (ro_runtime ?r)))"
    using peers_reach_own_tasks [OF run, of "[97]"] n(1) by blast
  then show ?thesis using run n(2) runtime by (intro exI [of _ ?r] exI [of _ 0]) simp
qed

text \<open>C16.  The registry has one stream per task id, whoever dispatched the task.  While a peer watches its
  task, another peer that runs a task of the same id is refused a stream without a word; if it asks
  with a resync, it gets one and the first peer's stream is aborted.\<close>

theorem streams_collide:
  assumes "session_for_task (ro_runtime r) b t = Some s" "has_row s" "ro_registry r t = Some (a, n)" "\<not> finished n"
  shows "router_handle session_for_task terminate_task has_row finished b (Subscribe t fps False) r
       = r\<lparr>ro_registry := prune finished (ro_registry r)\<rparr> \<and>
    (let r' = router_handle session_for_task terminate_task has_row finished b (Subscribe t fps True) r
     in ro_registry r' t = Some (b, length (ro_spawned r)) \<and>
        fst (subscribe t b (length (ro_spawned r)) (prune finished (ro_registry r))) = Some n)"
proof -
  have "prune finished (ro_registry r) t = Some (a, n)" using assms(3,4) by (simp add: prune_def)
  then show ?thesis
    using assms by (simp add: router_handle_def router_subscribe_def registry_contains_def subscribe_def
        unsubscribe_def)
qed

lemma streams_collide_witness:
  "\<exists>d r s. daemon_run ex_daemon_config d \<and> session_for_task d [97] [116, 49] = Some [115] \<and>
     session_for_task d [98] [116, 49] = Some s \<and> ro_runtime r = d \<and> ro_registry r [116, 49] = Some ([97], 0) \<and>
     ro_registry (router_handle session_for_task terminate_task (\<lambda>_. True) (\<lambda>_. False) [98]
       (Subscribe [116, 49] 1 True) r) [116, 49] = Some ([98], 1)"
proof -
  let ?c = ex_daemon_config
  have keys: "task_key [98] [116, 49] \<noteq> task_key [97] [116, 49]" and id: "tf_task_id ex_task = [116, 49]"
    by (simp_all add: task_key_def ex_task_def)
  have c: "dc_max_pending ?c = 16" "da_admitted (daemon_new ?c) = 0" "da_free_slots (daemon_new ?c) = 2"
    "da_running (daemon_new ?c) = (\<lambda>_. None)"
    by (simp_all add: ex_daemon_config_def daemon_new_def)
  obtain d1 t1 where d1: "daemon_run ?c d1" "da_running d1 = (\<lambda>_. None)(task_key [97] [116, 49] \<mapsto> t1)"
    "rt_session_id t1 = Some [115]" "da_admitted d1 = 1" "da_free_slots d1 = 1"
    by (rule serve_task [OF daemon_run.started _ _ ex_resolves, of "[97]" "[115]"]) (use c id in auto)
  obtain d t2 where d: "daemon_run ?c d" "da_running d = (da_running d1)(task_key [98] [116, 49] \<mapsto> t2)"
    "rt_session_id t2 = Some [117]"
    by (rule serve_task [OF d1(1) _ _ ex_resolves, of "[98]" "[117]"]) (use c id keys d1 in auto)
  let ?r = "\<lparr>ro_runtime = d, ro_registry = [[116, 49] \<mapsto> ([97], 0)],
    ro_spawned = [\<lparr>sp_task_id = [116, 49], sp_session_id = [115], sp_subscriber = [97], sp_max_fps = 1\<rparr>]\<rparr>"
  have sessions: "session_for_task d [97] [116, 49] = Some [115]" "session_for_task d [98] [116, 49] = Some [117]"
    using d d1 keys by (simp_all add: session_for_task_def)
  have "ro_registry (router_handle session_for_task terminate_task (\<lambda>_. True) (\<lambda>_. False) [98]
      (Subscribe [116, 49] 1 True) ?r) [116, 49] = Some ([98], length (ro_spawned ?r))"
    using streams_collide [of ?r "[98]" "[116, 49]" "[117]" "\<lambda>_. True" "[97]" 0 "\<lambda>_. False" 1] sessions
    by (simp add: Let_def)
  then show ?thesis using d(1) sessions by (intro exI [of _ d] exI [of _ ?r] exI [of _ "[117]"]) simp
qed

end
