(* ===== verification/WorkTypes.thy ===== *)
theory WorkTypes
  imports DaemonTypes
begin

text \<open>
  What a coding-agent harness is working on, in one vocabulary
  (\<open>src/src/sdk/src/harness_work/types.rs\<close> and \<open>mod.rs\<close>), and the JSON values its events carry.

  A JSON number (\<open>serde_json::Number\<close>) is of type \<open>'n\<close>; what the fold reads of one is the record
  \<open>number_ops\<close>, with floats of type \<open>'f\<close>,
  whose equality stands for that of \<open>f64\<close> (JSON has no NaN, and the two zeros are one value).  An object has one value per key.
\<close>

section \<open>JSON values\<close>

datatype 'n json =
    Null | Bool bool | Number 'n | String rstr | Array "'n json list" | Object "(rstr \<times> 'n json) list"

record ('n, 'f) number_ops =
  no_i64 :: "'n \<Rightarrow> i64 option"
  no_f64 :: "'n \<Rightarrow> 'f option"

fun json_get :: "'n json \<Rightarrow> rstr \<Rightarrow> 'n json option" where
  "json_get (Object kvs) key = map_of kvs key"
| "json_get _ key = None"

fun as_str :: "'n json \<Rightarrow> rstr option" where
  "as_str (String s) = Some s"
| "as_str _ = None"

fun as_bool :: "'n json \<Rightarrow> bool option" where
  "as_bool (Bool b) = Some b"
| "as_bool _ = None"

fun as_array :: "'n json \<Rightarrow> 'n json list option" where
  "as_array (Array xs) = Some xs"
| "as_array _ = None"

fun is_object :: "'n json \<Rightarrow> bool" where
  "is_object (Object kvs) = True"
| "is_object _ = False"

definition as_i64 :: "('n, 'f) number_ops \<Rightarrow> 'n json \<Rightarrow> i64 option" where
  "as_i64 ops v = (case v of Number n \<Rightarrow> no_i64 ops n | _ \<Rightarrow> None)"

definition as_f64 :: "('n, 'f) number_ops \<Rightarrow> 'n json \<Rightarrow> 'f option" where
  "as_f64 ops v = (case v of Number n \<Rightarrow> no_f64 ops n | _ \<Rightarrow> None)"

text \<open>\<open>payload.get(key).and_then(Value::as_str)\<close>.\<close>

definition get_str :: "'n json \<Rightarrow> string \<Rightarrow> rstr option" where
  "get_str payload key = Option.bind (json_get payload (lit key)) as_str"

section \<open>Event kinds\<close>

definition TODO_UPDATE :: rstr where "TODO_UPDATE = lit ''todo_update''"
definition PLAN_UPDATE :: rstr where "PLAN_UPDATE = lit ''plan_update''"
definition SUBAGENT_START :: rstr where "SUBAGENT_START = lit ''subagent_start''"
definition FILE_CHANGE :: rstr where "FILE_CHANGE = lit ''file_change''"
definition SESSION_INFO :: rstr where "SESSION_INFO = lit ''session_info''"
definition RUN_RESULT :: rstr where "RUN_RESULT = lit ''run_result''"

definition is_work_kind :: "rstr \<Rightarrow> bool" where
  "is_work_kind kind \<longleftrightarrow>
     kind \<in> {TODO_UPDATE, PLAN_UPDATE, SUBAGENT_START, FILE_CHANGE, SESSION_INFO, RUN_RESULT}"

section \<open>The work model\<close>

datatype work_item_status = Pending | In_progress | Completed | Cancelled

definition lowered :: "rstr \<Rightarrow> rstr" where
  "lowered v = map ascii_lower (trim v)"

definition status_from_wire :: "rstr \<Rightarrow> work_item_status" where
  "status_from_wire v =
     (if lowered v \<in> set (map lit [''in_progress'', ''in-progress'', ''active'', ''running'', ''started'']) then In_progress
      else if lowered v \<in> set (map lit [''completed'', ''complete'', ''done'', ''finished'']) then Completed
      else if lowered v \<in> set (map lit [''cancelled'', ''canceled'', ''skipped'', ''abandoned'']) then Cancelled
      else Pending)"

fun status_label :: "work_item_status \<Rightarrow> rstr" where
  "status_label Pending = lit ''pending''"
| "status_label In_progress = lit ''in_progress''"
| "status_label Completed = lit ''completed''"
| "status_label Cancelled = lit ''cancelled''"

definition is_terminal :: "work_item_status \<Rightarrow> bool" where
  "is_terminal s \<longleftrightarrow> s = Completed \<or> s = Cancelled"

record todo_item =
  td_text :: rstr
  td_status :: work_item_status
  td_active_form :: "rstr option"

definition todo_display :: "todo_item \<Rightarrow> rstr" where
  "todo_display t =
     (case td_active_form t of
        Some form \<Rightarrow> if td_status t = In_progress \<and> trim form \<noteq> [] then form else td_text t
      | None \<Rightarrow> td_text t)"

datatype subagent_status = Running_agent | Done_agent | Failed_agent

record subagent_run =
  sa_call_id :: rstr
  sa_agent_type :: "rstr option"
  sa_description :: rstr
  sa_prompt :: "rstr option"
  sa_status :: subagent_status
  sa_result :: "rstr option"
  sa_started_at :: i64
  sa_ended_at :: "i64 option"

definition subagent_label :: "subagent_run \<Rightarrow> rstr" where
  "subagent_label r =
     (if trim (sa_description r) \<noteq> [] then sa_description r
      else case sa_agent_type r of
        Some kind \<Rightarrow> if trim kind \<noteq> [] then kind else sa_call_id r
      | None \<Rightarrow> sa_call_id r)"

datatype file_change_kind = Added | Modified | Deleted

definition change_from_wire :: "rstr \<Rightarrow> file_change_kind" where
  "change_from_wire v =
     (if lowered v \<in> set (map lit [''add'', ''added'', ''create'', ''created'', ''new'']) then Added
      else if lowered v \<in> set (map lit [''delete'', ''deleted'', ''remove'', ''removed'']) then Deleted
      else Modified)"

record file_change =
  fc_path :: rstr
  fc_kind :: file_change_kind
  fc_edits :: i64
  fc_additions :: "i64 option"
  fc_deletions :: "i64 option"
  fc_at :: i64

record session_info =
  in_model :: "rstr option"
  in_cwd :: "rstr option"
  in_branch :: "rstr option"
  in_pull_request :: "rstr option"
  in_session_id :: "rstr option"
  in_permission_mode :: "rstr option"
  in_tools :: "rstr list"
  in_slash_commands :: "rstr list"
  in_mcp_servers :: "rstr list"

definition info_is_empty :: "session_info \<Rightarrow> bool" where
  "info_is_empty i \<longleftrightarrow> in_model i = None \<and> in_cwd i = None \<and> in_branch i = None \<and> in_pull_request i = None \<and>
     in_session_id i = None \<and> in_permission_mode i = None \<and> in_tools i = [] \<and> in_slash_commands i = [] \<and>
     in_mcp_servers i = []"

record 'f run_outcome =
  ro_ok :: bool
  ro_duration_ms :: "i64 option"
  ro_num_turns :: "i64 option"
  ro_cost_usd :: "'f option"
  ro_summary :: "rstr option"

record 'f work_snapshot =
  ws_goal :: "rstr option"
  ws_plan :: "todo_item list"
  ws_todos :: "todo_item list"
  ws_subagents :: "subagent_run list"
  ws_files :: "file_change list"
  ws_info :: session_info
  ws_outcome :: "'f run_outcome option"

definition snapshot_new :: "'f work_snapshot" where
  "snapshot_new = \<lparr>ws_goal = None, ws_plan = [], ws_todos = [], ws_subagents = [], ws_files = [],
     ws_info = \<lparr>in_model = None, in_cwd = None, in_branch = None, in_pull_request = None, in_session_id = None,
       in_permission_mode = None, in_tools = [], in_slash_commands = [], in_mcp_servers = []\<rparr>,
     ws_outcome = None\<rparr>"

definition snapshot_is_empty :: "'f work_snapshot \<Rightarrow> bool" where
  "snapshot_is_empty s \<longleftrightarrow> ws_goal s = None \<and> ws_plan s = [] \<and> ws_todos s = [] \<and> ws_subagents s = [] \<and>
     ws_files s = [] \<and> info_is_empty (ws_info s) \<and> ws_outcome s = None"

definition todo_progress :: "'f work_snapshot \<Rightarrow> nat \<times> nat" where
  "todo_progress s = (length (filter (\<lambda>t. is_terminal (td_status t)) (ws_todos s)), length (ws_todos s))"

definition current_todo :: "'f work_snapshot \<Rightarrow> todo_item option" where
  "current_todo s = find (\<lambda>t. td_status t = In_progress) (ws_todos s)"

definition running_subagents :: "'f work_snapshot \<Rightarrow> nat" where
  "running_subagents s = length (filter (\<lambda>r. sa_status r = Running_agent) (ws_subagents s))"

end
