(* ===== verification/WorkFold.thy ===== *)
theory WorkFold
  imports WorkTypes
begin

text \<open>
  The fold of a session's semantic events into a snapshot of the work
  (\<open>src/src/sdk/src/harness_work/fold.rs\<close>).  Each handler returns whether it says the snapshot changed,
  and the snapshot.
\<close>

definition MAX_SUBAGENTS :: nat where "MAX_SUBAGENTS = 64"
definition MAX_FILES :: nat where "MAX_FILES = 200"
definition MAX_TODOS :: nat where "MAX_TODOS = 200"
definition TEXT_CAP :: nat where "TEXT_CAP = 2000"

section \<open>Reading payloads\<close>

definition cap :: "rstr \<Rightarrow> nat \<Rightarrow> rstr" where
  "cap v max_chars = (if length v \<le> max_chars then v else take max_chars v @ [8230])"

definition nonblank :: "rstr option \<Rightarrow> rstr option" where
  "nonblank v = (case map_option trim v of Some t \<Rightarrow> if t = [] then None else Some t | None \<Rightarrow> None)"

definition text_field :: "'n json \<Rightarrow> string \<Rightarrow> rstr option" where
  "text_field payload key = nonblank (get_str payload key)"

text \<open>The first of the keys whose value is a string.\<close>

fun first_str :: "'n json \<Rightarrow> string list \<Rightarrow> rstr option" where
  "first_str v [] = None"
| "first_str v (key # keys) = (case get_str v key of Some s \<Rightarrow> Some s | None \<Rightarrow> first_str v keys)"

definition todo_from_value :: "'n json \<Rightarrow> todo_item option" where
  "todo_from_value v =
     (case as_str v of
        Some s \<Rightarrow>
          (if trim s = [] then None
           else Some \<lparr>td_text = cap (trim s) TEXT_CAP, td_status = Pending, td_active_form = None\<rparr>)
      | None \<Rightarrow>
          if \<not> is_object v then None
          else case nonblank (first_str v [''content'', ''text'', ''title'', ''step'', ''task'', ''description'']) of
            None \<Rightarrow> None
          | Some s \<Rightarrow>
              Some \<lparr>td_text = cap s TEXT_CAP,
                td_status = (case get_str v ''status'' of
                   Some raw \<Rightarrow> status_from_wire raw
                 | None \<Rightarrow> (case Option.bind (json_get v (lit ''completed'')) as_bool of
                     Some True \<Rightarrow> Completed | _ \<Rightarrow> Pending)),
                td_active_form = map_option (\<lambda>f. cap f TEXT_CAP)
                  (nonblank (first_str v [''activeForm'', ''active_form'']))\<rparr>)"

definition todos_of :: "'n json list \<Rightarrow> todo_item list" where
  "todos_of items = take MAX_TODOS (List.map_filter todo_from_value items)"

definition merge_text :: "rstr option \<Rightarrow> 'n json \<Rightarrow> string \<Rightarrow> rstr option" where
  "merge_text slot payload key = (case text_field payload key of Some v \<Rightarrow> Some v | None \<Rightarrow> slot)"

definition merge_list :: "rstr list \<Rightarrow> 'n json \<Rightarrow> string \<Rightarrow> rstr list" where
  "merge_list slot payload key =
     (case Option.bind (json_get payload (lit key)) as_array of
        None \<Rightarrow> slot
      | Some items \<Rightarrow>
          (let vs = filter (\<lambda>v. v \<noteq> []) (map trim (List.map_filter as_str items))
           in if vs \<noteq> [] then vs else slot))"

section \<open>Handlers\<close>

definition apply_todos :: "'n json \<Rightarrow> 'f work_snapshot \<Rightarrow> bool \<times> 'f work_snapshot" where
  "apply_todos payload s =
     (case Option.bind (json_get payload (lit ''todos'')) as_array of
        None \<Rightarrow> (False, s)
      | Some items \<Rightarrow>
          if todos_of items = ws_todos s then (False, s) else (True, s\<lparr>ws_todos := todos_of items\<rparr>))"

definition apply_goal :: "'n json \<Rightarrow> 'f work_snapshot \<Rightarrow> bool \<times> 'f work_snapshot" where
  "apply_goal payload s =
     (case get_str payload ''goal'' of
        None \<Rightarrow> (False, s)
      | Some g \<Rightarrow>
          (let goal = cap (trim g) TEXT_CAP
           in if goal \<noteq> [] \<and> ws_goal s \<noteq> Some goal then (True, s\<lparr>ws_goal := Some goal\<rparr>) else (False, s)))"

definition apply_plan :: "'n json \<Rightarrow> 'f work_snapshot \<Rightarrow> bool \<times> 'f work_snapshot" where
  "apply_plan payload s =
     (let (changed, s1) = apply_goal payload s
      in case Option.bind (json_get payload (lit ''steps'')) as_array of
           None \<Rightarrow> (changed, s1)
         | Some items \<Rightarrow>
             if todos_of items \<noteq> ws_plan s1 then (True, s1\<lparr>ws_plan := todos_of items\<rparr>) else (changed, s1))"

text \<open>\<open>position(..).unwrap_or(0)\<close> and \<open>Vec::remove\<close>.\<close>

fun position :: "('a \<Rightarrow> bool) \<Rightarrow> 'a list \<Rightarrow> nat option" where
  "position P [] = None"
| "position P (x # xs) = (if P x then Some 0 else map_option Suc (position P xs))"

definition remove_at :: "nat \<Rightarrow> 'a list \<Rightarrow> 'a list" where
  "remove_at i xs = take i xs @ drop (Suc i) xs"

lemma length_remove_at: "i < length xs \<Longrightarrow> length (remove_at i xs) = length xs - 1"
  by (simp add: remove_at_def)

lemma position_less: "position P xs = Some i \<Longrightarrow> i < length xs"
  by (induction xs arbitrary: i) (auto split: if_splits)

definition subagent_victim :: "subagent_run list \<Rightarrow> nat" where
  "subagent_victim rs = (case position (\<lambda>r. sa_status r \<noteq> Running_agent) rs of Some i \<Rightarrow> i | None \<Rightarrow> 0)"

lemma subagent_victim_less: "rs \<noteq> [] \<Longrightarrow> subagent_victim rs < length rs"
  by (auto simp: subagent_victim_def dest: position_less split: option.split)

function evict_subagents :: "subagent_run list \<Rightarrow> subagent_run list" where
  "evict_subagents rs =
     (if length rs > MAX_SUBAGENTS then evict_subagents (remove_at (subagent_victim rs) rs) else rs)"
  by pat_completeness auto
termination
proof (relation "measure length")
  fix rs :: "subagent_run list"
  assume "MAX_SUBAGENTS < length rs"
  then show "(remove_at (subagent_victim rs) rs, rs) \<in> measure length"
    using subagent_victim_less [of rs] length_remove_at [of "subagent_victim rs" rs] by (cases rs) auto
qed simp

declare evict_subagents.simps [simp del]

definition apply_subagent_start :: "'n json \<Rightarrow> i64 \<Rightarrow> 'f work_snapshot \<Rightarrow> bool \<times> 'f work_snapshot" where
  "apply_subagent_start payload at s =
     (let call_id = (case get_str payload ''call_id'' of Some v \<Rightarrow> v | None \<Rightarrow> []);
          description = (case get_str payload ''description'' of Some v \<Rightarrow> cap (trim v) TEXT_CAP | None \<Rightarrow> [])
      in if call_id = [] \<and> description = [] then (False, s)
         else if call_id \<noteq> [] \<and> (\<exists>r \<in> set (ws_subagents s). sa_call_id r = call_id) then (False, s)
         else (True, s\<lparr>ws_subagents := evict_subagents (ws_subagents s @
           [\<lparr>sa_call_id = call_id, sa_agent_type = text_field payload ''agent_type'', sa_description = description,
             sa_prompt = map_option (\<lambda>p. cap p TEXT_CAP) (text_field payload ''prompt''),
             sa_status = Running_agent, sa_result = None, sa_started_at = at, sa_ended_at = None\<rparr>])\<rparr>))"

definition apply_tool_result :: "'n json \<Rightarrow> i64 \<Rightarrow> 'f work_snapshot \<Rightarrow> bool \<times> 'f work_snapshot" where
  "apply_tool_result payload at s =
     (case get_str payload ''call_id'' of
        None \<Rightarrow> (False, s)
      | Some call_id \<Rightarrow>
          if call_id = [] then (False, s)
          else case position (\<lambda>r. sa_call_id r = call_id \<and> sa_status r = Running_agent) (ws_subagents s) of
            None \<Rightarrow> (False, s)
          | Some i \<Rightarrow>
              (let is_error = (case Option.bind (json_get payload (lit ''is_error'')) as_bool of Some b \<Rightarrow> b | None \<Rightarrow> False);
                   result = (case get_str payload ''output'' of
                      Some v \<Rightarrow> (let o1 = cap (trim v) TEXT_CAP in if o1 = [] then None else Some o1)
                    | None \<Rightarrow> None)
               in (True, s\<lparr>ws_subagents := (ws_subagents s)[i := (ws_subagents s ! i)\<lparr>
                    sa_status := (if is_error then Failed_agent else Done_agent),
                    sa_result := result, sa_ended_at := Some at\<rparr>]\<rparr>)))"

text \<open>A repeated edit.\<close>

definition touch_file ::
  "file_change_kind \<Rightarrow> i64 option \<Rightarrow> i64 option \<Rightarrow> i64 \<Rightarrow> file_change \<Rightarrow> file_change" where
  "touch_file kind additions deletions at old = old\<lparr>
     fc_edits := fc_edits old + 1, fc_at := at,
     fc_kind := (if kind = Deleted then Deleted else fc_kind old),
     fc_additions := (if additions \<noteq> None then additions else fc_additions old),
     fc_deletions := (if deletions \<noteq> None then deletions else fc_deletions old)\<rparr>"

definition apply_file_change ::
  "('n, 'f) number_ops \<Rightarrow> 'n json \<Rightarrow> i64 \<Rightarrow> 'f work_snapshot \<Rightarrow> bool \<times> 'f work_snapshot" where
  "apply_file_change ops payload at s =
     (case text_field payload ''path'' of
        None \<Rightarrow> (False, s)
      | Some path \<Rightarrow>
          (let kind = (case get_str payload ''change'' of Some v \<Rightarrow> change_from_wire v | None \<Rightarrow> Modified);
               additions = Option.bind (json_get payload (lit ''additions'')) (as_i64 ops);
               deletions = Option.bind (json_get payload (lit ''deletions'')) (as_i64 ops)
           in case position (\<lambda>f. fc_path f = path) (ws_files s) of
                Some i \<Rightarrow>
                  (True, s\<lparr>ws_files := (ws_files s)[i := touch_file kind additions deletions at (ws_files s ! i)]\<rparr>)
              | None \<Rightarrow>
                  (let files = ws_files s @ [\<lparr>fc_path = path, fc_kind = kind, fc_edits = 1,
                     fc_additions = additions, fc_deletions = deletions, fc_at = at\<rparr>]
                   in (True, s\<lparr>ws_files := drop (length files - MAX_FILES) files\<rparr>))))"

definition merge_info :: "'n json \<Rightarrow> session_info \<Rightarrow> session_info" where
  "merge_info payload i0 =
     (let branch = text_field payload ''branch''; cwd = text_field payload ''cwd'';
          i = (if branch \<noteq> None \<and> branch \<noteq> in_branch i0 \<or> cwd \<noteq> None \<and> cwd \<noteq> in_cwd i0
               then i0\<lparr>in_pull_request := None\<rparr> else i0)
      in \<lparr>in_model = merge_text (in_model i) payload ''model'',
          in_cwd = merge_text (in_cwd i) payload ''cwd'',
          in_branch = merge_text (in_branch i) payload ''branch'',
          in_pull_request = merge_text (in_pull_request i) payload ''pull_request'',
          in_session_id = merge_text (in_session_id i) payload ''session_id'',
          in_permission_mode = merge_text (in_permission_mode i) payload ''permission_mode'',
          in_tools = merge_list (in_tools i) payload ''tools'',
          in_slash_commands = merge_list (in_slash_commands i) payload ''slash_commands'',
          in_mcp_servers = merge_list (in_mcp_servers i) payload ''mcp_servers''\<rparr>)"

definition apply_session_info :: "'n json \<Rightarrow> 'f work_snapshot \<Rightarrow> bool \<times> 'f work_snapshot" where
  "apply_session_info payload s =
     (let i = merge_info payload (ws_info s) in (i \<noteq> ws_info s, s\<lparr>ws_info := i\<rparr>))"

definition apply_run_result ::
  "('n, 'f) number_ops \<Rightarrow> 'n json \<Rightarrow> 'f work_snapshot \<Rightarrow> bool \<times> 'f work_snapshot" where
  "apply_run_result ops payload s =
     (let outcome = \<lparr>
        ro_ok = (case Option.bind (json_get payload (lit ''ok'')) as_bool of Some b \<Rightarrow> b | None \<Rightarrow> True),
        ro_duration_ms = Option.bind (json_get payload (lit ''duration_ms'')) (as_i64 ops),
        ro_num_turns = Option.bind (json_get payload (lit ''num_turns'')) (as_i64 ops),
        ro_cost_usd = Option.bind (json_get payload (lit ''cost_usd'')) (as_f64 ops),
        ro_summary = map_option (\<lambda>v. cap v TEXT_CAP) (text_field payload ''summary'')\<rparr>
      in if ws_outcome s = Some outcome then (False, s) else (True, s\<lparr>ws_outcome := Some outcome\<rparr>))"

definition apply_work ::
  "('n, 'f) number_ops \<Rightarrow> rstr \<Rightarrow> 'n json \<Rightarrow> i64 \<Rightarrow> 'f work_snapshot \<Rightarrow> bool \<times> 'f work_snapshot" where
  "apply_work ops kind payload at s =
     (if kind = TODO_UPDATE then apply_todos payload s
      else if kind = PLAN_UPDATE then apply_plan payload s
      else if kind = SUBAGENT_START then apply_subagent_start payload at s
      else if kind = FILE_CHANGE then apply_file_change ops payload at s
      else if kind = SESSION_INFO then apply_session_info payload s
      else if kind = RUN_RESULT then apply_run_result ops payload s
      else if kind = lit ''tool_result'' then apply_tool_result payload at s
      else (False, s))"

end
