(* ===== verification/WorkSpec.thy ===== *)
theory WorkSpec
  imports WorkFold
begin

text \<open>What the work fold promises: a bounded snapshot, an honest report of change, and no running
  sub-agent forgotten while a settled one could be.\<close>

section \<open>Facts\<close>

lemma length_cap: "length (cap v n) \<le> Suc n"
  by (simp add: cap_def)

definition todo_ok :: "todo_item \<Rightarrow> bool" where
  "todo_ok t \<longleftrightarrow> td_text t \<noteq> [] \<and> length (td_text t) \<le> Suc TEXT_CAP"

lemma cap_nonempty: "v \<noteq> [] \<Longrightarrow> cap v TEXT_CAP \<noteq> []"
  by (simp add: cap_def)

lemma todo_from_value_ok: "todo_from_value v = Some t \<Longrightarrow> todo_ok t"
  by (auto simp: todo_from_value_def todo_ok_def nonblank_def cap_nonempty length_cap
      split: option.splits if_splits)

lemma todos_of_ok: "length (todos_of items) \<le> MAX_TODOS \<and> (\<forall>t \<in> set (todos_of items). todo_ok t)"
  using todo_from_value_ok
  by (auto simp: todos_of_def List.map_filter_def dest!: in_set_takeD)

text \<open>Sub-agents.\<close>

definition call_ids :: "subagent_run list \<Rightarrow> rstr list" where
  "call_ids rs = filter (\<lambda>c. c \<noteq> []) (map sa_call_id rs)"

abbreviation still_running :: "subagent_run list \<Rightarrow> subagent_run list" where
  "still_running rs \<equiv> filter (\<lambda>r. sa_status r = Running_agent) rs"

lemma position_Some: "position P xs = Some i \<Longrightarrow> i < length xs \<and> P (xs ! i)"
  by (induction xs arbitrary: i) (auto split: if_splits)

lemma position_None: "position P xs = None \<longleftrightarrow> (\<forall>x \<in> set xs. \<not> P x)"
  by (induction xs) auto

lemma position_snoc: "\<not> P y \<Longrightarrow> position P (xs @ [y]) = position P xs"
  by (induction xs) auto

lemma remove_at_append: "i < length xs \<Longrightarrow> remove_at i (xs @ ys) = remove_at i xs @ ys"
  by (simp add: remove_at_def)

lemma filter_remove_at: "i < length xs \<Longrightarrow> \<not> P (xs ! i) \<Longrightarrow> filter P (remove_at i xs) = filter P xs"
  using id_take_nth_drop [of i xs] by (simp add: remove_at_def) (metis filter.simps(2) filter_append)

lemma set_remove_at: "set (remove_at i xs) \<subseteq> set xs"
  by (auto simp: remove_at_def dest: in_set_takeD in_set_dropD)

lemma call_ids_append: "call_ids (xs @ ys) = call_ids xs @ call_ids ys"
  by (simp add: call_ids_def)

lemma call_ids_remove_at:
  assumes "distinct (call_ids xs)" "i < length xs"
  shows "distinct (call_ids (remove_at i xs))"
proof -
  have "xs = take i xs @ [xs ! i] @ drop (Suc i) xs" using id_take_nth_drop [OF assms(2)] by simp
  then have "call_ids xs = call_ids (take i xs) @ call_ids [xs ! i] @ call_ids (drop (Suc i) xs)"
    by (metis call_ids_append)
  then show ?thesis using assms(1) by (auto simp: remove_at_def call_ids_append)
qed

lemma evict_keep: "length rs \<le> MAX_SUBAGENTS \<Longrightarrow> evict_subagents rs = rs"
  by (subst evict_subagents.simps) simp

lemma evict_step: "MAX_SUBAGENTS < length rs \<Longrightarrow> evict_subagents rs = evict_subagents (remove_at (subagent_victim rs) rs)"
  by (subst evict_subagents.simps) simp

text \<open>A spawn: at most one run goes, a settled one if there is one, never the new one.\<close>

lemma evict_one_subagent:
  assumes "length rs \<le> MAX_SUBAGENTS" "sa_status r = Running_agent"
  shows "evict_subagents (rs @ [r]) = rs @ [r] \<and> length rs < MAX_SUBAGENTS \<or>
    (\<exists>i < length rs. evict_subagents (rs @ [r]) = remove_at i rs @ [r] \<and> length rs = MAX_SUBAGENTS \<and>
      ((\<exists>x \<in> set rs. sa_status x \<noteq> Running_agent) \<longrightarrow> sa_status (rs ! i) \<noteq> Running_agent))"
proof (cases "length rs < MAX_SUBAGENTS")
  case True
  then show ?thesis by (simp add: evict_keep)
next
  case False
  then have len: "length rs = MAX_SUBAGENTS" "rs \<noteq> []" using assms(1) by (auto simp: MAX_SUBAGENTS_def)
  have v: "subagent_victim (rs @ [r]) = subagent_victim rs"
    using assms(2) by (simp add: subagent_victim_def position_snoc)
  have i: "subagent_victim rs < length rs" by (rule subagent_victim_less [OF len(2)])
  have "evict_subagents (rs @ [r]) = evict_subagents (remove_at (subagent_victim rs) rs @ [r])"
    using len(1) i evict_step [of "rs @ [r]"] by (simp add: v remove_at_append)
  also have "\<dots> = remove_at (subagent_victim rs) rs @ [r]"
    using length_remove_at [OF i] len by (simp add: evict_keep MAX_SUBAGENTS_def)
  finally have "evict_subagents (rs @ [r]) = remove_at (subagent_victim rs) rs @ [r]" .
  moreover have "sa_status (rs ! subagent_victim rs) \<noteq> Running_agent" if "\<exists>x \<in> set rs. sa_status x \<noteq> Running_agent"
    using that position_None [of "\<lambda>x. sa_status x \<noteq> Running_agent" rs]
    by (auto simp: subagent_victim_def dest: position_Some split: option.split)
  ultimately show ?thesis using i len(1) by blast
qed

section \<open>The invariant\<close>

definition snapshot_ok :: "'f work_snapshot \<Rightarrow> bool" where
  "snapshot_ok s \<longleftrightarrow>
     length (ws_subagents s) \<le> MAX_SUBAGENTS \<and> distinct (call_ids (ws_subagents s)) \<and>
     length (ws_files s) \<le> MAX_FILES \<and> distinct (map fc_path (ws_files s)) \<and> (\<forall>f \<in> set (ws_files s). fc_path f \<noteq> []) \<and>
     length (ws_todos s) \<le> MAX_TODOS \<and> (\<forall>t \<in> set (ws_todos s). todo_ok t) \<and>
     length (ws_plan s) \<le> MAX_TODOS \<and> (\<forall>t \<in> set (ws_plan s). todo_ok t)"

inductive work_run :: "('n, 'f) number_ops \<Rightarrow> 'f work_snapshot \<Rightarrow> bool" for ops where
  opened: "work_run ops snapshot_new"
| folded: "work_run ops s \<Longrightarrow> apply_work ops kind payload at s = (b, s') \<Longrightarrow> work_run ops s'"

lemma field_same [simp]:
  "s\<lparr>ws_todos := ts\<rparr> = s \<longleftrightarrow> ts = ws_todos s" "s\<lparr>ws_plan := ts\<rparr> = s \<longleftrightarrow> ts = ws_plan s"
  "s\<lparr>ws_goal := g\<rparr> = s \<longleftrightarrow> g = ws_goal s" "s\<lparr>ws_subagents := rs\<rparr> = s \<longleftrightarrow> rs = ws_subagents s"
  "s\<lparr>ws_files := fs\<rparr> = s \<longleftrightarrow> fs = ws_files s" "s\<lparr>ws_info := i\<rparr> = s \<longleftrightarrow> i = ws_info s"
  "s\<lparr>ws_outcome := out\<rparr> = s \<longleftrightarrow> out = ws_outcome s"
  "s\<lparr>ws_goal := g, ws_plan := ts\<rparr> = s \<longleftrightarrow> g = ws_goal s \<and> ts = ws_plan s"
  by (cases s; auto)+

lemma apply_todos_ok: "snapshot_ok s \<Longrightarrow> apply_todos payload s = (b, s') \<Longrightarrow> snapshot_ok s' \<and> b = (s' \<noteq> s)"
  by (auto simp: apply_todos_def snapshot_ok_def todos_of_ok split: option.splits if_splits)

lemma apply_plan_ok: "snapshot_ok s \<Longrightarrow> apply_plan payload s = (b, s') \<Longrightarrow> snapshot_ok s' \<and> b = (s' \<noteq> s)"
  by (auto simp: apply_plan_def apply_goal_def Let_def snapshot_ok_def todos_of_ok split: option.splits if_splits)

lemma apply_session_info_ok:
  "snapshot_ok s \<Longrightarrow> apply_session_info payload s = (b, s') \<Longrightarrow> snapshot_ok s' \<and> b = (s' \<noteq> s)"
  by (auto simp: apply_session_info_def Let_def snapshot_ok_def)

lemma apply_run_result_ok:
  "snapshot_ok s \<Longrightarrow> apply_run_result ops payload s = (b, s') \<Longrightarrow> snapshot_ok s' \<and> b = (s' \<noteq> s)"
  by (auto simp: apply_run_result_def Let_def snapshot_ok_def split: if_splits)

lemma apply_tool_result_ok:
  assumes "snapshot_ok s" "apply_tool_result payload at s = (b, s')"
  shows "snapshot_ok s' \<and> b = (s' \<noteq> s)"
proof (cases b)
  case False
  then show ?thesis using assms by (auto simp: apply_tool_result_def Let_def split: option.splits if_splits)
next
  case True
  then obtain call_id i where
    p: "position (\<lambda>r. sa_call_id r = call_id \<and> sa_status r = Running_agent) (ws_subagents s) = Some i"
    "get_str payload ''call_id'' = Some call_id" "call_id \<noteq> []"
    using assms(2) by (auto simp: apply_tool_result_def Let_def split: option.splits if_splits)
  define r' where "r' = (ws_subagents s ! i)\<lparr>
    sa_status := (if (case Option.bind (json_get payload (lit ''is_error'')) as_bool of Some b \<Rightarrow> b | None \<Rightarrow> False)
      then Failed_agent else Done_agent),
    sa_result := (case get_str payload ''output'' of
      Some v \<Rightarrow> (let o1 = cap (trim v) TEXT_CAP in if o1 = [] then None else Some o1) | None \<Rightarrow> None),
    sa_ended_at := Some at\<rparr>"
  have i: "i < length (ws_subagents s)" "sa_status (ws_subagents s ! i) = Running_agent"
    using position_Some [OF p(1)] by simp_all
  have r': "sa_call_id r' = sa_call_id (ws_subagents s ! i)" "sa_status r' \<noteq> Running_agent"
    by (simp_all add: r'_def)
  have s': "s' = s\<lparr>ws_subagents := (ws_subagents s)[i := r']\<rparr>"
    using assms(2) p by (simp add: apply_tool_result_def Let_def r'_def)
  have "map sa_call_id ((ws_subagents s)[i := r']) = map sa_call_id (ws_subagents s)"
    using r'(1) by (metis list_update_id map_update)
  then have "call_ids ((ws_subagents s)[i := r']) = call_ids (ws_subagents s)" by (simp add: call_ids_def)
  moreover have "(ws_subagents s)[i := r'] \<noteq> ws_subagents s"
    using i r'(2) by (metis nth_list_update_eq)
  ultimately show ?thesis using True assms(1) by (simp add: s' snapshot_ok_def)
qed

lemma distinct_fresh_path:
  "distinct (map fc_path fs) \<Longrightarrow> \<forall>g \<in> set fs. fc_path g \<noteq> fc_path f \<Longrightarrow> distinct (map fc_path (drop n (fs @ [f])))"
  unfolding drop_map [symmetric] by (rule distinct_drop) auto

lemma apply_file_change_ok:
  assumes "snapshot_ok s" "apply_file_change ops payload at s = (b, s')"
  shows "snapshot_ok s' \<and> b = (s' \<noteq> s)"
proof (cases "text_field payload ''path''")
  case None
  then show ?thesis using assms by (simp add: apply_file_change_def)
next
  case (Some path)
  have path: "path \<noteq> []"
    using Some by (auto simp: text_field_def nonblank_def split: option.splits if_splits)
  show ?thesis
  proof (cases "position (\<lambda>f. fc_path f = path) (ws_files s)")
    case at_i: (Some i)
    obtain f' where s': "b" "s' = s\<lparr>ws_files := (ws_files s)[i := f']\<rparr>"
      and f': "fc_path f' = fc_path (ws_files s ! i)" "fc_edits f' = fc_edits (ws_files s ! i) + 1"
      using assms(2) by (auto simp: apply_file_change_def Some at_i Let_def touch_file_def)
    have i: "i < length (ws_files s)" using position_Some [OF at_i] by simp
    have paths: "map fc_path ((ws_files s)[i := f']) = map fc_path (ws_files s)"
      using f'(1) by (metis list_update_id map_update)
    then have "fc_path ` set ((ws_files s)[i := f']) = fc_path ` set (ws_files s)" by (metis set_map)
    moreover have "[] \<notin> fc_path ` set (ws_files s)" using assms(1) by (auto simp: snapshot_ok_def)
    ultimately have "\<forall>f \<in> set ((ws_files s)[i := f']). fc_path f \<noteq> []" by (metis imageI)
    moreover have "(ws_files s)[i := f'] \<noteq> ws_files s"
      using i f'(2) by (metis add_cancel_left_right nth_list_update_eq zero_neq_one)
    ultimately show ?thesis using s' paths assms(1) by (simp add: snapshot_ok_def)
  next
    case None
    define f where "f = \<lparr>fc_path = path,
      fc_kind = (case get_str payload ''change'' of Some v \<Rightarrow> change_from_wire v | None \<Rightarrow> Modified), fc_edits = 1,
      fc_additions = Option.bind (json_get payload (lit ''additions'')) (as_i64 ops),
      fc_deletions = Option.bind (json_get payload (lit ''deletions'')) (as_i64 ops), fc_at = at\<rparr>"
    have f: "fc_path f = path" by (simp add: f_def)
    have s': "b" "s' = s\<lparr>ws_files := drop (Suc (length (ws_files s)) - MAX_FILES) (ws_files s @ [f])\<rparr>"
      using assms(2) by (simp_all add: apply_file_change_def Some None Let_def f_def del: drop_append)
    let ?fs = "drop (Suc (length (ws_files s)) - MAX_FILES) (ws_files s @ [f])"
    have fresh: "\<forall>g \<in> set (ws_files s). fc_path g \<noteq> fc_path f" using None f by (simp add: position_None)
    have "distinct (map fc_path ?fs)" using distinct_fresh_path [OF _ fresh] assms(1) by (simp add: snapshot_ok_def del: drop_append)
    moreover have "\<forall>g \<in> set ?fs. fc_path g \<noteq> []"
      using assms(1) f path by (auto simp: snapshot_ok_def dest!: in_set_dropD)
    moreover have "f \<in> set ?fs" by (simp add: MAX_FILES_def)
    then have "?fs \<noteq> ws_files s" using fresh by metis
    ultimately show ?thesis using s' assms(1) by (simp add: snapshot_ok_def)
  qed
qed

lemma apply_subagent_start_ok:
  assumes "snapshot_ok s" "apply_subagent_start payload at s = (b, s')"
  shows "snapshot_ok s' \<and> (\<not> b \<longrightarrow> s' = s) \<and>
    (b \<longrightarrow> (s' \<noteq> s \<or> length (ws_subagents s) = MAX_SUBAGENTS \<and> get_str payload ''call_id'' \<in> {None, Some []}) \<and>
      (\<exists>r. last (ws_subagents s') = r \<and> sa_status r = Running_agent \<and> ws_subagents s' \<noteq> []) \<and>
      ((\<exists>x \<in> set (ws_subagents s). sa_status x \<noteq> Running_agent) \<longrightarrow>
        still_running (ws_subagents s') = still_running (ws_subagents s) @ [last (ws_subagents s')]))"
proof (cases b)
  case False
  then show ?thesis using assms by (auto simp: apply_subagent_start_def Let_def split: if_splits)
next
  case True
  let ?rs = "ws_subagents s"
  define r where "r = \<lparr>sa_call_id = (case get_str payload ''call_id'' of Some v \<Rightarrow> v | None \<Rightarrow> []),
    sa_agent_type = text_field payload ''agent_type'',
    sa_description = (case get_str payload ''description'' of Some v \<Rightarrow> cap (trim v) TEXT_CAP | None \<Rightarrow> []),
    sa_prompt = map_option (\<lambda>p. cap p TEXT_CAP) (text_field payload ''prompt''),
    sa_status = Running_agent, sa_result = None, sa_started_at = at, sa_ended_at = None\<rparr>"
  have r: "sa_status r = Running_agent"
    "sa_call_id r = (case get_str payload ''call_id'' of Some v \<Rightarrow> v | None \<Rightarrow> [])" by (simp_all add: r_def)
  have s': "s' = s\<lparr>ws_subagents := evict_subagents (?rs @ [r])\<rparr>"
    and fresh: "sa_call_id r \<noteq> [] \<longrightarrow> sa_call_id r \<notin> sa_call_id ` set ?rs"
    using assms(2) True unfolding r(2) by (auto simp: apply_subagent_start_def Let_def r_def split: if_splits)
  have len: "length ?rs \<le> MAX_SUBAGENTS" and ids: "distinct (call_ids ?rs)" using assms(1) by (simp_all add: snapshot_ok_def)
  have new: "distinct (call_ids (xs @ [r]))" if "distinct (call_ids xs)" "set xs \<subseteq> set ?rs" for xs
    using that fresh by (auto simp: call_ids_def)
  consider (keep) "evict_subagents (?rs @ [r]) = ?rs @ [r]" "length ?rs < MAX_SUBAGENTS"
    | (drop) i where "i < length ?rs" "evict_subagents (?rs @ [r]) = remove_at i ?rs @ [r]" "length ?rs = MAX_SUBAGENTS"
      "(\<exists>x \<in> set ?rs. sa_status x \<noteq> Running_agent) \<longrightarrow> sa_status (?rs ! i) \<noteq> Running_agent"
    using evict_one_subagent [OF len r(1)] by blast
  then show ?thesis
  proof cases
    case keep
    then show ?thesis using s' r True assms(1) new [OF ids] by (simp add: snapshot_ok_def)
  next
    case drop
    have "snapshot_ok s'"
      using assms(1) drop(1-3) s' new [OF call_ids_remove_at [OF ids drop(1)] set_remove_at] length_remove_at [OF drop(1)]
      by (simp add: snapshot_ok_def)
    moreover have "remove_at i ?rs @ [r] \<noteq> ?rs" if "sa_call_id r \<noteq> []"
    proof
      assume "remove_at i ?rs @ [r] = ?rs"
      then have "r \<in> set ?rs" by (metis in_set_conv_decomp)
      then show False using fresh that by blast
    qed
    moreover have "still_running (remove_at i ?rs @ [r]) = still_running ?rs @ [r]"
      if "\<exists>x \<in> set ?rs. sa_status x \<noteq> Running_agent"
      using filter_remove_at [OF drop(1), of "\<lambda>x. sa_status x = Running_agent"] drop(4) that r(1) by simp
    ultimately show ?thesis using s' drop(2,3) r True by (auto split: option.splits)
  qed
qed

lemma apply_work_ok:
  assumes "snapshot_ok s" "apply_work ops kind payload at s = (b, s')"
  shows "snapshot_ok s' \<and> (\<not> b \<longrightarrow> s' = s) \<and>
    (b \<longrightarrow> s' \<noteq> s \<or> kind = SUBAGENT_START \<and> length (ws_subagents s) = MAX_SUBAGENTS \<and>
      get_str payload ''call_id'' \<in> {None, Some []})"
proof -
  have ok: "snapshot_ok s' \<and> b = (s' \<noteq> s)" if "kind \<noteq> SUBAGENT_START"
    using assms that unfolding apply_work_def
    by (auto split: if_splits
        dest: apply_todos_ok [OF assms(1)] apply_plan_ok [OF assms(1)] apply_file_change_ok [OF assms(1)]
          apply_session_info_ok [OF assms(1)] apply_run_result_ok [OF assms(1)] apply_tool_result_ok [OF assms(1)]
        intro: assms(1))
  have "apply_subagent_start payload at s = (b, s')" if "kind = SUBAGENT_START"
    using assms(2) that by (simp add: apply_work_def TODO_UPDATE_def PLAN_UPDATE_def SUBAGENT_START_def lit_def)
  then show ?thesis using ok apply_subagent_start_ok [OF assms(1)] by blast
qed

lemma work_run_ok: "work_run ops s \<Longrightarrow> snapshot_ok s"
proof (induction rule: work_run.induct)
  case opened
  then show ?case by (simp add: snapshot_ok_def snapshot_new_def call_ids_def)
next
  case (folded s kind payload at b s')
  then show ?case using apply_work_ok by blast
qed

text \<open>The first key that holds a string decides, even when it is blank: the text under another key is lost.\<close>

lemma blank_content_hides_text:
  "todo_from_value (Object [(lit ''content'', String []), (lit ''text'', String v)]) = None"
  by (simp add: todo_from_value_def get_str_def lit_def nonblank_def trim_def)

section \<open>The property\<close>

text \<open>C40.  Whatever events arrive, the snapshot stays within its bounds, with one entry per path and per
  call; an event says it changed the snapshot exactly when it did (a spawn without a call id into a full
  list apart); a spawn is kept, at the end and running, and while a settled sub-agent is held no running
  one is dropped for it; an event of another kind changes nothing.\<close>

theorem work_fold_bounded:
  assumes "work_run ops s" "apply_work ops kind payload at s = (b, s')"
  shows "length (ws_subagents s') \<le> 64 \<and> distinct (call_ids (ws_subagents s')) \<and>
    length (ws_files s') \<le> 200 \<and> distinct (map fc_path (ws_files s')) \<and>
    length (ws_todos s') \<le> 200 \<and> length (ws_plan s') \<le> 200 \<and>
    (\<forall>t \<in> set (ws_todos s') \<union> set (ws_plan s'). td_text t \<noteq> [] \<and> length (td_text t) \<le> 2001) \<and>
    (\<not> b \<longrightarrow> s' = s) \<and>
    (b \<and> s' = s \<longrightarrow> kind = SUBAGENT_START \<and> length (ws_subagents s) = 64 \<and>
       get_str payload ''call_id'' \<in> {None, Some []}) \<and>
    (kind = SUBAGENT_START \<and> b \<longrightarrow>
       sa_status (last (ws_subagents s')) = Running_agent \<and>
       ((\<exists>x \<in> set (ws_subagents s). sa_status x \<noteq> Running_agent) \<longrightarrow>
          still_running (ws_subagents s') = still_running (ws_subagents s) @ [last (ws_subagents s')])) \<and>
    (\<not> is_work_kind kind \<and> kind \<noteq> lit ''tool_result'' \<longrightarrow> \<not> b)"
proof -
  have ok: "snapshot_ok s" by (rule work_run_ok [OF assms(1)])
  note step = apply_work_ok [OF ok assms(2)]
  have "apply_subagent_start payload at s = (b, s')" if "kind = SUBAGENT_START"
    using assms(2) that by (simp add: apply_work_def TODO_UPDATE_def PLAN_UPDATE_def SUBAGENT_START_def lit_def)
  then have "kind = SUBAGENT_START \<and> b \<longrightarrow> sa_status (last (ws_subagents s')) = Running_agent \<and>
      ((\<exists>x \<in> set (ws_subagents s). sa_status x \<noteq> Running_agent) \<longrightarrow>
        still_running (ws_subagents s') = still_running (ws_subagents s) @ [last (ws_subagents s')])"
    using apply_subagent_start_ok [OF ok] by blast
  note spawn = this
  have other: "\<not> is_work_kind kind \<and> kind \<noteq> lit ''tool_result'' \<longrightarrow> \<not> b"
    using assms(2) unfolding apply_work_def is_work_kind_def by (auto split: if_splits)
  have kept: "snapshot_ok s'" and same: "\<not> b \<longrightarrow> s' = s" and changed: "b \<and> s' = s \<longrightarrow>
      kind = SUBAGENT_START \<and> length (ws_subagents s) = 64 \<and> get_str payload ''call_id'' \<in> {None, Some []}"
    using step unfolding MAX_SUBAGENTS_def by blast+
  have bounds: "length (ws_subagents s') \<le> 64 \<and> distinct (call_ids (ws_subagents s'))"
      "length (ws_files s') \<le> 200 \<and> distinct (map fc_path (ws_files s'))"
      "length (ws_todos s') \<le> 200 \<and> length (ws_plan s') \<le> 200"
      "\<forall>t \<in> set (ws_todos s') \<union> set (ws_plan s'). td_text t \<noteq> [] \<and> length (td_text t) \<le> 2001"
    using kept unfolding snapshot_ok_def todo_ok_def MAX_SUBAGENTS_def MAX_FILES_def MAX_TODOS_def TEXT_CAP_def
    by auto
  show ?thesis using bounds same changed spawn other by (intro conjI) blast+
qed

lemma work_fold_bounded_witness:
  "\<exists>s'. apply_work \<lparr>no_i64 = \<lambda>_ :: unit. None, no_f64 = \<lambda>_. None :: unit option\<rparr> SUBAGENT_START
      (Object [(lit ''call_id'', String [99])]) 5 snapshot_new = (True, s') \<and>
     length (ws_subagents s') \<le> 64 \<and> sa_status (last (ws_subagents s')) = Running_agent"
proof -
  let ?ops = "\<lparr>no_i64 = \<lambda>_ :: unit. None, no_f64 = \<lambda>_. None :: unit option\<rparr>"
  obtain b s' where a: "apply_work ?ops SUBAGENT_START (Object [(lit ''call_id'', String [99])]) 5 snapshot_new = (b, s')"
    by fastforce
  then have "b"
    by (simp add: apply_work_def TODO_UPDATE_def PLAN_UPDATE_def SUBAGENT_START_def lit_def apply_subagent_start_def
        get_str_def snapshot_new_def Let_def split: if_splits)
  then show ?thesis using work_fold_bounded [OF work_run.opened a] a by auto
qed

end
