(* ===== verification/HubTypes.thy ===== *)
theory HubTypes
  imports WorkTypes
begin

text \<open>
  The data of the hub, the requesting side of the daemon's tasks (\<open>src/src/sdk/src/hub\<close>: \<open>types.rs\<close>,
  \<open>runner/types.rs\<close>, the head of \<open>runner/mod.rs\<close> and the pure parts of \<open>runner/pump/mod.rs\<close>).
  A request carries further fields that only travel on its frame (the model, the tool mode, the
  workflow, the conversation and the depth); they are left out, as in the frame of \<open>DaemonTypes\<close>.
\<close>

section \<open>Strings\<close>

definition starts_with :: "rstr \<Rightarrow> rstr \<Rightarrow> bool" where
  "starts_with v p \<longleftrightarrow> take (length p) v = p"

text \<open>\<open>Display\<close> of an unsigned integer.\<close>

fun decimal :: "nat \<Rightarrow> rstr" where
  "decimal n = (if n < 10 then [48 + n] else decimal (n div 10) @ [48 + n mod 10])"

declare decimal.simps [simp del]

section \<open>Requests, outcomes and errors\<close>

record token_usage =
  tu_input_tokens :: i64
  tu_output_tokens :: i64

record task_request =
  rq_task_id :: rstr
  rq_abort_id :: rstr
  rq_cycle_id :: "rstr option"
  rq_instruction :: rstr
  rq_worker_address :: rstr
  rq_provider :: "provider option"
  rq_transport :: "transport option"
  rq_custom_harness :: "rstr option"

text \<open>The transcript of an outcome is empty on this path.\<close>

record task_outcome =
  to_reply :: rstr
  to_usage :: token_usage
  to_harness :: "provider option"
  to_session_id :: "rstr option"

text \<open>\<open>RunError\<close>, without the variant that only the workflow dispatch of a daemon constructs.\<close>

datatype run_error =
    Run_timeout | Run_aborted | Run_worker rstr | Run_busy rstr | Run_held rstr | Run_transport rstr

fun show_run_error :: "run_error \<Rightarrow> rstr" where
  "show_run_error Run_timeout = lit ''bridge task timed out''"
| "show_run_error Run_aborted = lit ''task aborted by its sender''"
| "show_run_error (Run_worker v) = lit ''worker error: '' @ v"
| "show_run_error (Run_busy v) = lit ''worker busy: '' @ v"
| "show_run_error (Run_held v) = lit ''harness held by operator: '' @ v"
| "show_run_error (Run_transport v) = lit ''transport error: '' @ v"

datatype workflow_frame = Plain_marker | Node_marker | Authoring_marker

section \<open>Frames from a worker\<close>

fun kind_str :: "frame_kind \<Rightarrow> rstr" where
  "kind_str Task_frame = lit ''task''"
| "kind_str Input_frame = lit ''input''"
| "kind_str Abort_frame = lit ''abort''"
| "kind_str Status_frame = lit ''status''"
| "kind_str Reply_frame = lit ''reply''"
| "kind_str Error_frame = lit ''error''"
| "kind_str Ack_frame = lit ''ack''"
| "kind_str Capabilities_frame = lit ''capabilities''"
| "kind_str Capabilities_result_frame = lit ''capabilities_result''"
| "kind_str System_info_frame = lit ''system_info''"
| "kind_str System_info_result_frame = lit ''system_info_result''"

record 'f worker_frame =
  wf_kind :: frame_kind
  wf_task_id :: rstr
  wf_text :: rstr
  wf_correlation_id :: "rstr option"
  wf_harness :: "provider option"
  wf_usage :: "token_usage option"
  wf_session_id :: "rstr option"
  wf_work :: "'f work_snapshot option"

definition key_of :: "'f worker_frame \<Rightarrow> rstr" where
  "key_of f = (case wf_correlation_id f of Some c \<Rightarrow> c | None \<Rightarrow> wf_task_id f)"

definition CAPACITY_REJECTION_PREFIX :: rstr where "CAPACITY_REJECTION_PREFIX = lit ''daemon at capacity''"
definition HARNESS_HELD_PREFIX :: rstr where "HARNESS_HELD_PREFIX = lit ''harness held by operator''"
definition SESSION_HELD_STATUS_PREFIX :: rstr where "SESSION_HELD_STATUS_PREFIX = lit ''session held by operator''"
definition SESSION_RESUMED_STATUS_PREFIX :: rstr where "SESSION_RESUMED_STATUS_PREFIX = lit ''session handed back''"

definition control_marker :: "rstr \<Rightarrow> bool option" where
  "control_marker v =
     (if starts_with v SESSION_HELD_STATUS_PREFIX then Some True
      else if starts_with v SESSION_RESUMED_STATUS_PREFIX then Some False
      else None)"

text \<open>What a terminal frame resolves its dispatch with.\<close>

definition outcome_of :: "'f worker_frame \<Rightarrow> task_outcome" where
  "outcome_of f = \<lparr>to_reply = wf_text f,
     to_usage = (case wf_usage f of Some u \<Rightarrow> u | None \<Rightarrow> \<lparr>tu_input_tokens = 0, tu_output_tokens = 0\<rparr>),
     to_harness = wf_harness f, to_session_id = wf_session_id f\<rparr>"

definition settle_run :: "rstr + task_outcome \<Rightarrow> run_error + task_outcome" where
  "settle_run terminal =
     (case terminal of
        Inr v \<Rightarrow> Inr v
      | Inl e \<Rightarrow>
          if starts_with e CAPACITY_REJECTION_PREFIX then Inl (Run_busy e)
          else if starts_with e HARNESS_HELD_PREFIX then Inl (Run_held e)
          else Inl (Run_worker e))"

section \<open>Windows\<close>

text \<open>In milliseconds.\<close>

definition ACK_WINDOW :: nat where "ACK_WINDOW = 12000"
definition IDLE_WINDOW :: nat where "IDLE_WINDOW = 240000"
definition MAX_RESETS :: nat where "MAX_RESETS = 2"
definition LIVENESS_TICK :: nat where "LIVENESS_TICK = 100"

text \<open>One turn of the loop of \<open>live_sleep\<close>: what remains of the window after it.\<close>

definition live_tick :: "bool \<Rightarrow> bool \<Rightarrow> nat \<Rightarrow> nat" where
  "live_tick live held remaining =
     (if live \<and> \<not> held then remaining - min LIVENESS_TICK remaining else remaining)"

section \<open>Facts\<close>

definition undecimal :: "rstr \<Rightarrow> nat" where
  "undecimal ds = foldl (\<lambda>acc d. acc * 10 + (d - 48)) 0 ds"

lemma undecimal_decimal [simp]: "undecimal (decimal n) = n"
proof (induction n rule: decimal.induct)
  case (1 n)
  then show ?case by (subst decimal.simps) (auto simp: undecimal_def)
qed

lemma decimal_inject [simp]: "decimal a = decimal b \<longleftrightarrow> a = b"
  by (metis undecimal_decimal)

lemma decimal_digits: "\<forall>d \<in> set (decimal n). 48 \<le> d \<and> d \<le> 57"
proof (induction n rule: decimal.induct)
  case (1 n)
  then show ?case by (subst (1) decimal.simps) auto
qed

lemma append_sep_inject:
  assumes "a @ sep # xs = b @ sep # ys" "sep \<notin> set xs" "sep \<notin> set ys"
  shows "a = b \<and> xs = ys"
proof -
  have split: "xs = rev (takeWhile (\<lambda>d. d \<noteq> sep) (rev (a @ sep # xs)))" if "sep \<notin> set xs" for a xs
  proof -
    have "takeWhile (\<lambda>d. d \<noteq> sep) (rev xs) = rev xs" using that by (auto simp: takeWhile_eq_all_conv)
    then show ?thesis by (simp add: takeWhile_tail del: takeWhile_eq_all_conv)
  qed
  have "xs = ys" using split [OF assms(2), of a] split [OF assms(3), of b] assms(1) by metis
  then show ?thesis using assms(1) by simp
qed

lemma decimal_suffix_inject: "a @ 47 # decimal m = b @ 47 # decimal n \<Longrightarrow> a = b \<and> m = n"
proof -
  assume eq: "a @ 47 # decimal m = b @ 47 # decimal n"
  have "47 \<notin> set (decimal n)" for n using decimal_digits [of n] by fastforce
  then show "a = b \<and> m = n" using append_sep_inject [OF eq] by simp
qed

end
