(* ===== verification/HubActivity.thy ===== *)
theory HubActivity
  imports HubTypes
begin

text \<open>
  What the hub's workers are doing: a bounded log of their frames, and the attribution of a frame's
  task to the row an operator sees (\<open>src/src/sdk/src/hub/activity\<close>).  The clock a method reads is its
  argument \<open>now\<close>.  Each of the two lists has a lock of its own; a method is one step here, which its
  callers cannot tell apart.
\<close>

section \<open>The log\<close>

definition ENTRY_CAPACITY :: nat where "ENTRY_CAPACITY = 512"
definition ATTRIBUTION_CAPACITY :: nat where "ATTRIBUTION_CAPACITY = 512"
definition SETTLED_RETENTION_MS :: int where "SETTLED_RETENTION_MS = 2 * 60 * 1000"

record 'f worker_activity =
  ac_agent_id :: rstr
  ac_task_id :: rstr
  ac_kind :: rstr
  ac_content :: rstr
  ac_at :: i64
  ac_work :: "'f work_snapshot option"

record attribution =
  at_observed :: rstr
  at_activity :: rstr
  at_agent :: rstr

record 'f activity_log =
  al_entries :: "'f worker_activity list"
  al_attribution :: "attribution list"

definition log_new :: "'f activity_log" where
  "log_new = \<lparr>al_entries = [], al_attribution = []\<rparr>"

definition is_terminal_kind :: "rstr \<Rightarrow> bool" where
  "is_terminal_kind kind \<longleftrightarrow> kind = lit ''reply'' \<or> kind = lit ''error''"

text \<open>Dropping the oldest of a queue that has outgrown its bound.\<close>

definition keep_last :: "nat \<Rightarrow> 'a list \<Rightarrow> 'a list" where
  "keep_last n xs = drop (length xs - n) xs"

section \<open>Operations\<close>

text \<open>The scans of the code: a pass over the records that fills a map for each row.\<close>

definition age_entry ::
  "'f worker_activity \<Rightarrow> (rstr \<Rightarrow> int option) \<times> rstr set \<Rightarrow> (rstr \<Rightarrow> int option) \<times> rstr set" where
  "age_entry x acc =
     (case acc of (last_at, settled) \<Rightarrow>
        (last_at(ac_task_id x \<mapsto> (case last_at (ac_task_id x) of
            Some seen \<Rightarrow> max seen (sint (ac_at x)) | None \<Rightarrow> sint (ac_at x))),
         if is_terminal_kind (ac_kind x) then insert (ac_task_id x) settled else settled))"

definition retired_in :: "i64 \<Rightarrow> 'f worker_activity list \<Rightarrow> rstr \<Rightarrow> bool" where
  "retired_in now es task_id \<longleftrightarrow>
     (case fold age_entry es (Map.empty, {}) of (last_at, settled) \<Rightarrow>
        task_id \<in> settled \<and>
        (case last_at task_id of
           Some seen \<Rightarrow> i64_saturate (sint now - seen) \<ge> SETTLED_RETENTION_MS | None \<Rightarrow> False))"

definition retire_settled :: "i64 \<Rightarrow> 'f activity_log \<Rightarrow> 'f activity_log" where
  "retire_settled now l =
     (let es = al_entries l
      in \<lparr>al_entries = filter (\<lambda>x. \<not> retired_in now es (ac_task_id x)) es,
          al_attribution = filter (\<lambda>a. \<not> retired_in now es (at_activity a)) (al_attribution l)\<rparr>)"

definition dispatched_as :: "rstr \<Rightarrow> rstr \<Rightarrow> rstr \<Rightarrow> i64 \<Rightarrow> 'f activity_log \<Rightarrow> 'f activity_log" where
  "dispatched_as observed visible agent now l =
     (let l1 = retire_settled now l
      in l1\<lparr>al_attribution := keep_last ATTRIBUTION_CAPACITY
           (filter (\<lambda>a. at_observed a \<noteq> observed) (al_attribution l1) @
            [\<lparr>at_observed = observed, at_activity = visible, at_agent = agent\<rparr>])\<rparr>)"

definition attributed :: "'f activity_log \<Rightarrow> rstr \<Rightarrow> attribution option" where
  "attributed l observed = find (\<lambda>a. at_observed a = observed) (rev (al_attribution l))"

definition observed_with_work ::
  "rstr \<Rightarrow> rstr \<Rightarrow> rstr \<Rightarrow> i64 \<Rightarrow> 'f work_snapshot option \<Rightarrow> 'f activity_log \<Rightarrow> 'f activity_log" where
  "observed_with_work task_id kind content at work l =
     (let (row, agent) = (case attributed l task_id of
            Some a \<Rightarrow> (at_activity a, at_agent a) | None \<Rightarrow> (task_id, []))
      in l\<lparr>al_entries := keep_last ENTRY_CAPACITY (al_entries l @
           [\<lparr>ac_agent_id = agent, ac_task_id = row, ac_kind = kind, ac_content = content, ac_at = at,
             ac_work = work\<rparr>])\<rparr>)"

definition observed_plain :: "rstr \<Rightarrow> rstr \<Rightarrow> rstr \<Rightarrow> i64 \<Rightarrow> 'f activity_log \<Rightarrow> 'f activity_log" where
  "observed_plain task_id kind content at l = observed_with_work task_id kind content at None l"

definition visible_row :: "'f activity_log \<Rightarrow> rstr \<Rightarrow> rstr" where
  "visible_row l observed = (case attributed l observed of Some a \<Rightarrow> at_activity a | None \<Rightarrow> observed)"

definition settled_in :: "'f worker_activity list \<Rightarrow> rstr \<Rightarrow> bool" where
  "settled_in es task_id \<longleftrightarrow> (\<exists>x \<in> set es. ac_task_id x = task_id \<and> is_terminal_kind (ac_kind x))"

definition has_terminal :: "'f activity_log \<Rightarrow> rstr \<Rightarrow> bool" where
  "has_terminal l observed \<longleftrightarrow> settled_in (al_entries l) (visible_row l observed)"

definition record_outcome :: "rstr \<Rightarrow> run_error + task_outcome \<Rightarrow> i64 \<Rightarrow> 'f activity_log \<Rightarrow> 'f activity_log" where
  "record_outcome observed outcome now l =
     (if has_terminal l observed then l
      else let (kind, content) = (case outcome of
                 Inr v \<Rightarrow> (lit ''reply'', to_reply v) | Inl e \<Rightarrow> (lit ''error'', show_run_error e))
           in observed_plain observed kind content now l)"

definition snapshot_at :: "i64 \<Rightarrow> 'f activity_log \<Rightarrow> 'f worker_activity list \<times> 'f activity_log" where
  "snapshot_at now l = (let l1 = retire_settled now l in (al_entries l1, l1))"

definition run_entry ::
  "'f worker_activity \<Rightarrow> (rstr \<Rightarrow> bool option) \<times> (rstr \<Rightarrow> rstr option) \<Rightarrow> (rstr \<Rightarrow> bool option) \<times> (rstr \<Rightarrow> rstr option)" where
  "run_entry x acc =
     (case acc of (terminal, agent_of) \<Rightarrow>
        (terminal(ac_task_id x \<mapsto> (case terminal (ac_task_id x) of Some t \<Rightarrow> t | None \<Rightarrow> False) \<or> is_terminal_kind (ac_kind x)),
         agent_of(ac_task_id x \<mapsto> ac_agent_id x)))"

text \<open>The code's lists come in the order of a hash map; here in the order of the records.\<close>

definition running_by_agent :: "'f activity_log \<Rightarrow> rstr \<Rightarrow> rstr list" where
  "running_by_agent l agent =
     (case fold run_entry (al_entries l) (Map.empty, Map.empty) of (terminal, agent_of) \<Rightarrow>
        filter (\<lambda>i. terminal i = Some False \<and> (case agent_of i of Some a \<Rightarrow> a | None \<Rightarrow> []) = agent)
          (remdups (map ac_task_id (al_entries l))))"

section \<open>Facts\<close>

lemma length_keep_last [simp]: "length (keep_last n xs) = min n (length xs)"
  by (simp add: keep_last_def)

lemma set_keep_last: "set (keep_last n xs) \<subseteq> set xs"
  by (auto simp: keep_last_def dest: in_set_dropD)

lemma keep_last_snoc: "0 < n \<Longrightarrow> keep_last n (xs @ [x]) = keep_last (n - 1) xs @ [x]"
  by (cases n) (simp_all add: keep_last_def)

lemma settled_in_snoc:
  "settled_in (es @ [x]) i \<longleftrightarrow> settled_in es i \<or> ac_task_id x = i \<and> is_terminal_kind (ac_kind x)"
  by (auto simp: settled_in_def)

abbreviation row_of :: "'f worker_activity list \<Rightarrow> rstr \<Rightarrow> 'f worker_activity list" where
  "row_of es i \<equiv> filter (\<lambda>x. ac_task_id x = i) es"

lemma settled_in_row: "settled_in es i \<longleftrightarrow> (\<exists>x \<in> set (row_of es i). is_terminal_kind (ac_kind x))"
  by (auto simp: settled_in_def)

lemma scan_steps:
  "fst (age_entry x acc) = (fst acc)(ac_task_id x \<mapsto> (case fst acc (ac_task_id x) of
     Some seen \<Rightarrow> max seen (sint (ac_at x)) | None \<Rightarrow> sint (ac_at x)))"
  "snd (age_entry x acc) = (if is_terminal_kind (ac_kind x) then insert (ac_task_id x) (snd acc) else snd acc)"
  "fst (run_entry x acc') = (fst acc')(ac_task_id x \<mapsto>
     (case fst acc' (ac_task_id x) of Some t \<Rightarrow> t | None \<Rightarrow> False) \<or> is_terminal_kind (ac_kind x))"
  "snd (run_entry x acc') = (snd acc')(ac_task_id x \<mapsto> ac_agent_id x)"
  by (simp_all add: age_entry_def run_entry_def split: prod.split)

lemma Max_insert_list: "Max (insert y (set ys)) = (if ys = [] then y else max (Max (set ys)) y)" for y :: int
  by (cases "ys = []") (simp_all add: max.commute)

text \<open>What a scan knows of a row, in terms of the row's records.\<close>

lemma last_seen:
  "fst (fold age_entry es (Map.empty, {})) i =
     (if row_of es i = [] then None else Some (Max (set (map (\<lambda>x. sint (ac_at x)) (row_of es i)))))"
proof (induction es rule: rev_induct)
  case (snoc x es)
  then show ?case
    using Max_insert_list [of "sint (ac_at x)" "map (\<lambda>x. sint (ac_at x)) (row_of es i)"]
    by (auto simp: scan_steps simp del: set_map set_filter)
qed simp

lemma seen_settled: "i \<in> snd (fold age_entry es (Map.empty, {})) \<longleftrightarrow> settled_in es i"
  by (induction es rule: rev_induct) (auto simp: scan_steps settled_in_snoc settled_in_def)

lemma seen_terminal:
  "fst (fold run_entry es (Map.empty, Map.empty)) i = (if row_of es i = [] then None else Some (settled_in es i))"
proof (induction es rule: rev_induct)
  case (snoc x es)
  have "\<not> settled_in es i" if "row_of es i = []" using that by (simp add: settled_in_row)
  then show ?case using snoc by (auto simp: scan_steps settled_in_snoc split: if_splits)
qed simp

lemma seen_agent:
  "snd (fold run_entry es (Map.empty, Map.empty)) i =
     (if row_of es i = [] then None else Some (ac_agent_id (last (row_of es i))))"
  by (induction es rule: rev_induct) (auto simp: scan_steps)

text \<open>Age grows with the clock's distance.\<close>

lemma old_enough:
  assumes "row_of es i \<noteq> []"
  shows "i64_saturate (n - Max (set (map (\<lambda>x. sint (ac_at x)) (row_of es i)))) \<ge> r \<longleftrightarrow>
    (\<forall>x \<in> set (row_of es i). i64_saturate (n - sint (ac_at x)) \<ge> r)"
proof -
  let ?A = "set (map (\<lambda>x. sint (ac_at x)) (row_of es i))"
  have fin: "finite ?A" "?A \<noteq> {}" using assms by (auto simp: filter_empty_conv)
  have mono: "i64_saturate (n - m) \<le> i64_saturate (n - k)" if "k \<le> m" for k m :: int
    using that by (auto simp: i64_saturate_def)
  have "r \<le> i64_saturate (n - Max ?A) \<longleftrightarrow> (\<forall>k \<in> ?A. r \<le> i64_saturate (n - k))"
    using Max_in [OF fin] Max_ge [OF fin(1)] mono by (meson order_trans)
  then show ?thesis by (simp only: set_map ball_simps)
qed

lemma retired_in_row:
  "retired_in now es i \<longleftrightarrow> settled_in es i \<and>
     (\<forall>x \<in> set (row_of es i). i64_saturate (sint now - sint (ac_at x)) \<ge> SETTLED_RETENTION_MS)"
proof -
  have "row_of es i \<noteq> []" if "settled_in es i" using that by (auto simp: settled_in_def filter_empty_conv)
  then show ?thesis
    using old_enough [where es = es and i = i and r = SETTLED_RETENTION_MS and n = "sint now"] last_seen [of es i] seen_settled [of i es]
    by (cases "fold age_entry es (Map.empty, {})") (auto simp: retired_in_def)
qed

lemma running_row:
  "i \<in> set (running_by_agent l agent) \<longleftrightarrow> row_of (al_entries l) i \<noteq> [] \<and> \<not> settled_in (al_entries l) i \<and>
     ac_agent_id (last (row_of (al_entries l) i)) = agent"
  using seen_terminal [of "al_entries l" i] seen_agent [of "al_entries l" i]
  by (cases "fold run_entry (al_entries l) (Map.empty, Map.empty)") (auto simp: running_by_agent_def filter_empty_conv)

lemma record_outcome_settles: "has_terminal (record_outcome i r now l) i"
proof (cases "has_terminal l i")
  case False
  obtain kind content where k: "(case r of Inr v \<Rightarrow> (lit ''reply'', to_reply v) | Inl e \<Rightarrow> (lit ''error'', show_run_error e)) = (kind, content)"
    "is_terminal_kind kind" by (cases r) (auto simp: is_terminal_kind_def)
  have "record_outcome i r now l = observed_plain i kind content now l" using False k by (simp add: record_outcome_def)
  then show ?thesis
    using k(2) by (auto simp: observed_plain_def observed_with_work_def has_terminal_def visible_row_def attributed_def
        ENTRY_CAPACITY_def keep_last_snoc settled_in_snoc split: option.split)
qed (simp add: record_outcome_def)

end
