(* ===== verification/HubRunner.thy ===== *)
theory HubRunner
  imports HubActivity "HOL-Library.AList"
begin

text \<open>
  The hub's task sender and its inbox pump (\<open>src/src/sdk/src/hub/runner\<close>: \<open>mod.rs\<close>,
  \<open>pump/mod.rs\<close>, \<open>capabilities.rs\<close> and \<open>system_info.rs\<close>).

  A call of \<open>run\<close> is an asynchronous function that polls three sources in a fixed order (\<open>biased\<close>);
  it is a state machine whose steps are its polls, and the hub is the shared state together with the
  list of its calls, so that the index of a call stands for its channel and its notifiers.  The pump is
  a task of its own that suspends between its check of a frame's sender and the routing of the frame
  (it takes the locks anew).  What a call does between the end of a window and its next suspension is
  one step.  The relay is the environment: it takes a frame or fails, and says whether a peer is live.
  A map that the code iterates over is an association list with distinct keys, whose order stands for
  the order of iteration.  A payload that serde reads is a parameter of the pump.
\<close>

section \<open>State\<close>

record waiter =
  wt_task_id :: rstr
  wt_wire_task_id :: rstr
  wt_screen_kill :: bool
  wt_from :: rstr
  wt_call :: nat

datatype call_phase =
    Opening | Sending | Acking nat | Working nat | Returned "run_error + task_outcome" | Dropped_call

text \<open>\<open>ca_number\<close> is the number in the correlation id and \<open>ca_gone\<close> whether the relay has taken the
  attempt's frame; \<open>ca_terminal\<close>, \<open>ca_activity\<close> and \<open>ca_held\<close> are what the attempt shares with the pump.\<close>

record run_call =
  ca_request :: task_request
  ca_screen_kill :: bool
  ca_marker :: workflow_frame
  ca_visible :: "rstr option"
  ca_signal :: nat
  ca_attempt :: nat
  ca_phase :: call_phase
  ca_cid :: rstr
  ca_number :: u64
  ca_gone :: bool
  ca_terminal :: "(rstr + task_outcome) option"
  ca_activity :: bool
  ca_held :: bool

datatype probe_kind = Info_probe | Capabilities_probe

datatype ('i, 'c) probe_value = Info 'i | Capabilities 'c

datatype ('i, 'c) probe_phase =
    Probe_opening | Probe_sending | Probe_waiting | Probe_returned "run_error + ('i, 'c) probe_value" | Probe_dropped

text \<open>\<open>pb_abort\<close> is the abort id and the signal of a probe that serves a dispatch.\<close>

record ('i, 'c) probe_call =
  pb_kind :: probe_kind
  pb_address :: rstr
  pb_abort :: "(rstr \<times> nat) option"
  pb_attempt :: nat
  pb_phase :: "('i, 'c) probe_phase"
  pb_key :: rstr
  pb_answer :: "(rstr + ('i, 'c) probe_value) option"

record probe_waiter =
  pw_from :: rstr
  pw_probe :: nat

text \<open>A frame the hub sent; \<open>hs_call\<close> records which call sent it.\<close>

record hub_sent =
  hs_call :: "nat option"
  hs_to :: rstr
  hs_kind :: frame_kind
  hs_marker :: workflow_frame
  hs_frame :: task_frame

text \<open>\<open>hu_pump\<close> is the frame between check and routing, with its sender and the counter at the check;
  \<open>hu_heard\<close> records what was routed and \<open>hu_asked\<close> which signals were raised.\<close>

record ('f, 'i, 'c) hub =
  hu_ack_window :: nat
  hu_idle_window :: nat
  hu_waiters :: "(rstr \<times> waiter) list"
  hu_info_waiters :: "rstr \<Rightarrow> probe_waiter option"
  hu_capabilities_waiters :: "rstr \<Rightarrow> probe_waiter option"
  hu_capabilities :: "rstr \<Rightarrow> 'c option"
  hu_aborts :: "(rstr \<times> nat) list"
  hu_counter :: u64
  hu_next_signal :: nat
  hu_notified :: "nat \<Rightarrow> bool"
  hu_calls :: "run_call list"
  hu_probes :: "('i, 'c) probe_call list"
  hu_pump :: "(rstr \<times> 'f worker_frame \<times> u64) option"
  hu_activity :: "'f activity_log"
  hu_outbox :: "hub_sent list"
  hu_resets :: "rstr list"
  hu_heard :: "(rstr \<times> 'f worker_frame \<times> u64) list"
  hu_asked :: "nat list"

definition hub_new :: "nat \<Rightarrow> nat \<Rightarrow> ('f, 'i, 'c) hub" where
  "hub_new ack idle = \<lparr>hu_ack_window = ack, hu_idle_window = idle, hu_waiters = [], hu_info_waiters = (\<lambda>_. None),
     hu_capabilities_waiters = (\<lambda>_. None), hu_capabilities = (\<lambda>_. None), hu_aborts = [], hu_counter = 0,
     hu_next_signal = 0, hu_notified = (\<lambda>_. False), hu_calls = [], hu_probes = [], hu_pump = None,
     hu_activity = log_new, hu_outbox = [], hu_resets = [], hu_heard = [], hu_asked = []\<rparr>"

definition set_call :: "nat \<Rightarrow> run_call \<Rightarrow> ('f, 'i, 'c) hub \<Rightarrow> ('f, 'i, 'c) hub" where
  "set_call i c h = h\<lparr>hu_calls := (hu_calls h)[i := c]\<rparr>"

definition set_probe :: "nat \<Rightarrow> ('i, 'c) probe_call \<Rightarrow> ('f, 'i, 'c) hub \<Rightarrow> ('f, 'i, 'c) hub" where
  "set_probe j p h = h\<lparr>hu_probes := (hu_probes h)[j := p]\<rparr>"

section \<open>Aborts\<close>

text \<open>\<open>Notify::notify_one\<close>.\<close>

definition raise_signal :: "nat \<Rightarrow> ('f, 'i, 'c) hub \<Rightarrow> ('f, 'i, 'c) hub" where
  "raise_signal s h = h\<lparr>hu_notified := (hu_notified h)(s := True), hu_asked := hu_asked h @ [s]\<rparr>"

definition abort_task :: "rstr \<Rightarrow> ('f, 'i, 'c) hub \<Rightarrow> bool \<times> ('f, 'i, 'c) hub" where
  "abort_task task_id h =
     (case map_of (hu_aborts h) task_id of
        None \<Rightarrow> (False, h)
      | Some s \<Rightarrow> (True, raise_signal s (h\<lparr>hu_aborts := AList.delete task_id (hu_aborts h)\<rparr>)))"

definition abort_all :: "('f, 'i, 'c) hub \<Rightarrow> ('f, 'i, 'c) hub" where
  "abort_all h = fold (\<lambda>(_, s). raise_signal s) (hu_aborts h) h"

text \<open>The drop of an \<open>AbortGuard\<close>.\<close>

definition drop_abort_guard :: "rstr \<Rightarrow> nat \<Rightarrow> ('f, 'i, 'c) hub \<Rightarrow> ('f, 'i, 'c) hub" where
  "drop_abort_guard key signal h =
     (if map_of (hu_aborts h) key = Some signal then h\<lparr>hu_aborts := AList.delete key (hu_aborts h)\<rparr> else h)"

definition kill_correlation_for :: "rstr \<Rightarrow> rstr \<Rightarrow> ('f, 'i, 'c) hub \<Rightarrow> (rstr \<times> rstr) option" where
  "kill_correlation_for worker task_id h =
     map_option (\<lambda>(correlation, w). (correlation, wt_wire_task_id w))
       (find (\<lambda>(_, w). wt_from w = worker \<and> wt_task_id w = task_id \<and> wt_screen_kill w) (hu_waiters h))"

section \<open>A dispatch\<close>

text \<open>The head of \<open>run_inner\<close>; the signal is a new one, or the one that \<open>capabilities_for_dispatch\<close> prepared.\<close>

definition new_call :: "task_request \<Rightarrow> bool \<Rightarrow> workflow_frame \<Rightarrow> rstr option \<Rightarrow> nat \<Rightarrow> run_call" where
  "new_call req screen_kill marker visible signal =
     \<lparr>ca_request = req, ca_screen_kill = screen_kill, ca_marker = marker, ca_visible = visible, ca_signal = signal,
      ca_attempt = 0, ca_phase = Opening, ca_cid = [], ca_number = 0, ca_gone = False, ca_terminal = None,
      ca_activity = False, ca_held = False\<rparr>"

definition open_call ::
  "task_request \<Rightarrow> bool \<Rightarrow> workflow_frame \<Rightarrow> nat option \<Rightarrow> rstr option \<Rightarrow> ('f, 'i, 'c) hub \<Rightarrow> ('f, 'i, 'c) hub" where
  "open_call req screen_kill marker prepared visible h =
     (let (signal, next) = (case prepared of Some s \<Rightarrow> (s, hu_next_signal h)
                            | None \<Rightarrow> (hu_next_signal h, Suc (hu_next_signal h)))
      in h\<lparr>hu_next_signal := next, hu_aborts := AList.update (rq_abort_id req) signal (hu_aborts h),
           hu_calls := hu_calls h @ [new_call req screen_kill marker visible signal]\<rparr>)"

definition correlation_id :: "task_request \<Rightarrow> u64 \<Rightarrow> rstr" where
  "correlation_id req n =
     (case rq_cycle_id req of Some c \<Rightarrow> c | None \<Rightarrow> lit ''cyc'') @ 47 # rq_task_id req @ 47 # decimal (unat n)"

text \<open>The head of an attempt: its correlation id, its channel and its waiter.\<close>

definition open_attempt :: "nat \<Rightarrow> ('f, 'i, 'c) hub \<Rightarrow> ('f, 'i, 'c) hub" where
  "open_attempt i h =
     (let c = hu_calls h ! i; req = ca_request c; cid = correlation_id req (hu_counter h)
      in set_call i (c\<lparr>ca_phase := Sending, ca_cid := cid, ca_number := hu_counter h, ca_gone := False,
           ca_terminal := None, ca_activity := False, ca_held := False\<rparr>)
         (h\<lparr>hu_counter := hu_counter h + 1,
            hu_waiters := AList.update cid
              \<lparr>wt_task_id = (case ca_visible c of Some v \<Rightarrow> v | None \<Rightarrow> rq_task_id req),
               wt_wire_task_id = rq_task_id req, wt_screen_kill = ca_screen_kill c,
               wt_from = rq_worker_address req, wt_call = i\<rparr> (hu_waiters h)\<rparr>))"

definition request_frame :: "task_request \<Rightarrow> rstr \<Rightarrow> task_frame" where
  "request_frame req cid = \<lparr>tf_task_id = rq_task_id req, tf_text = rq_instruction req,
     tf_correlation_id = Some cid, tf_provider = rq_provider req, tf_transport = rq_transport req,
     tf_custom_harness = rq_custom_harness req\<rparr>"

definition abort_frame :: "task_request \<Rightarrow> rstr \<Rightarrow> task_frame" where
  "abort_frame req cid = \<lparr>tf_task_id = rq_task_id req, tf_text = lit ''requester stopped waiting'',
     tf_correlation_id = Some cid, tf_provider = None, tf_transport = None, tf_custom_harness = None\<rparr>"

text \<open>The relay takes the task's frame, at some moment of the send.\<close>

definition take_task :: "nat \<Rightarrow> ('f, 'i, 'c) hub \<Rightarrow> ('f, 'i, 'c) hub" where
  "take_task i h =
     (let c = hu_calls h ! i
      in set_call i (c\<lparr>ca_gone := True\<rparr>)
         (h\<lparr>hu_outbox := hu_outbox h @ [\<lparr>hs_call = Some i, hs_to = rq_worker_address (ca_request c),
              hs_kind = Task_frame, hs_marker = ca_marker c,
              hs_frame = request_frame (ca_request c) (ca_cid c)\<rparr>]\<rparr>))"

definition remove_waiter :: "rstr \<Rightarrow> ('f, 'i, 'c) hub \<Rightarrow> ('f, 'i, 'c) hub" where
  "remove_waiter cid h = h\<lparr>hu_waiters := AList.delete cid (hu_waiters h)\<rparr>"

text \<open>\<open>sent\<close> is whether the relay takes the frame; its error is ignored.\<close>

definition send_abort :: "nat \<Rightarrow> bool \<Rightarrow> ('f, 'i, 'c) hub \<Rightarrow> ('f, 'i, 'c) hub" where
  "send_abort i sent h =
     (let c = hu_calls h ! i
      in if sent then h\<lparr>hu_outbox := hu_outbox h @ [\<lparr>hs_call = Some i, hs_to = rq_worker_address (ca_request c),
           hs_kind = Abort_frame, hs_marker = Plain_marker, hs_frame = abort_frame (ca_request c) (ca_cid c)\<rparr>]\<rparr>
         else h)"

text \<open>A return, which drops the abort guard.\<close>

definition return_call :: "nat \<Rightarrow> run_error + task_outcome \<Rightarrow> ('f, 'i, 'c) hub \<Rightarrow> ('f, 'i, 'c) hub" where
  "return_call i result h =
     (let c = hu_calls h ! i
      in drop_abort_guard (rq_abort_id (ca_request c)) (ca_signal c) (set_call i (c\<lparr>ca_phase := Returned result\<rparr>) h))"

definition take_signal :: "nat \<Rightarrow> ('f, 'i, 'c) hub \<Rightarrow> ('f, 'i, 'c) hub" where
  "take_signal s h = h\<lparr>hu_notified := (hu_notified h)(s := False)\<rparr>"

text \<open>A poll of the send: the abort first, then what the relay says.\<close>

definition poll_send :: "nat \<Rightarrow> (rstr + unit) option \<Rightarrow> ('f, 'i, 'c) hub \<Rightarrow> ('f, 'i, 'c) hub" where
  "poll_send i result h =
     (let c = hu_calls h ! i
      in if hu_notified h (ca_signal c)
         then return_call i (Inl Run_aborted) (remove_waiter (ca_cid c) (take_signal (ca_signal c) h))
         else case result of
                None \<Rightarrow> h
              | Some (Inl e) \<Rightarrow> return_call i (Inl (Run_transport e)) (remove_waiter (ca_cid c) h)
              | Some (Inr _) \<Rightarrow> set_call i (c\<lparr>ca_phase := Acking (hu_ack_window h)\<rparr>) h)"

definition give_up :: "nat \<Rightarrow> bool \<Rightarrow> run_error \<Rightarrow> ('f, 'i, 'c) hub \<Rightarrow> ('f, 'i, 'c) hub" where
  "give_up i sent e h =
     return_call i (Inl e) (send_abort i sent (remove_waiter (ca_cid (hu_calls h ! i)) h))"

text \<open>The end of the acknowledgement window.\<close>

definition lapse :: "nat \<Rightarrow> bool \<Rightarrow> ('f, 'i, 'c) hub \<Rightarrow> ('f, 'i, 'c) hub" where
  "lapse i sent h =
     (let c = hu_calls h ! i
      in if ca_attempt c \<ge> MAX_RESETS then give_up i sent Run_timeout h
         else set_call i (c\<lparr>ca_attempt := Suc (ca_attempt c), ca_phase := Opening\<rparr>)
                (h\<lparr>hu_waiters := AList.delete (ca_cid c) (hu_waiters h),
                   hu_resets := hu_resets h @ [rq_worker_address (ca_request c)]\<rparr>))"

text \<open>A poll of a window: the terminal frame, the abort, a sign of life, the end of the window.\<close>

definition poll_window :: "nat \<Rightarrow> bool \<Rightarrow> ('f, 'i, 'c) hub \<Rightarrow> ('f, 'i, 'c) hub" where
  "poll_window i sent h =
     (let c = hu_calls h ! i
      in case ca_terminal c of
           Some t \<Rightarrow> return_call i (settle_run t) h
         | None \<Rightarrow>
             if hu_notified h (ca_signal c) then give_up i sent Run_aborted (take_signal (ca_signal c) h)
             else if ca_activity c
             then set_call i (c\<lparr>ca_activity := False, ca_phase := Working (hu_idle_window h)\<rparr>) h
             else case ca_phase c of
                    Acking 0 \<Rightarrow> lapse i sent h
                  | Working 0 \<Rightarrow> give_up i sent Run_timeout h
                  | _ \<Rightarrow> h)"

text \<open>A turn of the window's clock.\<close>

definition tick_window :: "nat \<Rightarrow> bool \<Rightarrow> ('f, 'i, 'c) hub \<Rightarrow> ('f, 'i, 'c) hub" where
  "tick_window i live h =
     (let c = hu_calls h ! i
      in case ca_phase c of
           Acking r \<Rightarrow> set_call i (c\<lparr>ca_phase := Acking (live_tick live (ca_held c) r)\<rparr>) h
         | Working r \<Rightarrow> set_call i (c\<lparr>ca_phase := Working (live_tick live (ca_held c) r)\<rparr>) h
         | _ \<Rightarrow> h)"

text \<open>The caller drops the future of the call.\<close>

definition drop_call :: "nat \<Rightarrow> ('f, 'i, 'c) hub \<Rightarrow> ('f, 'i, 'c) hub" where
  "drop_call i h =
     (let c = hu_calls h ! i
      in drop_abort_guard (rq_abort_id (ca_request c)) (ca_signal c) (set_call i (c\<lparr>ca_phase := Dropped_call\<rparr>) h))"

section \<open>Probes\<close>

definition open_probe :: "probe_kind \<Rightarrow> rstr \<Rightarrow> rstr option \<Rightarrow> ('f, 'i, 'c) hub \<Rightarrow> ('f, 'i, 'c) hub" where
  "open_probe kind address abort_id h =
     (let h1 = (case abort_id of
            Some a \<Rightarrow> h\<lparr>hu_next_signal := Suc (hu_next_signal h), hu_aborts := AList.update a (hu_next_signal h) (hu_aborts h)\<rparr>
          | None \<Rightarrow> h);
          h2 = (if kind = Capabilities_probe then h1\<lparr>hu_capabilities := (hu_capabilities h1)(address := None)\<rparr> else h1)
      in h2\<lparr>hu_probes := hu_probes h2 @ [\<lparr>pb_kind = kind, pb_address = address,
           pb_abort = map_option (\<lambda>a. (a, hu_next_signal h)) abort_id, pb_attempt = 0, pb_phase = Probe_opening,
           pb_key = [], pb_answer = None\<rparr>]\<rparr>)"

definition probe_key :: "probe_kind \<Rightarrow> u64 \<Rightarrow> rstr" where
  "probe_key kind n =
     (case kind of Info_probe \<Rightarrow> lit ''system-info'' | Capabilities_probe \<Rightarrow> lit ''capabilities'') @ 47 # decimal (unat n)"

definition put_probe_waiter :: "probe_kind \<Rightarrow> rstr \<Rightarrow> probe_waiter option \<Rightarrow> ('f, 'i, 'c) hub \<Rightarrow> ('f, 'i, 'c) hub" where
  "put_probe_waiter kind key w h =
     (case kind of
        Info_probe \<Rightarrow> h\<lparr>hu_info_waiters := (hu_info_waiters h)(key := w)\<rparr>
      | Capabilities_probe \<Rightarrow> h\<lparr>hu_capabilities_waiters := (hu_capabilities_waiters h)(key := w)\<rparr>)"

text \<open>The head of an attempt, up to the end of its send: the relay takes the frame or fails.\<close>

definition register_probe :: "nat \<Rightarrow> ('f, 'i, 'c) hub \<Rightarrow> ('f, 'i, 'c) hub" where
  "register_probe j h =
     (let p = hu_probes h ! j; key = probe_key (pb_kind p) (hu_counter h)
      in put_probe_waiter (pb_kind p) key (Some \<lparr>pw_from = pb_address p, pw_probe = j\<rparr>)
           (set_probe j (p\<lparr>pb_phase := Probe_sending, pb_key := key, pb_answer := None\<rparr>)
             (h\<lparr>hu_counter := hu_counter h + 1\<rparr>)))"

definition probe_frame :: "rstr \<Rightarrow> task_frame" where
  "probe_frame key = \<lparr>tf_task_id = key, tf_text = [], tf_correlation_id = Some key, tf_provider = None,
     tf_transport = None, tf_custom_harness = None\<rparr>"

definition take_probe :: "nat \<Rightarrow> ('f, 'i, 'c) hub \<Rightarrow> ('f, 'i, 'c) hub" where
  "take_probe j h =
     (let p = hu_probes h ! j
      in h\<lparr>hu_outbox := hu_outbox h @ [\<lparr>hs_call = None, hs_to = pb_address p,
           hs_kind = (case pb_kind p of Info_probe \<Rightarrow> System_info_frame | Capabilities_probe \<Rightarrow> Capabilities_frame),
           hs_marker = Plain_marker, hs_frame = probe_frame (pb_key p)\<rparr>]\<rparr>)"

text \<open>A return; a waiter that is still registered is removed, by the code or by the drop of its guard.\<close>

definition return_probe :: "nat \<Rightarrow> run_error + ('i, 'c) probe_value \<Rightarrow> ('f, 'i, 'c) hub \<Rightarrow> ('f, 'i, 'c) hub" where
  "return_probe j result h =
     (let p = hu_probes h ! j;
          h1 = set_probe j (p\<lparr>pb_phase := Probe_returned result\<rparr>) (put_probe_waiter (pb_kind p) (pb_key p) None h)
      in case result of
           Inr (Capabilities caps) \<Rightarrow> h1\<lparr>hu_capabilities := (hu_capabilities h1)(pb_address p \<mapsto> caps)\<rparr>
         | _ \<Rightarrow> h1)"

text \<open>The abort of a probe that serves a dispatch is polled first; the probe's future is dropped then.\<close>

definition abort_probe :: "nat \<Rightarrow> ('f, 'i, 'c) hub \<Rightarrow> ('f, 'i, 'c) hub option" where
  "abort_probe j h =
     (let p = hu_probes h ! j
      in case pb_abort p of
           Some (a, s) \<Rightarrow>
             (if hu_notified h s
              then Some (return_probe j (Inl Run_aborted) (drop_abort_guard a s (take_signal s h)))
              else None)
         | None \<Rightarrow> None)"

definition poll_probe_send :: "nat \<Rightarrow> rstr + unit \<Rightarrow> ('f, 'i, 'c) hub \<Rightarrow> ('f, 'i, 'c) hub" where
  "poll_probe_send j result h =
     (case abort_probe j h of
        Some h1 \<Rightarrow> h1
      | None \<Rightarrow>
          (case result of
             Inl e \<Rightarrow> return_probe j (Inl (Run_transport e)) h
           | Inr _ \<Rightarrow> set_probe j ((hu_probes h ! j)\<lparr>pb_phase := Probe_waiting\<rparr>) h))"

definition poll_probe :: "nat \<Rightarrow> bool \<Rightarrow> ('f, 'i, 'c) hub \<Rightarrow> ('f, 'i, 'c) hub" where
  "poll_probe j elapsed h =
     (case abort_probe j h of
        Some h1 \<Rightarrow> h1
      | None \<Rightarrow>
          (let p = hu_probes h ! j
           in case pb_answer p of
                Some (Inr v) \<Rightarrow> return_probe j (Inr v) h
              | Some (Inl e) \<Rightarrow> return_probe j (Inl (Run_worker e)) h
              | None \<Rightarrow>
                  if \<not> elapsed then h
                  else if pb_attempt p \<ge> MAX_RESETS then return_probe j (Inl Run_timeout) h
                  else set_probe j (p\<lparr>pb_attempt := Suc (pb_attempt p), pb_phase := Probe_opening\<rparr>)
                         (put_probe_waiter (pb_kind p) (pb_key p) None (h\<lparr>hu_resets := hu_resets h @ [pb_address p]\<rparr>))))"

text \<open>The caller drops the future: a capability probe has a guard, a system probe has none.\<close>

definition drop_probe :: "nat \<Rightarrow> ('f, 'i, 'c) hub \<Rightarrow> ('f, 'i, 'c) hub" where
  "drop_probe j h =
     (let p = hu_probes h ! j; h1 = set_probe j (p\<lparr>pb_phase := Probe_dropped\<rparr>) h
      in case pb_kind p of
           Capabilities_probe \<Rightarrow> put_probe_waiter Capabilities_probe (pb_key p) None h1
         | Info_probe \<Rightarrow> h1)"

section \<open>The pump\<close>

definition expected_sender :: "('f, 'i, 'c) hub \<Rightarrow> rstr \<Rightarrow> rstr option" where
  "expected_sender h key =
     (case map_of (hu_waiters h) key of
        Some w \<Rightarrow> Some (wt_from w)
      | None \<Rightarrow>
          (case hu_info_waiters h key of
             Some p \<Rightarrow> Some (pw_from p)
           | None \<Rightarrow> map_option pw_from (hu_capabilities_waiters h key)))"

text \<open>The check of \<open>route_frame\<close>.\<close>

definition check_frame :: "rstr \<Rightarrow> 'f worker_frame \<Rightarrow> ('f, 'i, 'c) hub \<Rightarrow> ('f, 'i, 'c) hub" where
  "check_frame from_addr f h =
     (case expected_sender h (key_of f) of
        Some expected \<Rightarrow>
          (if expected \<noteq> from_addr then h else h\<lparr>hu_pump := Some (from_addr, f, hu_counter h)\<rparr>)
      | None \<Rightarrow> h\<lparr>hu_pump := Some (from_addr, f, hu_counter h)\<rparr>)"

text \<open>What serde makes of a probe's answer.\<close>

record ('i, 'c) payload_ops =
  po_info :: "rstr \<Rightarrow> rstr + 'i"
  po_capabilities :: "rstr \<Rightarrow> 'c option"

definition answer_probe ::
  "probe_kind \<Rightarrow> rstr \<Rightarrow> rstr + ('i, 'c) probe_value \<Rightarrow> ('f, 'i, 'c) hub \<Rightarrow> ('f, 'i, 'c) hub" where
  "answer_probe kind key answer h =
     (case (case kind of Info_probe \<Rightarrow> hu_info_waiters h key | Capabilities_probe \<Rightarrow> hu_capabilities_waiters h key) of
        None \<Rightarrow> h
      | Some w \<Rightarrow>
          set_probe (pw_probe w) ((hu_probes h ! pw_probe w)\<lparr>pb_answer := Some answer\<rparr>) (put_probe_waiter kind key None h))"

text \<open>A terminal frame settles and removes its waiter.\<close>

definition settle_waiter :: "rstr \<Rightarrow> rstr + task_outcome \<Rightarrow> ('f, 'i, 'c) hub \<Rightarrow> ('f, 'i, 'c) hub" where
  "settle_waiter key result h =
     (case map_of (hu_waiters h) key of
        None \<Rightarrow> h
      | Some w \<Rightarrow>
          set_call (wt_call w) ((hu_calls h ! wt_call w)\<lparr>ca_terminal := Some result\<rparr>) (remove_waiter key h))"

definition route_task_frame :: "'f worker_frame \<Rightarrow> ('f, 'i, 'c) hub \<Rightarrow> ('f, 'i, 'c) hub" where
  "route_task_frame f h =
     (let key = key_of f;
          h1 = (case map_of (hu_waiters h) key of
            Some w \<Rightarrow> set_call (wt_call w) ((hu_calls h ! wt_call w)\<lparr>ca_activity := True\<rparr>) h
          | None \<Rightarrow> h)
      in case wf_kind f of
           Reply_frame \<Rightarrow> settle_waiter key (Inr (outcome_of f)) h1
         | Error_frame \<Rightarrow> settle_waiter key (Inl (wf_text f)) h1
         | Status_frame \<Rightarrow>
             (case map_of (hu_waiters h1) key of
                Some w \<Rightarrow>
                  (case control_marker (wf_text f) of
                     Some held \<Rightarrow> set_call (wt_call w) ((hu_calls h1 ! wt_call w)\<lparr>ca_held := held\<rparr>) h1
                   | None \<Rightarrow> h1)
              | None \<Rightarrow> h1)
         | _ \<Rightarrow> h1)"

text \<open>The records of \<open>route_frame\<close>, and its delivery to the waiter the frame is for.\<close>

definition note_frame :: "rstr \<Rightarrow> 'f worker_frame \<Rightarrow> u64 \<Rightarrow> i64 \<Rightarrow> ('f, 'i, 'c) hub \<Rightarrow> ('f, 'i, 'c) hub" where
  "note_frame from_addr f n now h = h\<lparr>hu_pump := None, hu_heard := hu_heard h @ [(from_addr, f, n)],
     hu_activity := observed_with_work (wf_task_id f) (kind_str (wf_kind f)) (wf_text f) now (wf_work f)
       (hu_activity h)\<rparr>"

definition deliver_frame :: "('i, 'c) payload_ops \<Rightarrow> 'f worker_frame \<Rightarrow> ('f, 'i, 'c) hub \<Rightarrow> ('f, 'i, 'c) hub" where
  "deliver_frame ops f h =
     (case wf_kind f of
        System_info_result_frame \<Rightarrow>
          answer_probe Info_probe (key_of f)
            (case po_info ops (wf_text f) of
               Inl e \<Rightarrow> Inl (lit ''invalid worker system info: '' @ e) | Inr v \<Rightarrow> Inr (Info v)) h
      | Capabilities_result_frame \<Rightarrow>
          answer_probe Capabilities_probe (key_of f)
            (case po_capabilities ops (wf_text f) of
               None \<Rightarrow> Inl (lit ''invalid worker capabilities payload'') | Some v \<Rightarrow> Inr (Capabilities v)) h
      | _ \<Rightarrow> route_task_frame f h)"

definition route_frame :: "('i, 'c) payload_ops \<Rightarrow> i64 \<Rightarrow> ('f, 'i, 'c) hub \<Rightarrow> ('f, 'i, 'c) hub" where
  "route_frame ops now h =
     (case hu_pump h of
        None \<Rightarrow> h
      | Some (from_addr, f, n) \<Rightarrow> deliver_frame ops f (note_frame from_addr f n now h))"

section \<open>Runs of a hub\<close>

definition in_phase :: "('f, 'i, 'c) hub \<Rightarrow> nat \<Rightarrow> call_phase set \<Rightarrow> bool" where
  "in_phase h i P \<longleftrightarrow> i < length (hu_calls h) \<and> ca_phase (hu_calls h ! i) \<in> P"

abbreviation window_phases :: "call_phase set" where
  "window_phases \<equiv> range Acking \<union> range Working"

definition probe_in :: "('f, 'i, 'c) hub \<Rightarrow> nat \<Rightarrow> ('i, 'c) probe_phase set \<Rightarrow> bool" where
  "probe_in h j P \<longleftrightarrow> j < length (hu_probes h) \<and> pb_phase (hu_probes h ! j) \<in> P"

text \<open>A signal that a finished negotiation hands to the one call it was for.\<close>

definition prepared_signal :: "('f, 'i, 'c) hub \<Rightarrow> rstr \<Rightarrow> nat \<Rightarrow> bool" where
  "prepared_signal h abort_id s \<longleftrightarrow>
     (\<exists>p \<in> set (hu_probes h). pb_abort p = Some (abort_id, s) \<and> (\<exists>r. pb_phase p = Probe_returned r \<and> r \<noteq> Inl Run_aborted)) \<and>
     s < hu_next_signal h \<and> s \<notin> ca_signal ` set (hu_calls h)"

text \<open>The counter does not come round: a process makes fewer than \<open>2 ^ 64\<close> attempts.\<close>

inductive hub_step :: "('i, 'c) payload_ops \<Rightarrow> ('f, 'i, 'c) hub \<Rightarrow> ('f, 'i, 'c) hub \<Rightarrow> bool" for ops where
  called: "(case prepared of Some s \<Rightarrow> prepared_signal h (rq_abort_id req) s | None \<Rightarrow> True) \<Longrightarrow>
    hub_step ops h (open_call req screen_kill marker prepared visible h)"
| attempted: "in_phase h i {Opening} \<Longrightarrow> hu_counter h < - 1 \<Longrightarrow> hub_step ops h (open_attempt i h)"
| taken: "in_phase h i {Sending} \<Longrightarrow> \<not> ca_gone (hu_calls h ! i) \<Longrightarrow> hub_step ops h (take_task i h)"
| send_polled: "in_phase h i {Sending} \<Longrightarrow> result = Some (Inr ()) \<longrightarrow> ca_gone (hu_calls h ! i) \<Longrightarrow>
    hub_step ops h (poll_send i result h)"
| polled: "in_phase h i window_phases \<Longrightarrow> hub_step ops h (poll_window i sent h)"
| ticked: "in_phase h i window_phases \<Longrightarrow> hub_step ops h (tick_window i live h)"
| dropped: "in_phase h i ({Opening, Sending} \<union> window_phases) \<Longrightarrow> hub_step ops h (drop_call i h)"
| abort_asked: "hub_step ops h (snd (abort_task task_id h))"
| abort_all_asked: "hub_step ops h (abort_all h)"
| probed: "hub_step ops h (open_probe kind address abort_id h)"
| probe_registered: "probe_in h j {Probe_opening} \<Longrightarrow> hu_counter h < - 1 \<Longrightarrow> hub_step ops h (register_probe j h)"
| probe_taken: "probe_in h j {Probe_sending} \<Longrightarrow> hub_step ops h (take_probe j h)"
| probe_send_polled: "probe_in h j {Probe_sending} \<Longrightarrow> hub_step ops h (poll_probe_send j sent_result h)"
| probe_polled: "probe_in h j {Probe_waiting} \<Longrightarrow> hub_step ops h (poll_probe j elapsed h)"
| probe_dropped: "probe_in h j {Probe_opening, Probe_sending, Probe_waiting} \<Longrightarrow> hub_step ops h (drop_probe j h)"
| received: "hu_pump h = None \<Longrightarrow> hub_step ops h (check_frame from_addr f h)"
| routed: "hub_step ops h (route_frame ops now h)"

inductive sender_run :: "('i, 'c) payload_ops \<Rightarrow> nat \<Rightarrow> nat \<Rightarrow> ('f, 'i, 'c) hub \<Rightarrow> bool" for ops ack idle where
  built: "sender_run ops ack idle (hub_new ack idle)"
| stepped: "sender_run ops ack idle h \<Longrightarrow> hub_step ops h h' \<Longrightarrow> sender_run ops ack idle h'"

end
