(* ===== verification/HubFacts.thy ===== *)
theory HubFacts
  imports HubRunner
begin

text \<open>
  The invariant of the hub: a waiter stands for exactly one open attempt, a terminal frame in hand was
  heard under the attempt's correlation id, a call that ended left nothing behind, and a call that
  returned has a reason.
\<close>

section \<open>The invariant\<close>

definition attempt_open :: "run_call \<Rightarrow> bool" where
  "attempt_open c \<longleftrightarrow> ca_phase c = Sending \<or> ca_phase c \<in> window_phases"

definition closed_call :: "run_call \<Rightarrow> bool" where
  "closed_call c \<longleftrightarrow> ca_phase c = Dropped_call \<or> (\<exists>r. ca_phase c = Returned r)"

definition waiter_of :: "nat \<Rightarrow> run_call \<Rightarrow> waiter" where
  "waiter_of i c = \<lparr>wt_task_id = (case ca_visible c of Some v \<Rightarrow> v | None \<Rightarrow> rq_task_id (ca_request c)),
     wt_wire_task_id = rq_task_id (ca_request c), wt_screen_kill = ca_screen_kill c,
     wt_from = rq_worker_address (ca_request c), wt_call = i\<rparr>"

definition terminal_of :: "'f worker_frame \<Rightarrow> (rstr + task_outcome) option" where
  "terminal_of f =
     (case wf_kind f of
        Reply_frame \<Rightarrow> Some (Inr (outcome_of f)) | Error_frame \<Rightarrow> Some (Inl (wf_text f)) | _ \<Rightarrow> None)"

text \<open>A frame heard under the attempt's id, from its worker unless it was checked before the attempt.\<close>

definition heard_terminal :: "(rstr \<times> 'f worker_frame \<times> u64) list \<Rightarrow> run_call \<Rightarrow> rstr + task_outcome \<Rightarrow> bool" where
  "heard_terminal heard c t \<longleftrightarrow> (\<exists>(a, f, n) \<in> set heard. key_of f = ca_cid c \<and> terminal_of f = Some t \<and>
     (a = rq_worker_address (ca_request c) \<or> n \<le> ca_number c))"

definition copies :: "hub_sent list \<Rightarrow> nat \<Rightarrow> nat" where
  "copies outbox i = length (filter (\<lambda>m. hs_call m = Some i \<and> hs_kind m = Task_frame) outbox)"

definition justified :: "nat list \<Rightarrow> run_call \<Rightarrow> run_error + task_outcome \<Rightarrow> bool" where
  "justified asked c r \<longleftrightarrow>
     r = Inl Run_timeout \<or> (\<exists>e. r = Inl (Run_transport e)) \<or> r = Inl Run_aborted \<and> ca_signal c \<in> set asked \<or>
     (\<exists>t. ca_terminal c = Some t \<and> r = settle_run t)"

definition call_ok :: "('f, 'i, 'c) hub \<Rightarrow> nat \<Rightarrow> run_call \<Rightarrow> bool" where
  "call_ok h i c \<longleftrightarrow>
     (ca_cid c \<noteq> [] \<longrightarrow> ca_cid c = correlation_id (ca_request c) (ca_number c) \<and> ca_number c < hu_counter h) \<and>
     (attempt_open c \<longrightarrow> ca_cid c \<noteq> [] \<and>
        (ca_terminal c = None \<longrightarrow> map_of (hu_waiters h) (ca_cid c) = Some (waiter_of i c))) \<and>
     (\<forall>t. ca_terminal c = Some t \<longrightarrow> heard_terminal (hu_heard h) c t) \<and>
     (\<forall>r. ca_phase c = Returned r \<longrightarrow> justified (hu_asked h) c r) \<and>
     (closed_call c \<longrightarrow> map_of (hu_aborts h) (rq_abort_id (ca_request c)) \<noteq> Some (ca_signal c)) \<and>
     ca_signal c < hu_next_signal h \<and> ca_attempt c \<le> MAX_RESETS \<and>
     copies (hu_outbox h) i \<le> ca_attempt c + (if ca_phase c = Opening then 0 else of_bool (ca_gone c))"

definition waiter_ok :: "run_call list \<Rightarrow> rstr \<Rightarrow> waiter \<Rightarrow> bool" where
  "waiter_ok cs k w \<longleftrightarrow> wt_call w < length cs \<and>
     (let c = cs ! wt_call w in ca_cid c = k \<and> k \<noteq> [] \<and> waiter_of (wt_call w) c = w \<and> ca_terminal c = None \<and>
       (attempt_open c \<or> ca_phase c = Dropped_call))"

definition numbers_ok :: "run_call list \<Rightarrow> bool" where
  "numbers_ok cs \<longleftrightarrow> (\<forall>i < length cs. \<forall>j < length cs. ca_cid (cs ! i) \<noteq> [] \<longrightarrow> ca_cid (cs ! j) \<noteq> [] \<longrightarrow>
     ca_number (cs ! i) = ca_number (cs ! j) \<longrightarrow> i = j)"

definition pump_ok :: "('f, 'i, 'c) hub \<Rightarrow> bool" where
  "pump_ok h \<longleftrightarrow> (\<forall>a f n. hu_pump h = Some (a, f, n) \<longrightarrow> n \<le> hu_counter h \<and>
     (\<forall>i < length (hu_calls h). ca_cid (hu_calls h ! i) = key_of f \<longrightarrow>
        map_of (hu_waiters h) (key_of f) \<noteq> None \<longrightarrow>
        a = rq_worker_address (ca_request (hu_calls h ! i)) \<or> n \<le> ca_number (hu_calls h ! i)))"

definition hub_ok :: "('f, 'i, 'c) hub \<Rightarrow> bool" where
  "hub_ok h \<longleftrightarrow>
     (\<forall>i < length (hu_calls h). call_ok h i (hu_calls h ! i)) \<and>
     distinct (map fst (hu_waiters h)) \<and> (\<forall>(k, w) \<in> set (hu_waiters h). waiter_ok (hu_calls h) k w) \<and>
     numbers_ok (hu_calls h) \<and> distinct (map ca_signal (hu_calls h)) \<and>
     (\<forall>s. hu_notified h s \<longrightarrow> s \<in> set (hu_asked h)) \<and> pump_ok h \<and>
     (\<forall>i \<ge> length (hu_calls h). copies (hu_outbox h) i = 0)"

section \<open>Fields\<close>

lemma set_call_fields [simp]:
  "hu_calls (set_call i c h) = (hu_calls h)[i := c]" "hu_waiters (set_call i c h) = hu_waiters h"
  "hu_aborts (set_call i c h) = hu_aborts h" "hu_counter (set_call i c h) = hu_counter h"
  "hu_notified (set_call i c h) = hu_notified h" "hu_asked (set_call i c h) = hu_asked h"
  "hu_pump (set_call i c h) = hu_pump h" "hu_heard (set_call i c h) = hu_heard h"
  "hu_outbox (set_call i c h) = hu_outbox h" "hu_next_signal (set_call i c h) = hu_next_signal h"
  "hu_ack_window (set_call i c h) = hu_ack_window h" "hu_idle_window (set_call i c h) = hu_idle_window h"
  "hu_probes (set_call i c h) = hu_probes h"
  by (simp_all add: set_call_def)

lemma remove_waiter_fields [simp]:
  "hu_calls (remove_waiter k h) = hu_calls h" "hu_waiters (remove_waiter k h) = AList.delete k (hu_waiters h)"
  "hu_aborts (remove_waiter k h) = hu_aborts h" "hu_counter (remove_waiter k h) = hu_counter h"
  "hu_notified (remove_waiter k h) = hu_notified h" "hu_asked (remove_waiter k h) = hu_asked h"
  "hu_pump (remove_waiter k h) = hu_pump h" "hu_heard (remove_waiter k h) = hu_heard h"
  "hu_outbox (remove_waiter k h) = hu_outbox h" "hu_next_signal (remove_waiter k h) = hu_next_signal h"
  by (simp_all add: remove_waiter_def)

lemma drop_abort_guard_fields [simp]:
  "hu_calls (drop_abort_guard k s h) = hu_calls h" "hu_waiters (drop_abort_guard k s h) = hu_waiters h"
  "hu_counter (drop_abort_guard k s h) = hu_counter h"
  "hu_notified (drop_abort_guard k s h) = hu_notified h" "hu_asked (drop_abort_guard k s h) = hu_asked h"
  "hu_pump (drop_abort_guard k s h) = hu_pump h" "hu_heard (drop_abort_guard k s h) = hu_heard h"
  "hu_outbox (drop_abort_guard k s h) = hu_outbox h" "hu_next_signal (drop_abort_guard k s h) = hu_next_signal h"
  by (simp_all add: drop_abort_guard_def)

lemma take_signal_fields [simp]:
  "hu_calls (take_signal s h) = hu_calls h" "hu_waiters (take_signal s h) = hu_waiters h"
  "hu_counter (take_signal s h) = hu_counter h" "hu_aborts (take_signal s h) = hu_aborts h"
  "hu_notified (take_signal s h) = (hu_notified h)(s := False)" "hu_asked (take_signal s h) = hu_asked h"
  "hu_pump (take_signal s h) = hu_pump h" "hu_heard (take_signal s h) = hu_heard h"
  "hu_outbox (take_signal s h) = hu_outbox h" "hu_next_signal (take_signal s h) = hu_next_signal h"
  by (simp_all add: take_signal_def)

lemma send_abort_fields [simp]:
  "hu_calls (send_abort i sent h) = hu_calls h" "hu_waiters (send_abort i sent h) = hu_waiters h"
  "hu_counter (send_abort i sent h) = hu_counter h" "hu_aborts (send_abort i sent h) = hu_aborts h"
  "hu_notified (send_abort i sent h) = hu_notified h" "hu_asked (send_abort i sent h) = hu_asked h"
  "hu_pump (send_abort i sent h) = hu_pump h" "hu_heard (send_abort i sent h) = hu_heard h"
  "copies (hu_outbox (send_abort i sent h)) j = copies (hu_outbox h) j"
  "hu_next_signal (send_abort i sent h) = hu_next_signal h"
  by (simp_all add: send_abort_def Let_def copies_def)

lemma map_of_delete: "map_of (AList.delete k xs) = (map_of xs)(k := None)"
  by (rule delete_conv')

lemma map_of_update: "map_of (AList.update k v xs) = (map_of xs)(k \<mapsto> v)"
  by (rule update_conv')

lemma drop_abort_guard_clears: "map_of (hu_aborts (drop_abort_guard k s h)) k \<noteq> Some s"
  by (simp add: drop_abort_guard_def map_of_delete)

lemma drop_abort_guard_shrinks:
  "map_of (hu_aborts (drop_abort_guard k s h)) k' = Some s' \<Longrightarrow> map_of (hu_aborts h) k' = Some s'"
  by (auto simp: drop_abort_guard_def map_of_delete split: if_splits)

lemma copies_snoc:
  "copies (outbox @ [m]) i = copies outbox i + of_bool (hs_call m = Some i \<and> hs_kind m = Task_frame)"
  by (simp add: copies_def)

lemma correlation_id_nonempty [simp]: "correlation_id req n \<noteq> []"
  by (simp add: correlation_id_def)

lemma correlation_id_number: "correlation_id req m = correlation_id req' n \<Longrightarrow> m = n"
proof -
  assume "correlation_id req m = correlation_id req' n"
  then have "((case rq_cycle_id req of Some c \<Rightarrow> c | None \<Rightarrow> lit ''cyc'') @ 47 # rq_task_id req) @ 47 # decimal (unat m) =
      ((case rq_cycle_id req' of Some c \<Rightarrow> c | None \<Rightarrow> lit ''cyc'') @ 47 # rq_task_id req') @ 47 # decimal (unat n)"
    by (simp add: correlation_id_def)
  then have "unat m = unat n" by (rule conjunct2 [OF decimal_suffix_inject])
  then show ?thesis by (rule word_unat_eq_iff [THEN iffD2])
qed

lemma hub_new_ok: "hub_ok (hub_new ack idle)"
  by (simp add: hub_ok_def hub_new_def numbers_ok_def pump_ok_def copies_def)

section \<open>Steps\<close>

text \<open>What identifies a call and its attempt.\<close>

definition same_attempt :: "run_call \<Rightarrow> run_call \<Rightarrow> bool" where
  "same_attempt c c' \<longleftrightarrow> ca_request c' = ca_request c \<and> ca_signal c' = ca_signal c \<and> ca_visible c' = ca_visible c \<and>
     ca_screen_kill c' = ca_screen_kill c \<and> ca_cid c' = ca_cid c \<and> ca_number c' = ca_number c"

lemma same_attempt_waiter: "same_attempt c c' \<Longrightarrow> waiter_of i c' = waiter_of i c"
  by (auto simp: same_attempt_def waiter_of_def split: option.split)

lemma same_attempt_heard: "same_attempt c c' \<Longrightarrow> heard_terminal heard c' t \<longleftrightarrow> heard_terminal heard c t"
  by (simp add: same_attempt_def heard_terminal_def)

lemma hub_call: "hub_ok h \<Longrightarrow> i < length (hu_calls h) \<Longrightarrow> call_ok h i (hu_calls h ! i)"
  by (simp add: hub_ok_def)

lemma hub_numbers: "hub_ok h \<Longrightarrow> numbers_ok (hu_calls h)"
  by (simp add: hub_ok_def)

lemma hub_waiter: "hub_ok h \<Longrightarrow> map_of (hu_waiters h) k = Some w \<Longrightarrow> waiter_ok (hu_calls h) k w"
  unfolding hub_ok_def by (drule map_of_SomeD) blast

lemma waiter_fields:
  assumes "waiter_ok cs k w"
  shows "wt_call w < length cs" "ca_cid (cs ! wt_call w) = k" "k \<noteq> []" "waiter_of (wt_call w) (cs ! wt_call w) = w"
    "ca_terminal (cs ! wt_call w) = None" "attempt_open (cs ! wt_call w) \<or> ca_phase (cs ! wt_call w) = Dropped_call"
  using assms unfolding waiter_ok_def Let_def by metis+

lemma call_cid:
  "call_ok h i c \<Longrightarrow> ca_cid c \<noteq> [] \<Longrightarrow>
    ca_cid c = correlation_id (ca_request c) (ca_number c) \<and> ca_number c < hu_counter h"
  by (simp add: call_ok_def)

lemma same_cid_same_call:
  assumes "hub_ok h" "i < length (hu_calls h)" "j < length (hu_calls h)"
    "ca_cid (hu_calls h ! i) = ca_cid (hu_calls h ! j)" "ca_cid (hu_calls h ! i) \<noteq> []"
  shows "i = j"
proof -
  let ?c = "hu_calls h ! i" and ?d = "hu_calls h ! j"
  have "ca_cid ?c = correlation_id (ca_request ?c) (ca_number ?c)" "ca_cid ?d = correlation_id (ca_request ?d) (ca_number ?d)"
    using call_cid [OF hub_call [OF assms(1,2)]] call_cid [OF hub_call [OF assms(1,3)]] assms(4,5) by simp_all
  then have "correlation_id (ca_request ?c) (ca_number ?c) = correlation_id (ca_request ?d) (ca_number ?d)"
    using assms(4) by metis
  then have "ca_number ?c = ca_number ?d" by (rule correlation_id_number)
  then show ?thesis using hub_numbers [OF assms(1)] assms(2-5) by (simp add: numbers_ok_def)
qed

lemma waiter_call_unique:
  assumes "hub_ok h" "map_of (hu_waiters h) k = Some w" "i < length (hu_calls h)" "ca_cid (hu_calls h ! i) = k"
  shows "wt_call w = i"
  using same_cid_same_call [OF assms(1) _ assms(3)] waiter_fields [OF hub_waiter [OF assms(1,2)]] assms(4) by simp

text \<open>A step of one call that keeps its attempt, and leaves its waiter or takes it away.\<close>

lemma call_step:
  assumes ok: "hub_ok h" and i: "i < length (hu_calls h)"
    and calls: "hu_calls h' = (hu_calls h)[i := c']" and same: "same_attempt (hu_calls h ! i) c'"
    and opened: "attempt_open c' \<longrightarrow> attempt_open (hu_calls h ! i)"
    and waiters: "hu_waiters h' = hu_waiters h \<and> (attempt_open c' \<or> ca_phase c' = Dropped_call \<or> ca_terminal c' \<noteq> None) \<or>
      hu_waiters h' = AList.delete (ca_cid c') (hu_waiters h) \<and> (\<not> attempt_open c' \<or> ca_terminal c' \<noteq> None)"
    and terminal: "ca_terminal c' = ca_terminal (hu_calls h ! i) \<or> hu_waiters h' = AList.delete (ca_cid c') (hu_waiters h) \<and>
      (\<exists>t. ca_terminal c' = Some t \<and> heard_terminal (hu_heard h) (hu_calls h ! i) t)"
    and rest: "hu_counter h' = hu_counter h" "hu_heard h' = hu_heard h" "hu_pump h' = hu_pump h"
      "hu_next_signal h' = hu_next_signal h" "hu_asked h' = hu_asked h"
    and notified: "\<And>s. hu_notified h' s \<Longrightarrow> hu_notified h s"
    and aborts: "\<And>k s. map_of (hu_aborts h') k = Some s \<Longrightarrow> map_of (hu_aborts h) k = Some s"
    and sent: "\<And>j. j \<noteq> i \<Longrightarrow> copies (hu_outbox h') j = copies (hu_outbox h) j"
      "copies (hu_outbox h') i \<le> ca_attempt c' + (if ca_phase c' = Opening then 0 else of_bool (ca_gone c'))"
    and own: "ca_attempt c' \<le> MAX_RESETS" "\<And>r. ca_phase c' = Returned r \<Longrightarrow> justified (hu_asked h) c' r"
      "closed_call c' \<Longrightarrow> map_of (hu_aborts h') (rq_abort_id (ca_request c')) \<noteq> Some (ca_signal c')"
  shows "hub_ok h'"
proof -
  let ?c = "hu_calls h ! i"
  have c: "call_ok h i ?c" by (rule hub_call [OF ok i])
  have fields: "ca_request c' = ca_request ?c" "ca_signal c' = ca_signal ?c" "ca_cid c' = ca_cid ?c"
    "ca_number c' = ca_number ?c" using same by (simp_all add: same_attempt_def)
  have away: "map_of (hu_waiters h') k = map_of (hu_waiters h) k" if "k \<noteq> ca_cid ?c" for k
    using waiters that fields(3) by (auto simp: map_of_delete)
  have sub: "set (hu_waiters h') \<subseteq> set (hu_waiters h)"
    using waiters by (auto simp: AList.delete_eq)
  have "call_ok h' i c'"
  proof -
    have "ca_terminal c' = None \<longrightarrow> map_of (hu_waiters h') (ca_cid c') = Some (waiter_of i c')" if "attempt_open c'"
      using that opened waiters terminal c same_attempt_waiter [OF same] fields by (auto simp: call_ok_def)
    moreover have "heard_terminal (hu_heard h) c' t" if "ca_terminal c' = Some t" for t
      using that terminal c same_attempt_heard [OF same] by (auto simp: call_ok_def)
    ultimately show ?thesis
      using c opened own sent(2) fields rest unfolding call_ok_def by auto
  qed
  moreover have "call_ok h' j (hu_calls h ! j)" if j: "j < length (hu_calls h)" "j \<noteq> i" for j
  proof -
    let ?d = "hu_calls h ! j"
    have d: "call_ok h j ?d" by (rule hub_call [OF ok j(1)])
    have "ca_cid ?d \<noteq> ca_cid ?c" if "ca_cid ?d \<noteq> []"
      using same_cid_same_call [OF ok j(1) i] that j(2) by blast
    then have "attempt_open ?d \<longrightarrow> ca_terminal ?d = None \<longrightarrow> map_of (hu_waiters h') (ca_cid ?d) = Some (waiter_of j ?d)"
      using d away unfolding call_ok_def by metis
    moreover have "closed_call ?d \<longrightarrow> map_of (hu_aborts h') (rq_abort_id (ca_request ?d)) \<noteq> Some (ca_signal ?d)"
      using d aborts unfolding call_ok_def by blast
    ultimately show ?thesis using d sent(1) [OF j(2)] rest unfolding call_ok_def by simp
  qed
  ultimately have "\<forall>j < length (hu_calls h'). call_ok h' j (hu_calls h' ! j)"
    using i by (auto simp: calls nth_list_update)
  moreover have "waiter_ok (hu_calls h') k w" if kw: "(k, w) \<in> set (hu_waiters h')" for k w
  proof -
    have old: "waiter_ok (hu_calls h) k w" using ok sub kw unfolding hub_ok_def by blast
    note wf = waiter_fields [OF old]
    show ?thesis
    proof (cases "wt_call w = i")
      case True
      have "hu_waiters h' \<noteq> AList.delete (ca_cid c') (hu_waiters h)"
        using kw wf(2) True fields(3) by (auto simp: AList.delete_eq)
      then have "attempt_open c' \<or> ca_phase c' = Dropped_call" "ca_terminal c' = None"
        using waiters terminal wf(5) True by auto
      then show ?thesis
        using wf True i fields same_attempt_waiter [OF same] by (simp add: waiter_ok_def calls Let_def)
    next
      case False
      then show ?thesis using wf by (simp add: waiter_ok_def calls Let_def)
    qed
  qed
  moreover have "distinct (map fst (hu_waiters h'))"
    using ok waiters by (auto simp: hub_ok_def intro: AList.distinct_delete)
  moreover have "numbers_ok (hu_calls h')"
    using hub_numbers [OF ok] fields(3,4) i by (auto simp: numbers_ok_def calls nth_list_update)
  moreover have "map ca_signal (hu_calls h') = map ca_signal (hu_calls h)"
    using fields(2) by (metis calls list_update_id map_update)
  moreover have "pump_ok h'"
  proof -
    have "map_of (hu_waiters h') k \<noteq> None \<Longrightarrow> map_of (hu_waiters h) k \<noteq> None" for k
      using waiters by (auto simp: map_of_delete split: if_splits)
    moreover have "ca_cid (hu_calls h' ! j) = ca_cid (hu_calls h ! j) \<and> ca_number (hu_calls h' ! j) = ca_number (hu_calls h ! j) \<and>
        ca_request (hu_calls h' ! j) = ca_request (hu_calls h ! j)" for j
      using fields(1,3,4) i by (cases "j = i") (simp_all add: calls)
    ultimately show ?thesis using ok rest unfolding hub_ok_def pump_ok_def by (simp add: calls)
  qed
  moreover have "\<forall>j \<ge> length (hu_calls h'). copies (hu_outbox h') j = 0"
    using ok sent(1) i by (simp add: hub_ok_def calls)
  ultimately show ?thesis using ok notified rest unfolding hub_ok_def by auto
qed

text \<open>A step that leaves calls and waiters alone.\<close>

lemma heard_terminal_mono: "set heard \<subseteq> set heard' \<Longrightarrow> heard_terminal heard c t \<Longrightarrow> heard_terminal heard' c t"
  unfolding heard_terminal_def by blast

lemma justified_mono: "set asked \<subseteq> set asked' \<Longrightarrow> justified asked c r \<Longrightarrow> justified asked' c r"
  unfolding justified_def by blast

lemma env_step:
  assumes ok: "hub_ok h"
    and same: "hu_calls h' = hu_calls h" "hu_waiters h' = hu_waiters h" "hu_pump h' = hu_pump h \<or> hu_pump h' = None"
      "\<And>j. copies (hu_outbox h') j = copies (hu_outbox h) j"
    and grown: "hu_counter h \<le> hu_counter h'" "set (hu_heard h) \<subseteq> set (hu_heard h')"
      "set (hu_asked h) \<subseteq> set (hu_asked h')" "hu_next_signal h \<le> hu_next_signal h'"
    and notified: "\<And>s. hu_notified h' s \<Longrightarrow> s \<in> set (hu_asked h')"
    and aborts: "\<And>c. c \<in> set (hu_calls h) \<Longrightarrow> closed_call c \<Longrightarrow> ca_signal c < hu_next_signal h \<Longrightarrow>
      map_of (hu_aborts h) (rq_abort_id (ca_request c)) \<noteq> Some (ca_signal c) \<Longrightarrow>
      map_of (hu_aborts h') (rq_abort_id (ca_request c)) \<noteq> Some (ca_signal c)"
  shows "hub_ok h'"
proof -
  have "call_ok h' i (hu_calls h ! i)" if i: "i < length (hu_calls h)" for i
  proof -
    let ?c = "hu_calls h ! i"
    note c = hub_call [OF ok i, unfolded call_ok_def]
    have "ca_cid ?c \<noteq> [] \<longrightarrow> ca_number ?c < hu_counter h'" using c grown(1) by auto
    moreover have "closed_call ?c \<longrightarrow> map_of (hu_aborts h') (rq_abort_id (ca_request ?c)) \<noteq> Some (ca_signal ?c)"
      using c aborts i by auto
    moreover have "ca_terminal ?c = Some t \<longrightarrow> heard_terminal (hu_heard h') ?c t" for t
      using c heard_terminal_mono [OF grown(2)] by blast
    moreover have "ca_phase ?c = Returned r \<longrightarrow> justified (hu_asked h') ?c r" for r
      using c justified_mono [OF grown(3)] by blast
    ultimately show ?thesis
      using c grown(4) unfolding call_ok_def same by (simp add: less_le_trans)
  qed
  moreover have "pump_ok h'"
    unfolding pump_ok_def same(1,2)
  proof (intro allI impI)
    fix a f n
    assume "hu_pump h' = Some (a, f, n)"
    then have "hu_pump h = Some (a, f, n)" using same(3) by auto
    then have "n \<le> hu_counter h \<and> (\<forall>i < length (hu_calls h). ca_cid (hu_calls h ! i) = key_of f \<longrightarrow>
        map_of (hu_waiters h) (key_of f) \<noteq> None \<longrightarrow>
        a = rq_worker_address (ca_request (hu_calls h ! i)) \<or> n \<le> ca_number (hu_calls h ! i))"
      using ok unfolding hub_ok_def pump_ok_def by blast
    then show "n \<le> hu_counter h' \<and> (\<forall>i < length (hu_calls h). ca_cid (hu_calls h ! i) = key_of f \<longrightarrow>
        map_of (hu_waiters h) (key_of f) \<noteq> None \<longrightarrow>
        a = rq_worker_address (ca_request (hu_calls h ! i)) \<or> n \<le> ca_number (hu_calls h ! i))"
      using order_trans [OF _ grown(1)] by blast
  qed
  ultimately show ?thesis using ok notified unfolding hub_ok_def same by simp
qed

text \<open>A new call, and a new attempt.\<close>

lemma open_call_ok:
  assumes ok: "hub_ok h" and prepared: "case prepared of Some s \<Rightarrow> prepared_signal h (rq_abort_id req) s | None \<Rightarrow> True"
  shows "hub_ok (open_call req screen_kill marker prepared visible h)"
proof -
  define s where "s = (case prepared of Some s \<Rightarrow> s | None \<Rightarrow> hu_next_signal h)"
  define next' where "next' = (case prepared of Some s \<Rightarrow> hu_next_signal h | None \<Rightarrow> Suc (hu_next_signal h))"
  let ?c = "new_call req screen_kill marker visible s"
  define h' where "h' = h\<lparr>hu_next_signal := next', hu_aborts := AList.update (rq_abort_id req) s (hu_aborts h),
    hu_calls := hu_calls h @ [?c]\<rparr>"
  have eq: "open_call req screen_kill marker prepared visible h = h'"
    by (auto simp: open_call_def h'_def s_def next'_def split: option.split)
  have signals: "ca_signal c < hu_next_signal h" if "c \<in> set (hu_calls h)" for c
    using that ok unfolding hub_ok_def call_ok_def by (metis in_set_conv_nth)
  have fresh: "hu_next_signal h \<notin> ca_signal ` set (hu_calls h)" using signals by fastforce
  have s: "s < next'" "hu_next_signal h \<le> next'" "s \<notin> ca_signal ` set (hu_calls h)"
    using prepared fresh by (auto simp: s_def next'_def prepared_signal_def split: option.splits)
  have old: "call_ok h' i (hu_calls h ! i)" if i: "i < length (hu_calls h)" for i
    using hub_call [OF ok i] s nth_mem [OF i] unfolding call_ok_def by (auto simp: h'_def map_of_update)
  have new: "call_ok h' (length (hu_calls h)) ?c"
    using ok s by (simp add: call_ok_def h'_def new_call_def attempt_open_def closed_call_def hub_ok_def MAX_RESETS_def
        image_iff)
  have "\<forall>i < length (hu_calls h'). call_ok h' i (hu_calls h' ! i)"
    using old new by (auto simp: h'_def nth_append less_Suc_eq)
  moreover have "waiter_ok (hu_calls h') k w" if kw: "(k, w) \<in> set (hu_waiters h)" for k w
  proof -
    have "waiter_ok (hu_calls h) k w" using ok kw unfolding hub_ok_def by blast
    then show ?thesis unfolding waiter_ok_def by (simp add: h'_def nth_append)
  qed
  moreover have "numbers_ok (hu_calls h')"
    using hub_numbers [OF ok] by (auto simp: numbers_ok_def h'_def nth_append new_call_def less_Suc_eq)
  moreover have "distinct (map ca_signal (hu_calls h'))"
    using ok s(3) by (auto simp: hub_ok_def h'_def new_call_def)
  moreover have "pump_ok h'"
    unfolding pump_ok_def
  proof (intro allI impI)
    fix a f n
    assume "hu_pump h' = Some (a, f, n)"
    then have p: "hu_pump h = Some (a, f, n)" by (simp add: h'_def)
    then have old_pump: "n \<le> hu_counter h" "i < length (hu_calls h) \<Longrightarrow> ca_cid (hu_calls h ! i) = key_of f \<Longrightarrow>
        map_of (hu_waiters h) (key_of f) \<noteq> None \<Longrightarrow>
        a = rq_worker_address (ca_request (hu_calls h ! i)) \<or> n \<le> ca_number (hu_calls h ! i)" for i
      using ok unfolding hub_ok_def pump_ok_def by blast+
    have "key_of f \<noteq> [] \<or> map_of (hu_waiters h) (key_of f) = None"
      using waiter_fields(3) [OF hub_waiter [OF ok]] by blast
    then show "n \<le> hu_counter h' \<and> (\<forall>i < length (hu_calls h'). ca_cid (hu_calls h' ! i) = key_of f \<longrightarrow>
        map_of (hu_waiters h') (key_of f) \<noteq> None \<longrightarrow>
        a = rq_worker_address (ca_request (hu_calls h' ! i)) \<or> n \<le> ca_number (hu_calls h' ! i))"
      using old_pump by (auto simp: h'_def nth_append new_call_def less_Suc_eq)
  qed
  moreover have "\<forall>i \<ge> length (hu_calls h'). copies (hu_outbox h') i = 0" using ok by (simp add: hub_ok_def h'_def)
  ultimately have "hub_ok h'" using ok unfolding hub_ok_def by (auto simp: h'_def)
  then show ?thesis by (simp add: eq)
qed

end
