(* ===== verification/HubSteps.thy ===== *)
theory HubSteps
  imports HubFacts
begin

text \<open>Every step of the hub keeps its invariant.\<close>

section \<open>Attempts\<close>

lemma counter_Suc: "n < - 1 \<Longrightarrow> n < n + (1 :: u64)"
  by (rule word_Suc_less)

lemma open_attempt_ok:
  assumes ok: "hub_ok h" and i: "in_phase h i {Opening}" and room: "hu_counter h < - 1"
  shows "hub_ok (open_attempt i h)"
proof -
  let ?c = "hu_calls h ! i" and ?n = "hu_counter h"
  have len: "i < length (hu_calls h)" and ph: "ca_phase ?c = Opening" using i by (simp_all add: in_phase_def)
  define cid where "cid = correlation_id (ca_request ?c) ?n"
  define c' where "c' = ?c\<lparr>ca_phase := Sending, ca_cid := cid, ca_number := ?n, ca_gone := False,
    ca_terminal := None, ca_activity := False, ca_held := False\<rparr>"
  define h' where "h' = open_attempt i h"
  have h': "hu_calls h' = (hu_calls h)[i := c']" "hu_counter h' = ?n + 1"
    "hu_waiters h' = AList.update cid (waiter_of i c') (hu_waiters h)" "hu_heard h' = hu_heard h" "hu_pump h' = hu_pump h"
    "hu_asked h' = hu_asked h" "hu_aborts h' = hu_aborts h" "hu_next_signal h' = hu_next_signal h"
    "hu_outbox h' = hu_outbox h" "hu_notified h' = hu_notified h"
    by (simp_all add: h'_def open_attempt_def Let_def c'_def cid_def waiter_of_def cong: option.case_cong)
  have c': "ca_cid c' = cid" "ca_number c' = ?n" "ca_phase c' = Sending" "ca_terminal c' = None" "ca_signal c' = ca_signal ?c"
    "ca_request c' = ca_request ?c" "ca_attempt c' = ca_attempt ?c" "\<not> ca_gone c'"
    by (simp_all add: c'_def)
  note word_less = counter_Suc [OF room]
  have fresh: "ca_cid (hu_calls h ! j) \<noteq> cid" if "j < length (hu_calls h)" for j
  proof
    assume eq: "ca_cid (hu_calls h ! j) = cid"
    then have "ca_cid (hu_calls h ! j) \<noteq> []" by (simp add: cid_def)
    then have "ca_cid (hu_calls h ! j) = correlation_id (ca_request (hu_calls h ! j)) (ca_number (hu_calls h ! j)) \<and>
        ca_number (hu_calls h ! j) < ?n" using call_cid [OF hub_call [OF ok that]] by blast
    then show False using eq correlation_id_number unfolding cid_def by (metis less_irrefl)
  qed
  have unused: "map_of (hu_waiters h) cid = None"
  proof (rule ccontr)
    assume "map_of (hu_waiters h) cid \<noteq> None"
    then obtain w where "waiter_ok (hu_calls h) cid w" using hub_waiter [OF ok] by blast
    then show False using waiter_fields(1,2) fresh by blast
  qed
  have "call_ok h' i c'"
    using hub_call [OF ok len] ph c' unfolding call_ok_def
    by (simp add: h' map_of_update attempt_open_def closed_call_def word_less cid_def)
  moreover have "call_ok h' j (hu_calls h ! j)" if j: "j < length (hu_calls h)" "j \<noteq> i" for j
  proof -
    have "ca_number (hu_calls h ! j) < ?n \<Longrightarrow> ca_number (hu_calls h ! j) < ?n + 1" by (rule less_trans [OF _ word_less])
    then show ?thesis
      using hub_call [OF ok j(1)] fresh [OF j(1)] unfolding call_ok_def by (auto simp: h' map_of_update)
  qed
  ultimately have "\<forall>j < length (hu_calls h'). call_ok h' j (hu_calls h' ! j)"
    using len by (auto simp: h' nth_list_update)
  moreover have "waiter_ok (hu_calls h') k w" if kw: "(k, w) \<in> set (hu_waiters h')" for k w
  proof (cases "k = cid")
    case True
    then have "w = waiter_of i c'"
      using kw unused unfolding h'(3) by (metis fun_upd_same map_of_update map_of_is_SomeI option.inject
          AList.distinct_update hub_ok_def ok)
    then show ?thesis
      using True len c' by (simp add: waiter_ok_def h' waiter_of_def attempt_open_def cid_def)
  next
    case False
    then have old: "waiter_ok (hu_calls h) k w"
      using kw unused ok unfolding h'(3) hub_ok_def by (metis (no_types, lifting) case_prodD map_of_update fun_upd_other
          map_of_SomeD map_of_is_SomeI AList.distinct_update)
    then have "wt_call w \<noteq> i"
      using waiter_fields [OF old] ph by (auto simp: attempt_open_def)
    then show ?thesis using old unfolding waiter_ok_def by (simp add: h')
  qed
  moreover have "distinct (map fst (hu_waiters h'))"
    using ok by (simp add: h' hub_ok_def AList.distinct_update)
  moreover have "numbers_ok (hu_calls h')"
  proof -
    have num: "ca_number (hu_calls h ! j) \<noteq> ?n" if "j < length (hu_calls h)" "ca_cid (hu_calls h ! j) \<noteq> []" for j
      using call_cid [OF hub_call [OF ok that(1)] that(2)] by auto
    show ?thesis
      unfolding numbers_ok_def h'(1)
    proof (intro allI impI)
      fix p q
      assume pq: "p < length ((hu_calls h)[i := c'])" "q < length ((hu_calls h)[i := c'])"
        "ca_cid ((hu_calls h)[i := c'] ! p) \<noteq> []" "ca_cid ((hu_calls h)[i := c'] ! q) \<noteq> []"
        "ca_number ((hu_calls h)[i := c'] ! p) = ca_number ((hu_calls h)[i := c'] ! q)"
      show "p = q"
        using pq hub_numbers [OF ok] num [of p] num [of q] len c'(2)
        by (cases "p = i"; cases "q = i") (simp_all add: numbers_ok_def)
    qed
  qed
  moreover have "map ca_signal (hu_calls h') = map ca_signal (hu_calls h)"
    using c'(5) by (metis h'(1) list_update_id map_update)
  moreover have "pump_ok h'"
    unfolding pump_ok_def
  proof (intro allI impI)
    fix a f n
    assume "hu_pump h' = Some (a, f, n)"
    then have old: "n \<le> ?n" "\<And>j. j < length (hu_calls h) \<Longrightarrow> ca_cid (hu_calls h ! j) = key_of f \<Longrightarrow>
        map_of (hu_waiters h) (key_of f) \<noteq> None \<Longrightarrow>
        a = rq_worker_address (ca_request (hu_calls h ! j)) \<or> n \<le> ca_number (hu_calls h ! j)"
      using ok unfolding h' hub_ok_def pump_ok_def by blast+
    have "n \<le> ?n + 1" using old(1) word_less by (meson less_imp_le order_trans)
    moreover have "a = rq_worker_address (ca_request (hu_calls h' ! j)) \<or> n \<le> ca_number (hu_calls h' ! j)"
      if "j < length (hu_calls h')" "ca_cid (hu_calls h' ! j) = key_of f" "map_of (hu_waiters h') (key_of f) \<noteq> None" for j
    proof (cases "j = i")
      case True
      then show ?thesis using old(1) len c'(2) by (simp add: h')
    next
      case False
      then have j: "j < length (hu_calls h)" "ca_cid (hu_calls h ! j) = key_of f" using that by (simp_all add: h')
      then have "map_of (hu_waiters h) (key_of f) \<noteq> None"
        using that(3) fresh [OF j(1)] unfolding h'(3) map_of_update by (metis fun_upd_other)
      then show ?thesis using old(2) [OF j] False by (simp add: h')
    qed
    ultimately show "n \<le> hu_counter h' \<and> (\<forall>j < length (hu_calls h'). ca_cid (hu_calls h' ! j) = key_of f \<longrightarrow>
        map_of (hu_waiters h') (key_of f) \<noteq> None \<longrightarrow>
        a = rq_worker_address (ca_request (hu_calls h' ! j)) \<or> n \<le> ca_number (hu_calls h' ! j))"
      unfolding h'(2) by blast
  qed
  moreover have "\<forall>j \<ge> length (hu_calls h'). copies (hu_outbox h') j = 0" using ok by (simp add: hub_ok_def h')
  ultimately have "hub_ok h'" using ok unfolding hub_ok_def by (auto simp: h'(6,10))
  then show ?thesis by (simp add: h'_def)
qed

section \<open>Steps of a call\<close>

text \<open>What a call's bounds say.\<close>

lemma call_bounds:
  assumes "hub_ok h" "i < length (hu_calls h)"
  shows "ca_attempt (hu_calls h ! i) \<le> MAX_RESETS" "copies (hu_outbox h) i \<le> ca_attempt (hu_calls h ! i) +
    (if ca_phase (hu_calls h ! i) = Opening then 0 else of_bool (ca_gone (hu_calls h ! i)))"
  using hub_call [OF assms] unfolding call_ok_def by blast+

lemma take_task_ok:
  assumes ok: "hub_ok h" and i: "in_phase h i {Sending}" and fresh: "\<not> ca_gone (hu_calls h ! i)"
  shows "hub_ok (take_task i h)"
proof (rule call_step [OF ok])
  let ?c = "hu_calls h ! i"
  show len: "i < length (hu_calls h)" using i by (simp add: in_phase_def)
  have ph: "ca_phase ?c = Sending" using i by (simp add: in_phase_def)
  note b = call_bounds [OF ok len]
  show "copies (hu_outbox (take_task i h)) i \<le> ca_attempt (?c\<lparr>ca_gone := True\<rparr>) +
      (if ca_phase (?c\<lparr>ca_gone := True\<rparr>) = Opening then 0 else of_bool (ca_gone (?c\<lparr>ca_gone := True\<rparr>)))"
    using b(2) ph fresh by (simp add: take_task_def Let_def copies_snoc)
  show "hu_calls (take_task i h) = (hu_calls h)[i := ?c\<lparr>ca_gone := True\<rparr>]" by (simp add: take_task_def Let_def)
  show "ca_attempt (?c\<lparr>ca_gone := True\<rparr>) \<le> MAX_RESETS" using b(1) by simp
qed (use i in \<open>auto simp: take_task_def Let_def same_attempt_def attempt_open_def in_phase_def closed_call_def copies_snoc\<close>)

text \<open>A call that ends, its waiter taken away or already settled.\<close>

lemma end_call_ok:
  assumes ok: "hub_ok h" and len: "i < length (hu_calls h)"
    and phase: "ph = Dropped_call \<or> (\<exists>r. ph = Returned r \<and> justified (hu_asked h) (hu_calls h ! i) r)"
      "ca_phase (hu_calls h ! i) \<noteq> Opening \<or> ph = Dropped_call"
    and calls: "hu_calls h1 = hu_calls h" "hu_waiters h1 = hu_waiters h \<and> (ph = Dropped_call \<or> ca_terminal (hu_calls h ! i) \<noteq> None) \<or>
        hu_waiters h1 = AList.delete (ca_cid (hu_calls h ! i)) (hu_waiters h)"
      "hu_counter h1 = hu_counter h" "hu_heard h1 = hu_heard h" "hu_pump h1 = hu_pump h" "hu_next_signal h1 = hu_next_signal h"
      "hu_asked h1 = hu_asked h" "hu_aborts h1 = hu_aborts h" "\<And>s. hu_notified h1 s \<Longrightarrow> hu_notified h s"
      "\<And>j. copies (hu_outbox h1) j = copies (hu_outbox h) j"
  shows "hub_ok (drop_abort_guard (rq_abort_id (ca_request (hu_calls h ! i))) (ca_signal (hu_calls h ! i))
    (set_call i ((hu_calls h ! i)\<lparr>ca_phase := ph\<rparr>) h1))" (is "hub_ok ?h'")
proof (rule call_step [OF ok len, where c' = "(hu_calls h ! i)\<lparr>ca_phase := ph\<rparr>"])
  let ?c = "hu_calls h ! i"
  note b = call_bounds [OF ok len]
  show "copies (hu_outbox ?h') i \<le> ca_attempt (?c\<lparr>ca_phase := ph\<rparr>) +
      (if ca_phase (?c\<lparr>ca_phase := ph\<rparr>) = Opening then 0 else of_bool (ca_gone (?c\<lparr>ca_phase := ph\<rparr>)))"
    using b(2) phase calls(10) by (auto split: if_splits)
  show "map_of (hu_aborts ?h') (rq_abort_id (ca_request (?c\<lparr>ca_phase := ph\<rparr>))) \<noteq> Some (ca_signal (?c\<lparr>ca_phase := ph\<rparr>))"
    using drop_abort_guard_clears by simp
  show "justified (hu_asked h) (?c\<lparr>ca_phase := ph\<rparr>) r" if "ca_phase (?c\<lparr>ca_phase := ph\<rparr>) = Returned r" for r
    using that phase by (auto simp: justified_def)
  show "map_of (hu_aborts h) k = Some s" if "map_of (hu_aborts ?h') k = Some s" for k s
    using drop_abort_guard_shrinks [OF that] calls(8) by simp
  show "ca_attempt (?c\<lparr>ca_phase := ph\<rparr>) \<le> MAX_RESETS" using b(1) by simp
qed (use calls phase in \<open>auto simp: same_attempt_def attempt_open_def\<close>)

lemma poll_send_ok:
  assumes ok: "hub_ok h" and i: "in_phase h i {Sending}"
  shows "hub_ok (poll_send i result h)"
proof -
  let ?c = "hu_calls h ! i"
  have len: "i < length (hu_calls h)" and ph: "ca_phase ?c = Sending" using i by (simp_all add: in_phase_def)
  have asked: "justified (hu_asked h) ?c (Inl Run_aborted)" if "hu_notified h (ca_signal ?c)"
    using ok that unfolding hub_ok_def justified_def by blast
  have transport: "justified (hu_asked h) ?c (Inl (Run_transport e))" for e by (simp add: justified_def)
  have "hub_ok (return_call i (Inl Run_aborted) (remove_waiter (ca_cid ?c) (take_signal (ca_signal ?c) h)))"
    if "hu_notified h (ca_signal ?c)"
    using end_call_ok [OF ok len, of "Returned (Inl Run_aborted)" "remove_waiter (ca_cid ?c) (take_signal (ca_signal ?c) h)"]
      asked [OF that] ph by (auto simp: return_call_def Let_def split: if_splits)
  moreover have "hub_ok (return_call i (Inl (Run_transport e)) (remove_waiter (ca_cid ?c) h))" for e
    using end_call_ok [OF ok len, of "Returned (Inl (Run_transport e))" "remove_waiter (ca_cid ?c) h"] transport ph
    by (auto simp: return_call_def Let_def)
  moreover have "hub_ok (set_call i (?c\<lparr>ca_phase := Acking w\<rparr>) h)" for w
    by (rule call_step [OF ok len, where c' = "?c\<lparr>ca_phase := Acking w\<rparr>"])
      (use call_bounds [OF ok len] ph in \<open>auto simp: same_attempt_def attempt_open_def closed_call_def\<close>)
  ultimately show ?thesis using ok by (auto simp: poll_send_def Let_def split: option.split sum.split)
qed

lemma give_up_ok:
  assumes ok: "hub_ok h" and i: "in_phase h i window_phases"
    and why: "justified (hu_asked h) (hu_calls h ! i) (Inl e)"
    and same: "hu_calls h0 = hu_calls h" "hu_waiters h0 = hu_waiters h" "hu_counter h0 = hu_counter h" "hu_heard h0 = hu_heard h"
      "hu_pump h0 = hu_pump h" "hu_next_signal h0 = hu_next_signal h" "hu_asked h0 = hu_asked h" "hu_aborts h0 = hu_aborts h"
      "\<And>s. hu_notified h0 s \<Longrightarrow> hu_notified h s" "hu_outbox h0 = hu_outbox h"
  shows "hub_ok (give_up i sent e h0)"
  using end_call_ok [OF ok, of i "Returned (Inl e)" "send_abort i sent (remove_waiter (ca_cid (hu_calls h ! i)) h0)"] i why same
  by (auto simp: give_up_def return_call_def Let_def in_phase_def)

lemma poll_window_ok:
  assumes ok: "hub_ok h" and i: "in_phase h i window_phases"
  shows "hub_ok (poll_window i sent h)"
proof -
  let ?c = "hu_calls h ! i"
  have len: "i < length (hu_calls h)" and ph: "ca_phase ?c \<in> window_phases" using i by (simp_all add: in_phase_def)
  note b = call_bounds [OF ok len]
  have ended: "hub_ok (return_call i (settle_run t) h)" if "ca_terminal ?c = Some t" for t
    using end_call_ok [OF ok len, of "Returned (settle_run t)" h] that ph
    by (auto simp: return_call_def Let_def justified_def)
  have aborted: "hub_ok (give_up i sent Run_aborted (take_signal (ca_signal ?c) h))" if "hu_notified h (ca_signal ?c)"
    by (rule give_up_ok [OF ok i]) (use ok that in \<open>auto simp: hub_ok_def justified_def split: if_splits\<close>)
  have late: "hub_ok (give_up i sent Run_timeout h)"
    by (rule give_up_ok [OF ok i]) (auto simp: justified_def)
  have alive: "hub_ok (set_call i (?c\<lparr>ca_activity := False, ca_phase := Working w\<rparr>) h)" for w
    by (rule call_step [OF ok len, where c' = "?c\<lparr>ca_activity := False, ca_phase := Working w\<rparr>"])
      (use b ph in \<open>auto simp: same_attempt_def attempt_open_def closed_call_def\<close>)
  have again: "hub_ok (lapse i sent h)"
  proof (cases "ca_attempt ?c \<ge> MAX_RESETS")
    case True
    then show ?thesis using late by (simp add: lapse_def Let_def)
  next
    case False
    let ?c' = "?c\<lparr>ca_attempt := Suc (ca_attempt ?c), ca_phase := Opening\<rparr>"
    have "copies (hu_outbox h) i \<le> Suc (ca_attempt ?c)"
      using b(2) by (cases "ca_gone ?c") (auto split: if_splits)
    then show ?thesis
      unfolding lapse_def Let_def using False
      by (simp, intro call_step [OF ok len, where c' = ?c'])
        (auto simp: same_attempt_def attempt_open_def closed_call_def)
  qed
  show ?thesis
    using ok ended aborted late alive again
    by (auto simp: poll_window_def Let_def split: option.split call_phase.split nat.split)
qed

lemma tick_window_ok:
  assumes ok: "hub_ok h" and i: "in_phase h i window_phases"
  shows "hub_ok (tick_window i live h)"
proof -
  let ?c = "hu_calls h ! i"
  have len: "i < length (hu_calls h)" and ph: "ca_phase ?c \<in> window_phases" using i by (simp_all add: in_phase_def)
  have "hub_ok (set_call i (?c\<lparr>ca_phase := ph'\<rparr>) h)" if "ph' \<in> window_phases" for ph'
    by (rule call_step [OF ok len, where c' = "?c\<lparr>ca_phase := ph'\<rparr>"])
      (use call_bounds [OF ok len] ph that in \<open>auto simp: same_attempt_def attempt_open_def closed_call_def\<close>)
  then show ?thesis using ok by (auto simp: tick_window_def Let_def split: call_phase.split)
qed

lemma drop_call_ok:
  assumes ok: "hub_ok h" and i: "in_phase h i ({Opening, Sending} \<union> window_phases)"
  shows "hub_ok (drop_call i h)"
  using end_call_ok [OF ok, of i Dropped_call h] i by (auto simp: drop_call_def Let_def in_phase_def)

section \<open>Routing\<close>

lemma waiter_call:
  assumes "hub_ok h" "map_of (hu_waiters h) key = Some w"
  shows "wt_call w < length (hu_calls h)" "ca_cid (hu_calls h ! wt_call w) = key" "ca_terminal (hu_calls h ! wt_call w) = None"
    "attempt_open (hu_calls h ! wt_call w) \<or> ca_phase (hu_calls h ! wt_call w) = Dropped_call"
  using waiter_fields [OF hub_waiter [OF assms]] by blast+

lemma not_opening: "attempt_open c \<or> ca_phase c = Dropped_call \<Longrightarrow> ca_phase c \<noteq> Opening \<and> (\<forall>r. ca_phase c \<noteq> Returned r)"
  by (auto simp: attempt_open_def)

text \<open>A sign of life, or a change of control.\<close>

lemma touch_ok:
  assumes ok: "hub_ok h" and w: "map_of (hu_waiters h) key = Some w"
    and same: "same_attempt (hu_calls h ! wt_call w) c'" "ca_phase c' = ca_phase (hu_calls h ! wt_call w)"
      "ca_attempt c' = ca_attempt (hu_calls h ! wt_call w)" "ca_gone c' = ca_gone (hu_calls h ! wt_call w)"
    and terminal: "ca_terminal c' = ca_terminal (hu_calls h ! wt_call w) \<and> h1 = h \<or>
      h1 = remove_waiter key h \<and> (\<exists>t. ca_terminal c' = Some t \<and> heard_terminal (hu_heard h) (hu_calls h ! wt_call w) t)"
  shows "hub_ok (set_call (wt_call w) c' h1)"
proof -
  let ?c = "hu_calls h ! wt_call w"
  note wc = waiter_call [OF ok w]
  have aborts: "closed_call ?c \<Longrightarrow> map_of (hu_aborts h) (rq_abort_id (ca_request ?c)) \<noteq> Some (ca_signal ?c)"
    using hub_call [OF ok wc(1)] unfolding call_ok_def by blast
  have sent: "copies (hu_outbox h) (wt_call w) \<le> ca_attempt ?c + of_bool (ca_gone ?c)" "ca_phase ?c \<noteq> Opening"
    using call_bounds(2) [OF ok wc(1)] not_opening [OF wc(4)] by (simp_all split: if_splits)
  have fields: "ca_cid c' = key" "ca_signal c' = ca_signal ?c" "ca_request c' = ca_request ?c"
    using same(1) wc(2) by (simp_all add: same_attempt_def)
  have h1: "hu_calls h1 = hu_calls h" "hu_counter h1 = hu_counter h" "hu_heard h1 = hu_heard h" "hu_pump h1 = hu_pump h"
    "hu_next_signal h1 = hu_next_signal h" "hu_asked h1 = hu_asked h" "hu_notified h1 = hu_notified h"
    "hu_aborts h1 = hu_aborts h" "hu_outbox h1 = hu_outbox h"
    using terminal by auto
  have phases: "attempt_open c' = attempt_open ?c" "closed_call c' = closed_call ?c" "\<And>r. ca_phase c' \<noteq> Returned r"
    using same(2) not_opening [OF wc(4)] by (simp_all add: attempt_open_def closed_call_def)
  show ?thesis
  proof (rule call_step [OF ok wc(1), where c' = c'])
    show "hu_calls (set_call (wt_call w) c' h1) = (hu_calls h)[wt_call w := c']" by (simp add: h1)
    show "same_attempt ?c c'" by (rule same(1))
    show "attempt_open c' \<longrightarrow> attempt_open ?c" by (simp add: phases)
    show "hu_waiters (set_call (wt_call w) c' h1) = hu_waiters h \<and>
        (attempt_open c' \<or> ca_phase c' = Dropped_call \<or> ca_terminal c' \<noteq> None) \<or>
      hu_waiters (set_call (wt_call w) c' h1) = AList.delete (ca_cid c') (hu_waiters h) \<and>
        (\<not> attempt_open c' \<or> ca_terminal c' \<noteq> None)"
      using terminal wc(4) same(2) phases(1) fields(1) by auto
    show "ca_terminal c' = ca_terminal ?c \<or> hu_waiters (set_call (wt_call w) c' h1) = AList.delete (ca_cid c') (hu_waiters h) \<and>
      (\<exists>t. ca_terminal c' = Some t \<and> heard_terminal (hu_heard h) ?c t)"
      using terminal fields(1) by auto
    show "copies (hu_outbox (set_call (wt_call w) c' h1)) (wt_call w) \<le> ca_attempt c' +
        (if ca_phase c' = Opening then 0 else of_bool (ca_gone c'))"
      using sent same by (simp add: h1)
    show "ca_attempt c' \<le> MAX_RESETS" using call_bounds(1) [OF ok wc(1)] same(3) by simp
    show "map_of (hu_aborts (set_call (wt_call w) c' h1)) (rq_abort_id (ca_request c')) \<noteq> Some (ca_signal c')" if "closed_call c'"
      using aborts that by (simp add: h1 phases fields)
  qed (simp_all add: h1 phases)
qed

lemma settle_waiter_ok:
  assumes ok: "hub_ok h"
    and heard: "\<And>w. map_of (hu_waiters h) key = Some w \<Longrightarrow> heard_terminal (hu_heard h) (hu_calls h ! wt_call w) t"
  shows "hub_ok (settle_waiter key t h)"
proof (cases "map_of (hu_waiters h) key")
  case None
  then show ?thesis using ok by (simp add: settle_waiter_def)
next
  case (Some w)
  let ?c = "hu_calls h ! wt_call w"
  have "hub_ok (set_call (wt_call w) (?c\<lparr>ca_terminal := Some t\<rparr>) (remove_waiter key h))"
    by (rule touch_ok [OF ok Some]) (use heard [OF Some] in \<open>simp_all add: same_attempt_def\<close>)
  then show ?thesis using Some by (simp add: settle_waiter_def)
qed

lemma route_task_frame_ok:
  assumes ok: "hub_ok h"
    and heard: "\<And>i t. i < length (hu_calls h) \<Longrightarrow> ca_cid (hu_calls h ! i) = key_of f \<Longrightarrow>
      map_of (hu_waiters h) (key_of f) \<noteq> None \<Longrightarrow> terminal_of f = Some t \<Longrightarrow>
      heard_terminal (hu_heard h) (hu_calls h ! i) t"
  shows "hub_ok (route_task_frame f h)"
proof (cases "map_of (hu_waiters h) (key_of f)")
  case None
  then show ?thesis
    using ok by (simp add: route_task_frame_def Let_def settle_waiter_def split: frame_kind.split)
next
  case (Some w)
  define h1 where "h1 = set_call (wt_call w) ((hu_calls h ! wt_call w)\<lparr>ca_activity := True\<rparr>) h"
  have ok1: "hub_ok h1"
    unfolding h1_def by (rule touch_ok [OF ok Some]) (simp_all add: same_attempt_def)
  have w1: "map_of (hu_waiters h1) (key_of f) = Some w" using Some by (simp add: h1_def)
  note wc = waiter_call [OF ok Some]
  have t: "hub_ok (settle_waiter (key_of f) t h1)" if "terminal_of f = Some t" for t
  proof (rule settle_waiter_ok [OF ok1])
    fix w'
    assume "map_of (hu_waiters h1) (key_of f) = Some w'"
    then have "w' = w" using w1 by simp
    then show "heard_terminal (hu_heard h1) (hu_calls h1 ! wt_call w') t"
      using heard [OF wc(1,2) _ that] Some wc(1) by (simp add: h1_def heard_terminal_def)
  qed
  have "hub_ok (set_call (wt_call w) ((hu_calls h1 ! wt_call w)\<lparr>ca_held := held\<rparr>) h1)" for held
    by (rule touch_ok [OF ok1 w1]) (simp_all add: same_attempt_def)
  then show ?thesis
    using ok1 w1 t
    by (auto simp: route_task_frame_def Let_def Some h1_def [symmetric] terminal_of_def split: frame_kind.split option.split)
qed

lemma probe_fields [simp]:
  "hu_calls (set_probe j p h) = hu_calls h" "hu_waiters (set_probe j p h) = hu_waiters h"
  "hu_aborts (set_probe j p h) = hu_aborts h" "hu_counter (set_probe j p h) = hu_counter h"
  "hu_notified (set_probe j p h) = hu_notified h" "hu_asked (set_probe j p h) = hu_asked h"
  "hu_pump (set_probe j p h) = hu_pump h" "hu_heard (set_probe j p h) = hu_heard h"
  "hu_outbox (set_probe j p h) = hu_outbox h" "hu_next_signal (set_probe j p h) = hu_next_signal h"
  "hu_calls (put_probe_waiter kind k w h) = hu_calls h" "hu_waiters (put_probe_waiter kind k w h) = hu_waiters h"
  "hu_aborts (put_probe_waiter kind k w h) = hu_aborts h" "hu_counter (put_probe_waiter kind k w h) = hu_counter h"
  "hu_notified (put_probe_waiter kind k w h) = hu_notified h" "hu_asked (put_probe_waiter kind k w h) = hu_asked h"
  "hu_pump (put_probe_waiter kind k w h) = hu_pump h" "hu_heard (put_probe_waiter kind k w h) = hu_heard h"
  "hu_outbox (put_probe_waiter kind k w h) = hu_outbox h" "hu_next_signal (put_probe_waiter kind k w h) = hu_next_signal h"
  by (simp_all add: set_probe_def put_probe_waiter_def split: probe_kind.split)

lemma answer_probe_fields [simp]:
  "hu_calls (answer_probe kind k r h) = hu_calls h" "hu_waiters (answer_probe kind k r h) = hu_waiters h"
  "hu_aborts (answer_probe kind k r h) = hu_aborts h" "hu_counter (answer_probe kind k r h) = hu_counter h"
  "hu_notified (answer_probe kind k r h) = hu_notified h" "hu_asked (answer_probe kind k r h) = hu_asked h"
  "hu_pump (answer_probe kind k r h) = hu_pump h" "hu_heard (answer_probe kind k r h) = hu_heard h"
  "hu_outbox (answer_probe kind k r h) = hu_outbox h" "hu_next_signal (answer_probe kind k r h) = hu_next_signal h"
  by (simp_all add: answer_probe_def split: probe_kind.split option.split)

lemma note_frame_fields [simp]:
  "hu_calls (note_frame a f n now h) = hu_calls h" "hu_waiters (note_frame a f n now h) = hu_waiters h"
  "hu_aborts (note_frame a f n now h) = hu_aborts h" "hu_counter (note_frame a f n now h) = hu_counter h"
  "hu_notified (note_frame a f n now h) = hu_notified h" "hu_asked (note_frame a f n now h) = hu_asked h"
  "hu_pump (note_frame a f n now h) = None" "hu_heard (note_frame a f n now h) = hu_heard h @ [(a, f, n)]"
  "hu_outbox (note_frame a f n now h) = hu_outbox h" "hu_next_signal (note_frame a f n now h) = hu_next_signal h"
  "hu_ack_window (note_frame a f n now h) = hu_ack_window h" "hu_idle_window (note_frame a f n now h) = hu_idle_window h"
  by (simp_all add: note_frame_def)

lemma note_frame_ok: "hub_ok h \<Longrightarrow> hub_ok (note_frame a f n now h)"
  by (rule env_step [where h = h]) (auto simp: hub_ok_def)

lemma route_frame_ok:
  assumes ok: "hub_ok h"
  shows "hub_ok (route_frame ops now h)"
proof (cases "hu_pump h")
  case None
  then show ?thesis using ok by (simp add: route_frame_def)
next
  case (Some x)
  then obtain a f n where p: "hu_pump h = Some (a, f, n)" by (cases x) auto
  define h1 where "h1 = note_frame a f n now h"
  have ok1: "hub_ok h1" using note_frame_ok [OF ok] by (simp add: h1_def)
  have "heard_terminal (hu_heard h1) (hu_calls h1 ! i) t"
    if i: "i < length (hu_calls h1)" "ca_cid (hu_calls h1 ! i) = key_of f" "map_of (hu_waiters h1) (key_of f) \<noteq> None"
      "terminal_of f = Some t" for i t
  proof -
    have "a = rq_worker_address (ca_request (hu_calls h ! i)) \<or> n \<le> ca_number (hu_calls h ! i)"
      using ok p i unfolding hub_ok_def pump_ok_def by (simp add: h1_def)
    then show ?thesis using i by (auto simp: heard_terminal_def h1_def)
  qed
  then have "hub_ok (route_task_frame f h1)" by (rule route_task_frame_ok [OF ok1])
  moreover have "hub_ok (answer_probe kind k r h1)" for kind k r
    by (rule env_step [OF ok1]) (use ok1 in \<open>auto simp: hub_ok_def\<close>)
  ultimately have "hub_ok (deliver_frame ops f h1)" by (simp add: deliver_frame_def split: frame_kind.split)
  then show ?thesis by (simp add: route_frame_def p h1_def)
qed

lemma check_frame_ok:
  assumes ok: "hub_ok h" and free: "hu_pump h = None"
  shows "hub_ok (check_frame a f h)"
proof -
  define h' where "h' = h\<lparr>hu_pump := Some (a, f, hu_counter h)\<rparr>"
  have "hub_ok h'" if e: "expected_sender h (key_of f) = None \<or> expected_sender h (key_of f) = Some a"
  proof -
    have "a = rq_worker_address (ca_request (hu_calls h ! i))"
      if i: "i < length (hu_calls h)" "ca_cid (hu_calls h ! i) = key_of f" and w: "map_of (hu_waiters h) (key_of f) = Some w" for i w
    proof -
      have "wt_call w = i" by (rule waiter_call_unique [OF ok w i])
      then have "waiter_of i (hu_calls h ! i) = w" using waiter_fields(4) [OF hub_waiter [OF ok w]] by simp
      then have "wt_from w = rq_worker_address (ca_request (hu_calls h ! i))" by (auto simp: waiter_of_def)
      then show ?thesis using e w by (simp add: expected_sender_def)
    qed
    then have "pump_ok h'" by (auto simp: pump_ok_def h'_def)
    moreover have "call_ok h' i c \<longleftrightarrow> call_ok h i c" for i c by (simp add: call_ok_def h'_def)
    ultimately show ?thesis using ok unfolding hub_ok_def by (simp add: h'_def)
  qed
  then show ?thesis using ok by (auto simp: check_frame_def h'_def split: option.split)
qed

section \<open>Aborts and probes\<close>

lemma raise_signal_ok: "hub_ok h \<Longrightarrow> hub_ok (raise_signal s h)"
  by (rule env_step [where h = h]) (auto simp: raise_signal_def hub_ok_def split: if_splits)

lemma abort_task_ok:
  assumes ok: "hub_ok h"
  shows "hub_ok (snd (abort_task k h))"
proof -
  have "hub_ok (h\<lparr>hu_aborts := AList.delete k (hu_aborts h)\<rparr>)"
    by (rule env_step [OF ok]) (use ok in \<open>auto simp: hub_ok_def map_of_delete\<close>)
  then show ?thesis using ok raise_signal_ok by (auto simp: abort_task_def split: option.split)
qed

lemma abort_all_ok: "hub_ok h \<Longrightarrow> hub_ok (abort_all h)"
proof -
  have "hub_ok h \<Longrightarrow> hub_ok (fold (\<lambda>(_, s). raise_signal s) as h)" for as :: "(rstr \<times> nat) list" and h :: "('a, 'b, 'c) hub"
    by (induction as arbitrary: h) (auto simp: raise_signal_ok split: prod.split)
  then show "hub_ok h \<Longrightarrow> hub_ok (abort_all h)" by (simp add: abort_all_def)
qed

lemma open_probe_fields [simp]:
  "hu_calls (open_probe kind address abort_id h) = hu_calls h" "hu_waiters (open_probe kind address abort_id h) = hu_waiters h"
  "hu_counter (open_probe kind address abort_id h) = hu_counter h" "hu_pump (open_probe kind address abort_id h) = hu_pump h"
  "hu_notified (open_probe kind address abort_id h) = hu_notified h" "hu_asked (open_probe kind address abort_id h) = hu_asked h"
  "hu_heard (open_probe kind address abort_id h) = hu_heard h" "hu_outbox (open_probe kind address abort_id h) = hu_outbox h"
  "hu_next_signal h \<le> hu_next_signal (open_probe kind address abort_id h)"
  "hu_aborts (open_probe kind address abort_id h) =
    (case abort_id of Some a \<Rightarrow> AList.update a (hu_next_signal h) (hu_aborts h) | None \<Rightarrow> hu_aborts h)"
  by (simp_all add: open_probe_def Let_def split: option.split)

lemma open_probe_ok:
  assumes ok: "hub_ok h"
  shows "hub_ok (open_probe kind address abort_id h)"
  by (rule env_step [OF ok]) (use ok in \<open>auto simp: hub_ok_def map_of_update split: option.split\<close>)

lemma register_probe_ok:
  assumes ok: "hub_ok h" and room: "hu_counter h < - 1"
  shows "hub_ok (register_probe j h)"
  by (rule env_step [OF ok])
    (use ok counter_Suc [OF room] in \<open>auto simp: register_probe_def Let_def hub_ok_def less_imp_le\<close>)

lemma take_probe_ok:
  assumes ok: "hub_ok h"
  shows "hub_ok (take_probe j h)"
  by (rule env_step [OF ok]) (use ok in \<open>auto simp: take_probe_def Let_def hub_ok_def copies_snoc\<close>)

lemma return_probe_fields [simp]:
  "hu_calls (return_probe j r h) = hu_calls h" "hu_waiters (return_probe j r h) = hu_waiters h"
  "hu_aborts (return_probe j r h) = hu_aborts h" "hu_counter (return_probe j r h) = hu_counter h"
  "hu_notified (return_probe j r h) = hu_notified h" "hu_asked (return_probe j r h) = hu_asked h"
  "hu_pump (return_probe j r h) = hu_pump h" "hu_heard (return_probe j r h) = hu_heard h"
  "hu_outbox (return_probe j r h) = hu_outbox h" "hu_next_signal (return_probe j r h) = hu_next_signal h"
  by (simp_all add: return_probe_def Let_def split: sum.split probe_value.split)

lemma return_probe_ok:
  assumes ok: "hub_ok h"
  shows "hub_ok (return_probe j r h)"
  by (rule env_step [OF ok]) (use ok in \<open>auto simp: hub_ok_def\<close>)

lemma abort_probe_ok:
  assumes ok: "hub_ok h" and a: "abort_probe j h = Some h'"
  shows "hub_ok h'"
proof -
  obtain k s where h': "h' = return_probe j (Inl Run_aborted) (drop_abort_guard k s (take_signal s h))"
    using a by (auto simp: abort_probe_def Let_def split: option.splits if_splits)
  have "hub_ok (drop_abort_guard k s (take_signal s h))"
    by (rule env_step [OF ok])
      (use ok drop_abort_guard_shrinks [of k s "take_signal s h"] in \<open>auto simp: hub_ok_def split: if_splits\<close>)
  then show ?thesis by (simp add: h' return_probe_ok)
qed

lemma set_probe_ok:
  assumes ok: "hub_ok h"
  shows "hub_ok (set_probe j p h)"
  by (rule env_step [OF ok]) (use ok in \<open>auto simp: hub_ok_def\<close>)

lemma poll_probe_send_ok: "hub_ok h \<Longrightarrow> hub_ok (poll_probe_send j r h)"
  by (auto simp: poll_probe_send_def abort_probe_ok return_probe_ok set_probe_ok split: option.split sum.split)

lemma poll_probe_ok:
  assumes ok: "hub_ok h"
  shows "hub_ok (poll_probe j elapsed h)"
proof -
  have "hub_ok (set_probe j p (put_probe_waiter kind k None (h\<lparr>hu_resets := rs\<rparr>)))" for p kind k rs
    by (rule env_step [OF ok]) (use ok in \<open>auto simp: hub_ok_def\<close>)
  then show ?thesis
    using ok by (auto simp: poll_probe_def Let_def abort_probe_ok return_probe_ok split: option.split sum.split)
qed

lemma drop_probe_ok:
  assumes ok: "hub_ok h"
  shows "hub_ok (drop_probe j h)"
  by (rule env_step [OF ok]) (use ok in \<open>auto simp: drop_probe_def Let_def hub_ok_def split: probe_kind.split\<close>)

section \<open>Runs\<close>

lemma hub_step_ok: "hub_step ops h h' \<Longrightarrow> hub_ok h \<Longrightarrow> hub_ok h'"
proof (induction rule: hub_step.induct)
  case (called prepared h req screen_kill marker visible)
  then show ?case by (simp add: open_call_ok)
qed (simp_all add: open_attempt_ok take_task_ok poll_send_ok poll_window_ok tick_window_ok drop_call_ok
    abort_task_ok abort_all_ok open_probe_ok register_probe_ok take_probe_ok poll_probe_send_ok poll_probe_ok drop_probe_ok
    check_frame_ok route_frame_ok)

lemma task_sender_ok: "sender_run ops ack idle h \<Longrightarrow> hub_ok h"
  by (induction rule: sender_run.induct) (auto simp: hub_new_ok intro: hub_step_ok)

end
