(* ===== verification/HubWindow.thy ===== *)
theory HubWindow
  imports HubSteps DaemonFacts
begin

text \<open>
  The windows of a dispatch: a schedule under which one call advances on its own, a variant that every
  live turn of it decreases, and what keeps the no-progress window from ending.
\<close>

section \<open>One call on its own\<close>

text \<open>The next step of a call when the relay takes every frame; \<open>live\<close> is whether its peer is live in this turn.\<close>

definition run_turn :: "nat \<Rightarrow> bool \<Rightarrow> ('f, 'i, 'c) hub \<Rightarrow> ('f, 'i, 'c) hub" where
  "run_turn i live h =
     (case ca_phase (hu_calls h ! i) of
        Opening \<Rightarrow> open_attempt i h
      | Sending \<Rightarrow> if ca_gone (hu_calls h ! i) then poll_send i (Some (Inr ())) h else take_task i h
      | Acking r \<Rightarrow> poll_window i True (tick_window i live h)
      | Working r \<Rightarrow> poll_window i True (tick_window i live h)
      | _ \<Rightarrow> h)"

abbreviation live_turns :: "bool list \<Rightarrow> nat" where
  "live_turns lives \<equiv> length (filter (\<lambda>b. b) lives)"

definition window_turns :: "nat \<Rightarrow> nat" where
  "window_turns w = max 1 ((w + (LIVENESS_TICK - 1)) div LIVENESS_TICK)"

text \<open>The live turns a call has left when nothing is heard.\<close>

definition turns_left :: "('f, 'i, 'c) hub \<Rightarrow> run_call \<Rightarrow> nat" where
  "turns_left h c =
     (let ack = window_turns (hu_ack_window h); alive = 1 + window_turns (hu_idle_window h);
          again = (MAX_RESETS - ca_attempt c) * (3 + ack)
      in case ca_phase c of
           Opening \<Rightarrow> 3 + ack + again
         | Sending \<Rightarrow> (if ca_gone c then 1 else 2) + (if ca_activity c then alive else ack + again)
         | Acking r \<Rightarrow> (if ca_activity c then alive else window_turns r + again)
         | Working r \<Rightarrow> (if ca_activity c then alive else window_turns r)
         | _ \<Rightarrow> 0)"

lemma window_turns_pos: "0 < window_turns w"
  by (simp add: window_turns_def)

lemma window_turns_tick:
  "live_tick True False r \<noteq> 0 \<Longrightarrow> Suc (window_turns (live_tick True False r)) = window_turns r"
proof -
  assume "live_tick True False r \<noteq> 0"
  then have tick: "r - min 100 r \<noteq> 0" by (simp add: live_tick_def LIVENESS_TICK_def)
  then have "100 < r" by (cases "r \<le> 100") (simp_all add: min_def)
  then obtain t where t: "r = 100 + t" "0 < t" by (metis less_imp_add_positive)
  have r: "live_tick True False (100 + t) = t" by (simp add: live_tick_def LIVENESS_TICK_def)
  have "(t + 199) div 100 = (t + 99 + 100) div 100" by (simp add: add.assoc)
  also have "\<dots> = Suc ((t + 99) div 100)" by (subst div_add_self2) simp_all
  finally have "(t + 199) div 100 = Suc ((t + 99) div 100)" .
  moreover have "0 < (t + 99) div 100" using t(2) by (simp add: div_greater_zero_iff)
  ultimately show ?thesis
    unfolding t(1) r window_turns_def LIVENESS_TICK_def by (simp add: max_def add.commute [of 199])
qed

lemma live_tick_dead [simp]: "live_tick False held r = r" "live_tick live True r = r"
  by (simp_all add: live_tick_def)

definition in_progress :: "run_call \<Rightarrow> bool" where
  "in_progress c \<longleftrightarrow> ca_phase c \<in> {Opening, Sending} \<union> window_phases \<and> (ca_phase c \<noteq> Opening \<longrightarrow> \<not> ca_held c)"

lemma window_fields [simp]:
  "hu_ack_window (remove_waiter k h) = hu_ack_window h" "hu_idle_window (remove_waiter k h) = hu_idle_window h"
  "hu_ack_window (take_signal s h) = hu_ack_window h" "hu_idle_window (take_signal s h) = hu_idle_window h"
  "hu_ack_window (send_abort i b h) = hu_ack_window h" "hu_idle_window (send_abort i b h) = hu_idle_window h"
  "hu_ack_window (drop_abort_guard k s h) = hu_ack_window h" "hu_idle_window (drop_abort_guard k s h) = hu_idle_window h"
  by (simp_all add: remove_waiter_def take_signal_def send_abort_def drop_abort_guard_def Let_def)

text \<open>What a turn does to its call: it returns, or it is still in progress with fewer live turns left.\<close>

definition turned :: "bool \<Rightarrow> nat \<Rightarrow> ('f, 'i, 'c) hub \<Rightarrow> ('f, 'i, 'c) hub \<Rightarrow> bool" where
  "turned live i h h' \<longleftrightarrow> length (hu_calls h') = length (hu_calls h) \<and>
     hu_ack_window h' = hu_ack_window h \<and> hu_idle_window h' = hu_idle_window h \<and>
     ((\<exists>r. ca_phase (hu_calls h' ! i) = Returned r) \<or>
      in_progress (hu_calls h' ! i) \<and>
      turns_left h' (hu_calls h' ! i) + of_bool live \<le> turns_left h (hu_calls h ! i))"

lemma returned_turn:
  "i < length (hu_calls h) \<Longrightarrow> hu_calls h1 = hu_calls h \<Longrightarrow> hu_ack_window h1 = hu_ack_window h \<Longrightarrow>
    hu_idle_window h1 = hu_idle_window h \<Longrightarrow> turned live i h (return_call i r h1)"
  by (simp add: turned_def return_call_def Let_def)

lemma give_up_turn:
  "i < length (hu_calls h) \<Longrightarrow> length (hu_calls h1) = length (hu_calls h) \<Longrightarrow> hu_ack_window h1 = hu_ack_window h \<Longrightarrow>
    hu_idle_window h1 = hu_idle_window h \<Longrightarrow> turned live i h (give_up i sent e h1)"
  by (simp add: turned_def give_up_def return_call_def Let_def)

lemma opening_turn:
  assumes "i < length (hu_calls h)" "ca_phase (hu_calls h ! i) = Opening"
  shows "turned live i h (run_turn i live h)"
  using assms by (simp add: turned_def run_turn_def open_attempt_def Let_def in_progress_def turns_left_def)

lemma sending_turn:
  assumes "i < length (hu_calls h)" "ca_phase (hu_calls h ! i) = Sending" "\<not> ca_held (hu_calls h ! i)"
  shows "turned live i h (run_turn i live h)"
proof (cases "ca_gone (hu_calls h ! i)")
  case True
  then show ?thesis
    using assms returned_turn [OF assms(1), of "remove_waiter k (take_signal s h)" live for k s]
    by (simp add: run_turn_def poll_send_def Let_def)
      (simp add: turned_def in_progress_def turns_left_def Let_def)
next
  case False
  then show ?thesis
    using assms by (simp add: turned_def run_turn_def take_task_def Let_def in_progress_def turns_left_def)
qed

lemma window_turn:
  assumes len: "i < length (hu_calls h)" and ph: "ca_phase (hu_calls h ! i) = P r" and P: "P = Acking \<or> P = Working"
    and free: "\<not> ca_held (hu_calls h ! i)"
  shows "turned live i h (run_turn i live h)"
proof -
  let ?c = "hu_calls h ! i"
  define r' where "r' = live_tick live False r"
  define c1 where "c1 = ?c\<lparr>ca_phase := P r'\<rparr>"
  define h1 where "h1 = set_call i c1 h"
  have adv: "run_turn i live h = poll_window i True h1"
    using P ph free by (auto simp: run_turn_def tick_window_def Let_def h1_def c1_def r'_def)
  have h1: "hu_calls h1 ! i = c1" "length (hu_calls h1) = length (hu_calls h)" "hu_ack_window h1 = hu_ack_window h"
    "hu_idle_window h1 = hu_idle_window h" using len by (simp_all add: h1_def)
  have c1: "ca_terminal c1 = ca_terminal ?c" "ca_signal c1 = ca_signal ?c" "ca_activity c1 = ca_activity ?c"
    "ca_phase c1 = P r'" "ca_attempt c1 = ca_attempt ?c" "\<not> ca_held c1" using free by (simp_all add: c1_def)
  have fewer: "window_turns r' + of_bool live \<le> window_turns r" if "r' \<noteq> 0"
    using that window_turns_tick [of r] by (cases live) (auto simp: r'_def)
  show ?thesis
  proof (cases "ca_terminal c1 = None \<and> \<not> hu_notified h1 (ca_signal c1)")
    case False
    then show ?thesis
      unfolding adv using h1 len
      by (auto simp: poll_window_def Let_def turned_def return_call_def give_up_def split: option.split)
  next
    case quiet: True
    show ?thesis
    proof (cases "ca_activity c1")
      case True
      then have "poll_window i True h1 = set_call i (c1\<lparr>ca_activity := False, ca_phase := Working (hu_idle_window h)\<rparr>) h1"
        using quiet h1 by (simp add: poll_window_def Let_def)
      then show ?thesis
        unfolding adv turned_def using True c1 h1 len ph P by (auto simp: in_progress_def turns_left_def Let_def)
    next
      case idle: False
      show ?thesis
      proof (cases r')
        case (Suc m)
        have "poll_window i True h1 = h1"
          using quiet idle c1 h1 P Suc by (auto simp: poll_window_def Let_def)
        then show ?thesis
          unfolding adv turned_def using idle c1 h1 len ph P fewer Suc
          by (auto simp: in_progress_def turns_left_def Let_def)
      next
        case 0
        show ?thesis
          using P
        proof
          assume "P = Working"
          then have "poll_window i True h1 = give_up i True Run_timeout h1"
            using quiet idle c1 h1 0 by (simp add: poll_window_def Let_def)
          then show ?thesis unfolding adv using h1 len by (simp add: turned_def give_up_def return_call_def Let_def)
        next
          assume acking: "P = Acking"
          then have lapsed: "poll_window i True h1 = lapse i True h1"
            using quiet idle c1 h1 0 by (simp add: poll_window_def Let_def)
          show ?thesis
          proof (cases "ca_attempt ?c \<ge> MAX_RESETS")
            case True
            then show ?thesis
              unfolding adv lapsed using h1 c1 len by (simp add: lapse_def turned_def give_up_def return_call_def Let_def)
          next
            case False
            then obtain left where left: "MAX_RESETS - ca_attempt ?c = Suc left" by (metis Suc_diff_Suc not_le)
            then have "MAX_RESETS - Suc (ca_attempt ?c) = left" by simp
            then show ?thesis
              unfolding adv lapsed using False h1 c1 len ph acking idle left window_turns_pos [of r]
              by (simp add: lapse_def turned_def in_progress_def turns_left_def Let_def)
          qed
        qed
      qed
    qed
  qed
qed

lemma run_turn_turned:
  assumes "i < length (hu_calls h)" "in_progress (hu_calls h ! i)"
  shows "turned live i h (run_turn i live h)"
  using assms opening_turn sending_turn window_turn by (fastforce simp: in_progress_def)

lemma returned_stays: "ca_phase (hu_calls h ! i) = Returned r \<Longrightarrow> fold (run_turn i) lives h = h"
  by (induction lives) (simp_all add: run_turn_def)

lemma turns_end:
  assumes "i < length (hu_calls h)" "in_progress (hu_calls h ! i)" "turns_left h (hu_calls h ! i) \<le> live_turns lives"
  shows "\<exists>r. ca_phase (hu_calls (fold (run_turn i) lives h) ! i) = Returned r"
  using assms
proof (induction lives arbitrary: h)
  case Nil
  have "0 < turns_left h (hu_calls h ! i)"
    using Nil(2) window_turns_pos by (auto simp: in_progress_def turns_left_def Let_def)
  then show ?case using Nil by simp
next
  case (Cons live lives)
  let ?h = "run_turn i live h"
  have t: "turned live i h ?h" by (rule run_turn_turned [OF Cons.prems(1,2)])
  show ?case
  proof (cases "\<exists>r. ca_phase (hu_calls ?h ! i) = Returned r")
    case True
    then show ?thesis using returned_stays by fastforce
  next
    case False
    then have "i < length (hu_calls ?h)" "in_progress (hu_calls ?h ! i)"
      "turns_left ?h (hu_calls ?h ! i) + of_bool live \<le> turns_left h (hu_calls h ! i)"
      using t Cons.prems(1) by (simp_all add: turned_def)
    then show ?thesis using Cons.IH [of ?h] Cons.prems(3) by (cases live) simp_all
  qed
qed

section \<open>The windows stay within their bounds\<close>

definition phase_fits :: "nat \<Rightarrow> nat \<Rightarrow> call_phase \<Rightarrow> bool" where
  "phase_fits ack idle ph \<longleftrightarrow> (case ph of Acking r \<Rightarrow> r \<le> ack | Working r \<Rightarrow> r \<le> idle | _ \<Rightarrow> True)"

definition windows_ok :: "nat \<Rightarrow> nat \<Rightarrow> ('f, 'i, 'c) hub \<Rightarrow> bool" where
  "windows_ok ack idle h \<longleftrightarrow> hu_ack_window h = ack \<and> hu_idle_window h = idle \<and>
     (\<forall>i < length (hu_calls h). phase_fits ack idle (ca_phase (hu_calls h ! i)))"

lemma windows_set_call:
  "windows_ok ack idle h \<Longrightarrow> phase_fits ack idle (ca_phase c) \<Longrightarrow> windows_ok ack idle (set_call i c h)"
  unfolding windows_ok_def by (cases "i < length (hu_calls h)") (auto simp: nth_list_update)

lemma windows_same:
  "windows_ok ack idle h \<Longrightarrow> hu_calls h' = hu_calls h \<Longrightarrow> hu_ack_window h' = hu_ack_window h \<Longrightarrow>
    hu_idle_window h' = hu_idle_window h \<Longrightarrow> windows_ok ack idle h'"
  by (simp add: windows_ok_def)

lemma windows_call: "windows_ok ack idle h \<Longrightarrow> i < length (hu_calls h) \<Longrightarrow> phase_fits ack idle (ca_phase (hu_calls h ! i))"
  by (simp add: windows_ok_def)

lemma windows_ack: "windows_ok ack idle h \<Longrightarrow> hu_ack_window h \<le> ack"
  by (simp add: windows_ok_def)

lemma windows_frames [simp]:
  "windows_ok ack idle (remove_waiter k h) = windows_ok ack idle h" "windows_ok ack idle (take_signal s h) = windows_ok ack idle h"
  "windows_ok ack idle (send_abort i b h) = windows_ok ack idle h"
  "windows_ok ack idle (drop_abort_guard k s h) = windows_ok ack idle h"
  "windows_ok ack idle (set_probe j p h) = windows_ok ack idle h"
  "windows_ok ack idle (put_probe_waiter kind k w h) = windows_ok ack idle h"
  "windows_ok ack idle (raise_signal s h) = windows_ok ack idle h"
  "windows_ok ack idle (return_probe j r h) = windows_ok ack idle h"
  "windows_ok ack idle (answer_probe kind k a h) = windows_ok ack idle h"
  "windows_ok ack idle (open_probe kind address abort_id h) = windows_ok ack idle h"
  "windows_ok ack idle (take_probe j h) = windows_ok ack idle h"
  "windows_ok ack idle (register_probe j h) = windows_ok ack idle h"
  "windows_ok ack idle (drop_probe j h) = windows_ok ack idle h"
  by (simp_all add: windows_ok_def raise_signal_def set_probe_def put_probe_waiter_def return_probe_def answer_probe_def
      open_probe_def take_probe_def register_probe_def drop_probe_def Let_def
      split: probe_kind.split sum.split probe_value.split option.split)

lemma windows_updates [simp]:
  "windows_ok ack idle (h\<lparr>hu_resets := rs\<rparr>) = windows_ok ack idle h"
  "windows_ok ack idle (h\<lparr>hu_waiters := ws\<rparr>) = windows_ok ack idle h"
  "windows_ok ack idle (h\<lparr>hu_outbox := out\<rparr>) = windows_ok ack idle h"
  "windows_ok ack idle (h\<lparr>hu_aborts := as\<rparr>) = windows_ok ack idle h"
  "windows_ok ack idle (h\<lparr>hu_pump := p\<rparr>) = windows_ok ack idle h"
  "windows_ok ack idle (h\<lparr>hu_counter := n\<rparr>) = windows_ok ack idle h"
  "windows_ok ack idle (h\<lparr>hu_pump := p, hu_heard := hs, hu_activity := l\<rparr>) = windows_ok ack idle h"
  by (simp_all add: windows_ok_def)

lemma phase_fits_simps [simp]:
  "phase_fits ack idle Opening" "phase_fits ack idle Sending" "phase_fits ack idle (Returned result)" "phase_fits ack idle Dropped_call"
  "phase_fits ack idle (Acking r) \<longleftrightarrow> r \<le> ack" "phase_fits ack idle (Working r) \<longleftrightarrow> r \<le> idle"
  by (simp_all add: phase_fits_def)

lemma windows_return: "windows_ok ack idle h \<Longrightarrow> windows_ok ack idle (return_call i r h)"
  by (simp add: return_call_def Let_def windows_set_call)

lemma windows_give_up: "windows_ok ack idle h \<Longrightarrow> windows_ok ack idle (give_up i sent e h)"
  by (simp add: give_up_def windows_return)

lemma live_tick_le: "live_tick live held r \<le> r"
  by (simp add: live_tick_def)

lemma windows_settle: "hub_ok h \<Longrightarrow> windows_ok ack idle h \<Longrightarrow> windows_ok ack idle (settle_waiter k t h)"
  using waiter_call(1) windows_call by (fastforce simp: settle_waiter_def intro!: windows_set_call split: option.split)

lemma windows_route:
  assumes ok: "hub_ok h" and win: "windows_ok ack idle h"
  shows "windows_ok ack idle (route_task_frame f h)"
proof (cases "map_of (hu_waiters h) (key_of f)")
  case None
  then show ?thesis
    using win by (simp add: route_task_frame_def Let_def settle_waiter_def split: frame_kind.split)
next
  case (Some w)
  define h1 where "h1 = set_call (wt_call w) ((hu_calls h ! wt_call w)\<lparr>ca_activity := True\<rparr>) h"
  have ok1: "hub_ok h1"
    unfolding h1_def by (rule touch_ok [OF ok Some]) (simp_all add: same_attempt_def)
  have win1: "windows_ok ack idle h1"
    unfolding h1_def by (rule windows_set_call [OF win]) (simp add: windows_call [OF win waiter_call(1) [OF ok Some]])
  have w1: "map_of (hu_waiters h1) (key_of f) = Some w" using Some by (simp add: h1_def)
  have "windows_ok ack idle (set_call (wt_call w) ((hu_calls h1 ! wt_call w)\<lparr>ca_held := held\<rparr>) h1)" for held
    by (rule windows_set_call [OF win1]) (simp add: windows_call [OF win1 waiter_call(1) [OF ok1 w1]])
  then show ?thesis
    using win1 w1 windows_settle [OF ok1 win1]
    by (auto simp: route_task_frame_def Let_def Some h1_def [symmetric] split: frame_kind.split option.split)
qed

lemma windows_route_frame:
  assumes ok: "hub_ok h" and win: "windows_ok ack idle h"
  shows "windows_ok ack idle (route_frame ops now h)"
proof (cases "hu_pump h")
  case None
  then show ?thesis using win by (simp add: route_frame_def)
next
  case (Some x)
  then obtain a f n where p: "hu_pump h = Some (a, f, n)" by (cases x) auto
  have "windows_ok ack idle (note_frame a f n now h)" by (rule windows_same [OF win]) simp_all
  then show ?thesis
    using windows_route [OF note_frame_ok [OF ok]] by (simp add: route_frame_def p deliver_frame_def split: frame_kind.split)
qed

lemma windows_raise_all: "windows_ok ack idle h \<Longrightarrow> windows_ok ack idle (fold (\<lambda>(_, s). raise_signal s) as h)"
  by (induction as arbitrary: h) (auto split: prod.split)

lemma windows_step: "hub_step ops h h' \<Longrightarrow> hub_ok h \<Longrightarrow> windows_ok ack idle h \<Longrightarrow> windows_ok ack idle h'"
proof (induction rule: hub_step.induct)
  case (called prepared h req screen_kill marker visible)
  then show ?case
    by (auto simp: open_call_def windows_ok_def nth_append new_call_def less_Suc_eq split: option.split)
next
  case (polled h i sent)
  have "hu_idle_window h = idle" using polled.prems(2) by (simp add: windows_ok_def)
  then show ?case
    using polled.prems(2)
    by (auto simp: poll_window_def lapse_def Let_def windows_return windows_give_up
        intro!: windows_set_call split: option.split call_phase.split nat.split)
next
  case (ticked h i live)
  then have "phase_fits ack idle (ca_phase (hu_calls h ! i))" by (simp add: in_phase_def windows_call)
  then show ?case
    using ticked.prems(2) order_trans [OF live_tick_le]
    by (auto simp: tick_window_def Let_def intro!: windows_set_call split: call_phase.split)
next
  case (abort_all_asked h)
  then show ?case by (simp add: abort_all_def windows_raise_all)
next
  case (routed h now)
  then show ?case by (simp add: windows_route_frame)
qed (auto simp: open_attempt_def take_task_def poll_send_def drop_call_def abort_task_def poll_probe_send_def poll_probe_def
      abort_probe_def check_frame_def Let_def in_phase_def windows_return windows_call windows_ack intro!: windows_set_call
      split: option.splits sum.splits if_splits)

lemma windows_run: "sender_run ops ack idle h \<Longrightarrow> windows_ok ack idle h"
proof (induction rule: sender_run.induct)
  case built
  show ?case by (simp add: windows_ok_def hub_new_def)
next
  case (stepped h h')
  then show ?case using windows_step task_sender_ok by blast
qed

end
