(* ===== verification/HubRuns.thy ===== *)
theory HubRuns
  imports HubWindow DaemonSpec
begin

text \<open>Runs of a hub with one call, step by step, and a daemon that receives the same task twice.\<close>

section \<open>One call\<close>

definition call_at ::
  "task_request \<Rightarrow> nat \<Rightarrow> u64 \<Rightarrow> call_phase \<Rightarrow> bool \<Rightarrow> (rstr + task_outcome) option \<Rightarrow> bool \<Rightarrow> run_call" where
  "call_at req a n ph gone t act = \<lparr>ca_request = req, ca_screen_kill = False, ca_marker = Plain_marker, ca_visible = None,
     ca_signal = 0, ca_attempt = a, ca_phase = ph, ca_cid = correlation_id req n, ca_number = n, ca_gone = gone,
     ca_terminal = t, ca_activity = act, ca_held = False\<rparr>"

text \<open>A hub that made one call and heard nothing yet.\<close>

definition lone_hub ::
  "task_request \<Rightarrow> run_call \<Rightarrow> (rstr \<times> waiter) list \<Rightarrow> u64 \<Rightarrow> hub_sent list \<Rightarrow> rstr list \<Rightarrow>
   (rstr \<times> unit worker_frame \<times> u64) option \<Rightarrow> (unit, 'i, 'c) hub" where
  "lone_hub req c ws n out rs q = (hub_new ACK_WINDOW IDLE_WINDOW)\<lparr>hu_waiters := ws, hu_aborts := [(rq_abort_id req, 0)],
     hu_counter := n, hu_next_signal := 1, hu_calls := [c], hu_outbox := out, hu_resets := rs, hu_pump := q\<rparr>"

lemma lone_fields [simp]:
  "hu_waiters (lone_hub req c ws n out rs q) = ws" "hu_calls (lone_hub req c ws n out rs q) = [c]"
  "hu_counter (lone_hub req c ws n out rs q) = n" "hu_outbox (lone_hub req c ws n out rs q) = out"
  "hu_resets (lone_hub req c ws n out rs q) = rs" "hu_aborts (lone_hub req c ws n out rs q) = [(rq_abort_id req, 0)]"
  "hu_notified (lone_hub req c ws n out rs q) s = False" "hu_pump (lone_hub req c ws n out rs q) = q"
  "hu_heard (lone_hub req c ws n out rs q) = []" "hu_ack_window (lone_hub req c ws n out rs q) = ACK_WINDOW"
  "hu_idle_window (lone_hub req c ws n out rs q) = IDLE_WINDOW" "hu_asked (lone_hub req c ws n out rs q) = []"
  "hu_info_waiters (lone_hub req c ws n out rs q) k = None"
  "hu_capabilities_waiters (lone_hub req c ws n out rs q) k = None"
  by (simp_all add: lone_hub_def hub_new_def)

definition lone_waiter :: "task_request \<Rightarrow> waiter" where
  "lone_waiter req = \<lparr>wt_task_id = rq_task_id req, wt_wire_task_id = rq_task_id req, wt_screen_kill = False,
     wt_from = rq_worker_address req, wt_call = 0\<rparr>"

definition task_sent :: "task_request \<Rightarrow> u64 \<Rightarrow> hub_sent" where
  "task_sent req n = \<lparr>hs_call = Some 0, hs_to = rq_worker_address req, hs_kind = Task_frame, hs_marker = Plain_marker,
     hs_frame = request_frame req (correlation_id req n)\<rparr>"

abbreviation lone_run :: "('i, 'c) payload_ops \<Rightarrow> (unit, 'i, 'c) hub \<Rightarrow> bool" where
  "lone_run ops h \<equiv> sender_run ops ACK_WINDOW IDLE_WINDOW h"

lemma lone_open:
  fixes ops :: "('i, 'c) payload_ops"
  shows "lone_run ops (lone_hub req (new_call req False Plain_marker None 0) [] 0 [] [] None)"
proof -
  let ?h = "hub_new ACK_WINDOW IDLE_WINDOW :: (unit, 'i, 'c) hub"
  have step: "hub_step ops ?h (open_call req False Plain_marker None None ?h)" by (rule hub_step.called) simp
  have eq: "open_call req False Plain_marker None None ?h = lone_hub req (new_call req False Plain_marker None 0) [] 0 [] [] None"
    by (simp add: open_call_def lone_hub_def hub_new_def)
  show ?thesis using sender_run.stepped [OF sender_run.built step] unfolding eq .
qed

lemma lone_attempt:
  assumes run: "lone_run ops (lone_hub req c [] n out rs q)" and c: "ca_phase c = Opening" "ca_request c = req"
    "ca_screen_kill c = False" "ca_marker c = Plain_marker" "ca_visible c = None" "ca_signal c = 0" and n: "n < - 1"
  shows "lone_run ops (lone_hub req (call_at req (ca_attempt c) n Sending False None False)
    [(correlation_id req n, lone_waiter req)] (n + 1) out rs q)"
proof -
  let ?h = "lone_hub req c [] n out rs q"
  have step: "hub_step ops ?h (open_attempt 0 ?h)" by (rule hub_step.attempted) (simp_all add: in_phase_def c n)
  have eq: "open_attempt 0 ?h = lone_hub req (call_at req (ca_attempt c) n Sending False None False)
      [(correlation_id req n, lone_waiter req)] (n + 1) out rs q"
    using c by (simp add: open_attempt_def Let_def lone_hub_def call_at_def lone_waiter_def set_call_def hub_new_def)
  show ?thesis using sender_run.stepped [OF run step] unfolding eq .
qed

lemma lone_take:
  assumes run: "lone_run ops (lone_hub req (call_at req a n Sending False None False) ws m out rs q)"
  shows "lone_run ops (lone_hub req (call_at req a n Sending True None False) ws m (out @ [task_sent req n]) rs q)"
proof -
  let ?h = "lone_hub req (call_at req a n Sending False None False) ws m out rs q"
  have step: "hub_step ops ?h (take_task 0 ?h)" by (rule hub_step.taken) (simp_all add: in_phase_def call_at_def)
  have eq: "take_task 0 ?h = lone_hub req (call_at req a n Sending True None False) ws m (out @ [task_sent req n]) rs q"
    by (simp add: take_task_def Let_def lone_hub_def call_at_def task_sent_def set_call_def)
  show ?thesis using sender_run.stepped [OF run step] unfolding eq .
qed

lemma lone_wait:
  assumes run: "lone_run ops (lone_hub req (call_at req a n Sending True None False) ws m out rs q)"
  shows "lone_run ops (lone_hub req (call_at req a n (Acking ACK_WINDOW) True None False) ws m out rs q)"
proof -
  let ?h = "lone_hub req (call_at req a n Sending True None False) ws m out rs q"
  have step: "hub_step ops ?h (poll_send 0 (Some (Inr ())) ?h)" by (rule hub_step.send_polled) (simp_all add: in_phase_def call_at_def)
  have eq: "poll_send 0 (Some (Inr ())) ?h = lone_hub req (call_at req a n (Acking ACK_WINDOW) True None False) ws m out rs q"
    by (simp add: poll_send_def Let_def) (simp add: lone_hub_def call_at_def set_call_def)
  show ?thesis using sender_run.stepped [OF run step] unfolding eq .
qed

lemma lone_elapse:
  assumes "lone_run ops (lone_hub req (call_at req a n (Acking r) True None False) ws m out rs q)"
  shows "lone_run ops (lone_hub req (call_at req a n (Acking 0) True None False) ws m out rs q)"
  using assms
proof (induction r rule: less_induct)
  case (less r)
  let ?h = "lone_hub req (call_at req a n (Acking r) True None False) ws m out rs q"
  show ?case
  proof (cases "r = 0")
    case False
    have step: "hub_step ops ?h (tick_window 0 True ?h)" by (rule hub_step.ticked) (simp_all add: in_phase_def call_at_def)
    have eq: "tick_window 0 True ?h = lone_hub req (call_at req a n (Acking (r - min LIVENESS_TICK r)) True None False) ws m out rs q"
      by (simp add: tick_window_def Let_def call_at_def live_tick_def) (simp add: lone_hub_def set_call_def)
    have less: "r - min LIVENESS_TICK r < r" using False by (simp add: LIVENESS_TICK_def)
    show ?thesis by (rule less.IH [OF less sender_run.stepped [OF less.prems step, unfolded eq]])
  qed (use less.prems in simp)
qed

text \<open>An attempt whose worker stays silent: the same task is sent again.\<close>

lemma lone_lapse:
  assumes run: "lone_run ops (lone_hub req (call_at req 0 n (Acking 0) True None False)
    [(correlation_id req n, lone_waiter req)] m out rs q)"
  shows "lone_run ops (lone_hub req (call_at req 1 n Opening True None False) [] m out (rs @ [rq_worker_address req]) q)"
proof -
  let ?h = "lone_hub req (call_at req 0 n (Acking 0) True None False) [(correlation_id req n, lone_waiter req)] m out rs q"
  have step: "hub_step ops ?h (poll_window 0 True ?h)" by (rule hub_step.polled) (simp add: in_phase_def call_at_def)
  have eq: "poll_window 0 True ?h = lone_hub req (call_at req 1 n Opening True None False) [] m out (rs @ [rq_worker_address req]) q"
    by (simp add: poll_window_def lapse_def Let_def call_at_def MAX_RESETS_def) (simp add: lone_hub_def set_call_def)
  show ?thesis using sender_run.stepped [OF run step] unfolding eq .
qed

lemma zero_less_max: "0 < (- 1 :: u64)" "1 < (- 1 :: u64)"
  by (simp_all add: word_less_nat_alt unat_u64_max)

text \<open>The second attempt of a request is on its way.\<close>

lemma lone_resent:
  "lone_run ops (lone_hub req (call_at req 1 1 (Acking ACK_WINDOW) True None False)
     [(correlation_id req 1, lone_waiter req)] 2 [task_sent req 0, task_sent req 1] [rq_worker_address req] None)"
proof -
  have "lone_run ops (lone_hub req (call_at req 0 0 Sending False None False) [(correlation_id req 0, lone_waiter req)] (0 + 1) [] [] None)"
    using lone_attempt [OF lone_open, of req] zero_less_max by (simp add: new_call_def)
  from lone_lapse [OF lone_elapse [OF lone_wait [OF lone_take [OF this]]]]
  have "lone_run ops (lone_hub req (call_at req 1 0 Opening True None False) [] 1 [task_sent req 0] [rq_worker_address req] None)"
    by simp
  from lone_attempt [OF this]
  have "lone_run ops (lone_hub req (call_at req 1 1 Sending False None False) [(correlation_id req 1, lone_waiter req)] (1 + 1)
      [task_sent req 0] [rq_worker_address req] None)" using zero_less_max by (simp add: call_at_def)
  from lone_wait [OF lone_take [OF this]] show ?thesis by simp
qed

text \<open>A frame that passes the check, and its routing.\<close>

lemma lone_check:
  fixes ops :: "('i, 'c) payload_ops"
  assumes run: "lone_run ops (lone_hub req c ws n out rs None)"
    and from_worker: "\<forall>w. map_of ws (key_of f) = Some w \<longrightarrow> wt_from w = a"
  shows "lone_run ops (lone_hub req c ws n out rs (Some (a, f, n)))"
proof -
  let ?h = "lone_hub req c ws n out rs None :: (unit, 'i, 'c) hub"
  have step: "hub_step ops ?h (check_frame a f ?h)" by (rule hub_step.received) simp
  have "expected_sender ?h (key_of f) \<in> {None, Some a}"
    using from_worker by (auto simp: expected_sender_def split: option.split)
  then have "check_frame a f ?h = ?h\<lparr>hu_pump := Some (a, f, hu_counter ?h)\<rparr>"
    by (auto simp: check_frame_def)
  then have eq: "check_frame a f ?h = lone_hub req c ws n out rs (Some (a, f, n))" by (simp add: lone_hub_def hub_new_def)
  show ?thesis using sender_run.stepped [OF run step] unfolding eq .
qed

lemma lone_settled:
  fixes ops :: "('i, 'c) payload_ops"
  assumes run: "lone_run ops (lone_hub req (call_at req k n (Acking r) True None False)
      [(correlation_id req n, lone_waiter req)] m out rs (Some (a, f, l)))"
    and f: "key_of f = correlation_id req n" "terminal_of f = Some t"
  obtains h :: "(unit, 'i, 'c) hub" where "lone_run ops h" "hu_calls h = [call_at req k n (Returned (settle_run t)) True (Some t) True]"
    "hu_waiters h = []" "hu_outbox h = out" "hu_heard h = [(a, f, l)]"
proof -
  let ?h = "lone_hub req (call_at req k n (Acking r) True None False) [(correlation_id req n, lone_waiter req)] m out rs (Some (a, f, l))
    :: (unit, 'i, 'c) hub"
  define h1 where "h1 = route_frame ops 0 ?h"
  have r1: "lone_run ops h1" unfolding h1_def by (rule sender_run.stepped [OF run hub_step.routed])
  have h1: "hu_calls h1 = [call_at req k n (Acking r) True (Some t) True]" "hu_waiters h1 = []" "hu_outbox h1 = out"
    "hu_heard h1 = [(a, f, l)]" "hu_aborts h1 = [(rq_abort_id req, 0)]"
    using f by (auto simp: h1_def route_frame_def deliver_frame_def route_task_frame_def settle_waiter_def terminal_of_def Let_def
        lone_waiter_def call_at_def split: frame_kind.splits)
  define h2 where "h2 = poll_window 0 True h1"
  have "hub_step ops h1 h2" unfolding h2_def by (rule hub_step.polled) (simp add: in_phase_def h1 call_at_def)
  then have "lone_run ops h2" by (rule sender_run.stepped [OF r1])
  moreover have "hu_calls h2 = [call_at req k n (Returned (settle_run t)) True (Some t) True]" "hu_waiters h2 = []"
    "hu_outbox h2 = out" "hu_heard h2 = [(a, f, l)]"
    by (simp_all add: h2_def poll_window_def h1 call_at_def return_call_def Let_def)
  ultimately show ?thesis using that by blast
qed

text \<open>The first attempt up to its windows, and an acknowledgement that opens the second window.\<close>

lemma lone_sent:
  assumes "lone_run ops (lone_hub req (new_call req False Plain_marker None 0) [] 0 [] [] q)"
  shows "lone_run ops (lone_hub req (call_at req 0 0 (Acking ACK_WINDOW) True None False)
    [(correlation_id req 0, lone_waiter req)] 1 [task_sent req 0] [] q)"
proof -
  have "lone_run ops (lone_hub req (call_at req 0 0 Sending False None False) [(correlation_id req 0, lone_waiter req)] (0 + 1) [] [] q)"
    using lone_attempt [OF assms] zero_less_max by (simp add: new_call_def)
  from lone_wait [OF lone_take [OF this]] show ?thesis by simp
qed

lemma lone_working:
  fixes ops :: "('i, 'c) payload_ops"
  assumes run: "lone_run ops (lone_hub req (call_at req k n (Acking r) True None False)
      [(correlation_id req n, lone_waiter req)] m out rs (Some (a, f, l)))"
    and f: "key_of f = correlation_id req n" "wf_kind f = Ack_frame"
  obtains h :: "(unit, 'i, 'c) hub" where "lone_run ops h" "hu_calls h = [call_at req k n (Working IDLE_WINDOW) True None False]"
    "hu_waiters h = [(correlation_id req n, lone_waiter req)]" "hu_pump h = None" "\<And>s. \<not> hu_notified h s"
proof -
  let ?h = "lone_hub req (call_at req k n (Acking r) True None False) [(correlation_id req n, lone_waiter req)] m out rs (Some (a, f, l))
    :: (unit, 'i, 'c) hub"
  define h1 where "h1 = route_frame ops 0 ?h"
  have r1: "lone_run ops h1" unfolding h1_def by (rule sender_run.stepped [OF run hub_step.routed])
  have h1: "hu_calls h1 = [call_at req k n (Acking r) True None True]" "hu_waiters h1 = [(correlation_id req n, lone_waiter req)]"
    "hu_pump h1 = None" "\<And>s. \<not> hu_notified h1 s" "hu_idle_window h1 = IDLE_WINDOW"
    using f by (auto simp: h1_def route_frame_def deliver_frame_def route_task_frame_def note_frame_def Let_def
        lone_waiter_def call_at_def)
  define h2 where "h2 = poll_window 0 True h1"
  have "hub_step ops h1 h2" unfolding h2_def by (rule hub_step.polled) (simp add: in_phase_def h1 call_at_def)
  then have "lone_run ops h2" by (rule sender_run.stepped [OF r1])
  moreover have "h2 = set_call 0 (call_at req k n (Working IDLE_WINDOW) True None False) h1"
    by (simp add: h2_def poll_window_def h1 call_at_def Let_def)
  ultimately show ?thesis using that [of h2] h1 by simp
qed

text \<open>A request stopped while its call sends, and while it waits.\<close>

definition abort_sent :: "task_request \<Rightarrow> u64 \<Rightarrow> hub_sent" where
  "abort_sent req n = \<lparr>hs_call = Some 0, hs_to = rq_worker_address req, hs_kind = Abort_frame, hs_marker = Plain_marker,
     hs_frame = abort_frame req (correlation_id req n)\<rparr>"

lemma lone_stopped:
  fixes ops :: "('i, 'c) payload_ops"
  assumes run: "lone_run ops (lone_hub req (call_at req k n ph True None False) [(correlation_id req n, lone_waiter req)] m out rs q)"
    and ph: "ph = Sending \<or> ph = Acking r"
  obtains h :: "(unit, 'i, 'c) hub" where "lone_run ops h" "hu_calls h = [call_at req k n (Returned (Inl Run_aborted)) True None False]"
    "hu_outbox h = (if ph = Sending then out else out @ [abort_sent req n])" "hu_waiters h = []"
proof -
  let ?h = "lone_hub req (call_at req k n ph True None False) [(correlation_id req n, lone_waiter req)] m out rs q
    :: (unit, 'i, 'c) hub"
  define h1 where "h1 = snd (abort_task (rq_abort_id req) ?h)"
  have r1: "lone_run ops h1" unfolding h1_def by (rule sender_run.stepped [OF run hub_step.abort_asked])
  have h1: "hu_calls h1 = [call_at req k n ph True None False]" "hu_waiters h1 = [(correlation_id req n, lone_waiter req)]"
    "hu_outbox h1 = out" "hu_notified h1 0"
    by (simp_all add: h1_def abort_task_def raise_signal_def)
  define h2 where "h2 = (if ph = Sending then poll_send 0 None h1 else poll_window 0 True h1)"
  have "hub_step ops h1 h2"
    using ph hub_step.send_polled [of h1 0 None ops] hub_step.polled [of h1 0 ops True]
    by (auto simp: h2_def in_phase_def h1 call_at_def)
  then have "lone_run ops h2" by (rule sender_run.stepped [OF r1])
  moreover have "hu_calls h2 = [call_at req k n (Returned (Inl Run_aborted)) True None False]"
    "hu_outbox h2 = (if ph = Sending then out else out @ [abort_sent req n])" "hu_waiters h2 = []"
    using h1 by (auto simp: h2_def poll_send_def poll_window_def give_up_def send_abort_def return_call_def call_at_def
        abort_sent_def Let_def)
  ultimately show ?thesis using that by blast
qed

section \<open>A daemon that receives a task twice\<close>

text \<open>The text of \<open>Already_running\<close>, and the frame of a refusal as its requester reads it.\<close>

definition already_running_text :: "rstr \<Rightarrow> rstr" where
  "already_running_text task_id = lit ''task '' @ task_id @ lit '' is already running for this sender''"

definition refusal_frame :: "out_frame \<Rightarrow> 'f worker_frame" where
  "refusal_frame o1 = \<lparr>wf_kind = Error_frame, wf_task_id = of_task_id o1, wf_text = already_running_text (of_task_id o1),
     wf_correlation_id = of_correlation_id o1, wf_harness = of_harness o1, wf_usage = None, wf_session_id = None,
     wf_work = None\<rparr>"

lemma already_running_is_worker_error:
  "settle_run (Inl (already_running_text task_id)) = Inl (Run_worker (already_running_text task_id))"
  by (simp add: settle_run_def already_running_text_def starts_with_def lit_def CAPACITY_REJECTION_PREFIX_def
      HARNESS_HELD_PREFIX_def)

text \<open>A second frame of a task that runs is refused, and the task runs on.\<close>

lemma refused_again:
  assumes run: "daemon_run c d" and room: "da_admitted d < dc_max_pending c" and resolved: "resolve_task c f = Inr (u, p)"
    and busy: "da_running d (task_key a (tf_task_id f)) \<noteq> None"
  obtains d' h where "daemon_run c d'" "da_handlers d' = da_handlers d @ [h]" "identity h = (a, Task_job f)"
    "\<lparr>of_by = Some (length (da_handlers d)), of_to = a, of_kind = Some Error_frame, of_task_id = tf_task_id f,
      of_text = Already_running (tf_task_id f), of_correlation_id = tf_correlation_id f, of_harness = Some p\<rparr>
      \<in> set (da_outbox d')" "da_running d' = da_running d" "da_runs d' = da_runs d"
proof -
  let ?i = "length (da_handlers d)" and ?env = "\<lambda>_ _ _. None"
  let ?acc = "accepts_stdin (\<lambda>_. None) p f" and ?g = "\<lparr>gu_key = None, gu_controller = None\<rparr>"
  define h0 where "h0 = handler_new a (Task_job f)"
  have h0: "ha_from h0 = a" "ha_job h0 = Task_job f" "ha_phase h0 = Fresh" "ha_permit h0 = False"
    by (simp_all add: h0_def handler_new_def)
  define d0 where "d0 = d\<lparr>da_inflight := da_inflight d + 1, da_handlers := da_handlers d @ [h0]\<rparr>"
  have r0: "daemon_run c d0"
    unfolding d0_def h0_def by (rule daemon_run.stepped [OF run dispatched_job])
  define d1 where "d1 = begin_job c ?env ?i d0"
  define h1 where "h1 = h0\<lparr>ha_phase := Admitted p ?acc, ha_guard := Some ?g\<rparr>"
  have e1: "d1 = d\<lparr>da_admitted := Suc (da_admitted d), da_inflight := da_inflight d + 1, da_handlers := da_handlers d @ [h1]\<rparr>"
    using room resolved
    by (simp add: d1_def d0_def h1_def h0 begin_job_def resolve_job_def claim_def append_update_last)
  have "daemon_step c d0 d1"
    unfolding d1_def by (rule daemon_step.begun) (simp_all add: d0_def h0)
  then have r1: "daemon_run c d1" by (rule daemon_run.stepped [OF r0])
  define d2 where "d2 = register_job ?i p ?acc ?g d1"
  define h2 where "h2 = h1\<lparr>ha_phase := Leaving\<rparr>"
  have e2: "da_handlers d2 = da_handlers d @ [h2]" "da_running d2 = da_running d" "da_runs d2 = da_runs d" "da_outbox d2 = da_outbox d @
      [\<lparr>of_by = Some ?i, of_to = a, of_kind = Some Error_frame, of_task_id = tf_task_id f,
        of_text = Already_running (tf_task_id f), of_correlation_id = tf_correlation_id f, of_harness = Some p\<rparr>]"
    using busy by (auto simp: d2_def e1 h2_def h1_def h0 register_job_def register_running_def Let_def
        append_update_last say_spoken spoken_def reply_def)
  have "daemon_step c d1 d2"
    unfolding d2_def by (rule daemon_step.registered) (simp_all add: e1 h1_def)
  then have "daemon_run c d2" by (rule daemon_run.stepped [OF r1])
  then show ?thesis using that [of d2 h2] e2 by (simp add: identity_def h2_def h1_def h0)
qed

lemma resolve_request: "resolve_task c (request_frame req cid) = resolve_task c (request_frame req [])"
proof -
  have same: "tf_custom_harness (request_frame req cid) = tf_custom_harness (request_frame req [])"
    "tf_provider (request_frame req cid) = tf_provider (request_frame req [])"
    "tf_transport (request_frame req cid) = tf_transport (request_frame req [])"
    by (simp_all add: request_frame_def)
  show ?thesis unfolding resolve_task_def choose_harness_def same ..
qed

text \<open>The two copies of a request at a daemon that just started: the first runs, the second is refused.\<close>

lemma copies_arrive:
  assumes resolved: "resolve_task c (request_frame req []) = Inr (u, p)" and room: "2 \<le> dc_max_pending c"
  obtains d h1 h2 t where "daemon_run c d" "da_handlers d = [h1, h2]"
    "identity h1 = (a, Task_job (request_frame req (correlation_id req 0)))"
    "identity h2 = (a, Task_job (request_frame req (correlation_id req 1)))" "ha_phase h1 = Turn p" "\<not> ha_aborted h1"
    "da_running d (task_key a (rq_task_id req)) = Some t" "rt_correlation_id t = Some (correlation_id req 0)"
    "\<lparr>of_by = Some 1, of_to = a, of_kind = Some Error_frame, of_task_id = rq_task_id req,
      of_text = Already_running (rq_task_id req), of_correlation_id = Some (correlation_id req 1), of_harness = Some p\<rparr>
      \<in> set (da_outbox d)" "da_runs d = registry_new"
proof -
  let ?f = "\<lambda>n. request_frame req (correlation_id req n)"
  have f: "tf_task_id (?f n) = rq_task_id req" "tf_correlation_id (?f n) = Some (correlation_id req n)"
    "resolve_task c (?f n) = Inr (u, p)" for n
    using resolved resolve_request [of c req "correlation_id req n"] by (simp_all add: request_frame_def)
  have new: "da_admitted (daemon_new c) = 0" "0 < da_free_slots (daemon_new c)" "da_running (daemon_new c) = (\<lambda>_. None)"
    "da_handlers (daemon_new c) = []" "da_runs (daemon_new c) = registry_new" by (simp_all add: daemon_new_def)
  obtain d1 h1 t where d1: "daemon_run c d1" "da_handlers d1 = [h1]" "identity h1 = (a, Task_job (?f 0))"
    "ha_phase h1 = Turn p" "\<not> ha_aborted h1" "da_running d1 (task_key a (rq_task_id req)) = Some t"
    "rt_correlation_id t = Some (correlation_id req 0)" "da_admitted d1 = 1" "da_runs d1 = registry_new"
    by (rule serve_task [OF daemon_run.started _ _ f(3), of a 0 "[]"]) (use new room f in auto)
  define k where "k = task_key a (rq_task_id req)"
  obtain d h2 where d: "daemon_run c d" "da_handlers d = [h1] @ [h2]" "identity h2 = (a, Task_job (?f 1))"
    "\<lparr>of_by = Some (length [h1]), of_to = a, of_kind = Some Error_frame, of_task_id = rq_task_id req,
      of_text = Already_running (rq_task_id req), of_correlation_id = Some (correlation_id req 1), of_harness = Some p\<rparr>
      \<in> set (da_outbox d)" "da_running d = da_running d1" "da_runs d = da_runs d1"
    by (rule refused_again [OF d1(1) _ f(3), of a 1]) (use d1 room f in auto)
  show ?thesis
    by (rule that [OF d(1)]) (use d d1 in auto)
qed

end
