(* ===== verification/HubSpec.thy ===== *)
theory HubSpec
  imports HubRuns
begin

text \<open>
  The properties of the hub's dispatches, and of a hub together with the daemon it sends to.
\<close>

section \<open>A call that hears from its worker\<close>

text \<open>A call that works on its own, with nothing waiting for it but perhaps a sign of life.\<close>

definition working_call :: "nat \<Rightarrow> rstr \<Rightarrow> rstr \<Rightarrow> waiter \<Rightarrow> nat \<Rightarrow> ('f, 'i, 'c) hub \<Rightarrow> bool" where
  "working_call i worker cid w turns h \<longleftrightarrow> i < length (hu_calls h) \<and> hu_pump h = None \<and> hu_idle_window h = IDLE_WINDOW \<and>
     map_of (hu_waiters h) cid = Some w \<and> wt_call w = i \<and> wt_from w = worker \<and>
     (let c = hu_calls h ! i
      in ca_terminal c = None \<and> \<not> hu_notified h (ca_signal c) \<and>
         (\<exists>r. ca_phase c = Working r \<and> LIVENESS_TICK * turns < IDLE_WINDOW \<and>
           (ca_activity c \<or> LIVENESS_TICK * turns < r)))"

lemma live_tick_least: "r - LIVENESS_TICK * of_bool live \<le> live_tick live held r"
  by (auto simp: live_tick_def)

lemma working_turn:
  assumes w: "working_call i worker cid w (turns + of_bool live) h"
  shows "working_call i worker cid w turns (run_turn i live h)"
proof -
  let ?c = "hu_calls h ! i"
  obtain r where ph: "ca_phase ?c = Working r" and r: "ca_activity ?c \<or> LIVENESS_TICK * (turns + of_bool live) < r"
    and few: "LIVENESS_TICK * (turns + of_bool live) < IDLE_WINDOW"
    and quiet: "ca_terminal ?c = None" "\<not> hu_notified h (ca_signal ?c)" and len: "i < length (hu_calls h)"
    using w by (auto simp: working_call_def Let_def)
  define r' where "r' = live_tick live (ca_held ?c) r"
  define h1 where "h1 = set_call i (?c\<lparr>ca_phase := Working r'\<rparr>) h"
  have adv: "run_turn i live h = poll_window i True h1"
    by (simp add: run_turn_def ph tick_window_def Let_def h1_def r'_def)
  have few': "LIVENESS_TICK * turns < IDLE_WINDOW" using few by (auto simp: algebra_simps)
  show ?thesis
  proof (cases "ca_activity ?c")
    case True
    have "poll_window i True h1 = set_call i (?c\<lparr>ca_activity := False, ca_phase := Working (hu_idle_window h)\<rparr>) h1"
      using quiet len True by (simp add: poll_window_def Let_def h1_def)
    then show ?thesis
      unfolding adv using w few' len by (simp add: working_call_def Let_def h1_def)
  next
    case False
    have "LIVENESS_TICK * turns < r - LIVENESS_TICK * of_bool live" using r False by (simp add: algebra_simps)
    then have left: "LIVENESS_TICK * turns < r'" using live_tick_least [of r live "ca_held ?c"] by (simp add: r'_def)
    then have "poll_window i True h1 = h1"
      using quiet len False by (cases r') (auto simp: poll_window_def Let_def h1_def)
    then show ?thesis
      unfolding adv using w few' len left by (auto simp: working_call_def Let_def h1_def)
  qed
qed

lemma working_gap: "working_call i worker cid w (live_turns lives) h \<Longrightarrow> working_call i worker cid w 0 (fold (run_turn i) lives h)"
proof (induction lives arbitrary: h)
  case Nil
  then show ?case by simp
next
  case (Cons live lives)
  have "working_call i worker cid w (live_turns lives) (run_turn i live h)"
    by (rule working_turn) (use Cons.prems in \<open>cases live; simp\<close>)
  then show ?case using Cons.IH by simp
qed

text \<open>A progress frame of the worker.\<close>

lemma working_heard:
  assumes w: "working_call i worker cid w 0 h" and f: "key_of f = cid" "wf_kind f \<in> {Ack_frame, Status_frame}"
    and few: "LIVENESS_TICK * turns < IDLE_WINDOW"
  shows "working_call i worker cid w turns (route_frame ops now (check_frame worker f h))"
proof -
  have len: "i < length (hu_calls h)" and m: "map_of (hu_waiters h) cid = Some w" and wi: "wt_call w = i" "wt_from w = worker"
    using w by (simp_all add: working_call_def)
  have "check_frame worker f h = h\<lparr>hu_pump := Some (worker, f, hu_counter h)\<rparr>"
    using m wi f(1) by (simp add: check_frame_def expected_sender_def)
  then have "route_frame ops now (check_frame worker f h) = route_task_frame f (note_frame worker f (hu_counter h) now (h\<lparr>hu_pump := Some (worker, f, hu_counter h)\<rparr>))"
    using f(2) by (auto simp: route_frame_def deliver_frame_def)
  also have "working_call i worker cid w turns \<dots>"
    using w len m wi f few
    by (auto simp: route_task_frame_def Let_def working_call_def note_frame_def split: option.split)
  finally show ?thesis .
qed

text \<open>A gap in which only time passes, then a frame.\<close>

definition serve_gap ::
  "('i, 'c) payload_ops \<Rightarrow> nat \<Rightarrow> rstr \<Rightarrow> bool list \<times> i64 \<times> 'f worker_frame \<Rightarrow> ('f, 'i, 'c) hub \<Rightarrow> ('f, 'i, 'c) hub" where
  "serve_gap ops i worker g h =
     (case g of (lives, now, f) \<Rightarrow> route_frame ops now (check_frame worker f (fold (run_turn i) lives h)))"

lemma working_gaps:
  assumes "\<forall>(lives, now, f) \<in> set gaps. LIVENESS_TICK * length lives < IDLE_WINDOW \<and> key_of f = cid \<and>
      wf_kind f \<in> {Ack_frame, Status_frame}"
    and "LIVENESS_TICK * length lives < IDLE_WINDOW"
    and "\<And>turns. LIVENESS_TICK * turns < IDLE_WINDOW \<Longrightarrow> working_call i worker cid w turns h"
  shows "working_call i worker cid w 0 (fold (run_turn i) lives (fold (serve_gap ops i worker) gaps h))"
  using assms
proof (induction gaps arbitrary: h)
  case Nil
  have "LIVENESS_TICK * live_turns lives < IDLE_WINDOW"
    using Nil(2) length_filter_le [of "\<lambda>b. b" lives] by (meson le_less_trans mult_le_mono2)
  then show ?case using working_gap [OF Nil(3)] by simp
next
  case (Cons g gaps)
  obtain ls now f where g: "g = (ls, now, f)" by (cases g) auto
  have "LIVENESS_TICK * length ls < IDLE_WINDOW" using Cons.prems(1) g by simp
  then have "LIVENESS_TICK * live_turns ls < IDLE_WINDOW"
    using length_filter_le [of "\<lambda>b. b" ls] by (meson le_less_trans mult_le_mono2)
  then have "working_call i worker cid w 0 (fold (run_turn i) ls h)" using working_gap Cons.prems(3) by blast
  then have "working_call i worker cid w turns (serve_gap ops i worker g h)" if "LIVENESS_TICK * turns < IDLE_WINDOW" for turns
    using that Cons.prems(1) g by (auto simp: serve_gap_def intro: working_heard)
  then show ?case using Cons by simp
qed

section \<open>Examples\<close>

definition ex_payload_ops :: "(unit, unit) payload_ops" where
  "ex_payload_ops = \<lparr>po_info = (\<lambda>_. Inl []), po_capabilities = (\<lambda>_. None)\<rparr>"

definition ex_request :: task_request where
  "ex_request = \<lparr>rq_task_id = [116, 49], rq_abort_id = [97], rq_cycle_id = None, rq_instruction = [104], rq_worker_address = [119],
     rq_provider = None, rq_transport = None, rq_custom_harness = None\<rparr>"

text \<open>A frame with a text and nothing else.\<close>

definition text_frame :: "frame_kind \<Rightarrow> rstr \<Rightarrow> rstr \<Rightarrow> unit worker_frame" where
  "text_frame kind cid v = \<lparr>wf_kind = kind, wf_task_id = [], wf_text = v, wf_correlation_id = Some cid, wf_harness = None,
     wf_usage = None, wf_session_id = None, wf_work = None\<rparr>"

lemma text_frame_fields [simp]:
  "wf_kind (text_frame kind cid v) = kind" "key_of (text_frame kind cid v) = cid" "wf_text (text_frame kind cid v) = v"
  by (simp_all add: text_frame_def key_of_def)

section \<open>The properties\<close>

text \<open>C17.  A dispatch that returned has its reason: a reply or a worker's error is that of a terminal frame
  heard under the attempt's correlation id, sent by the worker unless the pump checked it before the
  attempt was opened; an abort was asked for.  It left neither a waiter nor its abort signal, and sent its
  task at most three times.\<close>

theorem dispatch_settles:
  assumes "sender_run ops ack idle h" "i < length (hu_calls h)" "c = hu_calls h ! i" "ca_phase c = Returned result"
  shows "(case result of
       Inr v \<Rightarrow> \<exists>(a, f, n) \<in> set (hu_heard h). wf_kind f = Reply_frame \<and> key_of f = ca_cid c \<and> outcome_of f = v \<and>
         (a = rq_worker_address (ca_request c) \<or> n \<le> ca_number c)
     | Inl Run_timeout \<Rightarrow> True | Inl (Run_transport e) \<Rightarrow> True
     | Inl Run_aborted \<Rightarrow> ca_signal c \<in> set (hu_asked h)
     | Inl e \<Rightarrow> \<exists>(a, f, n) \<in> set (hu_heard h). wf_kind f = Error_frame \<and> key_of f = ca_cid c \<and>
         settle_run (Inl (wf_text f)) = Inl e \<and> (a = rq_worker_address (ca_request c) \<or> n \<le> ca_number c)) \<and>
     (\<forall>(k, w) \<in> set (hu_waiters h). wt_call w \<noteq> i) \<and>
     map_of (hu_aborts h) (rq_abort_id (ca_request c)) \<noteq> Some (ca_signal c) \<and> copies (hu_outbox h) i \<le> 3"
proof -
  have ok: "hub_ok h" by (rule task_sender_ok [OF assms(1)])
  have c: "call_ok h i c" using hub_call [OF ok assms(2)] assms(3) by simp
  have j: "justified (hu_asked h) c result" and heard: "\<And>t. ca_terminal c = Some t \<Longrightarrow> heard_terminal (hu_heard h) c t"
    and clean: "map_of (hu_aborts h) (rq_abort_id (ca_request c)) \<noteq> Some (ca_signal c)" and few: "ca_attempt c \<le> MAX_RESETS"
    and sent: "copies (hu_outbox h) i \<le> ca_attempt c + of_bool (ca_gone c)"
    using c assms(4) unfolding call_ok_def closed_call_def by auto
  have "wt_call w \<noteq> i" if "(k, w) \<in> set (hu_waiters h)" for k w
  proof
    assume "wt_call w = i"
    moreover have "waiter_ok (hu_calls h) k w" using ok that unfolding hub_ok_def by blast
    ultimately show False using waiter_fields(6) not_opening assms(3,4) by blast
  qed
  moreover have "copies (hu_outbox h) i \<le> 3" using sent few by (cases "ca_gone c") (simp_all add: MAX_RESETS_def)
  moreover have "(case result of
       Inr v \<Rightarrow> \<exists>(a, f, n) \<in> set (hu_heard h). wf_kind f = Reply_frame \<and> key_of f = ca_cid c \<and> outcome_of f = v \<and>
         (a = rq_worker_address (ca_request c) \<or> n \<le> ca_number c)
     | Inl Run_timeout \<Rightarrow> True | Inl (Run_transport e) \<Rightarrow> True
     | Inl Run_aborted \<Rightarrow> ca_signal c \<in> set (hu_asked h)
     | Inl e \<Rightarrow> \<exists>(a, f, n) \<in> set (hu_heard h). wf_kind f = Error_frame \<and> key_of f = ca_cid c \<and>
         settle_run (Inl (wf_text f)) = Inl e \<and> (a = rq_worker_address (ca_request c) \<or> n \<le> ca_number c))"
  proof (cases "\<exists>t. ca_terminal c = Some t \<and> result = settle_run t")
    case False
    then show ?thesis using j by (auto simp: justified_def)
  next
    case True
    then obtain t where t: "ca_terminal c = Some t" "result = settle_run t" by blast
    obtain a f n where f: "(a, f, n) \<in> set (hu_heard h)" "key_of f = ca_cid c" "terminal_of f = Some t"
      "a = rq_worker_address (ca_request c) \<or> n \<le> ca_number c"
      using heard [OF t(1)] by (auto simp: heard_terminal_def)
    show ?thesis
    proof (cases t)
      case (Inr v)
      then have "wf_kind f = Reply_frame \<and> outcome_of f = v"
        using f(3) by (simp add: terminal_of_def split: frame_kind.splits)
      then show ?thesis using f t(2) Inr by (auto simp: settle_run_def intro!: bexI [of _ "(a, f, n)"])
    next
      case (Inl e)
      then have "wf_kind f = Error_frame \<and> wf_text f = e"
        using f(3) by (simp add: terminal_of_def split: frame_kind.splits)
      then show ?thesis
        using f t(2) Inl
        by (auto simp: settle_run_def intro!: bexI [of _ "(a, f, n)"] split: if_splits)
    qed
  qed
  ultimately show ?thesis using clean by blast
qed

lemma dispatch_settles_witness:
  "\<exists>h :: (unit, unit, unit) hub. lone_run ex_payload_ops h \<and>
     ca_phase (hu_calls h ! 0) = Returned (Inr (outcome_of (text_frame Reply_frame (correlation_id ex_request 0) [111]))) \<and>
     (\<exists>(a, f, n) \<in> set (hu_heard h). wf_kind f = Reply_frame \<and> (a = [119] \<or> n \<le> 0)) \<and>
     map_of (hu_aborts h) [97] \<noteq> Some 0 \<and> copies (hu_outbox h) 0 \<le> 3"
proof -
  let ?f = "text_frame Reply_frame (correlation_id ex_request 0) [111]"
  have checked: "lone_run ex_payload_ops (lone_hub ex_request (call_at ex_request 0 0 (Acking ACK_WINDOW) True None False)
      [(correlation_id ex_request 0, lone_waiter ex_request)] 1 [task_sent ex_request 0] [] (Some ([119], ?f, 1)))"
    by (rule lone_check [OF lone_sent [OF lone_open]]) (simp add: lone_waiter_def ex_request_def)
  obtain h where h: "lone_run ex_payload_ops h"
    "hu_calls h = [call_at ex_request 0 0 (Returned (settle_run (Inr (outcome_of ?f)))) True (Some (Inr (outcome_of ?f))) True]"
    by (rule lone_settled [OF checked, of "Inr (outcome_of ?f)"]) (auto simp: terminal_of_def)
  have c: "ca_phase (hu_calls h ! 0) = Returned (Inr (outcome_of ?f))" "ca_request (hu_calls h ! 0) = ex_request"
    "ca_signal (hu_calls h ! 0) = 0" "ca_number (hu_calls h ! 0) = 0"
    by (simp_all add: h(2) call_at_def settle_run_def)
  have "0 < length (hu_calls h)" by (simp add: h(2))
  from dispatch_settles [OF h(1) this refl c(1)] show ?thesis
    using h(1) c by (intro exI [of _ h]) (auto simp: ex_request_def)
qed

lemma window_turns_le: "r \<le> LIVENESS_TICK * n \<Longrightarrow> 0 < n \<Longrightarrow> window_turns r \<le> n"
proof -
  assume r: "r \<le> LIVENESS_TICK * n" and n: "0 < n"
  have "(r + 99) div 100 \<le> (100 * n + 99) div 100" by (rule div_le_mono) (use r in \<open>simp add: LIVENESS_TICK_def\<close>)
  also have "\<dots> = n" by simp
  finally show ?thesis using n by (simp add: window_turns_def LIVENESS_TICK_def)
qed

lemma turns_left_bound:
  assumes run: "sender_run ops ACK_WINDOW IDLE_WINDOW h" and i: "i < length (hu_calls h)"
  shows "turns_left h (hu_calls h ! i) \<le> 2403"
proof -
  let ?c = "hu_calls h ! i"
  have win: "windows_ok ACK_WINDOW IDLE_WINDOW h" by (rule windows_run [OF run])
  then have fits: "phase_fits ACK_WINDOW IDLE_WINDOW (ca_phase ?c)"
    and w: "hu_ack_window h = ACK_WINDOW" "hu_idle_window h = IDLE_WINDOW" using i by (simp_all add: windows_ok_def)
  have ack: "window_turns r \<le> 120" if "r \<le> ACK_WINDOW" for r
    by (rule window_turns_le) (use that in \<open>simp_all add: ACK_WINDOW_def LIVENESS_TICK_def\<close>)
  have idle: "window_turns r \<le> 2400" if "r \<le> IDLE_WINDOW" for r
    by (rule window_turns_le) (use that in \<open>simp_all add: IDLE_WINDOW_def LIVENESS_TICK_def\<close>)
  have "(MAX_RESETS - ca_attempt ?c) * (3 + window_turns ACK_WINDOW) \<le> 2 * 123"
    by (rule mult_le_mono) (use ack [of ACK_WINDOW] in \<open>simp_all add: MAX_RESETS_def\<close>)
  then show ?thesis
    using ack [of ACK_WINDOW] idle [of IDLE_WINDOW] ack idle fits
    by (auto simp: turns_left_def Let_def w split: call_phase.split) (force dest: ack idle)+
qed

text \<open>C18.  A dispatch ends: while the relay takes its frames, its peer is live and no operator holds the
  session, a dispatch that hears nothing more has returned after 2403 turns of its clock (240.3 s), whatever
  state a run left it in: three acknowledgement windows of 12 s, or one idle window of 240 s, with their sends.\<close>

theorem dispatch_ends:
  assumes "sender_run ops ACK_WINDOW IDLE_WINDOW h" "i < length (hu_calls h)" "in_progress (hu_calls h ! i)"
    "2403 \<le> live_turns lives"
  shows "\<exists>r. ca_phase (hu_calls (fold (run_turn i) lives h) ! i) = Returned r"
  by (rule turns_end [OF assms(2,3)]) (use turns_left_bound [OF assms(1,2)] assms(4) in simp)

lemma dispatch_ends_witness:
  "\<exists>r. ca_phase (hu_calls (fold (run_turn 0) (replicate 2403 True)
     (lone_hub ex_request (new_call ex_request False Plain_marker None 0) [] 0 [] [] None :: (unit, unit, unit) hub)) ! 0) = Returned r"
proof -
  let ?h = "lone_hub ex_request (new_call ex_request False Plain_marker None 0) [] 0 [] [] None :: (unit, unit, unit) hub"
  have "in_progress (hu_calls ?h ! 0)" by (simp add: in_progress_def new_call_def)
  moreover have "live_turns (replicate 2403 True) = 2403" by (simp)
  ultimately show ?thesis
    using dispatch_ends [OF lone_open [of ex_payload_ops ex_request], where i = 0 and lives = "replicate 2403 True"] by simp
qed

text \<open>C19.  A daemon that reports keeps its dispatch: as long as the worker's frames come no further apart than the
  heartbeat interval of its configuration plus a delay below 180 s, in turns of the hub's clock, the call is
  still working.  The hub's idle window and the daemon's longest heartbeat are separate constants of the code.\<close>

theorem heartbeat_keeps_dispatch:
  assumes "sender_run ops ACK_WINDOW IDLE_WINDOW h" "map_of (hu_waiters h) cid = Some w" "hu_pump h = None"
    and "ca_phase (hu_calls h ! wt_call w) = Working IDLE_WINDOW" "\<not> hu_notified h (ca_signal (hu_calls h ! wt_call w))"
    and "delay < 180000"
    and "\<forall>(lives, now, f) \<in> set gaps. int (LIVENESS_TICK * length lives) \<le> heartbeat_interval c + delay \<and>
      key_of f = cid \<and> wf_kind f \<in> {Ack_frame, Status_frame}"
    and "int (LIVENESS_TICK * length lives) \<le> heartbeat_interval c + delay"
  shows "\<exists>r. ca_phase (hu_calls (fold (run_turn (wt_call w)) lives
    (fold (serve_gap ops (wt_call w) (wt_from w)) gaps h)) ! wt_call w) = Working r"
proof -
  let ?i = "wt_call w"
  have w: "waiter_ok (hu_calls h) cid w" by (rule hub_waiter [OF task_sender_ok [OF assms(1)] assms(2)])
  have idle: "hu_idle_window h = IDLE_WINDOW" using windows_run [OF assms(1)] by (simp add: windows_ok_def)
  have short: "LIVENESS_TICK * length ls < IDLE_WINDOW" if "int (LIVENESS_TICK * length ls) \<le> heartbeat_interval c + delay"
    for ls :: "bool list"
  proof -
    have "heartbeat_interval c \<le> 60000" by (simp add: heartbeat_interval_def MAX_HEARTBEAT_MS_def)
    then have "int (LIVENESS_TICK * length ls) < int IDLE_WINDOW" using that assms(6) by (simp add: IDLE_WINDOW_def)
    then show ?thesis by (simp only: of_nat_less_iff)
  qed
  have "working_call ?i (wt_from w) cid w turns h" if "LIVENESS_TICK * turns < IDLE_WINDOW" for turns
    using waiter_fields(1,5) [OF w] assms(2-5) idle that by (simp add: working_call_def Let_def)
  then have "working_call ?i (wt_from w) cid w 0 (fold (run_turn ?i) lives (fold (serve_gap ops ?i (wt_from w)) gaps h))"
    by (intro working_gaps) (use short assms(7,8) in auto)
  then show ?thesis by (auto simp: working_call_def Let_def)
qed

lemma heartbeat_keeps_dispatch_witness:
  "\<exists>h :: (unit, unit, unit) hub. lone_run ex_payload_ops h \<and>
     (\<exists>r. ca_phase (hu_calls (fold (run_turn 0) (replicate 700 True)
       (serve_gap ex_payload_ops 0 [119] (replicate 800 True, 0, text_frame Status_frame (correlation_id ex_request 0) [46]) h)) ! 0) =
       Working r)"
proof -
  let ?cid = "correlation_id ex_request 0" and ?w = "lone_waiter ex_request"
  have checked: "lone_run ex_payload_ops (lone_hub ex_request (call_at ex_request 0 0 (Acking ACK_WINDOW) True None False)
      [(?cid, ?w)] 1 [task_sent ex_request 0] [] (Some ([119], text_frame Ack_frame ?cid [], 1)))"
    by (rule lone_check [OF lone_sent [OF lone_open]]) (simp add: lone_waiter_def ex_request_def)
  obtain h where h: "lone_run ex_payload_ops h" "hu_calls h = [call_at ex_request 0 0 (Working IDLE_WINDOW) True None False]"
    "hu_waiters h = [(?cid, ?w)]" "hu_pump h = None" "\<And>s. \<not> hu_notified h s"
    by (rule lone_working [OF checked]) auto
  have w: "wt_call ?w = 0" "wt_from ?w = [119]" by (simp_all add: lone_waiter_def ex_request_def)
  have interval: "heartbeat_interval ex_daemon_config = 32000"
    by (simp add: heartbeat_interval_def ex_daemon_config_def i64_saturate_def MAX_HEARTBEAT_MS_def HEARTBEAT_THROTTLE_WINDOWS_def)
  let ?gaps = "[(replicate 800 True, 0, text_frame Status_frame ?cid [46])]"
  have "\<exists>r. ca_phase (hu_calls (fold (run_turn (wt_call ?w)) (replicate 700 True)
      (fold (serve_gap ex_payload_ops (wt_call ?w) (wt_from ?w)) ?gaps h)) ! wt_call ?w) = Working r"
    by (rule heartbeat_keeps_dispatch [where cid = ?cid and c = ex_daemon_config and delay = 50000])
      (use h w interval in \<open>simp_all add: call_at_def LIVENESS_TICK_def\<close>)
  then show ?thesis using h(1) w by auto
qed

text \<open>C14.  The check of a frame's sender and its routing take the locks one after the other, so a reply that any
  peer sent ahead of an attempt, checked while no waiter had its correlation id, settles the attempt that is
  opened before the pump goes on: the dispatch returns that peer's answer as its worker's.\<close>

theorem early_frame_settles:
  "\<exists>h :: (unit, 'i, 'c) hub. sender_run ops ACK_WINDOW IDLE_WINDOW h \<and> length (hu_calls h) = 1 \<and> ca_request (hu_calls h ! 0) = req \<and>
     hu_heard h = [(stranger, text_frame Reply_frame (correlation_id req 0) v, 0)] \<and>
     ca_phase (hu_calls h ! 0) = Returned (Inr (outcome_of (text_frame Reply_frame (correlation_id req 0) v)))"
proof -
  let ?f = "text_frame Reply_frame (correlation_id req 0) v"
  have early: "lone_run ops (lone_hub req (call_at req 0 0 (Acking ACK_WINDOW) True None False)
      [(correlation_id req 0, lone_waiter req)] 1 [task_sent req 0] [] (Some (stranger, ?f, 0)))"
    by (rule lone_sent [OF lone_check [OF lone_open]]) simp
  show ?thesis
    by (rule lone_settled [OF early, of "Inr (outcome_of ?f)"])
      (auto simp: terminal_of_def call_at_def settle_run_def)
qed

text \<open>C21.  An attempt that hears nothing in its acknowledgement window sends the task again under its old id.  When the
  worker had received the first copy, its daemon refuses the second as already running: the dispatch returns that
  refusal as the worker's failure and sends no abort, and the task runs on.\<close>

theorem resend_orphans_task:
  assumes "resolve_task c (request_frame req []) = Inr (u, p)" "2 \<le> dc_max_pending c"
  shows "\<exists>(h :: (unit, 'i, 'c) hub) d h1 h2. sender_run ops ACK_WINDOW IDLE_WINDOW h \<and> daemon_run c d \<and>
     hu_outbox h = [task_sent req 0, task_sent req 1] \<and> da_handlers d = [h1, h2] \<and>
     identity h1 = (a, Task_job (hs_frame (task_sent req 0))) \<and> identity h2 = (a, Task_job (hs_frame (task_sent req 1))) \<and>
     (\<exists>refusal \<in> set (da_outbox d). hu_heard h = [(rq_worker_address req, refusal_frame refusal, 2)]) \<and>
     ca_phase (hu_calls h ! 0) = Returned (Inl (Run_worker (already_running_text (rq_task_id req)))) \<and>
     ha_phase h1 = Turn p \<and> \<not> ha_aborted h1"
proof -
  obtain d h1 h2 t where d: "daemon_run c d" "da_handlers d = [h1, h2]"
    "identity h1 = (a, Task_job (request_frame req (correlation_id req 0)))"
    "identity h2 = (a, Task_job (request_frame req (correlation_id req 1)))" "ha_phase h1 = Turn p" "\<not> ha_aborted h1"
    "\<lparr>of_by = Some 1, of_to = a, of_kind = Some Error_frame, of_task_id = rq_task_id req,
      of_text = Already_running (rq_task_id req), of_correlation_id = Some (correlation_id req 1), of_harness = Some p\<rparr>
      \<in> set (da_outbox d)" (is "?o \<in> _")
    by (rule copies_arrive [OF assms])
  let ?f = "refusal_frame ?o :: unit worker_frame"
  have f: "key_of ?f = correlation_id req 1" "terminal_of ?f = Some (Inl (already_running_text (rq_task_id req)))"
    by (simp_all add: refusal_frame_def key_of_def terminal_of_def)
  have checked: "lone_run ops (lone_hub req (call_at req 1 1 (Acking ACK_WINDOW) True None False)
      [(correlation_id req 1, lone_waiter req)] 2 [task_sent req 0, task_sent req 1] [rq_worker_address req]
      (Some (rq_worker_address req, ?f, 2)))"
    by (rule lone_check [OF lone_resent]) (simp add: lone_waiter_def)
  obtain h :: "(unit, 'i, 'c) hub" where h: "lone_run ops h" "hu_outbox h = [task_sent req 0, task_sent req 1]"
    "hu_heard h = [(rq_worker_address req, ?f, 2)]"
    "hu_calls h = [call_at req 1 1 (Returned (settle_run (Inl (already_running_text (rq_task_id req))))) True
      (Some (Inl (already_running_text (rq_task_id req)))) True]"
    by (rule lone_settled [OF checked f]) auto
  have "ca_phase (hu_calls h ! 0) = Returned (Inl (Run_worker (already_running_text (rq_task_id req))))"
    by (simp add: h(4) call_at_def already_running_is_worker_error)
  then show ?thesis
    using h(1-3) d by (intro exI [of _ h] exI [of _ d] exI [of _ h1] exI [of _ h2]) (auto simp: task_sent_def)
qed

lemma ex_request_resolves: "resolve_task ex_daemon_config (request_frame ex_request []) = Inr (None, Claude)"
  by (simp add: resolve_task_def choose_harness_def select_provider_def ex_daemon_config_def request_frame_def ex_request_def)

lemma resend_orphans_task_witness:
  "\<exists>(h :: (unit, unit, unit) hub) d h1 h2. sender_run ex_payload_ops ACK_WINDOW IDLE_WINDOW h \<and> daemon_run ex_daemon_config d \<and>
     da_handlers d = [h1, h2] \<and> ca_phase (hu_calls h ! 0) = Returned (Inl (Run_worker (already_running_text [116, 49]))) \<and>
     ha_phase h1 = Turn Claude \<and> \<not> ha_aborted h1"
proof -
  have "2 \<le> dc_max_pending ex_daemon_config" by (simp add: ex_daemon_config_def)
  from resend_orphans_task [OF ex_request_resolves this, of ex_payload_ops "[104]"] show ?thesis
    by (auto simp: ex_request_def)
qed

text \<open>C28.  A request stopped by its caller can return as aborted while its worker goes on.  Stopped during the send,
  the call sends no abort, although the relay may have taken the task.  Stopped after a second attempt, it
  sends an abort under the second correlation id, which the daemon running the first copy, and no
  workflow run of that id, answers with "nothing to abort".\<close>

theorem abort_misses_worker:
  assumes "resolve_task c (request_frame req []) = Inr (u, p)" "2 \<le> dc_max_pending c"
  shows "(\<exists>h :: (unit, 'i, 'c) hub. sender_run ops ACK_WINDOW IDLE_WINDOW h \<and> hu_outbox h = [task_sent req 0] \<and>
       ca_phase (hu_calls h ! 0) = Returned (Inl Run_aborted)) \<and>
     (\<exists>(h :: (unit, 'i, 'c) hub) d h1 h2. sender_run ops ACK_WINDOW IDLE_WINDOW h \<and> daemon_run c d \<and>
       hu_outbox h = [task_sent req 0, task_sent req 1, abort_sent req 1] \<and>
       ca_phase (hu_calls h ! 0) = Returned (Inl Run_aborted) \<and>
       identity h1 = (a, Task_job (hs_frame (task_sent req 0))) \<and> ha_phase h1 = Turn p \<and> \<not> ha_aborted h1 \<and>
       \<not> run_is_running (rq_task_id req) (da_runs d) \<and>
       (let d' = handle_abort a (hs_frame (abort_sent req 1)) d
        in da_handlers d' = [h1, h2] \<and> of_text (last (da_outbox d')) = Nothing_to_abort))"
proof
  have "lone_run ops (lone_hub req (call_at req 0 0 Sending False None False) [(correlation_id req 0, lone_waiter req)] (0 + 1) [] [] None)"
    using lone_attempt [OF lone_open, of req] zero_less_max by (simp add: new_call_def)
  from lone_take [OF this]
  have sending: "lone_run ops (lone_hub req (call_at req 0 0 Sending True None False) [(correlation_id req 0, lone_waiter req)] 1
      [task_sent req 0] [] None)" by simp
  show "\<exists>h :: (unit, 'i, 'c) hub. sender_run ops ACK_WINDOW IDLE_WINDOW h \<and> hu_outbox h = [task_sent req 0] \<and>
      ca_phase (hu_calls h ! 0) = Returned (Inl Run_aborted)"
    by (rule lone_stopped [OF sending, of 0]) (auto simp: call_at_def)
next
  obtain d h1 h2 t where d: "daemon_run c d" "da_handlers d = [h1, h2]"
    "identity h1 = (a, Task_job (request_frame req (correlation_id req 0)))" "ha_phase h1 = Turn p" "\<not> ha_aborted h1"
    "da_running d (task_key a (rq_task_id req)) = Some t" "rt_correlation_id t = Some (correlation_id req 0)"
    "da_runs d = registry_new"
    by (rule copies_arrive [OF assms])
  obtain h :: "(unit, 'i, 'c) hub" where h: "lone_run ops h"
    "hu_outbox h = [task_sent req 0, task_sent req 1, abort_sent req 1]" "ca_phase (hu_calls h ! 0) = Returned (Inl Run_aborted)"
    by (rule lone_stopped [OF lone_resent [of ops req], of ACK_WINDOW]) (auto simp: call_at_def)
  have other: "correlation_id req 1 \<noteq> correlation_id req 0" using correlation_id_number [of req 1 req 0] by auto
  have free: "run_cancel (rq_task_id req) (da_runs d) = (False, da_runs d)"
    by (simp add: d(8) run_cancel_def registry_new_def)
  have "handle_abort a (hs_frame (abort_sent req 1)) d =
      reply None a Ack_frame (hs_frame (abort_sent req 1)) Nothing_to_abort None d"
    using d(6,7) other free
    by (simp add: handle_abort_def abort_own_task_def abort_run_def acknowledge_abort_def abort_sent_def abort_frame_def
        mismatch_def)
  then show "\<exists>(h :: (unit, 'i, 'c) hub) d h1 h2. sender_run ops ACK_WINDOW IDLE_WINDOW h \<and> daemon_run c d \<and>
      hu_outbox h = [task_sent req 0, task_sent req 1, abort_sent req 1] \<and>
      ca_phase (hu_calls h ! 0) = Returned (Inl Run_aborted) \<and>
      identity h1 = (a, Task_job (hs_frame (task_sent req 0))) \<and> ha_phase h1 = Turn p \<and> \<not> ha_aborted h1 \<and> \<not> run_is_running (rq_task_id req) (da_runs d) \<and>
      (let d' = handle_abort a (hs_frame (abort_sent req 1)) d
       in da_handlers d' = [h1, h2] \<and> of_text (last (da_outbox d')) = Nothing_to_abort)"
    using h d by (intro exI [of _ h] exI [of _ d] exI [of _ h1] exI [of _ h2]) (simp add: task_sent_def reply_def run_is_running_def registry_new_def)
qed

lemma abort_misses_worker_witness:
  "\<exists>(h :: (unit, unit, unit) hub) d. sender_run ex_payload_ops ACK_WINDOW IDLE_WINDOW h \<and> daemon_run ex_daemon_config d \<and>
     hu_outbox h = [task_sent ex_request 0, task_sent ex_request 1, abort_sent ex_request 1] \<and>
     of_text (last (da_outbox (handle_abort [104] (hs_frame (abort_sent ex_request 1)) d))) = Nothing_to_abort"
proof -
  have "2 \<le> dc_max_pending ex_daemon_config" by (simp add: ex_daemon_config_def)
  from abort_misses_worker [OF ex_request_resolves this, of ex_payload_ops "[104]"] show ?thesis
    by (auto simp: Let_def)
qed

text \<open>C9.  The scans of the activity log say what they mean.  A row runs under an agent exactly when the log keeps records
  of it, none of them a reply or an error, and its last record is of that agent; reading the log drops exactly the
  records of the rows with a reply or an error whose every record is at least two minutes old, so never a row
  without one; and once an outcome is recorded, however the dispatch ended, its row runs nowhere.\<close>

theorem activity_scans:
  "let row = (\<lambda>i. filter (\<lambda>x. ac_task_id x = i) (al_entries l));
       ended = (\<lambda>i. \<exists>x \<in> set (row i). ac_kind x \<in> {lit ''reply'', lit ''error''})
   in (i \<in> set (running_by_agent l agent) \<longleftrightarrow> row i \<noteq> [] \<and> \<not> ended i \<and> ac_agent_id (last (row i)) = agent) \<and>
      fst (snapshot_at now l) = filter (\<lambda>x. \<not> (ended (ac_task_id x) \<and>
        (\<forall>y \<in> set (row (ac_task_id x)). 120000 \<le> i64_saturate (sint now - sint (ac_at y))))) (al_entries l) \<and>
      visible_row l i \<notin> set (running_by_agent (record_outcome i r now l) agent)"
proof -
  have ended: "(\<exists>x \<in> set (row_of es j). ac_kind x \<in> {lit ''reply'', lit ''error''}) \<longleftrightarrow> settled_in es j"
    for es :: "'a worker_activity list" and j by (auto simp: settled_in_row is_terminal_kind_def)
  have "fst (snapshot_at now l) = filter (\<lambda>x. \<not> retired_in now (al_entries l) (ac_task_id x)) (al_entries l)"
    by (simp add: snapshot_at_def retire_settled_def Let_def)
  moreover have "visible_row (record_outcome i r now l) i = visible_row l i"
    by (simp add: record_outcome_def observed_plain_def observed_with_work_def visible_row_def attributed_def Let_def
        split: sum.split option.split)
  ultimately show ?thesis
    using record_outcome_settles [of i r now l]
    unfolding Let_def ended running_row retired_in_row SETTLED_RETENTION_MS_def has_terminal_def by simp
qed

definition ex_log :: "unit activity_log" where
  "ex_log = \<lparr>al_entries = [\<lparr>ac_agent_id = [50], ac_task_id = [116], ac_kind = lit ''status'', ac_content = [], ac_at = 0,
     ac_work = None\<rparr>], al_attribution = []\<rparr>"

lemma activity_scans_witness:
  "[116] \<in> set (running_by_agent ex_log [50]) \<and> fst (snapshot_at 1000000 ex_log) = al_entries ex_log \<and>
   [116] \<notin> set (running_by_agent (record_outcome [116] (Inl Run_timeout) 0 ex_log) [50])"
proof -
  have "visible_row ex_log [116] = [116]" by (simp add: visible_row_def attributed_def ex_log_def)
  then show ?thesis
    using activity_scans [of ex_log "[116]" "[50]" 1000000 "Inl Run_timeout"] activity_scans [of ex_log "[116]" "[50]" 0 "Inl Run_timeout"]
    by (simp add: ex_log_def lit_def Let_def)
qed

end
