(* ===== verification/BridgeLink.thy ===== *)
theory BridgeLink
  imports LinkFrames KeyPair "HOL-Library.AList"
begin

text \<open>
  The bridge over the host link (\<open>src/src/sdk/src/bridge\<close>: \<open>link.rs\<close> and the data of \<open>types.rs\<close>):
  application frames cut into the link's messages, and put together again by a pump that fills a
  bounded inbox.  What the link answers to each \<open>send\<close> is an argument; whether a text is a screen
  frame is a parameter, since serde reads it.
\<close>

section \<open>UTF-8 of the Rust standard library\<close>

definition is_scalar :: "rchar \<Rightarrow> bool" where
  "is_scalar ch \<longleftrightarrow> ch < 55296 \<or> 57344 \<le> ch \<and> ch < 1114112"

definition utf8_units :: "rchar \<Rightarrow> nat list" where
  "utf8_units ch =
     (if ch < 128 then [ch]
      else if ch < 2048 then [192 + ch div 64, 128 + ch mod 64]
      else if ch < 65536 then [224 + ch div 4096, 128 + ch div 64 mod 64, 128 + ch mod 64]
      else [240 + ch div 262144, 128 + ch div 4096 mod 64, 128 + ch div 64 mod 64, 128 + ch mod 64])"

definition utf8_bytes :: "rstr \<Rightarrow> bytes" where
  "utf8_bytes v = map word_of_nat (concat (map utf8_units v))"

definition is_cont :: "nat \<Rightarrow> bool" where
  "is_cont u \<longleftrightarrow> 128 \<le> u \<and> u < 192"

text \<open>The second unit of a sequence of three or four.\<close>

definition second_ok :: "nat \<Rightarrow> nat \<Rightarrow> bool" where
  "second_ok u v \<longleftrightarrow> is_cont v \<and> (u = 224 \<longrightarrow> 160 \<le> v) \<and> (u = 237 \<longrightarrow> v < 160) \<and>
     (u = 240 \<longrightarrow> 144 \<le> v) \<and> (u = 244 \<longrightarrow> v < 144)"

definition REPLACEMENT :: rchar where "REPLACEMENT = 65533"

text \<open>The next character and the units it takes; an invalid sequence is replaced up to where it fails.\<close>

definition utf8_next :: "nat \<Rightarrow> nat list \<Rightarrow> rchar \<times> nat" where
  "utf8_next u us =
     (if u < 128 then (u, 1)
      else if 194 \<le> u \<and> u < 224 then
        (case us of v # _ \<Rightarrow> if is_cont v then ((u - 192) * 64 + (v - 128), 2) else (REPLACEMENT, 1)
         | [] \<Rightarrow> (REPLACEMENT, 1))
      else if 224 \<le> u \<and> u < 240 then
        (case us of [] \<Rightarrow> (REPLACEMENT, 1)
         | v # vs \<Rightarrow>
             if \<not> second_ok u v then (REPLACEMENT, 1)
             else (case vs of [] \<Rightarrow> (REPLACEMENT, 2)
                   | w # _ \<Rightarrow> if is_cont w then ((u - 224) * 4096 + (v - 128) * 64 + (w - 128), 3) else (REPLACEMENT, 2)))
      else if 240 \<le> u \<and> u < 245 then
        (case us of [] \<Rightarrow> (REPLACEMENT, 1)
         | v # vs \<Rightarrow>
             if \<not> second_ok u v then (REPLACEMENT, 1)
             else (case vs of [] \<Rightarrow> (REPLACEMENT, 2)
                   | w # ws \<Rightarrow>
                       if \<not> is_cont w then (REPLACEMENT, 2)
                       else (case ws of [] \<Rightarrow> (REPLACEMENT, 3)
                             | x # _ \<Rightarrow>
                                 if is_cont x
                                 then ((u - 240) * 262144 + (v - 128) * 4096 + (w - 128) * 64 + (x - 128), 4)
                                 else (REPLACEMENT, 3))))
      else (REPLACEMENT, 1))"

fun lossy_units :: "nat list \<Rightarrow> rstr" where
  "lossy_units [] = []"
| "lossy_units (u # us) = (case utf8_next u us of (ch, n) \<Rightarrow> ch # lossy_units (drop (n - 1) us))"

text \<open>\<open>String::from_utf8_lossy\<close>.\<close>

definition from_utf8_lossy :: "bytes \<Rightarrow> rstr" where
  "from_utf8_lossy bs = lossy_units (map unat bs)"

section \<open>The bridge\<close>

definition INBOX_CAPACITY :: nat where "INBOX_CAPACITY = 1024"
definition CHUNK_MAGIC :: bytes where "CHUNK_MAGIC = ascii ''MDL1''"
definition CHUNK_HEADER :: nat where "CHUNK_HEADER = 20"
definition MAX_CHUNKS :: nat where "MAX_CHUNKS = 4096"

record link_peer =
  lp_name :: rstr
  lp_node_id :: node_id

record inbound_message =
  im_from :: rstr
  im_text :: rstr

datatype bridge_liveness = Bridge_live | Bridge_degraded | Bridge_offline

record link_bridge =
  lb_address :: rstr
  lb_ids :: "rstr \<Rightarrow> node_id option"
  lb_names :: "node_id \<Rightarrow> rstr option"

definition peer_aliases :: "link_peer \<Rightarrow> rstr list" where
  "peer_aliases p = [lp_name p, node_display (lp_node_id p)]"

text \<open>A later peer takes over an alias or an id it shares.\<close>

definition link_bridge_new :: "rstr \<Rightarrow> link_peer list \<Rightarrow> link_bridge" where
  "link_bridge_new name peers = \<lparr>lb_address = name,
     lb_ids = map_of (rev (concat (map (\<lambda>p. map (\<lambda>alias. (alias, lp_node_id p)) (peer_aliases p)) peers))),
     lb_names = map_of (rev (map (\<lambda>p. (lp_node_id p, lp_name p)) peers))\<rparr>"

definition single_peer :: "node_id list \<Rightarrow> rstr \<Rightarrow> rstr \<Rightarrow> nat + link_bridge" where
  "single_peer peers node_name peer_name =
     (case peers of
        [p] \<Rightarrow> Inr (link_bridge_new node_name [\<lparr>lp_name = peer_name, lp_node_id = p\<rparr>])
      | _ \<Rightarrow> Inl (length peers))"

definition bridge_node_id :: "link_bridge \<Rightarrow> rstr \<Rightarrow> node_id option" where
  "bridge_node_id b address = lb_ids b (trim address)"

text \<open>\<open>str::trim_start_matches\<close> of \<open>@\<close>.\<close>

definition strip_at :: "rstr \<Rightarrow> rstr" where
  "strip_at v = dropWhile (\<lambda>ch. ch = 64) v"

definition link_resolve :: "link_bridge \<Rightarrow> rstr \<Rightarrow> rstr option" where
  "link_resolve b name = (let v = strip_at (trim name) in if lb_ids b v \<noteq> None then Some v else None)"

definition link_presence :: "(node_id \<Rightarrow> liveness option) \<Rightarrow> link_bridge \<Rightarrow> rstr list \<Rightarrow> rstr \<Rightarrow> bool option" where
  "link_presence status b addresses address =
     (if address \<in> set addresses
      then case bridge_node_id b address of
             None \<Rightarrow> None | Some p \<Rightarrow> map_option (\<lambda>l. l = Live \<or> l = Degraded) (status p)
      else None)"

definition link_liveness :: "(node_id \<Rightarrow> liveness option) \<Rightarrow> link_bridge \<Rightarrow> rstr \<Rightarrow> bridge_liveness" where
  "link_liveness status b peer =
     (case bridge_node_id b peer of
        None \<Rightarrow> Bridge_live
      | Some p \<Rightarrow>
          (case status p of
             Some Live \<Rightarrow> Bridge_live | Some Degraded \<Rightarrow> Bridge_degraded | Some Offline \<Rightarrow> Bridge_offline
           | None \<Rightarrow> Bridge_live))"

section \<open>Sending\<close>

datatype bridge_error =
    Not_enrolled rstr | Too_many_chunks nat | Link_failed link_error

definition chunk_frame :: "u64 \<Rightarrow> nat \<Rightarrow> nat \<Rightarrow> bytes \<Rightarrow> bytes" where
  "chunk_frame ident index count chunk =
     CHUNK_MAGIC @ u64_be ident @ u32_be (word_of_nat index) @ u32_be (word_of_nat count) @ chunk"

definition CHUNK_CAPACITY :: nat where "CHUNK_CAPACITY = MAX_MESSAGE_BYTES - CHUNK_HEADER"

definition chunk_count :: "bytes \<Rightarrow> nat" where
  "chunk_count payload = max ((length payload + CHUNK_CAPACITY - 1) div CHUNK_CAPACITY) 1"

definition bridge_frames :: "u64 \<Rightarrow> bytes \<Rightarrow> bytes list" where
  "bridge_frames ident payload =
     (let count = chunk_count payload
      in map (\<lambda>(index, chunk). chunk_frame ident index count chunk) (enumerate 0 (chunks CHUNK_CAPACITY payload)) @
         (if payload = [] then [chunk_frame ident 0 1 []] else []))"

text \<open>The loop over \<open>send_with_backpressure\<close>: its result and what the link took, when its tries are
  answered by \<open>answers\<close>; without a result it still waits (or its future is dropped there).\<close>

fun send_fragments :: "(link_error + unit) list \<Rightarrow> bytes list \<Rightarrow> (link_error + unit) option \<times> bytes list" where
  "send_fragments answers [] = (Some (Inr ()), [])"
| "send_fragments [] (f # fs) = (None, [])"
| "send_fragments (Inr _ # answers) (f # fs) = (case send_fragments answers fs of (r, taken) \<Rightarrow> (r, f # taken))"
| "send_fragments (Inl e # answers) (f # fs) =
     (if link_is_retryable e then send_fragments answers (f # fs) else (Some (Inl e), []))"

datatype link_use = Unused | Screen_use node_id bytes | Fragment_use node_id "bytes list"

definition bridge_send ::
  "(rstr \<Rightarrow> bool) \<Rightarrow> link_bridge \<Rightarrow> u64 \<Rightarrow> (link_error + unit) list \<Rightarrow> rstr \<Rightarrow> rstr \<Rightarrow>
   (bridge_error + unit) option \<times> link_use" where
  "bridge_send is_screen_frame b ident answers dest body =
     (case bridge_node_id b dest of
        None \<Rightarrow> (Some (Inl (Not_enrolled dest)), Unused)
      | Some peer \<Rightarrow>
          if is_screen_frame body
          then (case answers of [] \<Rightarrow> None | r # _ \<Rightarrow> Some (map_sum Link_failed id r), Screen_use peer (utf8_bytes body))
          else let payload = utf8_bytes body
               in if chunk_count payload > MAX_CHUNKS then (Some (Inl (Too_many_chunks (chunk_count payload))), Unused)
                  else case send_fragments answers (bridge_frames ident payload) of
                         (r, taken) \<Rightarrow> (map_option (map_sum Link_failed id) r, Fragment_use peer taken))"

section \<open>Receiving\<close>

record partial_message =
  pm_chunks :: "bytes option list"
  pm_bytes :: nat
  pm_epoch :: u64

record reassembly =
  ra_partials :: "((node_id \<times> u64) \<times> partial_message) list"
  ra_bytes :: nat

definition reassembly_remove :: "node_id \<times> u64 \<Rightarrow> reassembly \<Rightarrow> reassembly" where
  "reassembly_remove key r =
     (case map_of (ra_partials r) key of
        None \<Rightarrow> r
      | Some p \<Rightarrow> r\<lparr>ra_partials := AList.delete key (ra_partials r), ra_bytes := ra_bytes r - pm_bytes p\<rparr>)"

text \<open>The head of \<open>reassemble\<close>: the partial frame a fragment goes to, unless it is refused.\<close>

definition open_partial :: "node_id \<Rightarrow> u64 \<Rightarrow> u64 \<Rightarrow> nat \<Rightarrow> nat \<Rightarrow> reassembly \<Rightarrow> reassembly option" where
  "open_partial peer ident epoch index count r =
     (if map_of (ra_partials r) (peer, ident) \<noteq> None then Some r
      else
        let fresh = (\<lambda>r. r\<lparr>ra_partials := AList.update (peer, ident)
              \<lparr>pm_chunks = replicate count None, pm_bytes = 0, pm_epoch = epoch\<rparr> (ra_partials r)\<rparr>)
        in case find (\<lambda>((source, _), _). source = peer) (ra_partials r) of
             Some (old_key, old) \<Rightarrow>
               (if pm_epoch old = epoch \<and> index \<noteq> 0 then None else Some (fresh (reassembly_remove old_key r)))
           | None \<Rightarrow> Some (fresh r))"

definition put_chunk :: "nat \<Rightarrow> bytes \<Rightarrow> partial_message \<Rightarrow> partial_message" where
  "put_chunk index payload p =
     (let old_len = (case pm_chunks p ! index of Some old \<Rightarrow> length old | None \<Rightarrow> 0)
      in p\<lparr>pm_chunks := (pm_chunks p)[index := Some payload], pm_bytes := pm_bytes p + length payload - old_len\<rparr>)"

definition reassemble :: "node_id \<Rightarrow> u64 \<Rightarrow> bytes \<Rightarrow> reassembly \<Rightarrow> bytes option \<times> reassembly" where
  "reassemble peer epoch body r =
     (if length body < CHUNK_HEADER \<or> take 4 body \<noteq> CHUNK_MAGIC then (Some body, r)
      else
        let ident = be_u64 (slice 4 12 body); index = unat (be_u32 (slice 12 16 body)); count = unat (be_u32 (slice 16 20 body));
            key = (peer, ident)
        in if count = 0 \<or> count > MAX_CHUNKS \<or> index \<ge> count then (None, r)
           else case open_partial peer ident epoch index count r of
                  None \<Rightarrow> (None, r)
                | Some r1 \<Rightarrow>
                    (let p = the (map_of (ra_partials r1) key)
                     in if length (pm_chunks p) \<noteq> count then (None, reassembly_remove key r1)
                        else
                          let payload = drop CHUNK_HEADER body; p1 = put_chunk index payload p;
                              old_len = (case pm_chunks p ! index of Some old \<Rightarrow> length old | None \<Rightarrow> 0);
                              r2 = r1\<lparr>ra_partials := AList.update key p1 (ra_partials r1),
                                     ra_bytes := (if length payload \<ge> old_len then ra_bytes r1 + (length payload - old_len)
                                                  else ra_bytes r1 - (old_len - length payload))\<rparr>
                          in if list_ex (\<lambda>ch. ch = None) (pm_chunks p1) then (None, r2)
                             else (Some (concat (map the (pm_chunks p1))), reassembly_remove key r2)))"

text \<open>\<open>ib_waiting\<close> is the message with which the pump waits for space.\<close>

record inbox =
  ib_queue :: "inbound_message list"
  ib_reassembly :: reassembly
  ib_waiting :: "inbound_message option"

definition inbox_new :: inbox where
  "inbox_new = \<lparr>ib_queue = [], ib_reassembly = \<lparr>ra_partials = [], ra_bytes = 0\<rparr>, ib_waiting = None\<rparr>"

definition pump_received :: "link_bridge \<Rightarrow> node_id \<times> u64 \<times> bytes \<Rightarrow> inbox \<Rightarrow> inbox" where
  "pump_received b m ib =
     (case m of (peer, epoch, body) \<Rightarrow>
        (case reassemble peer epoch body (ib_reassembly ib) of
           (None, r) \<Rightarrow> ib\<lparr>ib_reassembly := r\<rparr>
         | (Some whole, r) \<Rightarrow>
             ib\<lparr>ib_reassembly := r,
                ib_waiting := Some \<lparr>im_from = (case lb_names b peer of Some name \<Rightarrow> name | None \<Rightarrow> node_display peer),
                                   im_text = from_utf8_lossy whole\<rparr>\<rparr>))"

definition pump_push :: "inbox \<Rightarrow> inbox" where
  "pump_push ib =
     (case ib_waiting ib of
        None \<Rightarrow> ib
      | Some m \<Rightarrow>
          if length (ib_queue ib) < INBOX_CAPACITY then ib\<lparr>ib_queue := ib_queue ib @ [m], ib_waiting := None\<rparr> else ib)"

text \<open>\<open>drain_inbox\<close>; a limit of at most zero takes nothing.\<close>

definition drain_queue :: "int \<Rightarrow> inbound_message list \<Rightarrow> inbound_message list \<times> inbound_message list" where
  "drain_queue limit queue =
     (if limit \<le> 0 then ([], queue)
      else let count = min (nat limit) (length queue) in (take count queue, drop count queue))"

definition link_drain :: "int \<Rightarrow> inbox \<Rightarrow> inbound_message list \<times> inbox" where
  "link_drain limit ib = (case drain_queue limit (ib_queue ib) of (taken, rest) \<Rightarrow> (taken, ib\<lparr>ib_queue := rest\<rparr>))"

lemma drain_queue_take: "drain_queue limit queue = (take (nat limit) queue, drop (nat limit) queue)"
  by (simp add: drain_queue_def Let_def min_def)

end
