(* ===== verification/BridgeFacts.thy ===== *)
theory BridgeFacts
  imports BridgeLink LinkRun
begin

text \<open>
  The bridge's frames put together again: the association list of partial frames refines one slot
  for each peer, and the fragments a peer's sends left, in order, make exactly the bodies whose every
  fragment the link took.
\<close>

section \<open>UTF-8\<close>

lemma div_64:
  fixes n :: nat
  shows "n = n div 64 * 64 + n mod 64" "n div 64 = n div 4096 * 64 + n div 64 mod 64"
    "n div 4096 = n div 262144 * 64 + n div 4096 mod 64"
  using div_mult_mod_eq [of "n div 64" 64] div_mult_mod_eq [of "n div 4096" 64]
  by (simp_all add: div_mult2_eq [of n 64 64, simplified, symmetric] div_mult2_eq [of n 4096 64, simplified, symmetric])

lemma utf8_next_units:
  assumes "is_scalar ch"
  shows "\<exists>u us. utf8_units ch = u # us \<and> utf8_next u (us @ vs) = (ch, Suc (length us))"
proof -
  consider "ch < 128" | "128 \<le> ch" "ch < 2048" | "2048 \<le> ch" "ch < 65536" | "65536 \<le> ch" "ch < 1114112"
    using assms unfolding is_scalar_def by linarith
  then show ?thesis
  proof cases
    case 1
    then show ?thesis by (simp add: utf8_units_def utf8_next_def)
  next
    case 2
    have "2 \<le> ch div 64" "ch div 64 < 32" using 2 by auto
    then show ?thesis
      using 2 by (simp add: utf8_units_def utf8_next_def is_cont_def)
  next
    case 3
    define a b d where "a = ch div 4096" and "b = ch div 64 mod 64" and "d = ch mod 64"
    have ch: "ch = a * 4096 + b * 64 + d" using div_64 [of ch] unfolding a_def b_def d_def by linarith
    have r: "a < 16" "b < 64" "d < 64" using 3 by (auto simp: a_def b_def d_def)
    have "a = 0 \<longrightarrow> 32 \<le> b" "a = 13 \<longrightarrow> b < 32" using 3 assms r unfolding ch is_scalar_def by linarith+
    then have "second_ok (224 + a) (128 + b)" using r by (auto simp: second_ok_def is_cont_def)
    then have "utf8_next (224 + a) ([128 + b, 128 + d] @ vs) = (a * 4096 + b * 64 + d, 3)"
      using r by (simp add: utf8_next_def is_cont_def)
    moreover have "utf8_units ch = [224 + a, 128 + b, 128 + d]"
      using 3 by (simp add: utf8_units_def a_def b_def d_def)
    ultimately show ?thesis using ch by simp
  next
    case 4
    define a b d e where "a = ch div 262144" and "b = ch div 4096 mod 64" and "d = ch div 64 mod 64" and "e = ch mod 64"
    have ch: "ch = a * 262144 + b * 4096 + d * 64 + e" using div_64 [of ch] unfolding a_def b_def d_def e_def by linarith
    have r: "a < 5" "b < 64" "d < 64" "e < 64" using 4 by (auto simp: a_def b_def d_def e_def)
    have "a = 0 \<longrightarrow> 16 \<le> b" "a = 4 \<longrightarrow> b < 16" using 4 r unfolding ch by linarith+
    then have "second_ok (240 + a) (128 + b)" using r by (auto simp: second_ok_def is_cont_def)
    then have "utf8_next (240 + a) ([128 + b, 128 + d, 128 + e] @ vs) = (a * 262144 + b * 4096 + d * 64 + e, 4)"
      using r by (simp add: utf8_next_def is_cont_def)
    moreover have "utf8_units ch = [240 + a, 128 + b, 128 + d, 128 + e]"
      using 4 by (simp add: utf8_units_def a_def b_def d_def e_def)
    ultimately show ?thesis using ch by simp
  qed
qed

lemma lossy_units_utf8: "list_all is_scalar v \<Longrightarrow> lossy_units (concat (map utf8_units v)) = v"
proof (induction v)
  case (Cons ch v)
  obtain u us where "utf8_units ch = u # us" "utf8_next u (us @ concat (map utf8_units v)) = (ch, Suc (length us))"
    using utf8_next_units [of ch "concat (map utf8_units v)"] Cons.prems by auto
  then show ?case using Cons by simp
qed simp

lemma utf8_units_byte: "is_scalar ch \<Longrightarrow> u \<in> set (utf8_units ch) \<Longrightarrow> u < 256"
  by (auto simp: utf8_units_def is_scalar_def split: if_splits)

lemma from_utf8_lossy_utf8: 
  assumes "list_all is_scalar v"
  shows "from_utf8_lossy (utf8_bytes v) = v"
proof -
  have "map (\<lambda>u. unat (word_of_nat u :: u8)) (concat (map utf8_units v)) = concat (map utf8_units v)"
    using assms utf8_units_byte
    by (intro map_idI) (fastforce simp: list_all_iff unat_of_nat take_bit_eq_mod)
  then show ?thesis using lossy_units_utf8 [OF assms] by (simp add: from_utf8_lossy_def utf8_bytes_def comp_def)
qed

section \<open>Fragments\<close>

lemma CHUNK_CAPACITY_eq: "CHUNK_CAPACITY = FRAME_CAPACITY"
  by (simp add: CHUNK_CAPACITY_def FRAME_CAPACITY_def CHUNK_HEADER_def)

lemma chunk_count_eq: "chunk_count payload = frame_count payload"
  by (simp add: chunk_count_def frame_count_def CHUNK_CAPACITY_eq)

lemma bridge_frames_eq:
  "bridge_frames ident payload =
     map (\<lambda>(i, c). chunk_frame ident i (frame_count payload) c) (enumerate 0 (frame_chunks payload))"
  by (simp add: bridge_frames_def Let_def chunk_count_eq frame_chunks_def CHUNK_CAPACITY_eq frame_count_def FRAME_CAPACITY_eq)

lemma chunk_frame_facts:
  assumes "i < 2 ^ 32" "n < 2 ^ 32"
  shows "take 4 (chunk_frame ident i n c) = CHUNK_MAGIC" "drop CHUNK_HEADER (chunk_frame ident i n c) = c"
    "\<not> length (chunk_frame ident i n c) < CHUNK_HEADER" "be_u64 (slice 4 12 (chunk_frame ident i n c)) = ident"
    "unat (be_u32 (slice 12 16 (chunk_frame ident i n c))) = i" "unat (be_u32 (slice 16 20 (chunk_frame ident i n c))) = n"
proof -
  have m: "length CHUNK_MAGIC = 4" by (simp add: CHUNK_MAGIC_def ascii_def)
  then show "take 4 (chunk_frame ident i n c) = CHUNK_MAGIC" "drop CHUNK_HEADER (chunk_frame ident i n c) = c"
    "\<not> length (chunk_frame ident i n c) < CHUNK_HEADER" by (simp_all add: chunk_frame_def CHUNK_HEADER_def)
  have "slice 4 12 (chunk_frame ident i n c) = u64_be ident" "slice 12 16 (chunk_frame ident i n c) = u32_be (word_of_nat i)"
    "slice 16 20 (chunk_frame ident i n c) = u32_be (word_of_nat n)"
    using m by (simp_all add: chunk_frame_def slice_def)
  then show "be_u64 (slice 4 12 (chunk_frame ident i n c)) = ident"
    "unat (be_u32 (slice 12 16 (chunk_frame ident i n c))) = i" "unat (be_u32 (slice 16 20 (chunk_frame ident i n c))) = n"
    using assms by (simp_all add: unat_of_nat take_bit_nat_eq_self)
qed

section \<open>One slot for each peer\<close>

type_synonym slot = "(u64 \<times> partial_message) option"

fun slot_in :: "((node_id \<times> u64) \<times> partial_message) list \<Rightarrow> node_id \<Rightarrow> slot" where
  "slot_in [] peer = None"
| "slot_in (((source, ident), p) # xs) peer = (if source = peer then Some (ident, p) else slot_in xs peer)"

abbreviation slot_of :: "reassembly \<Rightarrow> node_id \<Rightarrow> slot" where
  "slot_of r \<equiv> slot_in (ra_partials r)"

abbreviation sources :: "((node_id \<times> u64) \<times> partial_message) list \<Rightarrow> node_id list" where
  "sources xs \<equiv> map (\<lambda>x. fst (fst x)) xs"

text \<open>What \<open>reassemble\<close> does to its peer's slot.\<close>

definition fill_slot :: "u64 \<Rightarrow> nat \<Rightarrow> nat \<Rightarrow> bytes \<Rightarrow> partial_message \<Rightarrow> bytes option \<times> slot" where
  "fill_slot ident index count payload p =
     (if length (pm_chunks p) \<noteq> count then (None, None)
      else let p1 = put_chunk index payload p
           in if list_ex (\<lambda>ch. ch = None) (pm_chunks p1) then (None, Some (ident, p1))
              else (Some (concat (map the (pm_chunks p1))), None))"

definition slot_step :: "u64 \<Rightarrow> bytes \<Rightarrow> slot \<Rightarrow> bytes option \<times> slot" where
  "slot_step epoch body s =
     (if length body < CHUNK_HEADER \<or> take 4 body \<noteq> CHUNK_MAGIC then (Some body, s)
      else
        let ident = be_u64 (slice 4 12 body); index = unat (be_u32 (slice 12 16 body)); count = unat (be_u32 (slice 16 20 body));
            fresh = \<lparr>pm_chunks = replicate count None, pm_bytes = 0, pm_epoch = epoch\<rparr>
        in if count = 0 \<or> count > MAX_CHUNKS \<or> index \<ge> count then (None, s)
           else case s of
                  None \<Rightarrow> fill_slot ident index count (drop CHUNK_HEADER body) fresh
                | Some (held, p) \<Rightarrow>
                    if held = ident then fill_slot ident index count (drop CHUNK_HEADER body) p
                    else if pm_epoch p = epoch \<and> index \<noteq> 0 then (None, s)
                    else fill_slot ident index count (drop CHUNK_HEADER body) fresh)"

definition reassembly_ok :: "reassembly \<Rightarrow> bool" where
  "reassembly_ok r \<longleftrightarrow> distinct (sources (ra_partials r))"

lemma slot_in_None: "slot_in xs peer = None \<longleftrightarrow> peer \<notin> set (sources xs)"
  by (induction xs peer rule: slot_in.induct) simp_all

lemma slot_in_find:
  "find (\<lambda>((source, _), _). source = peer) xs = map_option (\<lambda>(ident, p). ((peer, ident), p)) (slot_in xs peer)"
  by (induction xs) auto

lemma slot_in_map: "distinct (sources xs) \<Longrightarrow> map_of xs (peer, ident) =
    (case slot_in xs peer of Some (held, p) \<Rightarrow> if held = ident then Some p else None | None \<Rightarrow> None)"
proof (induction xs)
  case (Cons x xs)
  obtain source held p where x: "x = ((source, held), p)" by (cases x) auto
  have "map_of xs (source, ident) = None" using Cons.prems by (force simp: x map_of_eq_None_iff)
  then show ?case using Cons by (auto simp: x)
qed simp

lemma slot_in_delete:
  assumes "distinct (sources xs)" "slot_in xs peer = Some (ident, p)"
  shows "slot_in (AList.delete (peer, ident) xs) q = (if q = peer then None else slot_in xs q)"
    "distinct (sources (AList.delete (peer, ident) xs))"
proof -
  have "slot_in (AList.delete (peer, ident) xs) q = (if q = peer then None else slot_in xs q) \<and>
    sources (AList.delete (peer, ident) xs) = filter (\<lambda>x. x \<noteq> peer) (sources xs)"
    using assms
  proof (induction xs)
    case (Cons x xs)
    obtain source held p where x: "x = ((source, held), p)" by (cases x) auto
    have same: "AList.delete k xs = xs \<and> filter (\<lambda>x. x \<noteq> fst k) (sources xs) = sources xs" if "fst k \<notin> set (sources xs)" for k
      using that by (cases k) (force simp: AList.delete_eq intro!: filter_True)
    show ?case
      using Cons same [of "(peer, ident)"] slot_in_None [of xs peer] by (auto simp: x)
  qed simp
  then show "slot_in (AList.delete (peer, ident) xs) q = (if q = peer then None else slot_in xs q)"
    "distinct (sources (AList.delete (peer, ident) xs))" using assms(1) by simp_all
qed

lemma slot_in_update:
  assumes "distinct (sources xs)" "\<And>held p. slot_in xs peer = Some (held, p) \<Longrightarrow> held = ident"
  shows "slot_in (AList.update (peer, ident) v xs) q = (if q = peer then Some (ident, v) else slot_in xs q)"
    "distinct (sources (AList.update (peer, ident) v xs))"
proof -
  have "slot_in (AList.update (peer, ident) v xs) q = (if q = peer then Some (ident, v) else slot_in xs q) \<and>
    set (sources (AList.update (peer, ident) v xs)) = insert peer (set (sources xs)) \<and>
    distinct (sources (AList.update (peer, ident) v xs))"
    using assms
  proof (induction xs)
    case (Cons x xs)
    obtain source held p where x: "x = ((source, held), p)" by (cases x) auto
    show ?case using Cons by (cases "source = peer") (auto simp: x split: if_splits)
  qed simp
  then show "slot_in (AList.update (peer, ident) v xs) q = (if q = peer then Some (ident, v) else slot_in xs q)"
    "distinct (sources (AList.update (peer, ident) v xs))" by simp_all
qed

text \<open>The start of a fragment's work: the partial frame it fills, unless it is refused.\<close>

definition slot_start :: "u64 \<Rightarrow> u64 \<Rightarrow> nat \<Rightarrow> nat \<Rightarrow> slot \<Rightarrow> partial_message option" where
  "slot_start ident epoch index count s =
     (let fresh = \<lparr>pm_chunks = replicate count None, pm_bytes = 0, pm_epoch = epoch\<rparr>
      in case s of
           None \<Rightarrow> Some fresh
         | Some (held, p) \<Rightarrow>
             if held = ident then Some p
             else if pm_epoch p = epoch \<and> index \<noteq> 0 then None
             else Some fresh)"

lemma slot_step_eq: "slot_step epoch body s =
    (if length body < CHUNK_HEADER \<or> take 4 body \<noteq> CHUNK_MAGIC then (Some body, s)
     else
       let ident = be_u64 (slice 4 12 body); index = unat (be_u32 (slice 12 16 body)); count = unat (be_u32 (slice 16 20 body))
       in if count = 0 \<or> count > MAX_CHUNKS \<or> index \<ge> count then (None, s)
          else case slot_start ident epoch index count s of
                 None \<Rightarrow> (None, s) | Some p \<Rightarrow> fill_slot ident index count (drop CHUNK_HEADER body) p)"
  by (auto simp: slot_step_def slot_start_def Let_def split: option.split)

lemma remove_slot:
  assumes "reassembly_ok r" "slot_of r peer = Some (ident, p)"
  shows "slot_of (reassembly_remove (peer, ident) r) q = (if q = peer then None else slot_of r q)"
    "reassembly_ok (reassembly_remove (peer, ident) r)"
  using assms slot_in_map [of "ra_partials r" peer ident] slot_in_delete [of "ra_partials r" peer ident p]
  by (simp_all add: reassembly_remove_def reassembly_ok_def)

lemma open_partial_slot:
  assumes ok: "reassembly_ok r"
  shows "case slot_start ident epoch index count (slot_of r peer) of
       None \<Rightarrow> open_partial peer ident epoch index count r = None
     | Some p \<Rightarrow> \<exists>r1. open_partial peer ident epoch index count r = Some r1 \<and> reassembly_ok r1 \<and>
         (\<forall>q. slot_of r1 q = (if q = peer then Some (ident, p) else slot_of r q))"
proof -
  let ?fresh = "\<lparr>pm_chunks = replicate count None, pm_bytes = 0, pm_epoch = epoch\<rparr>"
  have held: "map_of (ra_partials r) (peer, ident) =
      (case slot_of r peer of Some (held, p) \<Rightarrow> if held = ident then Some p else None | None \<Rightarrow> None)"
    using ok slot_in_map by (simp add: reassembly_ok_def)
  have put: "reassembly_ok (r1\<lparr>ra_partials := AList.update (peer, ident) v (ra_partials r1)\<rparr>) \<and>
      (\<forall>q. slot_of (r1\<lparr>ra_partials := AList.update (peer, ident) v (ra_partials r1)\<rparr>) q =
        (if q = peer then Some (ident, v) else slot_of r1 q))"
    if "reassembly_ok r1" "slot_of r1 peer = None" for r1 v
    using that slot_in_update [of "ra_partials r1" peer ident v] by (simp add: reassembly_ok_def)
  show ?thesis
  proof (cases "slot_of r peer")
    case None
    then show ?thesis
      using held put [OF ok None, of ?fresh] by (simp add: slot_start_def open_partial_def slot_in_find)
  next
    case (Some x)
    then obtain old p where s: "slot_of r peer = Some (old, p)" by (cases x) auto
    show ?thesis
    proof (cases "old = ident")
      case True
      then show ?thesis using held s ok by (auto simp: slot_start_def open_partial_def)
    next
      case False
      have "reassembly_ok (reassembly_remove (peer, old) r)" "slot_of (reassembly_remove (peer, old) r) peer = None"
        using remove_slot [OF ok s] by simp_all
      from put [OF this, of ?fresh] show ?thesis
        using held s False remove_slot(1) [OF ok s] by (simp add: slot_start_def open_partial_def slot_in_find)
    qed
  qed
qed

text \<open>\<open>reassemble\<close> refines the slots.\<close>

lemma reassemble_slot:
  assumes ok: "reassembly_ok r"
  shows "fst (reassemble peer epoch body r) = fst (slot_step epoch body (slot_of r peer)) \<and>
    reassembly_ok (snd (reassemble peer epoch body r)) \<and>
    (\<forall>q. slot_of (snd (reassemble peer epoch body r)) q =
      (if q = peer then snd (slot_step epoch body (slot_of r peer)) else slot_of r q))"
proof -
  define ident index count payload where "ident = be_u64 (slice 4 12 body)" and "index = unat (be_u32 (slice 12 16 body))"
    and "count = unat (be_u32 (slice 16 20 body))" and "payload = drop CHUNK_HEADER body"
  note names = ident_def index_def count_def payload_def
  consider "length body < CHUNK_HEADER \<or> take 4 body \<noteq> CHUNK_MAGIC"
    | "\<not> (length body < CHUNK_HEADER \<or> take 4 body \<noteq> CHUNK_MAGIC)" "count = 0 \<or> count > MAX_CHUNKS \<or> index \<ge> count"
    | "\<not> (length body < CHUNK_HEADER \<or> take 4 body \<noteq> CHUNK_MAGIC)" "\<not> (count = 0 \<or> count > MAX_CHUNKS \<or> index \<ge> count)"
    by blast
  then show ?thesis
  proof cases
    case 1
    then show ?thesis using ok by (simp add: reassemble_def slot_step_eq)
  next
    case 2
    then show ?thesis using ok by (simp add: reassemble_def slot_step_eq Let_def flip: names)
  next
    case 3
    show ?thesis
    proof (cases "slot_start ident epoch index count (slot_of r peer)")
      case None
      then show ?thesis
        using 3 ok open_partial_slot [OF ok, where peer = peer and ident = ident and epoch = epoch and index = index and count = count]
        by (simp add: reassemble_def slot_step_eq Let_def flip: names)
    next
      case (Some p)
      then obtain r1 where r1: "open_partial peer ident epoch index count r = Some r1" "reassembly_ok r1"
        "\<And>q. slot_of r1 q = (if q = peer then Some (ident, p) else slot_of r q)"
        using open_partial_slot [OF ok, where peer = peer and ident = ident and epoch = epoch and index = index and count = count] by auto
      have p: "map_of (ra_partials r1) (peer, ident) = Some p"
        using slot_in_map r1(2,3) by (simp add: reassembly_ok_def)
      have step: "slot_step epoch body (slot_of r peer) = fill_slot ident index count payload p"
        using 3 Some by (simp add: slot_step_eq Let_def flip: names)
      show ?thesis
      proof (cases "length (pm_chunks p) = count")
        case False
        then show ?thesis
          using 3 r1 p remove_slot [OF r1(2), of peer ident p] step
          by (simp add: reassemble_def fill_slot_def Let_def flip: names)
      next
        case True
        let ?p = "put_chunk index payload p"
        define r2 where "r2 n = r1\<lparr>ra_partials := AList.update (peer, ident) ?p (ra_partials r1), ra_bytes := n\<rparr>" for n
        have r2: "reassembly_ok (r2 n)" "slot_of (r2 n) q = (if q = peer then Some (ident, ?p) else slot_of r q)" for n q
          using slot_in_update [of "ra_partials r1" peer ident ?p] r1 by (simp_all add: r2_def reassembly_ok_def)
        define n where "n = (let old_len = (case pm_chunks p ! index of Some old \<Rightarrow> length old | None \<Rightarrow> 0)
          in if length payload \<ge> old_len then ra_bytes r1 + (length payload - old_len)
             else ra_bytes r1 - (old_len - length payload))"
        have "reassemble peer epoch body r = (if list_ex (\<lambda>ch. ch = None) (pm_chunks ?p) then (None, r2 n)
            else (Some (concat (map the (pm_chunks ?p))), reassembly_remove (peer, ident) (r2 n)))"
          using 3 r1(1) p True by (simp add: reassemble_def r2_def n_def Let_def flip: names)
        moreover have "slot_of (r2 n) peer = Some (ident, ?p)" using r2(2) by simp
        ultimately show ?thesis
          using r2 remove_slot [OF r2(1), of n peer ident ?p] step True by (simp add: fill_slot_def Let_def)
      qed
    qed
  qed
qed

section \<open>What a peer's fragments make\<close>

fun feed :: "(u64 \<times> bytes) list \<Rightarrow> slot \<Rightarrow> bytes list \<times> slot" where
  "feed [] s = ([], s)"
| "feed ((epoch, body) # ms) s =
     (case slot_step epoch body s of (out, s1) \<Rightarrow>
        (case feed ms s1 of (outs, s2) \<Rightarrow> ((case out of Some whole \<Rightarrow> [whole] | None \<Rightarrow> []) @ outs, s2)))"

lemma feed_append:
  "feed (ms @ ms') s = (case feed ms s of (outs, s1) \<Rightarrow> (case feed ms' s1 of (outs', s2) \<Rightarrow> (outs @ outs', s2)))"
  by (induction ms s rule: feed.induct) (auto split: prod.split)

lemma fst_feed_append: "fst (feed (ms @ ms') s) = fst (feed ms s) @ fst (feed ms' (snd (feed ms s)))"
  by (simp add: feed_append split: prod.split)

definition part :: "u64 \<Rightarrow> bytes list \<Rightarrow> nat \<Rightarrow> partial_message" where
  "part epoch cs j = \<lparr>pm_chunks = map Some (take j cs) @ replicate (length cs - j) None,
     pm_bytes = sum_list (map length (take j cs)), pm_epoch = epoch\<rparr>"

lemma put_chunk_part: "j < length cs \<Longrightarrow> put_chunk j (cs ! j) (part epoch cs j) = part epoch cs (Suc j)"
proof -
  assume j: "j < length cs"
  have "(map Some (take j cs) @ replicate (length cs - j) None)[j := Some (cs ! j)] =
      map Some (take (Suc j) cs) @ replicate (length cs - Suc j) None"
    using j by (simp add: list_update_append take_Suc_conv_app_nth Suc_diff_Suc [symmetric, of j])
  moreover have "(map Some (take j cs) @ replicate (length cs - j) None) ! j = None" using j by (simp add: nth_append)
  ultimately show ?thesis using j by (simp add: put_chunk_def part_def take_Suc_conv_app_nth)
qed

lemma fill_part:
  assumes "j < length cs"
  shows "fill_slot ident j (length cs) (cs ! j) (part epoch cs j) =
    (if Suc j = length cs then (Some (concat cs), None) else (None, Some (ident, part epoch cs (Suc j))))"
proof -
  have len: "length (pm_chunks (part epoch cs j)) = length cs" using assms by (simp add: part_def)
  have "list_ex (\<lambda>ch. ch = None) (pm_chunks (part epoch cs (Suc j))) \<longleftrightarrow> Suc j \<noteq> length cs"
    using assms by (auto simp: part_def list_ex_iff)
  moreover have "concat (map the (pm_chunks (part epoch cs (length cs)))) = concat cs"
    by (simp add: part_def comp_def)
  ultimately show ?thesis using assms len by (simp add: fill_slot_def put_chunk_part)
qed

lemma feed_frames:
  assumes n: "length cs \<le> MAX_CHUNKS" "k \<le> length cs" "0 < k"
    and new: "\<And>held p. s = Some (held, p) \<Longrightarrow> held \<noteq> ident"
  shows "feed (map (Pair epoch) (take k (map (\<lambda>(i, c). chunk_frame ident i (length cs) c) (enumerate 0 cs)))) s =
    (if k = length cs then ([concat cs], None) else ([], Some (ident, part epoch cs k)))"
  using n(2,3)
proof (induction k)
  case (Suc k)
  let ?frames = "map (\<lambda>(i, c). chunk_frame ident i (length cs) c) (enumerate 0 cs)"
  have k: "k < length cs" "cs \<noteq> []" using Suc.prems by auto
  have small: "k < 2 ^ 32" "length cs < 2 ^ 32" using k n(1) by (simp_all add: MAX_CHUNKS_def)
  have frame: "take (Suc k) ?frames = take k ?frames @ [chunk_frame ident k (length cs) (cs ! k)]"
    using k by (simp add: take_Suc_conv_app_nth nth_enumerate_eq)
  have step: "slot_step epoch (chunk_frame ident k (length cs) (cs ! k)) s' =
      (if Suc k = length cs then (Some (concat cs), None) else (None, Some (ident, part epoch cs (Suc k))))"
    if "slot_start ident epoch k (length cs) s' = Some (part epoch cs k)" for s'
    using that k n(1) fill_part [OF k(1)] chunk_frame_facts [OF small] by (simp add: slot_step_eq Let_def)
  show ?case
  proof (cases "k = 0")
    case True
    have "part epoch cs 0 = \<lparr>pm_chunks = replicate (length cs) None, pm_bytes = 0, pm_epoch = epoch\<rparr>"
      by (simp add: part_def)
    then have "slot_start ident epoch 0 (length cs) s = Some (part epoch cs 0)"
      using new by (auto simp: slot_start_def Let_def split: option.split)
    then show ?thesis using step [of s] frame True by (auto split: if_splits)
  next
    case False
    then have "feed (map (Pair epoch) (take k ?frames)) s = ([], Some (ident, part epoch cs k))"
      using Suc k by simp
    moreover have "slot_start ident epoch k (length cs) (Some (ident, part epoch cs k)) = Some (part epoch cs k)"
      by (simp add: slot_start_def)
    ultimately show ?thesis
      unfolding frame by (simp add: feed_append step)
  qed
qed simp

text \<open>The sends of a peer: the epoch of its session, the frame's id, the link's answers and the text.\<close>

type_synonym bridge_try = "u64 \<times> u64 \<times> (link_error + unit) list \<times> rstr"

fun try_taken :: "bridge_try \<Rightarrow> (u64 \<times> bytes) list" where
  "try_taken (epoch, ident, answers, v) = map (Pair epoch) (snd (send_fragments answers (bridge_frames ident (utf8_bytes v))))"

fun try_whole :: "bridge_try \<Rightarrow> bool" where
  "try_whole (epoch, ident, answers, v) \<longleftrightarrow>
     length (snd (send_fragments answers (bridge_frames ident (utf8_bytes v)))) = length (bridge_frames ident (utf8_bytes v))"

fun try_ident :: "bridge_try \<Rightarrow> u64" where "try_ident (epoch, ident, answers, v) = ident"
fun try_text :: "bridge_try \<Rightarrow> rstr" where "try_text (epoch, ident, answers, v) = v"

definition try_fits :: "bridge_try \<Rightarrow> bool" where
  "try_fits t \<longleftrightarrow> chunk_count (utf8_bytes (try_text t)) \<le> MAX_CHUNKS \<and> list_all is_scalar (try_text t)"

lemma send_fragments_prefix:
  "snd (send_fragments answers fs) = take (length (snd (send_fragments answers fs))) fs"
  "length (snd (send_fragments answers fs)) \<le> length fs"
  "fst (send_fragments answers fs) = Some (Inr ()) \<Longrightarrow> snd (send_fragments answers fs) = fs"
  by (induction answers fs rule: send_fragments.induct) (auto split: prod.splits if_splits)

lemma feed_try:
  assumes fits: "try_fits t" and new: "\<And>held p. s = Some (held, p) \<Longrightarrow> held \<noteq> try_ident t"
  shows "fst (feed (try_taken t) s) = (if try_whole t then [utf8_bytes (try_text t)] else [])"
    "snd (feed (try_taken t) s) = Some (held, p) \<Longrightarrow> held = try_ident t \<or> (\<exists>p. s = Some (held, p))"
proof -
  obtain epoch ident answers v where t: "t = (epoch, ident, answers, v)" by (cases t) auto
  let ?fs = "bridge_frames ident (utf8_bytes v)" and ?cs = "frame_chunks (utf8_bytes v)"
  define k where "k = length (snd (send_fragments answers ?fs))"
  have cs: "length ?cs = frame_count (utf8_bytes v)" "concat ?cs = utf8_bytes v" "0 < length ?cs"
    using frame_chunks_facts [of "utf8_bytes v"] by simp_all
  have fs: "?fs = map (\<lambda>(i, c). chunk_frame ident i (length ?cs) c) (enumerate 0 ?cs)" "length ?fs = length ?cs"
    by (simp_all add: bridge_frames_eq cs(1))
  have taken: "try_taken t = map (Pair epoch) (take k ?fs)" "k \<le> length ?cs" "try_whole t \<longleftrightarrow> k = length ?cs"
    using send_fragments_prefix(1,2) [of answers ?fs] fs(2) by (simp_all add: t k_def)
  have max: "length ?cs \<le> MAX_CHUNKS" using fits cs(1) by (simp add: try_fits_def t chunk_count_eq)
  have feed: "feed (try_taken t) s = (if k = 0 then ([], s) else if k = length ?cs then ([concat ?cs], None)
      else ([], Some (ident, part epoch ?cs k)))"
    using feed_frames [OF max taken(2), of s ident epoch] new taken(1) fs(1) by (auto simp: t)
  then show "fst (feed (try_taken t) s) = (if try_whole t then [utf8_bytes (try_text t)] else [])"
    using cs taken(3) by (simp add: t)
  show "snd (feed (try_taken t) s) = Some (held, p) \<Longrightarrow> held = try_ident t \<or> (\<exists>p. s = Some (held, p))"
    using feed by (auto simp: t split: if_splits)
qed

lemma feed_tries:
  assumes "\<forall>t \<in> set ts. try_fits t" "distinct (map try_ident ts)"
    "\<And>held p. s = Some (held, p) \<Longrightarrow> held \<notin> try_ident ` set ts"
  shows "fst (feed (concat (map try_taken ts)) s) = map (\<lambda>t. utf8_bytes (try_text t)) (filter try_whole ts)"
  using assms
proof (induction ts arbitrary: s)
  case (Cons t ts)
  define s1 where "s1 = snd (feed (try_taken t) s)"
  have new: "held \<noteq> try_ident t" if "s = Some (held, p)" for held p using Cons.prems(3) that by auto
  have t: "fst (feed (try_taken t) s) = (if try_whole t then [utf8_bytes (try_text t)] else [])"
    by (rule feed_try(1)) (use Cons.prems(1) new in auto)
  have "held \<notin> try_ident ` set ts" if "s1 = Some (held, p)" for held p
  proof -
    have fresh: "try_ident t \<notin> try_ident ` set ts" using Cons.prems(2) by (simp del: try_ident.simps)
    have "held = try_ident t \<or> (\<exists>p. s = Some (held, p))"
      by (rule feed_try(2)) (use Cons.prems(1) new that in \<open>auto simp: s1_def\<close>)
    then show ?thesis
    proof
      assume "\<exists>p. s = Some (held, p)"
      then have "held \<notin> try_ident ` set (t # ts)" using Cons.prems(3) by blast
      then show ?thesis by (simp del: try_ident.simps)
    qed (simp only: fresh not_False_eq_True)
  qed
  then have "fst (feed (concat (map try_taken ts)) s1) = map (\<lambda>t. utf8_bytes (try_text t)) (filter try_whole ts)"
    using Cons by simp
  then show ?case using t by (simp add: fst_feed_append s1_def)
qed simp

section \<open>Runs of a bridge\<close>

text \<open>What the bridge heard from the link, what its consumers drained, and its inbox.\<close>

inductive bridge_run :: "link_bridge \<Rightarrow> delivery list \<Rightarrow> inbound_message list \<Rightarrow> inbox \<Rightarrow> bool" for b where
  opened: "bridge_run b [] [] inbox_new"
| heard: "bridge_run b got out ib \<Longrightarrow> ib_waiting ib = None \<Longrightarrow> bridge_run b (got @ [m]) out (pump_received b m ib)"
| pushed: "bridge_run b got out ib \<Longrightarrow> bridge_run b got out (pump_push ib)"
| drained: "bridge_run b got out ib \<Longrightarrow>
    bridge_run b got (out @ fst (link_drain limit ib)) (snd (link_drain limit ib))"

fun wholes :: "delivery list \<Rightarrow> reassembly \<Rightarrow> (node_id \<times> bytes) list \<times> reassembly" where
  "wholes [] r = ([], r)"
| "wholes ((peer, epoch, body) # ms) r =
     (case reassemble peer epoch body r of (out, r1) \<Rightarrow>
        (case wholes ms r1 of (outs, r2) \<Rightarrow> ((case out of Some whole \<Rightarrow> [(peer, whole)] | None \<Rightarrow> []) @ outs, r2)))"

lemma wholes_append:
  "wholes (ms @ ms') r = (case wholes ms r of (outs, r1) \<Rightarrow> (case wholes ms' r1 of (outs', r2) \<Rightarrow> (outs @ outs', r2)))"
  by (induction ms r rule: wholes.induct) (auto split: prod.split)

text \<open>Interleaved with other peers, a peer's fragments make what they make alone.\<close>

lemma wholes_feed:
  "reassembly_ok r \<Longrightarrow>
     map snd (filter (\<lambda>x. fst x = p) (fst (wholes ms r))) = fst (feed (of_peer p ms) (slot_of r p))"
proof (induction ms r rule: wholes.induct)
  case (2 peer epoch body ms r)
  obtain out r1 where r1: "reassemble peer epoch body r = (out, r1)" by fastforce
  obtain outs r2 where r2: "wholes ms r1 = (outs, r2)" by fastforce
  have slot: "out = fst (slot_step epoch body (slot_of r peer))" "reassembly_ok r1"
    "\<And>q. slot_of r1 q = (if q = peer then snd (slot_step epoch body (slot_of r peer)) else slot_of r q)"
    using reassemble_slot [OF 2(2), of peer epoch body] r1 by simp_all
  have IH: "map snd (filter (\<lambda>x. fst x = p) outs) = fst (feed (of_peer p ms) (slot_of r1 p))"
    using 2(1) [OF r1 [symmetric] slot(2)] r2 by simp
  show ?case
    using IH slot(1,3) r1 r2 by (auto simp: of_peer_def split: option.split prod.split)
qed (simp add: of_peer_def)

definition named :: "link_bridge \<Rightarrow> node_id \<times> bytes \<Rightarrow> inbound_message" where
  "named b x = \<lparr>im_from = (case lb_names b (fst x) of Some name \<Rightarrow> name | None \<Rightarrow> node_display (fst x)),
     im_text = from_utf8_lossy (snd x)\<rparr>"

abbreviation waiting :: "inbox \<Rightarrow> inbound_message list" where
  "waiting ib \<equiv> (case ib_waiting ib of Some m \<Rightarrow> [m] | None \<Rightarrow> [])"

lemma bridge_run_wholes:
  "bridge_run b got out ib \<Longrightarrow>
     out @ ib_queue ib @ waiting ib = map (named b) (fst (wholes got \<lparr>ra_partials = [], ra_bytes = 0\<rparr>)) \<and>
     ib_reassembly ib = snd (wholes got \<lparr>ra_partials = [], ra_bytes = 0\<rparr>) \<and> length (ib_queue ib) \<le> INBOX_CAPACITY"
proof (induction rule: bridge_run.induct)
  case opened
  show ?case by (simp add: inbox_new_def)
next
  case (heard got out ib m)
  obtain peer epoch body where m: "m = (peer, epoch, body)" by (cases m) auto
  show ?case
    using heard by (auto simp: m pump_received_def wholes_append named_def split: prod.split option.split)
next
  case (pushed got out ib)
  then show ?case by (auto simp: pump_push_def split: option.split)
next
  case (drained got out ib limit)
  have eq: "take n q @ drop n q @ w = q @ w" for n and q w :: "inbound_message list"
    by (metis append.assoc append_take_drop_id)
  show ?case using drained by (auto simp: link_drain_def drain_queue_take eq)
qed

end
