(* ===== verification/BridgeLocal.thy ===== *)
theory BridgeLocal
  imports BridgeLink
begin

text \<open>
  The bridges of one device (\<open>src/src/sdk/src/bridge\<close>: \<open>local.rs\<close>, \<open>routing.rs\<close> and the
  contract of \<open>types.rs\<close>): the in-memory network of endpoints, and the bridge that picks it or a
  remote one for each address.  An inbox lives as long as a clone of its endpoint, so the network
  is a map from the bound addresses to their inboxes.  The remote bridge of a router is a record of
  functions over its state, as the code has a trait object.
\<close>

section \<open>Kinds\<close>

datatype bridge_kind = Local_kind | Link_kind

definition bridge_kind_parse :: "rstr \<Rightarrow> bridge_kind option" where
  "bridge_kind_parse v =
     (let name = map (\<lambda>ch. if 65 \<le> ch \<and> ch \<le> 90 then ch + 32 else ch) (trim v)
      in if name = lit ''local'' then Some Local_kind else if name = lit ''link'' then Some Link_kind else None)"

fun bridge_kind_str :: "bridge_kind \<Rightarrow> rstr" where
  "bridge_kind_str Local_kind = lit ''local''"
| "bridge_kind_str Link_kind = lit ''link''"

section \<open>The local network\<close>

type_synonym local_network = "rstr \<Rightarrow> inbound_message list option"

datatype local_error = Blank_address | Already_bound rstr | Not_available rstr | No_remote rstr

definition local_bind :: "rstr \<Rightarrow> local_network \<Rightarrow> local_error + local_network" where
  "local_bind address net =
     (if trim address = [] then Inl Blank_address
      else if net address \<noteq> None then Inl (Already_bound address)
      else Inr (net(address \<mapsto> [])))"

text \<open>The last clone of an endpoint is dropped.\<close>

definition local_unbind :: "rstr \<Rightarrow> local_network \<Rightarrow> local_network" where
  "local_unbind address net = net(address := None)"

definition local_send :: "rstr \<Rightarrow> rstr \<Rightarrow> rstr \<Rightarrow> local_network \<Rightarrow> (local_error + unit) \<times> local_network" where
  "local_send me dest body net =
     (case net dest of
        None \<Rightarrow> (Inl (Not_available dest), net)
      | Some queue \<Rightarrow> (Inr (), net(dest \<mapsto> queue @ [\<lparr>im_from = me, im_text = body\<rparr>])))"

definition local_inbox :: "rstr \<Rightarrow> local_network \<Rightarrow> inbound_message list" where
  "local_inbox me net = (case net me of Some queue \<Rightarrow> queue | None \<Rightarrow> [])"

definition local_drain :: "rstr \<Rightarrow> int \<Rightarrow> local_network \<Rightarrow> inbound_message list \<times> local_network" where
  "local_drain me limit net =
     (case net me of
        None \<Rightarrow> ([], net)
      | Some queue \<Rightarrow> (case drain_queue limit queue of (taken, rest) \<Rightarrow> (taken, net(me \<mapsto> rest))))"

definition local_resolve :: "rstr \<Rightarrow> local_network \<Rightarrow> rstr option" where
  "local_resolve name net =
     (let v = trim name
      in if net v \<noteq> None then Some v
         else let bare = strip_at v in find (\<lambda>candidate. net candidate \<noteq> None) [bare, 64 # bare])"

section \<open>Routing\<close>

record ('r, 'e) remote_bridge =
  re_send :: "rstr \<Rightarrow> rstr \<Rightarrow> 'r \<Rightarrow> ('e + unit) \<times> 'r"
  re_drain :: "int \<Rightarrow> 'r \<Rightarrow> inbound_message list \<times> 'r"
  re_resolve :: "rstr \<Rightarrow> 'r \<Rightarrow> rstr option"
  re_presence :: "rstr list \<Rightarrow> 'r \<Rightarrow> rstr \<Rightarrow> bool option"
  re_liveness :: "rstr \<Rightarrow> 'r \<Rightarrow> bridge_liveness"
  re_reset :: "rstr \<Rightarrow> 'r \<Rightarrow> 'r"

text \<open>\<open>ru_remote\<close> is \<open>None\<close> for a router built with \<open>local_only\<close>.\<close>

record 'r routing =
  ru_local :: rstr
  ru_network :: local_network
  ru_remote :: "'r option"

definition is_local :: "rstr \<Rightarrow> 'r routing \<Rightarrow> bool" where
  "is_local address u \<longleftrightarrow> local_resolve address (ru_network u) \<noteq> None"

definition routing_send ::
  "('r, 'e) remote_bridge \<Rightarrow> rstr \<Rightarrow> rstr \<Rightarrow> 'r routing \<Rightarrow> ((local_error + 'e) + unit) \<times> 'r routing" where
  "routing_send ops dest body u =
     (if is_local dest u
      then (case local_send (ru_local u) dest body (ru_network u) of
              (Inl e, net) \<Rightarrow> (Inl (Inl e), u\<lparr>ru_network := net\<rparr>)
            | (Inr _, net) \<Rightarrow> (Inr (), u\<lparr>ru_network := net\<rparr>))
      else (case ru_remote u of
              None \<Rightarrow> (Inl (Inl (No_remote dest)), u)
            | Some r \<Rightarrow>
                (case re_send ops dest body r of (res, r1) \<Rightarrow> (map_sum Inr id res, u\<lparr>ru_remote := Some r1\<rparr>))))"

definition routing_drain ::
  "('r, 'e) remote_bridge \<Rightarrow> int \<Rightarrow> 'r routing \<Rightarrow> inbound_message list \<times> 'r routing" where
  "routing_drain ops limit u =
     (if limit \<le> 0 then ([], u)
      else (case local_drain (ru_local u) limit (ru_network u) of
              (messages, net) \<Rightarrow>
                (let u1 = u\<lparr>ru_network := net\<rparr>; remaining = limit - int (length messages)
                 in case ru_remote u of
                      None \<Rightarrow> (messages, u1)
                    | Some r \<Rightarrow>
                        if remaining > 0
                        then (case re_drain ops remaining r of (later, r1) \<Rightarrow> (messages @ later, u1\<lparr>ru_remote := Some r1\<rparr>))
                        else (messages, u1))))"

definition routing_resolve :: "('r, 'e) remote_bridge \<Rightarrow> rstr \<Rightarrow> 'r routing \<Rightarrow> rstr option" where
  "routing_resolve ops name u =
     (case local_resolve name (ru_network u) of
        Some address \<Rightarrow> Some address
      | None \<Rightarrow> (case ru_remote u of None \<Rightarrow> None | Some r \<Rightarrow> re_resolve ops name r))"

definition routing_presence :: "('r, 'e) remote_bridge \<Rightarrow> rstr list \<Rightarrow> 'r routing \<Rightarrow> rstr \<Rightarrow> bool option" where
  "routing_presence ops addresses u =
     (let here = (\<lambda>a. if a \<in> set addresses \<and> is_local a u then Some True else None);
          others = filter (\<lambda>a. \<not> is_local a u) addresses
      in case ru_remote u of
           None \<Rightarrow> here
         | Some r \<Rightarrow> if others = [] then here else here ++ re_presence ops others r)"

definition routing_liveness :: "('r, 'e) remote_bridge \<Rightarrow> rstr \<Rightarrow> 'r routing \<Rightarrow> bridge_liveness" where
  "routing_liveness ops peer u =
     (if is_local peer u then Bridge_live
      else case ru_remote u of Some r \<Rightarrow> re_liveness ops peer r | None \<Rightarrow> Bridge_live)"

definition routing_reset :: "('r, 'e) remote_bridge \<Rightarrow> rstr \<Rightarrow> 'r routing \<Rightarrow> 'r routing" where
  "routing_reset ops peer u =
     (if is_local peer u then u
      else case ru_remote u of None \<Rightarrow> u | Some r \<Rightarrow> u\<lparr>ru_remote := Some (re_reset ops peer r)\<rparr>)"

section \<open>The contract of an inbox\<close>

text \<open>A drain hands out the oldest messages up to its limit, once, and keeps the rest.\<close>

locale drainable =
  fixes drain :: "int \<Rightarrow> 's \<Rightarrow> inbound_message list \<times> 's"
    and content :: "'s \<Rightarrow> inbound_message list"
  assumes drained: "fst (drain limit s) = take (nat limit) (content s)"
    and kept: "content (snd (drain limit s)) = drop (nat limit) (content s)"
begin

lemma nothing_lost: "fst (drain limit s) @ content (snd (drain limit s)) = content s"
  by (simp add: drained kept)

lemma within_limit: "length (fst (drain limit s)) \<le> nat limit"
  by (simp add: drained)

text \<open>Two drains take what one with both limits takes.\<close>

lemma drain_twice:
  assumes "0 \<le> m" "0 \<le> n"
  shows "fst (drain m s) @ fst (drain n (snd (drain m s))) = fst (drain (m + n) s)"
  using assms by (simp add: drained kept take_add nat_add_distrib)

end

interpretation link_inbox: drainable link_drain ib_queue
  by unfold_locales (simp_all add: link_drain_def drain_queue_take)

interpretation local_queue: drainable "local_drain me" "local_inbox me" for me
  by unfold_locales (simp_all add: local_drain_def local_inbox_def drain_queue_take split: option.split)

text \<open>A router over a bridge that meets the contract meets it: the local inbox first, then the remote one.\<close>

definition routed_content :: "('r \<Rightarrow> inbound_message list) \<Rightarrow> 'r routing \<Rightarrow> inbound_message list" where
  "routed_content content u =
     local_inbox (ru_local u) (ru_network u) @ (case ru_remote u of Some r \<Rightarrow> content r | None \<Rightarrow> [])"

context drainable
begin

lemma routed:
  assumes "re_drain ops = drain"
  shows "drainable (routing_drain ops) (routed_content content)"
proof
  fix limit :: int and u :: "'s routing"
  have ops: "re_drain ops limit r = drain limit r" for limit r using assms by simp
  obtain messages net where d: "local_drain (ru_local u) limit (ru_network u) = (messages, net)" by fastforce
  have messages: "messages = take (nat limit) (local_inbox (ru_local u) (ru_network u))"
    "local_inbox (ru_local u) net = drop (nat limit) (local_inbox (ru_local u) (ru_network u))"
    using local_queue.drained [of "ru_local u" limit "ru_network u"] local_queue.kept [of "ru_local u" limit "ru_network u"] d
    by simp_all
  have left: "nat (limit - int (length messages)) = nat limit - length (local_inbox (ru_local u) (ru_network u))" if "0 < limit"
    using that by (auto simp: messages(1) min_def)
  have "fst (routing_drain ops limit u) = take (nat limit) (routed_content content u) \<and>
      routed_content content (snd (routing_drain ops limit u)) = drop (nat limit) (routed_content content u)"
  proof (cases "limit \<le> 0 \<or> ru_remote u = None")
    case True
    then show ?thesis using d messages by (auto simp: routing_drain_def routed_content_def Let_def)
  next
    case False
    then obtain r where r: "ru_remote u = Some r" "0 < limit" by auto
    obtain later r1 where r1: "drain (limit - int (length messages)) r = (later, r1)" by fastforce
    have later: "later = take (nat limit - length (local_inbox (ru_local u) (ru_network u))) (content r)"
      "content r1 = drop (nat limit - length (local_inbox (ru_local u) (ru_network u))) (content r)"
      using drained [of "limit - int (length messages)" r] kept [of "limit - int (length messages)" r] left [OF r(2)] r1
      by simp_all
    show ?thesis
    proof (cases "0 < limit - int (length messages)")
      case True
      then show ?thesis
        using d messages later r r1 by (simp add: routing_drain_def routed_content_def Let_def ops)
    next
      case False
      then have "nat limit - length (local_inbox (ru_local u) (ru_network u)) = 0" using left [OF r(2)] by simp
      then show ?thesis
        using d messages r False by (simp add: routing_drain_def routed_content_def Let_def)
    qed
  qed
  then show "fst (routing_drain ops limit u) = take (nat limit) (routed_content content u)"
    "routed_content content (snd (routing_drain ops limit u)) = drop (nat limit) (routed_content content u)" by simp_all
qed

end

end
