(* ===== verification/BridgeSpec.thy ===== *)
theory BridgeSpec
  imports BridgeFacts BridgeLocal
begin

text \<open>The properties of the bridges.\<close>

section \<open>Texts over the link\<close>

lemma named_text: "list_all is_scalar v \<Longrightarrow> im_text (named b (p, utf8_bytes v)) = v"
  by (simp add: named_def from_utf8_lossy_utf8)

text \<open>C8.  A bridge delivers texts whole, once and in order.  Whatever the interleaving of the peers' fragments, of
  sends cut short by an error or a dropped future and of sessions restarted, what the consumers drained, then the
  bounded queue and the message the pump holds, is under each peer's name a prefix of the texts whose every fragment
  the link took, and all of them once all fragments have arrived.  A send that succeeds is one of those.\<close>

theorem bridge_delivers:
  assumes "bridge_run b got out ib"
    and "\<forall>p. prefix (of_peer p got) (concat (map try_taken (tries p)))"
    and "\<forall>p. distinct (map try_ident (tries p)) \<and> (\<forall>t \<in> set (tries p). try_fits t)"
  shows "\<exists>ws. out @ ib_queue ib @ waiting ib = map (named b) ws \<and>
    (\<forall>p. prefix (map snd (filter (\<lambda>x. fst x = p) ws)) (map (\<lambda>t. utf8_bytes (try_text t)) (filter try_whole (tries p)))) \<and>
    (\<forall>p. of_peer p got = concat (map try_taken (tries p)) \<longrightarrow>
       map (from_utf8_lossy \<circ> snd) (filter (\<lambda>x. fst x = p) ws) = map try_text (filter try_whole (tries p))) \<and>
    length (ib_queue ib) \<le> INBOX_CAPACITY \<and>
    (\<forall>epoch ident answers v. fst (send_fragments answers (bridge_frames ident (utf8_bytes v))) = Some (Inr ()) \<longrightarrow>
       try_whole (epoch, ident, answers, v))"
proof -
  let ?r = "\<lparr>ra_partials = [], ra_bytes = 0\<rparr>"
  let ?ws = "fst (wholes got ?r)"
  have made: "map snd (filter (\<lambda>x. fst x = p) ?ws) = fst (feed (of_peer p got) None)" for p
    using wholes_feed [of ?r p got] by (simp add: reassembly_ok_def)
  have all: "fst (feed (concat (map try_taken (tries p))) None) = map (\<lambda>t. utf8_bytes (try_text t)) (filter try_whole (tries p))"
    for p using assms(3) by (intro feed_tries) auto
  have read: "from_utf8_lossy (utf8_bytes (try_text t)) = try_text t" if "t \<in> set (tries p)" for t p
  proof -
    have "try_fits t" using assms(3) that by blast
    then show ?thesis by (simp add: try_fits_def from_utf8_lossy_utf8)
  qed
  have "prefix (map snd (filter (\<lambda>x. fst x = p) ?ws)) (map (\<lambda>t. utf8_bytes (try_text t)) (filter try_whole (tries p)))" for p
  proof -
    obtain rest where "concat (map try_taken (tries p)) = of_peer p got @ rest" using assms(2) by (auto simp: prefix_def)
    then show ?thesis using all [of p] made [of p] by (simp add: fst_feed_append) (metis prefixI)
  qed
  moreover have "map (from_utf8_lossy \<circ> snd) (filter (\<lambda>x. fst x = p) ?ws) = map try_text (filter try_whole (tries p))"
    if "of_peer p got = concat (map try_taken (tries p))" for p
  proof -
    have "map (from_utf8_lossy \<circ> snd) (filter (\<lambda>x. fst x = p) ?ws) =
        map from_utf8_lossy (map (\<lambda>t. utf8_bytes (try_text t)) (filter try_whole (tries p)))"
      using made [of p] all [of p] that by (simp flip: map_map)
    also have "\<dots> = map try_text (filter try_whole (tries p))"
      unfolding map_map comp_def
      by (rule map_cong [OF refl]) (use read in auto)
    finally show ?thesis .
  qed
  moreover have "try_whole (epoch, ident, answers, v)"
    if "fst (send_fragments answers (bridge_frames ident (utf8_bytes v))) = Some (Inr ())" for epoch ident answers v
    using send_fragments_prefix(3) [OF that] by simp
  ultimately show ?thesis using bridge_run_wholes [OF assms(1)] by blast
qed

lemma bridge_delivers_witness:
  "\<exists>out ib. bridge_run (link_bridge_new [104] []) (map (Pair (NodeId [])) (try_taken (1, 7, [Inr ()], [104, 105]))) out ib \<and>
     map im_text out = [[104, 105]]"
proof -
  let ?p = "NodeId []" and ?b = "link_bridge_new [104] []" and ?t = "(1, 7, [Inr ()], [104, 105]) :: bridge_try"
  have bytes: "utf8_bytes [104, 105] = [104, 105]" by (simp add: utf8_bytes_def utf8_units_def)
  have taken: "try_taken ?t = [(1, chunk_frame 7 0 1 [104, 105])]"
    by (simp add: bytes bridge_frames_eq frame_chunks_def frame_count_def FRAME_CAPACITY_eq)
  have t: "try_whole ?t" "try_fits ?t"
    by (simp_all add: bytes bridge_frames_eq frame_chunks_def try_fits_def chunk_count_eq frame_count_def FRAME_CAPACITY_eq
        MAX_CHUNKS_def is_scalar_def)
  define got where "got = map (Pair ?p) (try_taken ?t)"
  have got: "got = [] @ [(?p, 1, chunk_frame 7 0 1 [104, 105])]" unfolding got_def taken by simp
  define ib where "ib = pump_push (pump_received ?b (?p, 1, chunk_frame 7 0 1 [104, 105]) inbox_new)"
  have run: "bridge_run ?b got ([] @ fst (link_drain 5 ib)) (snd (link_drain 5 ib))"
    unfolding ib_def got by (intro bridge_run.drained bridge_run.pushed bridge_run.heard bridge_run.opened) (simp add: inbox_new_def)
  have "reassemble ?p 1 (chunk_frame 7 0 1 [104, 105]) \<lparr>ra_partials = [], ra_bytes = 0\<rparr> =
      (Some [104, 105], \<lparr>ra_partials = [], ra_bytes = 0\<rparr>)"
    using chunk_frame_facts [of 0 1 7 "[104, 105]"]
    by (simp add: reassemble_def Let_def MAX_CHUNKS_def open_partial_def put_chunk_def reassembly_remove_def)
  then have empty: "snd (link_drain 5 ib) = inbox_new"
    by (simp add: ib_def pump_received_def pump_push_def inbox_new_def INBOX_CAPACITY_def link_drain_def drain_queue_take)
  define tries where "tries p = (if p = ?p then [?t] else [])" for p
  have other: "of_peer p got = concat (map try_taken (tries p))" for p
    using taken by (simp add: got tries_def)
  have fits: "\<forall>p. distinct (map try_ident (tries p)) \<and> (\<forall>t \<in> set (tries p). try_fits t)"
    using t(2) by (simp add: tries_def)
  have "\<forall>p. prefix (of_peer p got) (concat (map try_taken (tries p)))" by (simp only: other prefix_order.refl simp_thms)
  from bridge_delivers [OF run this fits]
  obtain ws where "([] @ fst (link_drain 5 ib)) @ ib_queue (snd (link_drain 5 ib)) @ waiting (snd (link_drain 5 ib)) = map (named ?b) ws"
    "\<forall>p. of_peer p got = concat (map try_taken (tries p)) \<longrightarrow>
       map (from_utf8_lossy \<circ> snd) (filter (\<lambda>x. fst x = p) ws) = map try_text (filter try_whole (tries p))"
    by blast
  then have ws: "fst (link_drain 5 ib) = map (named ?b) ws"
    "\<And>p. map (from_utf8_lossy \<circ> snd) (filter (\<lambda>x. fst x = p) ws) = map try_text (filter try_whole (tries p))"
    using other unfolding empty by (simp_all add: inbox_new_def)
  have "fst x = ?p" if "x \<in> set ws" for x
    using ws(2) [of "fst x"] that by (auto simp: tries_def filter_empty_conv split: if_splits)
  then have "filter (\<lambda>x. fst x = ?p) ws = ws" by simp
  then have "map (from_utf8_lossy \<circ> snd) ws = [[104, 105]]" using ws(2) [of ?p] t(1) by (simp add: tries_def)
  then have "map im_text (fst (link_drain 5 ib)) = [[104, 105]]" using ws(1) by (simp add: named_def comp_def)
  then show ?thesis using run unfolding got_def by auto
qed

section \<open>Routing\<close>

text \<open>C4.  A router keeps this device's traffic here: a text for an address bound on the local network joins that
  inbox, a text for no local endpoint goes to the remote bridge as it is, and draining takes the oldest messages of
  the local inbox, then of the remote one, up to the limit and without loss.  But an address that only names a local
  endpoint as a handle (\<open>@host\<close> for \<open>host\<close>) counts as local and is then refused as not available, since
  the send uses the spelling and not what it resolved to.\<close>

theorem routing_by_binding:
  assumes "drainable (re_drain ops) content"
  shows "(ru_network u dest = Some queue \<and> trim dest = dest \<longrightarrow> routing_send ops dest body u =
       (Inr (), u\<lparr>ru_network := (ru_network u)(dest \<mapsto> queue @ [\<lparr>im_from = ru_local u, im_text = body\<rparr>])\<rparr>)) \<and>
    (local_resolve dest (ru_network u) = None \<and> ru_remote u = Some r \<longrightarrow> routing_send ops dest body u =
       (case re_send ops dest body r of (res, r1) \<Rightarrow> (map_sum Inr id res, u\<lparr>ru_remote := Some r1\<rparr>))) \<and>
    fst (routing_drain ops limit u) = take (nat limit) (routed_content content u) \<and>
    fst (routing_drain ops limit u) @ routed_content content (snd (routing_drain ops limit u)) = routed_content content u \<and>
    (ru_network u dest = None \<and> local_resolve dest (ru_network u) \<noteq> None \<longrightarrow>
       routing_send ops dest body u = (Inl (Inl (Not_available dest)), u))"
proof -
  have routed: "drainable (routing_drain ops) (routed_content content)" by (rule drainable.routed [OF assms refl])
  have "is_local dest u" if "ru_network u dest = Some queue" "trim dest = dest"
    using that by (simp add: is_local_def local_resolve_def)
  then show ?thesis
    using drainable.drained [OF routed, of limit u] drainable.nothing_lost [OF routed, of limit u]
    by (auto simp: routing_send_def local_send_def is_local_def)
qed

definition ex_remote :: "(inbox, unit) remote_bridge" where
  "ex_remote = \<lparr>re_send = (\<lambda>_ _ r. (Inr (), r)), re_drain = link_drain, re_resolve = (\<lambda>_ _. None),
     re_presence = (\<lambda>_ _ _. None), re_liveness = (\<lambda>_ _. Bridge_live), re_reset = (\<lambda>_ r. r)\<rparr>"

definition ex_router :: "inbox routing" where
  "ex_router = \<lparr>ru_local = lit ''hub'', ru_network = [lit ''hub'' \<mapsto> [], lit ''host'' \<mapsto> []], ru_remote = Some inbox_new\<rparr>"

lemma routing_by_binding_witness:
  "fst (routing_send ex_remote (lit ''host'') [104] ex_router) = Inr () \<and>
   routing_send ex_remote (lit ''@host'') [104] ex_router = (Inl (Inl (Not_available (lit ''@host''))), ex_router) \<and>
   fst (routing_drain ex_remote 5 ex_router) = []"
proof -
  have meets: "drainable (re_drain ex_remote) ib_queue" unfolding ex_remote_def by (simp add: link_inbox.drainable_axioms)
  have names: "trim (lit ''host'') = lit ''host''" "ru_network ex_router (lit ''host'') = Some []"
    "ru_network ex_router (lit ''@host'') = None" "local_resolve (lit ''@host'') (ru_network ex_router) = Some (lit ''host'')"
    by (simp_all add: trim_def lit_def is_whitespace_def ex_router_def local_resolve_def strip_at_def)
  have empty: "routed_content ib_queue ex_router = []"
    by (simp add: routed_content_def ex_router_def local_inbox_def inbox_new_def lit_def)
  show ?thesis
    using routing_by_binding [OF meets, of ex_router "lit ''host''" "[]" "[104]" _ 5]
      routing_by_binding [OF meets, of ex_router "lit ''@host''" "[]" "[104]" _ 5] names empty by auto
qed

end
