(* ===== verification/Spec2Isabelle.thy ===== *)
theory Spec2Isabelle
  imports SessionExample SessionPolicy StaleDatagram KeyPair KeySession LinkSpec ScreenWatch DaemonSpec WorkSpec HubSpec BridgeSpec
begin

text \<open>
  This development models the datagram link of Medulla (\<open>src/src/link\<close>, crate \<open>medulla-link\<close>):
  a state-synchronisation protocol over an unreliable network between two endpoints, an owner
  and a host, which share a pair key; and, of the crates around it, the terminal-screen protocol that carries a worker's screen to a
  viewer (\<open>src/src/sdk/src/protocol/screen\<close>, \<open>src/src/tui/src/worker/stream\<close>,
  \<open>src/src/sdk/src/hub/screens\<close>), the task loop of the worker daemon
  (\<open>src/src/sdk/src/daemon\<close>), the task sender of the hub that dispatches to such daemons
  (\<open>src/src/sdk/src/hub\<close>), and the fold of a harness's events into what it is working on
  (\<open>src/src/sdk/src/harness_work\<close>).

  The program's parts, and the theory of each.

  \<^item> \<open>Prelude\<close>: fixed width integers, big-endian bytes, slices, results (\<open>error + value\<close>), and
    \<open>outcome\<close>, the result of code that may panic.
  \<^item> \<open>src/src/link/src/state\<close>: the trait \<open>SspState\<close> is the record \<open>ssp\<close> of functions
    (\<open>StateTypes\<close>); its two implementations are the message queue (\<open>StateQueue\<close>,
    \<open>queue.rs\<close>) and the row grid (\<open>StateGrid\<close>, \<open>grid.rs\<close>), with their diff codecs.
  \<^item> \<open>src/src/link/src/{crypto,header,packet}.rs\<close>: \<open>LinkTypes\<close>, \<open>LinkCrypto\<close>, \<open>LinkHeader\<close>,
    \<open>LinkPacket\<close>.  The primitives of other crates are the record \<open>crypto\<close>, an argument of every
    definition that calls one; \<open>aead_laws\<close> and \<open>digest_laws\<close> state the documented behaviour the
    code relies on, and \<open>toy_crypto\<close> shows they can hold.
  \<^item> \<open>src/src/link/src/transport/channel.rs\<close>: \<open>Channel\<close>, one synchronised state per direction
    with its history of sent states, acknowledgements and the rebase after a peer restart.
  \<^item> \<open>src/src/link/src/transport/timing.rs\<close>: \<open>Timing\<close>, the round-trip estimator in \<open>f64\<close>
    (rationals rounded to nearest even at 53 bits), its timeout and the liveness windows.
  \<^item> \<open>src/src/link/src/transport/mod.rs\<close>: \<open>Session\<close>, the two channels behind one datagram
    endpoint: sending policy (\<open>outgoing\<close>, \<open>next_send_ms\<close>), building and sealing (\<open>build\<close>),
    receiving (\<open>handle_datagram\<close>) and the application's calls.
  \<^item> \<open>src/src/link/src/keys\<close>: \<open>KeyText\<close> has the Crockford and hexadecimal texts, \<open>KeyPair\<close> the pair
    key and the host key with their checksums, \<open>KeyStore\<close> the persisted node state on a disk that
    can lose power, the lock, and the sequence sources.
  \<^item> \<open>src/src/link/src/link\<close>: \<open>LinkDriver\<close>, the task that owns the sessions, the route and the queue
    to the application, one definition per handler, and the screen frames of the link handle.
  \<^item> \<open>src/src/sdk/src/protocol/screen\<close>: \<open>ScreenProto\<close>, grids of styled runs, the sender's diff and
    the viewer's fold.  \<open>src/src/tui/src/worker/stream\<close>: \<open>ScreenConvert\<close> (\<open>convert.rs\<close>), between the
    emulator's cells and the wire; \<open>ScreenStream\<close> (\<open>sampler.rs\<close>), one sampled stream and the
    registry of streams; \<open>WorkerScreens\<close> (\<open>router.rs\<close>), the router of screen messages.
    \<open>src/src/sdk/src/hub/screens\<close>: \<open>ScreenStore\<close>, the bounded store of a hub's screens.
  \<^item> \<open>src/src/sdk/src/daemon\<close> (\<open>types.rs\<close>, \<open>runtime.rs\<close>, \<open>task_loop\<close>): \<open>DaemonTypes\<close> has the
    configuration, the frames and the resolution of a task's harness, \<open>DaemonTasks\<close> the state that
    the handlers share, with one definition per stretch of \<open>handle_task\<close> and
    \<open>handle_plain_text\<close> between two suspensions; \<open>handle_message_from\<close> counts every message in flight and
    spawns its handler, and \<open>daemon_step\<close> interleaves any number of handlers with inputs, aborts, kills
    and shutdown.  The workflow runs that an abort may cancel are those of the process-wide registry,
    \<open>WorkflowRuns\<close> (\<open>src/src/sdk/src/workflows/run/registry.rs\<close>).
  \<^item> \<open>src/src/sdk/src/harness_work\<close>: \<open>WorkTypes\<close> (\<open>types.rs\<close>, \<open>mod.rs\<close>) and \<open>WorkFold\<close>
    (\<open>fold.rs\<close>), over JSON values whose numbers are a parameter.

  \<^item> \<open>src/src/sdk/src/hub\<close>: \<open>HubTypes\<close> has the requests, outcomes and windows (\<open>types.rs\<close>,
    \<open>runner/types.rs\<close>), \<open>HubActivity\<close> the log of what the workers said (\<open>activity\<close>), and
    \<open>HubRunner\<close> the task sender: each call of \<open>run_inner\<close> (\<open>runner/mod.rs\<close>) is a state machine
    polled over the shared registries, with the probes (\<open>capabilities.rs\<close>, \<open>system_info.rs\<close>) and
    the pump, whose check of a frame and routing of it are two steps (\<open>runner/pump/mod.rs\<close>).

  \<^item> \<open>src/src/sdk/src/bridge\<close>: \<open>BridgeLink\<close> is the bridge over the host link (\<open>link.rs\<close>): texts
    cut into fragments, each sent until the link takes it, and the pump that reassembles them into a
    bounded inbox; \<open>BridgeLocal\<close> the endpoints of one device (\<open>local.rs\<close>) and the router that picks
    them or a remote bridge (\<open>routing.rs\<close>), with the contract of an inbox as the locale \<open>drainable\<close>,
    interpreted on both inboxes and proved of the router over any bridge that meets it.

  How they are proved.

  \<^item> \<open>ChannelNet\<close> states the network of two channels as a step relation in which every
    transmitted Instruction may be lost, duplicated, delayed and reordered; the locale
    \<open>ssp_channel\<close> takes the operations of a state object and its diff law and proves the safety
    of every reachable network once.  \<open>ChannelLive\<close> adds \<open>ssp_live\<close>, convergence by lossless
    round trips.  \<open>DeliveryQueue\<close>, \<open>DeliveryReset\<close> and \<open>DeliveryGrid\<close> interpret both on the
    queue and on the grid.
  \<^item> \<open>SessionFacts\<close> has the invariant \<open>session_ok\<close> and the absence of panics, \<open>SessionPolicy\<close>
    the pace and the schedule, and \<open>SessionLink\<close> the simulation \<open>link_rel\<close> from two whole
    sessions on an adversarial network to the channel networks, so that their safety carries over
    to the bytes on the wire.  \<open>SessionExample\<close> runs two concrete sessions for the closed
    examples; \<open>StaleDatagram\<close> is the run behind C23.
  \<^item> \<open>KeyNonce\<close> is the step relation of one node's processes, each of which may crash between any
    two file operations, with its invariant; \<open>KeySession\<close> states what a session relies on of its
    sequence source as the locale \<open>seq_source\<close>, interpreted on the reserved source.
  \<^item> \<open>LinkDriverFacts\<close> has the driver's invariant and what one datagram does to it, \<open>LinkRun\<close> the
    runs of a driver (datagrams, commands, flushes, deliveries and receipts in any order) with
    what reaches the application and what is sent, \<open>LinkFrames\<close> the screen frames, \<open>LinkReplay\<close> the
    datagrams of a retired epoch and the concrete drivers.  \<open>LinkSpec\<close> holds their properties.
  \<^item> \<open>ScreenSpec\<close> follows a sampled stream over a network that loses, repeats and reorders frames,
    and the viewer and the store that fold it; \<open>ScreenWatch\<close> holds the properties, and the run in
    which a restarted stream mixes two screens.
  \<^item> \<open>DaemonFacts\<close> has the invariant \<open>daemon_ok\<close> (admissions, slots, running records and
    controllers against the handlers that hold them) and \<open>flight_ok\<close> (the count of messages in flight,
    which a panic never gives back), \<open>DaemonFrames\<close> the history of what each
    handler sent.  \<open>WorkerScreens\<close> states what the router asks of the runtime as the locale
    \<open>task_runtime\<close>, interpreted on the daemon; \<open>DaemonSpec\<close> holds the properties.
  \<^item> \<open>HubFacts\<close> has the invariant \<open>hub_ok\<close> (every waiter leads to the open attempt it was registered
    for, every outcome to the frame or abort it came from, no two calls share a correlation id) and
    \<open>HubSteps\<close> shows that every step keeps it; \<open>HubWindow\<close> has the variant that each live turn of a
    call decreases, and \<open>HubRuns\<close> the concrete runs of a hub and of a daemon that receives a task
    twice.  \<open>HubSpec\<close> holds the properties, of the hub alone and of hub and daemon together.
  \<^item> \<open>BridgeFacts\<close> has the round trip of UTF-8, the refinement of the reassembly map by one slot per
    peer, and the runs of a bridge; \<open>BridgeSpec\<close> holds the properties of the bridges.
  \<^item> \<open>WorkSpec\<close> has the invariant \<open>snapshot_ok\<close> of the fold, and its property.

  Bounds.  Times and sequences are \<open>u64\<close> and wrap as a release build does; a debug build would
  panic instead where an instant lies within a few seconds of \<open>2 ^ 64\<close> ms.  Lengths are natural
  numbers, cut to 32 bits where the code casts them.  \<open>debug_assert!\<close>, \<open>expect\<close> and out-of-range
  indexing are \<open>Panic\<close>.  No definition uses fuel: the loops are structural
  (\<open>decimal\<close>, the only other one, divides by ten).  A window of the hub is counted in turns of its clock of
  100 ms; 2403 live turns are enough for any dispatch (C18).

  Not modelled: sockets, files, processes and the asynchronous tasks themselves (they are the
  environment of the step relations); of the daemon, the provider processes (their result is any
  value), the answers to probes, the task frames that name a workflow (their admissions, slots and
  reviews; the claims of their runs are steps of the environment), the environment of a run, the cached
  capabilities and what they advertise, the binding of conversations to sessions, the throttle of status frames and the JSON codecs; of the hub, the roster, the hand-off
  and the handle that wire the task sender to the backend; the rest of the crates \<open>sdk\<close>,
  \<open>tui\<close> and \<open>btop\<close>; formatted
  error texts (a constructor carries their arguments); \<open>Debug\<close> and serde implementations.
\<close>

section \<open>Two sessions end to end\<close>

text \<open>C1.  Whatever the network does with the datagrams of two sessions (loss, duplication, delay,
  reordering, injection of anything it cannot seal), the messages one application has taken are the
  ones the other queued, in order and each once: what was taken, followed by what waits in the
  received queue, is exactly the first \<open>received_num\<close> messages \<open>queue_message\<close> accepted.\<close>

theorem session_messages_delivered:
  assumes "aead_laws c" "digest_laws c" "mirrored ca cb" "wf_config cb"
    and "(world_step c nxt)\<^sup>*\<^sup>* (world_init ca cb ta tb ea eb qa qb) w"
  shows "taken_b w @ mq_pending (ch_received (se_messages (wd_b w)))
      = take (unat (ch_received_num (se_messages (wd_b w)))) (sent_a w) \<and>
    prefix (taken_b w) (sent_a w)"
proof -
  obtain mn gn where run: "queue_reachable
      (net_init CHANNEL_MESSAGES (mq_new (sc_queue_limits ca)) (sc_max_sent_states ca)
         (mq_new (sc_queue_limits cb)) (sc_max_sent_states cb)) mn"
    and rel: "link_rel c w mn gn"
    using link_run [OF assms(1,2,5) link_init [OF assms(3,4)]] by blast
  have "queue_good mn" by (rule queue_good_run [OF run queue_good_init])
  moreover have "net_b mn = se_messages (wd_b w)" "log_a mn = sent_a w" "out_b mn = taken_b w"
    using rel by (simp_all add: link_rel_def link_half_def)
  ultimately have d: "taken_b w @ mq_pending (ch_received (se_messages (wd_b w)))
      = take (unat (ch_received_num (se_messages (wd_b w)))) (sent_a w)"
    using received_queue_content [of mn] by simp
  have "prefix (take (unat (ch_received_num (se_messages (wd_b w)))) (sent_a w)) (sent_a w)"
    by (rule take_is_prefix)
  then have "prefix (taken_b w) (sent_a w)"
    using d by (metis append_prefixD)
  then show ?thesis using d by blast
qed

lemma session_messages_delivered_witness:
  "\<exists>w :: u64 world. taken_b w = [ex_message] \<and>
     taken_b w @ mq_pending (ch_received (se_messages (wd_b w)))
       = take (unat (ch_received_num (se_messages (wd_b w)))) (sent_a w) \<and>
     prefix (taken_b w) (sent_a w)"
proof -
  obtain w where w: "(world_step toy_crypto ex_seq)\<^sup>*\<^sup>* (world_init ex_owner ex_host 0 0 11 22 1 1) w"
    "taken_b w = [ex_message]" using ex_run by blast
  show ?thesis
    using session_messages_delivered [OF toy_aead_laws toy_digest_laws ex_mirrored(1,2) w(1)] w(2) by blast
qed

text \<open>C2.  Under the same network the screen a peer shows is always one of the grids the other side
  set, the one with the received number (or the initial empty grid), never a mixture of two.\<close>

theorem session_screen_shown:
  assumes "aead_laws c" "digest_laws c" "mirrored ca cb" "wf_config cb"
    and "(world_step c nxt)\<^sup>*\<^sup>* (world_init ca cb ta tb ea eb qa qb) w"
  shows "rg_rows (session_screen (wd_b w)) \<in> insert [] (set (frames_a w)) \<and>
    rg_rows (session_screen (wd_b w)) =
      (let n = unat (ch_received_num (se_screen (wd_b w))) in if n = 0 then [] else frames_a w ! (n - 1))"
proof -
  obtain mn gn where run: "screen_reachable
      (net_init CHANNEL_SCREEN rg_new (sc_max_sent_states ca) rg_new (sc_max_sent_states cb)) gn"
    and rel: "link_rel c w mn gn"
    using link_run [OF assms(1,2,5) link_init [OF assms(3,4)]] by blast
  have good: "screen_live.good gn"
    by (rule screen_live.good_reachable [OF run]) (simp_all add: screen_fresh_def)
  have eq: "net_b gn = se_screen (wd_b w)" "log_a gn = frames_a w"
    using rel by (simp_all add: link_rel_def link_half_def)
  have s: "rg_rows (session_screen (wd_b w)) =
      (let n = unat (ch_received_num (se_screen (wd_b w))) in if n = 0 then [] else frames_a w ! (n - 1))"
    using screen_received(1) [OF good] eq by (simp add: session_screen_def Let_def)
  have "rg_rows (session_screen (wd_b w)) \<in> insert [] (set (frames_a w))"
    using screen_received(2) [OF good] eq by (auto simp: s Let_def)
  then show ?thesis using s by blast
qed

lemma session_screen_shown_witness:
  "\<exists>w :: u64 world. taken_b w = [ex_message] \<and>
     rg_rows (session_screen (wd_b w)) \<in> insert [] (set (frames_a w))"
proof -
  obtain w where w: "(world_step toy_crypto ex_seq)\<^sup>*\<^sup>* (world_init ex_owner ex_host 0 0 11 22 1 1) w"
    "taken_b w = [ex_message]" using ex_run by blast
  show ?thesis
    using session_screen_shown [OF toy_aead_laws toy_digest_laws ex_mirrored(1,2) w(1)] w(2) by blast
qed

section \<open>One channel\<close>

text \<open>Channel 0 converges: from any reachable state of two endpoints whose queue bounds are
  at least 318 messages and one datagram of bytes, one lossless round trip per retained state
  beyond the first runs without error and leaves every accepted message delivered and
  acknowledged.\<close>

lemma queue_converges:
  assumes "roomy L" "roomy L'"
    and "queue_reachable (net_init i (mq_new L) k (mq_new L') k') w"
    and "history_len (net_a w) \<le> Suc n"
  shows "\<exists>w'. round_trips message_queue_ssp mq_drain t n w = Ret (Inr w') \<and>
    log_a w' = log_a w \<and> \<not> is_pending (net_a w') \<and>
    out_b w' @ mq_pending (ch_received (net_b w')) = log_a w"
proof (rule queue_round_trips [OF _ _ assms(4)])
  show "queue_good w" by (rule queue_good_run [OF assms(3) queue_good_init])
  show "queue_live.good w"
    by (rule queue_live.good_reachable [OF assms(3)]) (use assms(1,2) in \<open>auto simp: roomy_fresh_def\<close>)
qed

text \<open>Channel 1 converges in the same number of round trips to the last grid set.\<close>

lemma screen_converges:
  assumes "screen_reachable (net_init i rg_new k rg_new k') w" "history_len (net_a w) \<le> Suc n"
  shows "\<exists>w'. round_trips row_grid_ssp screen_look t n w = Ret (Inr w') \<and> log_a w' = log_a w \<and>
    \<not> is_pending (net_a w') \<and>
    rg_rows (ch_received (net_b w')) = (if log_a w = [] then [] else last (log_a w))"
proof (rule screen_round_trips [OF _ assms(2)])
  show "screen_live.good w"
    by (rule screen_live.good_reachable [OF assms(1)]) (simp_all add: screen_fresh_def)
qed

text \<open>C3.  Both channels converge.  From any reachable state of two endpoints one lossless round trip per retained
  state beyond the first runs without error and leaves nothing unacknowledged: channel 0, when the queue bounds are at
  least 318 messages and one datagram of bytes, has then delivered every accepted message, and channel 1 shows the last
  grid set.\<close>

theorem channels_converge:
  "(roomy L \<and> roomy L' \<and> queue_reachable (net_init i (mq_new L) k (mq_new L') k') w \<and>
      history_len (net_a w) \<le> Suc n \<longrightarrow>
      (\<exists>w'. round_trips message_queue_ssp mq_drain t n w = Ret (Inr w') \<and> log_a w' = log_a w \<and>
        \<not> is_pending (net_a w') \<and> out_b w' @ mq_pending (ch_received (net_b w')) = log_a w)) \<and>
   (screen_reachable (net_init i rg_new k rg_new k') v \<and> history_len (net_a v) \<le> Suc n \<longrightarrow>
      (\<exists>v'. round_trips row_grid_ssp screen_look t n v = Ret (Inr v') \<and> log_a v' = log_a v \<and>
        \<not> is_pending (net_a v') \<and> rg_rows (ch_received (net_b v')) = (if log_a v = [] then [] else last (log_a v))))"
  by (intro conjI impI; elim conjE) (rule queue_converges screen_converges; assumption)+

lemma channels_converge_witness:
  "(\<exists>w'. round_trips message_queue_ssp mq_drain 0 1 ex_pending_net = Ret (Inr w') \<and>
      out_b w' @ mq_pending (ch_received (net_b w')) = [ex_message]) \<and>
   (\<exists>w'. round_trips row_grid_ssp screen_look 0 1 ex_drawn_net = Ret (Inr w') \<and>
      rg_rows (ch_received (net_b w')) = [ex_message])"
proof
  show "\<exists>w'. round_trips message_queue_ssp mq_drain 0 1 ex_pending_net = Ret (Inr w') \<and>
      out_b w' @ mq_pending (ch_received (net_b w')) = [ex_message]"
    using channels_converge [THEN conjunct1, rule_format, OF conjI [OF roomy_default conjI [OF roomy_default conjI [OF ex_pending_net(1)]]], of 1 0] ex_pending_net(2,3)
    by auto
  show "\<exists>w'. round_trips row_grid_ssp screen_look 0 1 ex_drawn_net = Ret (Inr w') \<and>
      rg_rows (ch_received (net_b w')) = [ex_message]"
    using channels_converge [THEN conjunct2, rule_format, OF conjI [OF ex_drawn_net(1)], of 1 0] ex_drawn_net(2,3)
    by auto
qed

text \<open>C5.  When the peer restarts with nothing of the old session left on the wire, \<open>reset_peer\<close>
  does not panic, and from the renumbered channel on the new peer receives, in order and each
  once, exactly the messages the old one had not acknowledged, followed by whatever is queued
  later.\<close>

theorem restart_redelivers:
  assumes "queue_reachable (net_init CHANNEL_MESSAGES (mq_new L) k (mq_new L) k') w"
  shows "\<exists>a'. reset_peer message_queue_ssp (net_a w) = Ret a' \<and>
    (\<forall>v. queue_reachable (fresh_peer a' L k'' (drop (unat (ch_assumed (net_a w))) (log_a w))) v \<longrightarrow>
       prefix (drop (unat (ch_assumed (net_a w))) (log_a w)) (log_a v) \<and>
       out_b v @ mq_pending (ch_received (net_b v))
         = take (unat (ch_received_num (net_b v))) (log_a v))"
proof -
  let ?a = "net_a w" and ?log = "drop (unat (ch_assumed (net_a w))) (log_a w)"
  have r: "restartable L w" by (rule restartable_run [OF assms restartable_init])
  then have reset: "reset_peer message_queue_ssp ?a = Ret (after_reset L ?a)"
    by (intro reset_peer_queue) (auto simp: restartable_def queue_good_def direction_inv_iff)
  have "prefix ?log (log_a v) \<and> out_b v @ mq_pending (ch_received (net_b v))
      = take (unat (ch_received_num (net_b v))) (log_a v)"
    if run: "queue_reachable (fresh_peer (after_reset L ?a) L k'' ?log) v" for v
  proof -
    have "restartable L v" by (rule restartable_run [OF run restarted_restartable [OF r]])
    then show ?thesis
      using received_queue_content log_prefix [OF run] by (simp add: restartable_def fresh_peer_def)
  qed
  then show ?thesis using reset by blast
qed

lemma restart_redelivers_witness:
  "\<exists>a'. reset_peer message_queue_ssp (net_a ex_pending_net) = Ret a' \<and>
     prefix [ex_message] (log_a (fresh_peer a' default_queue_limits 512 [ex_message]))"
proof -
  have "unat (ch_assumed (net_a ex_pending_net)) = 0"
    by (simp add: ex_pending_net_def advance_def channel_new_def mq_push_def mq_check_capacity_def
        mq_new_def default_queue_limits_def ex_message_def)
  then show ?thesis
    using restart_redelivers [of default_queue_limits 512 512 ex_pending_net 512, unfolded CHANNEL_MESSAGES_def,
        OF ex_pending_net(1)]
    by (auto simp: ex_pending_net(3) dest: spec [where x = "fresh_peer _ _ _ _"])
qed

section \<open>Datagrams\<close>

text \<open>C6.  Every datagram \<open>build\<close> returns is at most 1400 bytes and opens at the peer, whose
  configuration mirrors this one, to exactly the header and the Instruction it was built from.\<close>

theorem built_datagram_opens:
  assumes "aead_laws c" "digest_laws c" "session_ok s" "mirrored (se_config s) config'"
    and "build c nxt i now hb s q = Ret (Inr d, s', q')"
  shows "length d \<le> MAX_DATAGRAM \<and>
    (\<exists>n p. nxt q = (Inr n, q') \<and>
       open_datagram c config' d
         = Inr (datagram_header s (n OR direction_bit (sc_role (se_config s))) hb, p) \<and>
       session_instruction i s = Ret (Inr (pk_instruction p)) \<and>
       pk_send_ts p = timestamp16 now)"
  using assms(5)
proof (cases rule: build_cases)
  case (built ins n reply pt)
  let ?h = "datagram_header s (n OR direction_bit (sc_role (se_config s))) hb"
  have wf: "wf_header ?h" using assms(3) by (intro datagram_header_wf) (simp add: session_ok_def)
  have d: "d = datagram_bytes c (se_config s) ?h pt" using built(5) by simp
  have "open_datagram c config' d = Inr (?h, \<lparr>pk_send_ts = timestamp16 now, pk_reply_ts = reply,
      pk_instruction = ins\<rparr>)"
    unfolding d using assms(4) by (intro open_datagram_bytes [OF assms(1,2) wf built(3)]) (auto simp: mirrored_def)
  moreover have "length d \<le> MAX_DATAGRAM"
    unfolding d by (rule length_datagram_bytes(2) [OF assms(1,2) wf built(3)])
  ultimately show ?thesis using built(1,2) by auto
qed simp_all

lemma built_datagram_opens_witness:
  "\<exists>d s' p. build toy_crypto ex_seq 0 100 False ex_a1 1 = Ret (Inr d, s', 2) \<and> length d \<le> MAX_DATAGRAM \<and>
     open_datagram toy_crypto ex_host d = Inr (datagram_header ex_a1 (1 OR DIRECTION_MASK) False, p)"
proof -
  obtain d s' p where b: "build toy_crypto ex_seq 0 100 False ex_a1 1 = Ret (Inr d, s', 2)"
    "open_datagram toy_crypto ex_host d = Inr (datagram_header ex_a1 (1 OR DIRECTION_MASK) False, p)"
    using ex_build by blast
  have m: "mirrored (se_config ex_a1) ex_host" using ex_mirrored(1) by (simp add: ex_queue)
  show ?thesis
    using built_datagram_opens [OF toy_aead_laws toy_digest_laws ex_a1_ok m b(1)] b by blast
qed

text \<open>C7.  A datagram that changes the session or is accepted was sealed under the pair key, by the
  peer and for this node, with exactly the header it carries: only the forwarder's 16-byte tag is
  not bound by the seal.\<close>

theorem accepted_was_sealed:
  assumes "aead_laws c" "handle_datagram c d now s = Ret (r, s')" "s' \<noteq> s \<or> r = Inr b"
  shows "\<exists>h p tag. open_datagram c (se_config s) d = Inr (h, p) \<and> length tag = TAG_LEN \<and> oh_dst h = sc_node_id (se_config s) \<and>
    oh_src h = sc_peer_node_id (se_config s) \<and>
    d = signed_bytes h @ tag @ seal c (sc_pair_key (se_config s)) (oh_seq h) (signed_bytes h)
          (u16_be (pk_send_ts p) @ u16_be (pk_reply_ts p) @ instruction_body (pk_instruction p))"
proof (cases "open_datagram c (se_config s) d")
  case (Inl e)
  then show ?thesis using assms(2,3) by (simp add: handle_datagram_def)
next
  case (Inr x)
  obtain h p where "x = (h, p)" by (cases x)
  then have op: "open_datagram c (se_config s) d = Inr (h, p)" using Inr by simp
  from open_datagram_sealed(1,2,4) [OF op assms(1)] op show ?thesis by blast
qed

lemma accepted_was_sealed_witness:
  "\<exists>d h tag pt. length tag = TAG_LEN \<and>
     d = signed_bytes h @ tag @ seal toy_crypto (sc_pair_key ex_host) (oh_seq h) (signed_bytes h) pt"
proof -
  obtain d p where op: "open_datagram toy_crypto ex_host d
      = Inr (datagram_header ex_a1 (1 OR DIRECTION_MASK) False, p)" "pk_instruction p = ex_instruction"
    using ex_build by blast
  obtain b1 where h: "handle_datagram toy_crypto d 150 (session_new ex_host 0 22) = Ret (Inr True, b1)"
    using ex_hears [OF op] by blast
  show ?thesis
    using accepted_was_sealed [OF toy_aead_laws h disjI2 [OF refl]]
    by (auto simp: session_new_def)
qed

text \<open>Receiving is total: it never panics, keeps the session well formed, and a datagram that
  does not open (short, wrong version or flags, misaddressed, not authentic, badly framed) is
  reported with its error and changes nothing.\<close>

lemma receiving_is_total:
  assumes "session_ok s"
  shows "\<exists>r s'. handle_datagram c d now s = Ret (r, s') \<and> session_ok s' \<and>
    (\<forall>e. open_datagram c (se_config s) d = Inl e \<longrightarrow> r = Inl e \<and> s' = s)"
proof -
  obtain r s' where h: "handle_datagram c d now s = Ret (r, s')" "session_ok s'"
    by (rule handle_datagram_ok [OF assms])
  then have "\<forall>e. open_datagram c (se_config s) d = Inl e \<longrightarrow> r = Inl e \<and> s' = s"
    by (auto simp: handle_datagram_def)
  then show ?thesis using h by blast
qed

section \<open>When a session sends\<close>

text \<open>\<open>outgoing\<close> never panics and keeps the session well formed; when it succeeds it hands out
  at most two datagrams, each within the 1400-byte budget.\<close>

theorem outgoing_is_total:
  assumes "aead_laws c" "digest_laws c" "session_ok s"
  shows "\<exists>r s' q'. outgoing c nxt now s q = Ret (r, s', q') \<and> session_ok s' \<and>
    (\<forall>ds. r = Inr ds \<longrightarrow> length ds \<le> 2 \<and> (\<forall>d \<in> set ds. length d \<le> MAX_DATAGRAM))"
proof -
  obtain r s' q' where out: "outgoing c nxt now s q = Ret (r, s', q')"
    using outgoing_ok(1) [OF assms, of nxt now q] by (cases "outgoing c nxt now s q") auto
  have "length ds \<le> 2 \<and> (\<forall>d \<in> set ds. length d \<le> MAX_DATAGRAM)" if "r = Inr ds" for ds
  proof -
    have "outgoing c nxt now s q = Ret (Inr ds, s', q')" using out that by simp
    from outgoing_sends(1) [OF this] outgoing_lengths [OF assms this] show ?thesis by blast
  qed
  then show ?thesis using out outgoing_ok(2) [OF assms out] by blast
qed

lemma outgoing_is_total_witness:
  "\<exists>r s' q'. outgoing toy_crypto ex_seq 100 ex_a1 1 = Ret (r, s', q') \<and> session_ok s'"
  using outgoing_is_total [OF toy_aead_laws toy_digest_laws ex_a1_ok, of ex_seq 100 1] by blast

text \<open>C10.  The pace: a call that hands out datagrams happens at least 20 ms after the last one that
  did, and is itself the new last one; a call that hands out none leaves the pace alone.\<close>

theorem outgoing_paced:
  assumes "outgoing c nxt now s q = Ret (Inr ds, s', q')"
  shows "(ds \<noteq> [] \<longrightarrow> se_last_send s' = Some now \<and>
      (\<forall>t. se_last_send s = Some t \<longrightarrow> t + SEND_INTERVAL_MIN \<le> now)) \<and>
    (ds = [] \<longrightarrow> se_last_send s' = se_last_send s)"
  using outgoing_sends(2,3) [OF assms] by (auto simp: floor_elapsed_def)

lemma outgoing_paced_witness:
  "\<exists>d s'. outgoing toy_crypto ex_seq 100 ex_a1 1 = Ret (Inr [d], s', 2) \<and> se_last_send s' = Some 100"
proof -
  obtain d s' where "outgoing toy_crypto ex_seq 100 ex_a1 1 = Ret (Inr [d], s', 2)"
    using ex_sends by metis
  from outgoing_paced [OF this] this show ?thesis by auto
qed

text \<open>C11.  \<open>next_send_ms\<close> is exact: a call at or after the time it names hands out a datagram, and, unless an
  acknowledgement is owed, a call before that time hands out nothing and draws no sequence.\<close>

theorem schedule_is_met:
  assumes "outgoing c nxt now s q = Ret (Inr ds, s', q')"
  shows "(next_send_ms s now0 \<le> now \<longrightarrow> ds \<noteq> []) \<and>
    (pending_ack_channel s = None \<and> now < next_send_ms s now \<longrightarrow> ds = [] \<and> q' = q)"
proof -
  have "ds = [] \<and> q' = q" if "now < next_send_ms s now" "pending_ack_channel s = None"
    using outgoing_early [OF that, of c nxt q] assms by auto
  then show ?thesis using outgoing_on_schedule [OF _ assms, of now0] by blast
qed

lemma schedule_is_met_witness:
  "(\<exists>ds s'. outgoing toy_crypto ex_seq 100 ex_a1 1 = Ret (Inr ds, s', 2) \<and> ds \<noteq> []) \<and>
   (\<exists>ds s' q'. outgoing toy_crypto ex_seq 110 (ex_a1\<lparr>se_last_send := Some 100\<rparr>) 1 = Ret (Inr ds, s', q') \<and> ds = [])"
proof -
  obtain d s' where out: "outgoing toy_crypto ex_seq 100 ex_a1 1 = Ret (Inr [d], s', 2)"
    using ex_sends by metis
  have "next_send_ms ex_a1 100 \<le> 100"
    by (simp add: next_send_ms_def ex_queue Let_def due_min_le_iff pending_ack_channel_def channel_due_at_def
        channel_timing_def)
  then have "[d] \<noteq> []" using schedule_is_met [OF out, of 100] by blast
  moreover have e: "pending_ack_channel (ex_a1\<lparr>se_last_send := Some 100\<rparr>) = None"
    "110 < next_send_ms (ex_a1\<lparr>se_last_send := Some 100\<rparr>) 110"
    by (simp_all add: next_send_ms_def pending_ack_channel_def ex_queue Let_def timing_constants less_max_iff_disj)
  moreover obtain ds s2 q2
    where q: "outgoing toy_crypto ex_seq 110 (ex_a1\<lparr>se_last_send := Some 100\<rparr>) 1 = Ret (Inr ds, s2, q2)"
    using outgoing_early [OF e(2,1)] by metis
  moreover have "ds = []" using schedule_is_met [OF q, of 0] e by blast
  ultimately show ?thesis using out by blast
qed

text \<open>With an acknowledgement owed \<open>outgoing\<close> does send before the time \<open>next_send_ms\<close> names.\<close>

lemma early_acknowledgement:
  assumes "aead_laws c" "digest_laws c"
  shows "\<exists>s now d s'. session_ok s \<and> now < next_send_ms s now \<and>
    outgoing c ex_seq now s 1 = Ret (Inr [d], s', 2)"
proof -
  let ?s = "(session_new ex_owner 0 11)\<lparr>se_last_send := Some 100, se_ack := [True, False]\<rparr>"
  have ok: "session_ok ?s"
    using ex_mirrored(3) by (simp add: session_ok_def session_new_def channel_new_def CHANNEL_COUNT_def)
  have early: "130 < next_send_ms ?s 130"
    by (simp add: next_send_ms_def pending_ack_channel_def session_new_def Let_def timing_constants
        channel_due_at_def channel_timing_def is_pending_def channel_new_def less_max_iff_disj)
  have ins: "\<exists>ins. session_instruction 0 (?s\<lparr>se_rotate := True\<rparr>) = Ret (Inr ins)"
    by (simp add: session_instruction_def CHANNEL_SCREEN_def session_new_def channel_instruction_def
        channel_new_def mq_diff_from_def mq_num_def mq_new_def length_encode_messages MAX_DIFF_LEN_eq)
  obtain r s1 q1 where b: "build c ex_seq 0 130 False (?s\<lparr>se_rotate := True\<rparr>) 1 = Ret (r, s1, q1)"
    using build_no_panic [OF _ assms, of "?s\<lparr>se_rotate := True\<rparr>" ex_seq 0 130 False 1] ok
    by (cases "build c ex_seq 0 130 False (?s\<lparr>se_rotate := True\<rparr>) (1 :: u64)") (auto simp: session_ok_def)
  then obtain d where d: "r = Inr d" "q1 = 2"
    using ins by (cases rule: build_cases) (auto simp: ex_seq_def)
  have "outgoing c ex_seq 130 ?s 1 = Ret (Inr [d], s1, 2)"
    using b d
    by (simp add: outgoing_def floor_elapsed_def timing_constants session_new_def send_order_def
        channel_due_def channel_due_at_def channel_timing_def is_pending_def channel_new_def
        build_idle_def pending_ack_channel_def)
  then show ?thesis using ok early by blast
qed

section \<open>Timing\<close>

text \<open>The retransmission timeout is always between 50 ms and 1 s; it is 1 s before the first
  sample, and three times the sample (clamped) after one.\<close>

theorem rto_is_clamped:
  "MIN_RTO \<le> rto e \<and> rto e \<le> MAX_RTO \<and> rto rtt_new = MAX_RTO \<and>
   (unat r < 2 ^ 16 \<longrightarrow> rto (rtt_sample r rtt_new) = u64_clamp MIN_RTO MAX_RTO (3 * r))"
  using rto_bounds rto_first_sample [OF refl] by simp

lemma rto_is_clamped_witness: "rto (rtt_sample 100 rtt_new) = 300"
proof -
  have "unat (100 :: u64) < 2 ^ 16" by simp
  then show ?thesis
    using rto_is_clamped [of undefined 100] by (simp add: u64_clamp_def timing_constants)
qed

text \<open>On a steady link, where every sample is the same, the smoothed round-trip time is that
  sample exactly, however many samples were folded in: the estimator's rounding never drifts.\<close>

lemma steady_rtt_is_exact:
  assumes "unat r < 2 ^ 48"
  shows "re_srtt ((rtt_sample r ^^ Suc k) rtt_new) = Some (of_nat (unat r))"
  by (rule rtt_steady [OF refl assms])

lemma steady_rtt_example: "re_srtt ((rtt_sample 37 ^^ Suc 9) rtt_new) = Some 37"
  using steady_rtt_is_exact [of 37 9] by simp

text \<open>The 16-bit timestamps measure an elapsed time below 65.536 s exactly, across the wrap.\<close>

lemma elapsed_is_exact:
  assumes "t0 \<le> t" "unat (t - t0) < 65536"
  shows "unat (elapsed16 t (timestamp16 t0)) = unat (t - t0)"
  by (rule elapsed16_exact [OF assms])

lemma elapsed_example: "unat (elapsed16 65600 (timestamp16 65500)) = 100"
  using elapsed_is_exact [of 65500 65600] by simp

section \<open>Wire formats\<close>

text \<open>The packet codec loses nothing and is canonical: a packet encodes to some bytes exactly
  when its diff is within the budget and those bytes decode to it.\<close>

theorem packet_codec:
  "packet_encode p = Inr bs \<longleftrightarrow>
     length (in_diff (pk_instruction p)) \<le> MAX_DIFF_LEN \<and> packet_decode bs = Inr p"
proof
  show "packet_encode p = Inr bs \<Longrightarrow>
      length (in_diff (pk_instruction p)) \<le> MAX_DIFF_LEN \<and> packet_decode bs = Inr p"
    using packet_decode_encode by (simp add: packet_encode_Inr)
qed (use packet_encode_decode in blast)

lemma packet_codec_witness:
  "\<exists>bs. packet_encode \<lparr>pk_send_ts = 7, pk_reply_ts = 0, pk_instruction = ex_instruction\<rparr> = Inr bs \<and>
     packet_decode bs = Inr \<lparr>pk_send_ts = 7, pk_reply_ts = 0, pk_instruction = ex_instruction\<rparr>"
proof -
  obtain bs where "packet_encode \<lparr>pk_send_ts = 7, pk_reply_ts = 0, pk_instruction = ex_instruction\<rparr> = Inr bs"
    using packet_encode_ok [of "\<lparr>pk_send_ts = 7, pk_reply_ts = 0, pk_instruction = ex_instruction\<rparr>"]
    by (auto simp: ex_instruction_def length_encode_messages ex_message_def MAX_DIFF_LEN_eq)
  moreover from this have "packet_decode bs
      = Inr \<lparr>pk_send_ts = 7, pk_reply_ts = 0, pk_instruction = ex_instruction\<rparr>"
    by (simp only: packet_codec)
  ultimately show ?thesis by blast
qed

text \<open>The outer header: an encoded header, whatever payload follows, decodes to itself and
  carries a tag that verifies; and a datagram that decodes begins with the signed bytes of its
  header, so no two headers share an encoding.\<close>

theorem header_codec:
  assumes "wf_header h" "digest_laws c"
  shows "oh_decode (oh_encode c key h @ payload) = Inr h \<and>
    verify_tag c (oh_encode c key h @ payload) key \<and> length (oh_encode c key h) = HEADER_LEN \<and>
    (\<forall>d h'. oh_decode d = Inr h' \<longrightarrow> take TAG_OFFSET d = signed_bytes h' \<and> wf_header h')"
  using oh_decode_signed [OF assms(1), of "tag_for c key (signed_bytes h) @ payload"]
    verify_tag_encode [OF assms] length_oh_encode [OF assms] length_tag_for [OF assms(2)]
    oh_decode_canonical oh_decode_wf
  by (simp add: oh_encode_def)

lemma header_codec_witness:
  "oh_decode (oh_encode toy_crypto (ForwarderKey []) (datagram_header ex_a1 9 True) @ [1, 2])
     = Inr (datagram_header ex_a1 9 True)"
proof -
  have "wf_header (datagram_header ex_a1 9 True)"
    using ex_mirrored(3) by (intro datagram_header_wf) (simp add: ex_queue)
  from header_codec [OF this toy_digest_laws] show ?thesis by blast
qed

text \<open>The diff of channel 0 is a bijection between lists of messages and the byte strings the
  decoder accepts.\<close>

theorem message_diff_codec:
  assumes "length d < 2 ^ 32"
  shows "decode_messages d = Inr ms \<longleftrightarrow> d = encode_messages ms"
proof
  show "decode_messages d = Inr ms \<Longrightarrow> d = encode_messages ms" by (rule decode_messages_canonical)
  show "d = encode_messages ms \<Longrightarrow> decode_messages d = Inr ms"
    using assms encode_messages_small [of ms] decode_encode_messages [of ms] by simp
qed

lemma message_diff_codec_witness: "decode_messages (encode_messages [[1], [], [2, 3]]) = Inr [[1], [], [2, 3]]"
  using message_diff_codec [of "encode_messages [[1], [], [2, 3]]" "[[1], [], [2, 3]]"]
  by (simp add: length_encode_messages)

section \<open>The state objects\<close>

text \<open>C20.  The law of \<open>SspState\<close> for the grid: applying the diff between two grids to the older one
  gives the newer one, provided it has at most 65535 rows; whatever is applied, an accepted diff
  leaves at most that many rows and a refused one changes nothing.\<close>

theorem grid_diff_law:
  assumes "length (rg_rows s) \<le> MAX_GRID_ROWS" "length (rg_diff_from s p) < 2 ^ 32"
  shows "rg_apply_diff p (rg_diff_from s p) = (Inr (), s) \<and>
    (\<forall>g d g'. rg_apply_diff g d = (Inr (), g') \<longrightarrow> length (rg_rows g') \<le> MAX_GRID_ROWS) \<and>
    (\<forall>g d e g'. rg_apply_diff g d = (Inl e, g') \<longrightarrow> g' = g)"
  using rg_apply_diff_correct [OF assms] rg_apply_diff_rows rg_apply_diff_Inl by blast

lemma grid_diff_law_witness:
  "rg_apply_diff \<lparr>rg_rows = [[1], [2]]\<rparr> (rg_diff_from \<lparr>rg_rows = [[1], [], [3]]\<rparr> \<lparr>rg_rows = [[1], [2]]\<rparr>)
     = (Inr (), \<lparr>rg_rows = [[1], [], [3]]\<rparr>)"
  by (rule conjunct1 [OF grid_diff_law])
    (simp_all add: MAX_GRID_ROWS_def rg_diff_from_def length_encode_rows rg_changed_def)

text \<open>The sender side has no such bound: a grid of more than 65535 rows is one \<open>set_screen\<close>
  accepts as long as the change is small, and one every receiver refuses, whatever grid it holds
  and whatever grid the diff is taken from.\<close>

theorem tall_grid_refused:
  assumes "MAX_GRID_ROWS < length rows" "length rows < 2 ^ 32"
    and "length (rg_diff_from (rg_set_rows rows (ch_current (se_screen s))) (ch_current (se_screen s))) \<le> MAX_DIFF_LEN"
    and "length (ch_sent_states (se_screen s)) < ch_max_sent (se_screen s)"
  shows "\<exists>s'. set_screen rows s = (Inr (), s') \<and> rg_rows (ch_current (se_screen s')) = rows \<and>
    (\<forall>g p. rg_apply_diff g (rg_diff_from (ch_current (se_screen s')) p)
       = (Inl (Malformed (Too_many_rows (length rows))), g))"
proof -
  have refused: "rg_apply_diff g (rg_diff_from \<lparr>rg_rows = rows\<rparr> p)
      = (Inl (Malformed (Too_many_rows (length rows))), g)" for g p
  proof -
    let ?n = "u32_be (word_of_nat (length rows))"
    let ?rest = "u32_be (word_of_nat (length (rg_changed rows (rg_rows p)))) @
      concat (map encode_row (rg_changed rows (rg_rows p)))"
    have "read_u32 ([] @ ?n @ ?rest) 0 = Inr (length rows)"
      using assms(2) by (intro read_u32_append') auto
    then show ?thesis
      using assms(1) by (simp add: rg_apply_diff_def decode_rows_def rg_diff_from_def encode_rows_def)
  qed
  have eq: "rg_set_rows rows g = \<lparr>rg_rows = rows\<rparr>" for g by (simp add: rg_set_rows_def)
  show ?thesis
    using assms(3,4) unfolding eq by (simp add: set_screen_def Let_def advance_def eq refused)
qed

definition ex_tall :: session where
  "ex_tall = (session_new ex_owner 0 11)\<lparr>se_screen :=
     (channel_new 1 rg_new 512)\<lparr>ch_current := \<lparr>rg_rows = replicate 65535 []\<rparr>\<rparr>\<rparr>"

lemma tall_grid_refused_witness:
  "\<exists>s'. set_screen (replicate 65535 [] @ [[]]) ex_tall = (Inr (), s') \<and>
     (\<forall>g p. \<exists>e. rg_apply_diff g (rg_diff_from (ch_current (se_screen s')) p) = (Inl e, g))"
proof -
  let ?rows = "replicate 65535 [] @ [[]] :: bytes list"
  have "rg_set_rows ?rows (ch_current (se_screen ex_tall)) = \<lparr>rg_rows = ?rows\<rparr>"
    "rg_rows (ch_current (se_screen ex_tall)) = replicate 65535 []"
    by (simp_all add: ex_tall_def rg_set_rows_def)
  then have d: "length (rg_diff_from (rg_set_rows ?rows (ch_current (se_screen ex_tall)))
      (ch_current (se_screen ex_tall))) \<le> MAX_DIFF_LEN"
    by (simp only: rg_diff_from_def row_grid.simps rg_changed_grown length_encode_rows MAX_DIFF_LEN_eq) simp
  have "length (ch_sent_states (se_screen ex_tall)) < ch_max_sent (se_screen ex_tall)"
    by (simp add: ex_tall_def channel_new_def)
  from tall_grid_refused [OF _ _ d this] show ?thesis by (simp add: MAX_GRID_ROWS_def) blast
qed

text \<open>C22.  The bounds of the message queue are never exceeded: with its byte counter exact and both
  limits respected, every operation keeps them so, and an operation that would exceed one is
  refused with a retryable overflow and leaves the queue as it was.\<close>

theorem queue_bounds_kept:
  assumes "mq_wf q" "mq_bounded q"
  shows "mq_wf (snd (mq_push m q)) \<and> mq_bounded (snd (mq_push m q)) \<and>
    mq_wf (snd (mq_apply_diff q d)) \<and> mq_bounded (snd (mq_apply_diff q d)) \<and>
    mq_wf (mq_prune_through k q) \<and> mq_bounded (mq_prune_through k q) \<and>
    mq_wf (snd (mq_drain q)) \<and> mq_bounded (snd (mq_drain q)) \<and>
    (\<forall>e q'. mq_push m q = (Inl e, q') \<longrightarrow> q' = q \<and> is_retryable (State e)) \<and>
    (\<forall>e q'. mq_apply_diff q d = (Inl e, q') \<longrightarrow> q' = q)"
  using assms mq_push_wf mq_push_bounded mq_apply_diff_wf mq_apply_diff_bounded mq_prune_wf
    mq_prune_bounded mq_drain_wf mq_drain_bounded mq_apply_diff_Inl
  by (auto dest: mq_push_cases)

lemma queue_bounds_kept_witness: "mq_wf (snd (mq_push [1, 2] (mq_new default_queue_limits)))"
  using queue_bounds_kept [of "mq_new default_queue_limits" "[1, 2]"]
  by (simp add: mq_wf_def mq_bounded_def mq_new_def)

section \<open>A stale datagram after a restart\<close>

text \<open>C23.  The module's documentation calls a duplicated datagram free.  Across a restart of the
  peer it is not: the restarted peer is at state 0 again, so a late copy of the first datagram of
  the old session is applied once more, and its acknowledgement names the number the sender's
  \<open>reset_peer\<close> gave to the first message still pending.  That message is dropped as delivered
  though no peer ever received it, and the old one is delivered a second time.\<close>

theorem stale_datagram_loses_message:
  assumes "length m1 \<le> MAX_MESSAGE_BYTES" "length m2 \<le> MAX_MESSAGE_BYTES"
  shows "\<exists>a1 a2 a3 a4 a5 b i1 ack.
    \<comment> \<open>the sender transmits \<open>m1\<close>, the peer receives and acknowledges it\<close>
    advance (mq_push m1) fresh_queue_channel = (Inr (), a1) \<and>
    channel_instruction message_queue_ssp a1 = Ret (Inr i1) \<and>
    channel_apply message_queue_ssp i1 fresh_queue_channel = (Inr True, b) \<and>
    channel_instruction message_queue_ssp b = Ret (Inr ack) \<and>
    channel_apply message_queue_ssp ack a1 = (Inr False, a2) \<and> \<not> is_pending a2 \<and>
    \<comment> \<open>the sender queues \<open>m2\<close>, then learns that the peer restarted\<close>
    advance (mq_push m2) a2 = (Inr (), a3) \<and>
    reset_peer message_queue_ssp a3 = Ret a4 \<and> is_pending a4 \<and> mq_pending (ch_current a4) = [m2] \<and>
    \<comment> \<open>the restarted peer, in the fresh state again, is handed the old datagram and answers\<close>
    mq_pending (ch_received b) = [m1] \<and>
    channel_apply message_queue_ssp ack a4 = (Inr False, a5) \<and>
    \<comment> \<open>the sender now believes everything delivered, and has let go of \<open>m2\<close>\<close>
    \<not> is_pending a5 \<and> mq_pending (ch_current a5) = []"
  by (rule exI [of _ "stale_a1 m1"], rule exI [of _ "stale_a2 m1"], rule exI [of _ "stale_a3 m1 m2"],
      rule exI [of _ "stale_a4 m2"], rule exI [of _ "stale_a2 m2"], rule exI [of _ "stale_b m1"],
      rule exI [of _ "stale_datagram m1"], rule exI [of _ stale_ack])
    (intro conjI stale_1 stale_2 stale_3 stale_4 stale_5 stale_6 stale_7 stale_8 stale_pending assms)

lemma stale_datagram_loses_message_witness:
  "\<exists>a3 a4 a5 ack. reset_peer message_queue_ssp a3 = Ret a4 \<and> mq_pending (ch_current a4) = [[2]] \<and>
     channel_apply message_queue_ssp ack a4 = (Inr False, a5) \<and>
     \<not> is_pending a5 \<and> mq_pending (ch_current a5) = []"
  using stale_datagram_loses_message [of "[1]" "[2]"]
  by (simp add: MAX_MESSAGE_BYTES_def MAX_DIFF_LEN_eq) blast

section \<open>Key material\<close>

text \<open>C24.  A typed pair key: a text decodes to a key exactly when, separators dropped and
  confusables folded, it reads as the key's own encoding; so a transcription slip among the
  folded characters is harmless, and no other text yields that key.\<close>

theorem pair_key_transcription:
  assumes "wf_key k"
  shows "pair_decode c s = Inr k \<longleftrightarrow> pair_encode_compact c k = Ret (reads s)"
  by (rule pair_decode_iff [OF assms])

lemma pair_key_transcription_witness:
  "\<exists>t. pair_encode toy_crypto (PairKey (replicate 16 7)) = Ret t \<and>
     pair_decode toy_crypto t = Inr (PairKey (replicate 16 7))"
proof -
  have wf: "wf_key (PairKey (replicate 16 7))" by (simp add: wf_key_def)
  obtain t where "pair_encode_compact toy_crypto (PairKey (replicate 16 7)) = Ret t" "reads t = t"
    "pair_encode toy_crypto (PairKey (replicate 16 7)) = Ret (group t)"
    using pair_encode_Ret [OF wf] by blast
  then show ?thesis using pair_key_transcription [OF wf, of toy_crypto "group t"] by auto
qed

text \<open>C25.  A pasted host key: what \<open>encode\<close> shows decodes to the pairing it was minted from;
  decoding never panics, whatever the text; and what decodes is a well-formed pairing whose own
  encoding agrees with the text in the first 84 of the 85 characters (the last one carries a
  padding bit that is not read).\<close>

theorem host_key_pasted:
  assumes "wf_host_key k"
  shows "(\<exists>t. host_encode c k = Ret t \<and> looks_like t \<and> host_decode c t = Ret (Inr k)) \<and>
    (\<exists>r. host_decode c s = Ret r) \<and>
    (\<forall>k'. host_decode c s = Ret (Inr k') \<longrightarrow> wf_host_key k' \<and> looks_like s \<and>
       (\<exists>payload t. str_suffix 4 (trim s) = Some payload \<and> host_encode_compact c k' = Ret t \<and>
          length t = length (reads payload) \<and> take 84 t = take 84 (reads payload)))"
  using host_decode_encode [OF assms] host_decode_total host_decode_canonical by blast

definition ex_host_key :: host_key where
  "ex_host_key = \<lparr>hk_client = NodeId (replicate 16 1), hk_host = NodeId (replicate 16 2),
     hk_pair_key = PairKey (replicate 16 3), hk_port = 4600\<rparr>"

lemma host_key_pasted_witness:
  "\<exists>t. host_encode toy_crypto ex_host_key = Ret t \<and> host_decode toy_crypto t = Ret (Inr ex_host_key)"
proof -
  have "wf_host_key ex_host_key" by (simp add: ex_host_key_def wf_host_key_def wf_id_def wf_key_def)
  from host_key_pasted [OF this, of toy_crypto "[]"] show ?thesis by blast
qed

text \<open>C26.  Node ids in hexadecimal: a displayed id reads back, an ASCII text never panics and
  whatever is read is 16 bytes.  A text that begins with a character of three bytes or more (and
  has an even number of bytes) panics: the two-byte slice ends inside the character.\<close>

theorem node_id_text:
  assumes "wf_id n" "is_ascii s" "trim u = ch # rest" "2048 \<le> ch" "even (str_len (ch # rest))"
  shows "node_from_hex (node_display n) = Ret (Some n) \<and>
    (\<exists>r. node_from_hex s = Ret r \<and> (\<forall>m. r = Some m \<longrightarrow> wf_id m)) \<and>
    node_from_hex u = Panic"
proof -
  obtain r where r: "node_from_hex s = Ret r" using node_from_hex_ascii [OF assms(2)] by blast
  have width: "2 < utf8_width ch" using assms(4) by (simp add: utf8_width_def)
  then have "0 < str_len (ch # rest) div 2" by (simp add: str_len_def)
  then have "[0..<str_len (ch # rest) div 2] = 0 # [1..<str_len (ch # rest) div 2]"
    by (simp add: upt_conv_Cons)
  then have "hex_decode u = Panic"
    using assms(3,5) width by (simp add: hex_decode_def str_slice_def)
  then show ?thesis
    using r node_from_hex_display [OF assms(1)] node_from_hex_wf by (auto simp: node_from_hex_def)
qed

lemma node_id_text_witness: "node_from_hex [8364, 97] = Panic \<and> node_from_hex [43, 102] = Ret None"
proof -
  have "trim [8364, 97] = 8364 # [97]" by (simp add: trim_def is_whitespace_def)
  moreover have "even (str_len (8364 # [97]))" by (simp add: str_len_def utf8_width_def)
  moreover have "node_from_hex [43, 102] = Ret None" by code_simp
  ultimately show ?thesis
    using node_id_text [of "NodeId (replicate 16 0)" "[]" "[8364, 97]" 8364 "[97]"]
    by (simp add: wf_id_def)
qed

section \<open>Sequences and nonces\<close>

text \<open>C27.  Across any number of processes of one node, starts that fail half-way, failing writes,
  crashes and power cuts, the sequences handed out grow strictly (none is ever handed out twice)
  and stay clear of the direction bit, and at most one process holds the identity.\<close>

theorem sequences_never_reused:
  assumes "json_laws j" "(node_step j p)\<^sup>*\<^sup>* (node_init f) w"
  shows "sorted_wrt (<) (nw_issued w) \<and> (\<forall>n \<in> set (nw_issued w). n < MAX_SEQ) \<and>
    (\<forall>i k. nw_procs w i \<noteq> None \<and> nw_procs w k \<noteq> None \<longrightarrow> i = k)"
  using node_inv_run [OF assms(2,1)] by (simp add: node_inv_def)

lemma sequences_never_reused_witness:
  "\<exists>w :: node_state node_world. nw_issued w = [1] \<and> sorted_wrt (<) (nw_issued w) \<and> (\<forall>n \<in> set (nw_issued w). n < MAX_SEQ)"
proof -
  obtain w where w: "(node_step toy_json [])\<^sup>*\<^sup>* (node_init (Some toy_state)) w" "nw_issued w = [1]"
    using toy_run by blast
  from sequences_never_reused [OF toy_json_laws w(1)] w(2) show ?thesis by (intro exI [of _ w]) blast
qed

text \<open>No nonce is used twice under a pair key: the datagrams the sessions of the owner and of
  the host hand out, each drawing from the reservation its own node acquired, all carry
  different nonces, since the sequences of one node grow and the direction bit separates the two.\<close>

theorem nonces_never_reused:
  assumes "json_laws j" "digest_laws c"
    and "acquire j pa ea = (Inr a, ea')" "acquire j pb eb = (Inr b, eb')"
    and "node_sends c (reserved_next_seq j) Owner (an_seq a, ea') ds qa"
    and "node_sends c (reserved_next_seq j) Host (an_seq b, eb') es qb"
  shows "distinct (map (\<lambda>d. nonce_for (datagram_seq d)) (ds @ es))"
proof -
  have a: "growing Owner (unat (rs_next (an_seq a))) (unat (rs_next (fst qa))) ds"
    using reserved.sends_growing [OF assms(5,2) acquired_ok [OF assms(1,3)]] by simp
  have b: "growing Host (unat (rs_next (an_seq b))) (unat (rs_next (fst qb))) es"
    using reserved.sends_growing [OF assms(6,2) acquired_ok [OF assms(1,4)]] by simp
  show ?thesis by (rule growing_nonces [OF a b])
qed

lemma nonces_never_reused_witness:
  "\<exists>d a e s q. acquire toy_json [] toy_env = (Inr a, e) \<and>
     outgoing toy_crypto (reserved_next_seq toy_json) 100 ex_a1 (an_seq a, e) = Ret (Inr [d], s, q) \<and>
     distinct (map (\<lambda>d. nonce_for (datagram_seq d)) ([d] @ []))"
proof -
  obtain a e q where a: "acquire toy_json [] toy_env = (Inr a, e)"
    and d: "reserved_next_seq toy_json (an_seq a, e) = (Inr 1, q)" using toy_draw by blast
  obtain d s where out: "outgoing toy_crypto (reserved_next_seq toy_json) 100 ex_a1 (an_seq a, e) = Ret (Inr [d], s, q)"
    using ex_sends_from [of "reserved_next_seq toy_json", OF d] by blast
  have "sc_role (se_config ex_a1) = Owner"
    by (simp add: ex_queue ex_owner_def session_config_new_def)
  with node_sends.more [OF node_sends.none ex_a1_ok _ out]
  have "node_sends toy_crypto (reserved_next_seq toy_json) Owner (an_seq a, e) [d] q" by simp
  from nonces_never_reused [OF toy_json_laws toy_digest_laws a a this node_sends.none]
  show ?thesis using a out by blast
qed

text \<open>C29.  Acquiring never replaces an identity it cannot read: a file that does not parse is
  reported and stays what it was, under its name and for a power cut alike; and while one process
  holds the identity every other one is refused and changes nothing.\<close>

theorem identity_never_replaced:
  assumes "dk_name (en_disk e) = Some f" "honest (en_faults e)"
    and "acquire j p e = (r, e') \<or> acquire_or_create j p seed e = (r, e')"
  shows "(from_json j f = None \<longrightarrow> (\<exists>err. r = Inl err) \<and> dk_name (en_disk e') = Some f \<and>
      dk_cut (en_disk e') = dk_cut (en_disk e)) \<and>
    (dk_locked (en_disk e) \<longrightarrow> (\<exists>err. r = Inl err) \<and> en_disk e' = en_disk e)"
  using malformed_kept [OF assms(1) _ assms(2), of j p r e' seed] assms(3) acquire_busy(1) [of e j p r e']
    acquire_busy(2) [of e j p seed r e'] by blast

lemma identity_never_replaced_witness:
  "\<exists>err e'. acquire_or_create toy_json [] toy_state
       (toy_env\<lparr>en_disk := (en_disk toy_env)\<lparr>dk_name := Some (toy_state\<lparr>ns_node_id := NodeId []\<rparr>)\<rparr>\<rparr>) = (Inl err, e') \<and>
     dk_name (en_disk e') = Some (toy_state\<lparr>ns_node_id := NodeId []\<rparr>)"
proof -
  let ?f = "toy_state\<lparr>ns_node_id := NodeId []\<rparr>"
  let ?e = "toy_env\<lparr>en_disk := (en_disk toy_env)\<lparr>dk_name := Some ?f\<rparr>\<rparr>"
  obtain r e' where r: "acquire_or_create toy_json [] toy_state ?e = (r, e')"
    by (cases "acquire_or_create toy_json [] toy_state ?e")
  have none: "from_json toy_json ?f = None" by (simp add: toy_json_def wf_state_def wf_id_def)
  have e: "dk_name (en_disk ?e) = Some ?f" "honest (en_faults ?e)"
    by (simp_all add: honest_def toy_env_def)
  have "(\<exists>err. r = Inl err) \<and> dk_name (en_disk e') = Some ?f"
    using conjunct1 [OF identity_never_replaced [OF e disjI2 [OF r]]] none by blast
  then show ?thesis using r by auto
qed

end
